(* ===== verification/Xy_Prelude.thy ===== *)
theory Xy_Prelude
  imports Main "HOL-Library.Word" "HOL-Library.Monad_Syntax"
begin

text \<open>
  Shared vocabulary of the development: machine-integer and pointer types, the
  generic lemmas on linked structures in a store, faulting reads and writes of a
  store, loops that stop at the first error, and array growth.

  Partiality.  An operation of the library that dereferences pointers or runs
  module code returns an \<open>option\<close>: \<open>None\<close> means that the C program has no defined
  result there (a NULL or dangling pointer is dereferenced, an array is indexed
  out of range, or module code that it called does not return).  Error codes of
  the API are ordinary values and never \<open>None\<close>.
\<close>

unbundle bit_operations_syntax

named_theorems heap_simps \<open>effect of single writes on the stores\<close>
named_theorems frame_simps \<open>what an operation leaves alone\<close>

type_synonym u8 = "8 word"
type_synonym u64 = "64 word"
type_synonym byte = "8 word"
type_synonym addr = nat

section \<open>Linked structures\<close>

text \<open>
  A link function \<open>nx\<close> reads the link field of the object at an address:
  \<open>nx a = None\<close> when nothing is allocated at \<open>a\<close>, \<open>Some None\<close> for a NULL link and
  \<open>Some (Some b)\<close> for a link to \<open>b\<close>.  \<open>linked nx p xs\<close>: following the links from
  \<open>p\<close> visits exactly \<open>xs\<close> and ends at NULL.
\<close>

primrec linked :: "('p \<Rightarrow> 'p option option) \<Rightarrow> 'p option \<Rightarrow> 'p list \<Rightarrow> bool" where
  "linked nx p [] \<longleftrightarrow> p = None"
| "linked nx p (a # as) \<longleftrightarrow> p = Some a \<and> (\<exists>q. nx a = Some q \<and> linked nx q as)"

text \<open>\<open>walk\<close> is the executable traversal with a bound on its length; it fails on a
  dangling link and when the bound is used up.\<close>

primrec walk :: "nat \<Rightarrow> ('p \<Rightarrow> 'p option option) \<Rightarrow> 'p option \<Rightarrow> 'p list option" where
  "walk 0 nx p = (case p of None \<Rightarrow> Some [] | Some a \<Rightarrow> None)"
| "walk (Suc n) nx p = (case p of None \<Rightarrow> Some []
     | Some a \<Rightarrow> (case nx a of None \<Rightarrow> None
         | Some q \<Rightarrow> map_option ((#) a) (walk n nx q)))"

text \<open>\<open>chain_loop\<close> stops without an error after \<open>n\<close> elements, as a loop with an
  \<open>n < cap\<close> guard does.\<close>

primrec chain_loop :: "nat \<Rightarrow> ('p \<Rightarrow> 'p option option) \<Rightarrow> 'p option \<Rightarrow> 'p list option" where
  "chain_loop 0 nx p = Some []"
| "chain_loop (Suc n) nx p = (case p of None \<Rightarrow> Some []
     | Some a \<Rightarrow> (case nx a of None \<Rightarrow> None
         | Some q \<Rightarrow> map_option ((#) a) (chain_loop n nx q)))"

lemma linked_None [simp]: "linked nx None xs \<longleftrightarrow> xs = []"
  by (cases xs) auto

lemma walk_None [simp]: "walk n nx None = Some []"
  by (cases n) auto

lemma linked_walk: "linked nx p xs \<Longrightarrow> length xs \<le> n \<Longrightarrow> walk n nx p = Some xs"
  by (induction xs arbitrary: p n) (auto simp: Suc_le_eq gr0_conv_Suc elim!: less_natE)

lemma walk_linked: "walk n nx p = Some xs \<Longrightarrow> linked nx p xs"
  by (induction n arbitrary: p xs) (auto split: option.splits)

lemma linked_chain_loop: "linked nx p xs \<Longrightarrow> chain_loop n nx p = Some (take n xs)"
  by (induction n arbitrary: p xs) (auto split: option.splits simp: neq_Nil_conv, (case_tac xs; auto)+)

lemma linked_unique: "linked nx p xs \<Longrightarrow> linked nx p ys \<Longrightarrow> xs = ys"
proof (induction xs arbitrary: p ys)
  case (Cons a xs)
  then show ?case by (cases ys) auto
qed auto

lemma linked_append:
  "linked nx p (xs @ ys) \<Longrightarrow> \<exists>q. linked nx q ys"
  by (induction xs arbitrary: p) auto

lemma linked_hd: "linked nx (Some a) xs \<Longrightarrow> \<exists>ys q. xs = a # ys \<and> nx a = Some q \<and> linked nx q ys"
  by (cases xs) auto

lemma linked_distinct: "linked nx p xs \<Longrightarrow> distinct xs"
proof (induction xs arbitrary: p)
  case (Cons a xs)
  then obtain q where q: "p = Some a" "nx a = Some q" "linked nx q xs" by auto
  have "a \<notin> set xs"
  proof
    assume "a \<in> set xs"
    then obtain us vs where split: "xs = us @ a # vs" by (meson split_list)
    with q(3) obtain r where "linked nx r (a # vs)" by (metis linked_append)
    then have "linked nx (Some a) (a # vs)" by auto
    moreover have "linked nx (Some a) (a # xs)" using Cons.prems q(1) by simp
    ultimately have "a # vs = a # xs" by (rule linked_unique)
    with split show False by simp
  qed
  with Cons.IH q(3) show ?case by auto
qed auto

lemma linked_cong: "(\<And>a. a \<in> set xs \<Longrightarrow> nx a = nx' a) \<Longrightarrow> linked nx p xs = linked nx' p xs"
  by (induction xs arbitrary: p) auto

lemma linked_live: "linked nx p xs \<Longrightarrow> a \<in> set xs \<Longrightarrow> nx a \<noteq> None"
  by (induction xs arbitrary: p) auto

lemma linked_last: "linked nx p (xs @ [a]) \<Longrightarrow> nx a = Some None"
  by (induction xs arbitrary: p) auto

lemma linked_mid: "linked nx p (us @ a # b # vs) \<Longrightarrow> nx a = Some (Some b)"
  by (induction us arbitrary: p) auto

lemma linked_start: "linked nx p xs \<Longrightarrow> p = (if xs = [] then None else Some (hd xs))"
  by (cases xs) auto

text \<open>Removing and inserting one element of a chain: the two facts behind the
  doubly-linked lists, each used once per direction.\<close>

lemma linked_unlink_head: "linked nx p (x # bs) \<Longrightarrow> \<exists>q. nx x = Some q \<and> linked nx q bs"
  by auto

lemma linked_unlink:
  assumes "linked nx p (as @ y # x # bs)" and "nx x = Some q"
  shows "linked (nx(y := Some q)) p (as @ y # bs)"
proof -
  from assms(1) have d: "distinct (as @ y # x # bs)" by (rule linked_distinct)
  show ?thesis using assms(1) d
  proof (induction as arbitrary: p)
    case Nil
    then have "linked nx q bs" using assms(2) by auto
    moreover have "linked (nx(y := Some q)) q bs = linked nx q bs"
      by (rule linked_cong) (use Nil.prems(2) in auto)
    ultimately show ?case using Nil.prems(1) by (auto simp del: fun_upd_apply simp: fun_upd_same)
  next
    case (Cons a as)
    then show ?case by auto
  qed
qed

lemma linked_link:
  assumes "linked nx p (as @ y # bs)" and "x \<notin> set (as @ y # bs)" and "nx y = Some q"
  shows "linked (nx(y := Some (Some x), x := Some q)) p (as @ y # x # bs)"
proof -
  from assms(1) have d: "distinct (as @ y # bs)" by (rule linked_distinct)
  show ?thesis using assms(1,2) d
  proof (induction as arbitrary: p)
    case Nil
    then have "linked nx q bs" using assms(3) by auto
    moreover have "linked (nx(y := Some (Some x), x := Some q)) q bs = linked nx q bs"
      by (rule linked_cong) (use Nil.prems(2,3) in auto)
    moreover have "(nx(y := Some (Some x), x := Some q)) y = Some (Some x)"
      using Nil.prems(2) by auto
    ultimately show ?case using Nil.prems by (auto simp del: fun_upd_apply simp: fun_upd_same)
  next
    case (Cons a as)
    then show ?case by auto
  qed
qed

lemma linked_link_head:
  assumes "linked nx p bs" and "x \<notin> set bs"
  shows "linked (nx(x := Some p)) (Some x) (x # bs)"
proof -
  have "linked (nx(x := Some p)) p bs = linked nx p bs"
    by (rule linked_cong) (use assms(2) in auto)
  with assms(1) show ?thesis by simp
qed

lemma distinct_bounded_length:
  fixes xs :: "nat list"
  assumes "distinct xs" and "\<And>x. x \<in> set xs \<Longrightarrow> x < n"
  shows "length xs \<le> n"
proof -
  have "card (set xs) \<le> card {..<n}"
    by (rule card_mono) (use assms(2) in auto)
  with assms(1) show ?thesis by (simp add: distinct_card)
qed

lemma linked_bounded_walk:
  fixes xs :: "nat list"
  assumes "linked nx p xs" and "\<And>x. nx x \<noteq> None \<Longrightarrow> x < n"
  shows "walk n nx p = Some xs"
proof -
  have "length xs \<le> n"
    using linked_distinct [OF assms(1)] assms(2) linked_live [OF assms(1)]
    by (intro distinct_bounded_length) auto
  with assms(1) show ?thesis by (rule linked_walk)
qed

section \<open>Stores\<close>

text \<open>\<open>heap_upd\<close> rewrites the object at an address and does nothing where nothing is
  allocated (loops use it on addresses they have just dereferenced).\<close>

definition heap_upd :: "('p \<rightharpoonup> 'a) \<Rightarrow> 'p \<Rightarrow> ('a \<Rightarrow> 'a) \<Rightarrow> ('p \<rightharpoonup> 'a)" where
  "heap_upd h p f = (case h p of None \<Rightarrow> h | Some e \<Rightarrow> h(p \<mapsto> f e))"

lemma heap_upd_apply [heap_simps]:
  "heap_upd h p f q = (if q = p then map_option f (h q) else h q)"
  by (auto simp: heap_upd_def split: option.splits)

lemma fold_heap_upd:
  "distinct ps \<Longrightarrow> fold (\<lambda>p h. heap_upd h p f) ps h q
     = (if q \<in> set ps then map_option f (h q) else h q)"
  by (induction ps arbitrary: h) (auto simp: heap_upd_apply)

section \<open>Loops that stop at the first error\<close>

text \<open>\<open>for_each body xs s\<close>: run the body for each element; a negative result stops
  the loop and is its result.\<close>

primrec for_each :: "('a \<Rightarrow> 's \<Rightarrow> (int \<times> 's) option) \<Rightarrow> 'a list \<Rightarrow> 's \<Rightarrow> (int \<times> 's) option" where
  "for_each body [] s = Some (0, s)"
| "for_each body (x # xs) s = (case body x s of None \<Rightarrow> None
     | Some (r, s') \<Rightarrow> if r < 0 then Some (r, s') else for_each body xs s')"

section \<open>Arrays\<close>

text \<open>An array with a capacity is a list of that length; \<open>nth_opt\<close> is a read that
  fails out of range and \<open>grow\<close> a \<open>realloc\<close> that fills the new cells.\<close>

definition nth_opt :: "'a list \<Rightarrow> int \<Rightarrow> 'a option" where
  "nth_opt xs i = (if 0 \<le> i \<and> i < int (length xs) then Some (xs ! nat i) else None)"

definition upd_opt :: "'a list \<Rightarrow> int \<Rightarrow> 'a \<Rightarrow> 'a list option" where
  "upd_opt xs i v = (if 0 \<le> i \<and> i < int (length xs) then Some (xs[nat i := v]) else None)"

definition grow :: "nat \<Rightarrow> 'a \<Rightarrow> 'a list \<Rightarrow> 'a list" where
  "grow n v xs = xs @ replicate (n - length xs) v"

lemma length_grow [simp]: "length (grow n v xs) = max n (length xs)"
  by (simp add: grow_def)

lemma nth_grow: "i < max n (length xs) \<Longrightarrow> grow n v xs ! i = (if i < length xs then xs ! i else v)"
  by (auto simp: grow_def nth_append)

lemma nth_opt_Some_iff: "nth_opt xs i = Some x \<longleftrightarrow> 0 \<le> i \<and> nat i < length xs \<and> xs ! nat i = x"
  by (auto simp: nth_opt_def nat_less_iff)

lemma upd_opt_Some_iff:
  "upd_opt xs i v = Some ys \<longleftrightarrow> 0 \<le> i \<and> nat i < length xs \<and> ys = xs[nat i := v]"
  by (auto simp: upd_opt_def nat_less_iff)

end
