(* ===== verification/Xy_Qmap.thy ===== *)
theory Xy_Qmap
  imports Xy_Prelude "HOL-Library.AList"
begin

text \<open>
  The interface to libqmap, the hash-map library all tables of libxylem are kept in.
  Its code is not part of this repository, so a map operation is a parameter of the
  model: \<open>'q\<close> is the content of a map handle and a \<open>'q qmap_ops\<close> holds the calls the
  sources make.  The handles of the sources (\<open>unsigned\<close>, 0 when closed) become
  \<open>'q option\<close>; no handle is stored in two places, so the content stands for it.

  \<open>qmap_laws\<close> is what the sources rely on for handles opened without QM_MULTIVALUE: a
  get after a put or a delete, an empty map after an open, and an iteration that
  visits each stored pair once, in an order that is not specified.  Nothing is
  assumed about handles opened with QM_MULTIVALUE (\<open>mod_by_region_hd\<close>).
  \<open>alist_qmap\<close> is a concrete instance; the witnesses of the properties run on it.
\<close>

text \<open>Keys and values as the sources store them: NUL-terminated names (QM_STR), region
  ids, pointers, and the module keys measured by \<open>mod_key_measure\<close>.\<close>

datatype qkey = KStr string | KId u64 | KPtr addr | KBlob string
datatype qval = VPtr addr | VInt int

record 'q qmap_ops =
  qmap_open :: 'q
  qmap_get :: "'q \<Rightarrow> qkey \<Rightarrow> qval option"
  qmap_put :: "'q \<Rightarrow> qkey \<Rightarrow> qval \<Rightarrow> 'q"
  qmap_del :: "'q \<Rightarrow> qkey \<Rightarrow> 'q"
  qmap_iter :: "'q \<Rightarrow> (qkey \<times> qval) list"
  \<comment> \<open>the same calls on a QM_MULTIVALUE handle\<close>
  mmap_open :: 'q
  mmap_put :: "'q \<Rightarrow> qkey \<Rightarrow> qval \<Rightarrow> 'q"
  mmap_del :: "'q \<Rightarrow> qkey \<Rightarrow> 'q"
  mmap_del_all :: "'q \<Rightarrow> qkey \<Rightarrow> 'q"
  mmap_iter :: "'q \<Rightarrow> qkey \<Rightarrow> qval list"

definition qmap_laws :: "'q qmap_ops \<Rightarrow> bool" where
  "qmap_laws Q \<longleftrightarrow>
     (\<forall>k. qmap_get Q (qmap_open Q) k = None) \<and>
     (\<forall>h k v k'. qmap_get Q (qmap_put Q h k v) k' = (if k' = k then Some v else qmap_get Q h k')) \<and>
     (\<forall>h k k'. qmap_get Q (qmap_del Q h k) k' = (if k' = k then None else qmap_get Q h k')) \<and>
     (\<forall>h k v. (k, v) \<in> set (qmap_iter Q h) \<longleftrightarrow> qmap_get Q h k = Some v) \<and>
     (\<forall>h. distinct (map fst (qmap_iter Q h)))"

lemma qmap_get_open: "qmap_laws Q \<Longrightarrow> qmap_get Q (qmap_open Q) k = None"
  and qmap_get_put: "qmap_laws Q \<Longrightarrow>
    qmap_get Q (qmap_put Q h k v) k' = (if k' = k then Some v else qmap_get Q h k')"
  and qmap_get_del: "qmap_laws Q \<Longrightarrow>
    qmap_get Q (qmap_del Q h k) k' = (if k' = k then None else qmap_get Q h k')"
  and qmap_iter_get: "qmap_laws Q \<Longrightarrow> (k, v) \<in> set (qmap_iter Q h) \<longleftrightarrow> qmap_get Q h k = Some v"
  and qmap_iter_distinct: "qmap_laws Q \<Longrightarrow> distinct (map fst (qmap_iter Q h))"
  by (simp_all add: qmap_laws_def)

lemmas qmap_simps = qmap_get_open qmap_get_put qmap_get_del qmap_iter_get

section \<open>A concrete instance\<close>

definition alist_qmap :: "(qkey \<times> qval) list qmap_ops" where
  "alist_qmap = \<lparr>
     qmap_open = [],
     qmap_get = map_of,
     qmap_put = (\<lambda>h k v. AList.update k v h),
     qmap_del = (\<lambda>h k. AList.delete k h),
     qmap_iter = AList.clearjunk,
     mmap_open = [],
     mmap_put = (\<lambda>h k v. h @ [(k, v)]),
     mmap_del = (\<lambda>h k. AList.delete k h),
     mmap_del_all = (\<lambda>h k. AList.delete k h),
     mmap_iter = (\<lambda>h k. map snd (filter (\<lambda>kv. fst kv = k) h)) \<rparr>"

lemma alist_qmap_sel [simp]:
  "qmap_open alist_qmap = []"
  "qmap_get alist_qmap = map_of"
  "qmap_put alist_qmap h k v = AList.update k v h"
  "qmap_del alist_qmap h k = AList.delete k h"
  "qmap_iter alist_qmap = AList.clearjunk"
  "mmap_open alist_qmap = []"
  "mmap_put alist_qmap h k v = h @ [(k, v)]"
  "mmap_del alist_qmap h k = AList.delete k h"
  "mmap_del_all alist_qmap h k = AList.delete k h"
  "mmap_iter alist_qmap h k = map snd (filter (\<lambda>kv. fst kv = k) h)"
  by (simp_all add: alist_qmap_def)

lemma alist_qmap_laws: "qmap_laws alist_qmap"
proof -
  have "(k, v) \<in> set (AList.clearjunk h) \<longleftrightarrow> map_of h k = Some v"
    for k v and h :: "(qkey \<times> qval) list"
    by (metis distinct_clearjunk map_of_clearjunk map_of_eq_Some_iff)
  then show ?thesis
    by (simp add: qmap_laws_def update_conv' delete_conv' distinct_clearjunk)
qed

end
