(* ===== verification/Xy_Qmap_Tree.thy ===== *)
theory Xy_Qmap_Tree
  imports Xy_Qmap "HOL-Library.RBT" "HOL-Library.List_Lexorder"
begin

text \<open>
  The laws of the maps leave the order of iteration open.  Here they are met by balanced search
  trees, which iterate in the order of the keys, as association lists do in the order of the
  updates; and any two implementations answer every run of updates alike.
\<close>

section \<open>An order on keys\<close>

fun qkey_code :: "qkey \<Rightarrow> nat list" where
  "qkey_code (KStr n) = 0 # map of_char n"
| "qkey_code (KId i) = [1, unat i]"
| "qkey_code (KPtr p) = [2, p]"
| "qkey_code (KBlob b) = 3 # map of_char b"

lemma qkey_code_inject: "qkey_code k = qkey_code k' \<longleftrightarrow> k = k'"
proof -
  have "map of_char a = (map of_char b :: nat list) \<longleftrightarrow> a = b" for a b :: string
    by (rule inj_map_eq_map) (simp add: inj_def)
  then show ?thesis by (cases k; cases k') (simp_all add: word_unat_eq_iff)
qed

instantiation qkey :: linorder
begin

definition less_eq_qkey :: "qkey \<Rightarrow> qkey \<Rightarrow> bool" where
  "k \<le> k' \<longleftrightarrow> qkey_code k \<le> qkey_code k'"

definition less_qkey :: "qkey \<Rightarrow> qkey \<Rightarrow> bool" where
  "k < k' \<longleftrightarrow> qkey_code k < qkey_code k'"

instance
proof
  fix x y z :: qkey
  show "x < y \<longleftrightarrow> x \<le> y \<and> \<not> y \<le> x" by (auto simp: less_eq_qkey_def less_qkey_def)
  show "x \<le> x" by (simp add: less_eq_qkey_def)
  show "x \<le> y \<Longrightarrow> y \<le> z \<Longrightarrow> x \<le> z" by (simp add: less_eq_qkey_def)
  show "x \<le> y \<Longrightarrow> y \<le> x \<Longrightarrow> x = y" using qkey_code_inject by (auto simp: less_eq_qkey_def)
  show "x \<le> y \<or> y \<le> x" by (auto simp: less_eq_qkey_def)
qed

end

section \<open>Maps as trees\<close>

text \<open>A handle holds a list of values per key, of which a plain map uses the first.\<close>

type_synonym qtree = "(qkey, qval list) rbt"

definition tree_values :: "qtree \<Rightarrow> qkey \<Rightarrow> qval list" where
  "tree_values h k = (case RBT.lookup h k of None \<Rightarrow> [] | Some vs \<Rightarrow> vs)"

definition tree_qmap :: "qtree qmap_ops" where
  "tree_qmap = \<lparr>
     qmap_open = RBT.empty,
     qmap_get = (\<lambda>h k. case tree_values h k of [] \<Rightarrow> None | v # vs \<Rightarrow> Some v),
     qmap_put = (\<lambda>h k v. RBT.insert k [v] h),
     qmap_del = (\<lambda>h k. RBT.delete k h),
     qmap_iter = (\<lambda>h. [(k, hd vs). (k, vs) \<leftarrow> RBT.entries h, vs \<noteq> []]),
     mmap_open = RBT.empty,
     mmap_put = (\<lambda>h k v. RBT.insert k (tree_values h k @ [v]) h),
     mmap_del = (\<lambda>h k. RBT.insert k (drop 1 (tree_values h k)) h),
     mmap_del_all = (\<lambda>h k. RBT.delete k h),
     mmap_iter = tree_values \<rparr>"

lemma filter_entries: "[(k, f v). (k, v) \<leftarrow> xs, P v] = map (\<lambda>(k, v). (k, f v)) (filter (\<lambda>(k, v). P v) xs)"
  by (induction xs) auto

lemma tree_qmap_iter: "qmap_iter tree_qmap h = map (\<lambda>(k, vs). (k, hd vs)) (filter (\<lambda>(k, vs). vs \<noteq> []) (RBT.entries h))"
  by (simp add: tree_qmap_def filter_entries)

text \<open>The iteration goes through the keys in ascending order.\<close>

lemma tree_qmap_sorted: "sorted (map fst (qmap_iter tree_qmap h))"
proof -
  have "map fst (qmap_iter tree_qmap h) = map fst (filter (\<lambda>(k, vs). vs \<noteq> []) (RBT.entries h))"
    by (simp add: tree_qmap_iter comp_def case_prod_unfold)
  then show ?thesis by (simp add: sorted_filter RBT.sorted_entries)
qed

lemma tree_qmap_laws: "qmap_laws tree_qmap"
proof -
  have get: "qmap_get tree_qmap h k = Some v \<longleftrightarrow> (\<exists>vs. RBT.lookup h k = Some (v # vs))" for h k v
    by (auto simp: tree_qmap_def tree_values_def split: option.splits list.splits)
  have "(k, v) \<in> set (qmap_iter tree_qmap h) \<longleftrightarrow> qmap_get tree_qmap h k = Some v" for h k v
  proof -
    have "(k, v) \<in> set (qmap_iter tree_qmap h) \<longleftrightarrow> (\<exists>vs. (k, vs) \<in> set (RBT.entries h) \<and> vs \<noteq> [] \<and> v = hd vs)"
      by (auto simp: tree_qmap_iter)
    also have "\<dots> \<longleftrightarrow> (\<exists>vs. RBT.lookup h k = Some vs \<and> vs \<noteq> [] \<and> v = hd vs)" by (simp add: RBT.lookup_in_tree)
    also have "\<dots> \<longleftrightarrow> (\<exists>vs. RBT.lookup h k = Some (v # vs))" by (metis list.collapse list.distinct(1) list.sel(1))
    finally show ?thesis unfolding get .
  qed
  moreover have "distinct (map fst (qmap_iter tree_qmap h))" for h
  proof -
    have "map fst (qmap_iter tree_qmap h) = map fst (filter (\<lambda>(k, vs). vs \<noteq> []) (RBT.entries h))"
      by (simp add: tree_qmap_iter comp_def case_prod_unfold)
    then show ?thesis by (simp add: distinct_map_filter RBT.distinct_entries)
  qed
  ultimately show ?thesis by (simp add: qmap_laws_def) (simp add: tree_qmap_def tree_values_def)
qed

section \<open>All maps answer alike\<close>

datatype qmap_update = Put qkey qval | Del qkey

fun updated :: "'q qmap_ops \<Rightarrow> qmap_update list \<Rightarrow> 'q" where
  "updated Q [] = qmap_open Q"
| "updated Q (Put k v # us) = qmap_put Q (updated Q us) k v"
| "updated Q (Del k # us) = qmap_del Q (updated Q us) k"

lemma maps_answer_alike:
  assumes "qmap_laws Q" and "qmap_laws Q'"
  shows "qmap_get Q (updated Q us) = qmap_get Q' (updated Q' us)"
    and "set (qmap_iter Q (updated Q us)) = set (qmap_iter Q' (updated Q' us))"
proof -
  show get: "qmap_get Q (updated Q us) = qmap_get Q' (updated Q' us)"
  proof (induction us)
    case (Cons u us)
    then show ?case by (cases u) (simp_all add: fun_eq_iff qmap_simps [OF assms(1)] qmap_simps [OF assms(2)])
  qed (simp add: fun_eq_iff qmap_simps [OF assms(1)] qmap_simps [OF assms(2)])
  show "set (qmap_iter Q (updated Q us)) = set (qmap_iter Q' (updated Q' us))"
    by (auto simp: qmap_simps [OF assms(1)] qmap_simps [OF assms(2)] get)
qed

end
