(* ===== verification/Xy_State.thy ===== *)
theory Xy_State
  imports Xy_Qmap
begin

text \<open>
  The data of the library (include/ttypt/xy.h, src/papi.h, src/libxylem-internal.h)
  and its state: the structs as records, the objects that C reaches through pointers
  in stores from addresses, the globals of \<open>xy_rt\<close> and \<open>xy\<close>, and the thread-local
  variables of the one thread that is modelled.  A NULL pointer is \<open>None\<close>; a pair of
  an array pointer and its capacity is a list of that length.
\<close>

section \<open>Error codes\<close>

definition XY_OK :: int where "XY_OK = 0"
definition XY_ERR_NOTFOUND :: int where "XY_ERR_NOTFOUND = - 1"
definition XY_ERR_INVALID :: int where "XY_ERR_INVALID = - 2"
definition XY_ERR_TOOBIG :: int where "XY_ERR_TOOBIG = - 3"
definition XY_ERR_INIT :: int where "XY_ERR_INIT = - 4"
definition XY_ERR_EPERM :: int where "XY_ERR_EPERM = - 5"

lemmas xy_codes = XY_OK_def XY_ERR_NOTFOUND_def XY_ERR_INVALID_def XY_ERR_TOOBIG_def
  XY_ERR_INIT_def XY_ERR_EPERM_def

definition xy_strerror :: "int \<Rightarrow> string" where
  "xy_strerror err =
    (if err = XY_OK then ''success''
     else if err = XY_ERR_NOTFOUND then ''not found''
     else if err = XY_ERR_INVALID then ''invalid argument''
     else if err = XY_ERR_TOOBIG then ''return type too large''
     else if err = XY_ERR_INIT then ''initialization failed''
     else if err = XY_ERR_EPERM then ''operation not permitted''
     else ''unknown error'')"

text \<open>Constants of the headers.\<close>

definition XY_MAX_RET_SIZE :: nat where "XY_MAX_RET_SIZE = 4096"
definition XY_REGION_ROOT :: u64 where "XY_REGION_ROOT = 0"
definition XY_REGION_INVALID :: u64 where "XY_REGION_INVALID = - 1"
definition XY_SUBTREE_HAS_DENY :: u8 where "XY_SUBTREE_HAS_DENY = 1"
definition XY_INVALID :: int where "XY_INVALID = 2 ^ 32 - 1"

datatype xy_deny_type = XY_DENY_HOOK | XY_DENY_MODULE

text \<open>Code and data addresses of loaded objects are 64-bit values: 0 is NULL, 1 the
  marker \<open>XY_FN_NOT_FOUND\<close>, and all ones \<open>XY_FN_RESOLVE_OOM\<close>.\<close>

type_synonym code = u64

definition XY_FN_NOT_FOUND :: code where "XY_FN_NOT_FOUND = 1"
definition XY_FN_RESOLVE_OOM :: code where "XY_FN_RESOLVE_OOM = - 1"

section \<open>Structs\<close>

type_synonym rptr = addr  \<comment> \<open>\<open>xy_region_entry_t *\<close>\<close>
type_synonym mptr = addr  \<comment> \<open>\<open>xy_mod_entry_t *\<close>\<close>
type_synonym cptr = addr  \<comment> \<open>\<open>xy_t *\<close> of a module\<close>
type_synonym aptr = addr  \<comment> \<open>\<open>xy_adapter_t *\<close>\<close>
type_synonym sptr = addr  \<comment> \<open>interned \<open>char *\<close>\<close>
type_synonym dlhandle = nat  \<comment> \<open>result of \<open>dlopen\<close>\<close>

record xy_adapter =
  ad_name :: string
  arg_size :: nat
  ret_size :: nat
  ad_call :: code
  ad_hook_id :: int

record xy_dispatch_slot =
  slot_me :: "mptr option"
  slot_cb :: code

text \<open>\<open>slots_buf\<close> is the identity of the array (0 when NULL), \<open>slots\<close> all its cells, so
  that its length is the capacity; only the first \<open>hd_count\<close> are in use.\<close>

record xy_hook_dispatch_cache =
  slots_buf :: addr
  slots :: "xy_dispatch_slot list"
  hd_count :: nat
  region_gen :: u64

text \<open>\<open>subtree_mods\<close> is the used part of the array (its length is the count).\<close>

record 'q xy_region_entry =
  re_id :: u64
  re_depth :: u8
  re_plen :: u8
  re_child_bits :: u8
  re_owner_path :: "string option"
  denied_hooks :: "string list"
  denied_modules :: "sptr list"
  denied_hooks_set :: "'q option"
  denied_modules_set :: "'q option"
  subtree_flags :: u8
  dispatch_gen :: u64
  claim_handler :: code
  claim_handler_ud :: addr
  require_claim :: bool
  re_parent :: "rptr option"
  children_head :: "rptr option"
  sibling_next :: "rptr option"
  mods_head :: "mptr option"
  mods_tail :: "mptr option"
  subtree_mods :: "mptr list"
  subtree_mods_cap :: nat
  subtree_mods_dirty :: bool
  hook_dispatch :: "xy_hook_dispatch_cache list"

record xy_mod_entry =
  me_ctx :: "cptr option"
  region_next :: "mptr option"
  fn_cache :: "code list"
  region_state :: "addr option"
  load_path :: "sptr option"
  me_handle :: "dlhandle option"
  region_entry :: "rptr option"
  me_region_id :: u64
  region_prev :: "mptr option"
  refcount :: int
  parent_entry :: "mptr option"
  hook_impl_bits :: "u64 list"
  me_mod_key :: string
  tmp_load_path :: "string option"

text \<open>A module's \<open>xy_t\<close>: its members, the functions of the host that a function pointer can have, and
  the struct as the host fills it.  \<open>ctx_api\<close> is the pointer in each member of a function type,
  \<open>None\<close> for NULL.\<close>

datatype ctx_field = FCall | FAreg | FLoad | FErr | FStrerror | FAdapter | FLast | FShutdown | FModulePath
  | FRegionId | FDeny | FRequireClaim | FRegionEach | FWithRegion | FCurrentRegion | FUnload | FReload | FRegionState

datatype host_fn = H_xy_call | H_xy_areg | H_xy_load | H_xy_errno | H_xy_strerror | H_xy_last | H_xy_shutdown
  | H_xy_deny | H_xy_require_claim | H_xy_region_each | H_xy_with_region | H_xy_current_region
  | H_xy_unload | H_xy_reload

record xy_ctx =
  ctx_api :: "ctx_field \<Rightarrow> host_fn option"
  ctx_adapter :: "aptr option"
  ctx_module_path :: "string option"
  ctx_region_id :: u64
  ctx_region_state :: "addr option"

text \<open>Where \<open>xy_last_retp\<close> points: nowhere, into the buffer of some caller, or at
  \<open>xy_last_retbuf\<close>.\<close>

datatype retref = RNull | RCaller | RBuf

section \<open>The state\<close>

record 'q xy_state =
  regions :: "rptr \<Rightarrow> 'q xy_region_entry option"
  mods :: "mptr \<Rightarrow> xy_mod_entry option"
  ctxs :: "cptr \<Rightarrow> xy_ctx option"
  adapters :: "aptr \<Rightarrow> xy_adapter option"
  strs :: "sptr \<Rightarrow> string option"
  states :: "addr \<Rightarrow> byte list option"  \<comment> \<open>the region-state blocks\<close>
  next_addr :: addr  \<comment> \<open>the allocator: every allocated address is below it\<close>
  \<comment> \<open>\<open>xy_rt\<close>\<close>
  mod_hd :: "'q option"
  mod_by_region_hd :: "'q option"
  sica_hd :: "'q option"
  path_intern_hd :: "'q option"
  region_hd :: "'q option"
  hook_id_hd :: "'q option"
  xy_hook_id_counter :: int
  xy_adapter_by_id :: "aptr option list"
  xy_inited :: bool
  xy_mod_count :: int
  \<comment> \<open>\<open>xy.adapter\<close>: the adapter of the last dispatch\<close>
  cur_adapter :: "aptr option"
  \<comment> \<open>globals and thread-local variables of libxylem.c\<close>
  xy_err_val :: int
  xy_reloading :: bool
  xy_last_ran :: nat
  xy_last_retbuf :: "byte list"
  xy_last_retp :: retref
  xy_current_region_id :: u64
  xy_current_region_entry :: "rptr option"
  xy_loading_mod :: "mptr option"
  xy_pending_ctx :: "cptr option"

text \<open>The state before the first call: static storage, every handle closed.\<close>

definition xy_boot :: "'q xy_state" where
  "xy_boot = \<lparr>
     regions = (\<lambda>_. None), mods = (\<lambda>_. None), ctxs = (\<lambda>_. None), adapters = (\<lambda>_. None),
     strs = (\<lambda>_. None), states = (\<lambda>_. None), next_addr = 1,
     mod_hd = None, mod_by_region_hd = None, sica_hd = None, path_intern_hd = None,
     region_hd = None, hook_id_hd = None, xy_hook_id_counter = 0, xy_adapter_by_id = [],
     xy_inited = False, xy_mod_count = 0, cur_adapter = None, xy_err_val = 0,
     xy_reloading = False, xy_last_ran = 0, xy_last_retbuf = replicate XY_MAX_RET_SIZE 0,
     xy_last_retp = RNull, xy_current_region_id = XY_REGION_ROOT,
     xy_current_region_entry = None, xy_loading_mod = None, xy_pending_ctx = None \<rparr>"

section \<open>What the sources call and do not define\<close>

text \<open>
  The requests to the allocator, and the environment: the allocator's verdict, the file
  system and dynamic loader (\<open>realpath\<close>, \<open>dlopen\<close>, \<open>dlsym\<close>, \<open>dladdr\<close>), and module code,
  which may do anything to the state that is possible through the API.
\<close>

datatype alloc_req = AllocBytes nat | AllocRegion | AllocMod | AllocDeny | AllocStr nat
  | AllocSlots nat | AllocCaches nat

record 'q env =
  e_malloc :: "'q xy_state \<Rightarrow> alloc_req \<Rightarrow> bool"
  e_realpath :: "string \<Rightarrow> string option"
  e_dlopen :: "string \<Rightarrow> 'q xy_state \<Rightarrow> (dlhandle option \<times> 'q xy_state) option"
    \<comment> \<open>runs the constructors of a newly mapped object\<close>
  e_copy_tmp :: "string \<Rightarrow> 'q xy_state \<Rightarrow> string option"  \<comment> \<open>\<open>copy_to_tmp\<close>\<close>
  e_dlsym :: "dlhandle \<Rightarrow> string \<Rightarrow> code"
  e_base :: "code \<Rightarrow> addr option"  \<comment> \<open>\<open>dladdr\<close>: the object an address lies in\<close>
  e_call :: "code \<Rightarrow> byte list option \<Rightarrow> code \<Rightarrow> addr \<Rightarrow> 'q xy_state
    \<Rightarrow> (byte list option \<times> 'q xy_state) option"
    \<comment> \<open>\<open>reg->call(retp, cb, arg)\<close>: the callback's run through its adapter\<close>
  e_handler :: "code \<Rightarrow> string \<Rightarrow> u8 \<Rightarrow> addr \<Rightarrow> 'q xy_state \<Rightarrow> ((int \<times> u8) \<times> 'q xy_state) option"
    \<comment> \<open>a claim handler: result and granted bits\<close>
  e_void :: "code \<Rightarrow> 'q xy_state \<Rightarrow> 'q xy_state option"  \<comment> \<open>\<open>xy_install\<close>\<close>
  e_size :: "code \<Rightarrow> nat"  \<comment> \<open>\<open>xy_region_state_size\<close>\<close>
  e_cleanup :: "code \<Rightarrow> addr \<Rightarrow> 'q xy_state \<Rightarrow> 'q xy_state option"  \<comment> \<open>\<open>xy_region_cleanup\<close>\<close>
  e_ctx :: "code \<Rightarrow> cptr option"  \<comment> \<open>\<open>get_xy_ptr\<close>\<close>
  e_claim_sym :: "code \<Rightarrow> u8"  \<comment> \<open>the byte at the symbol \<open>xy_claim\<close>\<close>

section \<open>Reads and writes\<close>

definition upd_region :: "rptr \<Rightarrow> ('q xy_region_entry \<Rightarrow> 'q xy_region_entry) \<Rightarrow> 'q xy_state
    \<Rightarrow> 'q xy_state option" where
  "upd_region p f s = (case regions s p of None \<Rightarrow> None
     | Some e \<Rightarrow> Some (s\<lparr>regions := (regions s)(p \<mapsto> f e)\<rparr>))"

definition upd_mod :: "mptr \<Rightarrow> (xy_mod_entry \<Rightarrow> xy_mod_entry) \<Rightarrow> 'q xy_state
    \<Rightarrow> 'q xy_state option" where
  "upd_mod p f s = (case mods s p of None \<Rightarrow> None
     | Some e \<Rightarrow> Some (s\<lparr>mods := (mods s)(p \<mapsto> f e)\<rparr>))"

definition upd_ctx :: "cptr \<Rightarrow> (xy_ctx \<Rightarrow> xy_ctx) \<Rightarrow> 'q xy_state \<Rightarrow> 'q xy_state option" where
  "upd_ctx p f s = (case ctxs s p of None \<Rightarrow> None
     | Some e \<Rightarrow> Some (s\<lparr>ctxs := (ctxs s)(p \<mapsto> f e)\<rparr>))"

lemma upd_region_Some [heap_simps]:
  "regions s p = Some e \<Longrightarrow> upd_region p f s = Some (s\<lparr>regions := (regions s)(p \<mapsto> f e)\<rparr>)"
  by (simp add: upd_region_def)

lemma upd_mod_Some [heap_simps]:
  "mods s p = Some e \<Longrightarrow> upd_mod p f s = Some (s\<lparr>mods := (mods s)(p \<mapsto> f e)\<rparr>)"
  by (simp add: upd_mod_def)

lemma upd_ctx_Some [heap_simps]:
  "ctxs s p = Some e \<Longrightarrow> upd_ctx p f s = Some (s\<lparr>ctxs := (ctxs s)(p \<mapsto> f e)\<rparr>)"
  by (simp add: upd_ctx_def)

text \<open>The links of the intrusive structures, as link functions.\<close>

definition region_parent :: "'q xy_state \<Rightarrow> rptr \<Rightarrow> rptr option option" where
  "region_parent s p = map_option re_parent (regions s p)"

definition region_sibling :: "'q xy_state \<Rightarrow> rptr \<Rightarrow> rptr option option" where
  "region_sibling s p = map_option sibling_next (regions s p)"

definition mod_next :: "'q xy_state \<Rightarrow> mptr \<Rightarrow> mptr option option" where
  "mod_next s m = map_option region_next (mods s m)"

definition mod_prev :: "'q xy_state \<Rightarrow> mptr \<Rightarrow> mptr option option" where
  "mod_prev s m = map_option region_prev (mods s m)"

definition mod_region :: "'q xy_state \<Rightarrow> mptr \<Rightarrow> rptr option option" where
  "mod_region s m = map_option region_entry (mods s m)"

lemmas link_defs = region_parent_def region_sibling_def mod_next_def mod_prev_def mod_region_def

text \<open>\<open>XY_SET_ERR\<close>, \<open>xy_errno\<close> and \<open>set_current_region\<close>.\<close>

definition xy_set_err :: "int \<Rightarrow> 'q xy_state \<Rightarrow> 'q xy_state" where
  "xy_set_err e s = s\<lparr>xy_err_val := e\<rparr>"

definition xy_errno :: "'q xy_state \<Rightarrow> int" where
  "xy_errno s = xy_err_val s"

definition fail_with :: "int \<Rightarrow> 'q xy_state \<Rightarrow> int \<times> 'q xy_state" where
  "fail_with e s = (e, xy_set_err e s)"

definition set_current_region :: "u64 \<Rightarrow> rptr option \<Rightarrow> 'q xy_state \<Rightarrow> 'q xy_state" where
  "set_current_region rid entry s
     = s\<lparr>xy_current_region_id := rid, xy_current_region_entry := entry\<rparr>"

text \<open>\<open>qmap_ptr\<close>: the pointer stored as a value, NULL when the lookup failed.\<close>

definition qmap_ptr :: "qval option \<Rightarrow> addr option" where
  "qmap_ptr v = (case v of Some (VPtr p) \<Rightarrow> Some p | _ \<Rightarrow> None)"

lemma qmap_ptr_simps [simp]:
  "qmap_ptr None = None" "qmap_ptr (Some (VPtr p)) = Some p"
  by (simp_all add: qmap_ptr_def)

end
