(* ===== verification/Xy_Region.thy ===== *)
theory Xy_Region
  imports Xy_State
begin

text \<open>
  Regions (src/libxylem.c, lines 170-375): the tree of \<open>xy_region_entry_t\<close> objects
  linked by \<open>parent\<close>, \<open>children_head\<close> and \<open>sibling_next\<close>, the upward loops that set a
  flag, bump the dispatch generation or mark the module cache dirty, the bounded
  ancestor chain, and the depth-first collection of a subtree's modules.

  The C loops over a chain become \<open>walk\<close> with the bound \<open>next_addr\<close>; under the
  invariant \<open>wf_tree\<close> the bound is never reached, because an acyclic chain visits
  distinct allocated addresses.  The recursion of \<open>region_collect_subtree_mods\<close> gets
  65 levels, enough because the prefix length grows at every level and is at most 64.
\<close>

section \<open>Operations\<close>

definition region_lookup :: "'q qmap_ops \<Rightarrow> u64 \<Rightarrow> 'q xy_state \<Rightarrow> rptr option" where
  "region_lookup Q rid s = (case region_hd s of None \<Rightarrow> None
     | Some h \<Rightarrow> qmap_ptr (qmap_get Q h (KId rid)))"

text \<open>The in-place reversal of the ancestor chain: swap the ends, move inwards.\<close>

function swap_loop :: "nat \<Rightarrow> nat \<Rightarrow> 'a list \<Rightarrow> 'a list" where
  "swap_loop a b xs = (if a < b then swap_loop (a + 1) (b - 1) (xs[a := xs ! b, b := xs ! a]) else xs)"
  by pat_completeness auto
termination by (relation "measure (\<lambda>(a, b, xs). b - a)") auto

declare swap_loop.simps [simp del]

definition region_ancestor_chain :: "'q xy_state \<Rightarrow> rptr option \<Rightarrow> nat \<Rightarrow> rptr list option" where
  "region_ancestor_chain s start chain_cap = (do {
     chain \<leftarrow> chain_loop chain_cap (region_parent s) start;
     Some (swap_loop 0 (length chain - 1) chain) })"

text \<open>\<open>for (e = entry; e; e = e->parent) body\<close>, for a body that rewrites fields of \<open>e\<close>.\<close>

definition up_chain :: "'q xy_state \<Rightarrow> rptr option \<Rightarrow> rptr list option" where
  "up_chain s entry = walk (next_addr s) (region_parent s) entry"

definition for_ancestors :: "('q xy_region_entry \<Rightarrow> 'q xy_region_entry) \<Rightarrow> rptr option
    \<Rightarrow> 'q xy_state \<Rightarrow> 'q xy_state option" where
  "for_ancestors f entry s = (do {
     ps \<leftarrow> up_chain s entry;
     Some (s\<lparr>regions := fold (\<lambda>p h. heap_upd h p f) ps (regions s)\<rparr>) })"

definition set_deny_flag :: "'q xy_region_entry \<Rightarrow> 'q xy_region_entry" where
  "set_deny_flag e = e\<lparr>subtree_flags := subtree_flags e OR XY_SUBTREE_HAS_DENY\<rparr>"

definition region_propagate_deny :: "rptr option \<Rightarrow> 'q xy_state \<Rightarrow> 'q xy_state option" where
  "region_propagate_deny entry s = for_ancestors set_deny_flag entry s"

definition next_gen :: "u64 \<Rightarrow> u64" where
  "next_gen g = (let g' = g + 1 in if g' = 0 then 1 else g')"

definition bump_gen :: "'q xy_region_entry \<Rightarrow> 'q xy_region_entry" where
  "bump_gen e = e\<lparr>dispatch_gen := next_gen (dispatch_gen e)\<rparr>"

definition region_dispatch_gen_bump :: "rptr option \<Rightarrow> 'q xy_state \<Rightarrow> 'q xy_state option" where
  "region_dispatch_gen_bump entry s = for_ancestors bump_gen entry s"

definition set_dirty :: "'q xy_region_entry \<Rightarrow> 'q xy_region_entry" where
  "set_dirty e = e\<lparr>subtree_mods_dirty := True\<rparr>"

definition region_mark_subtree_dirty :: "rptr option \<Rightarrow> 'q xy_state \<Rightarrow> 'q xy_state option" where
  "region_mark_subtree_dirty entry s = (do {
     s1 \<leftarrow> region_dispatch_gen_bump entry s;
     for_ancestors set_dirty entry s1 })"

definition region_subtree_mods_push :: "'q env \<Rightarrow> rptr \<Rightarrow> mptr \<Rightarrow> 'q xy_state
    \<Rightarrow> (int \<times> 'q xy_state) option" where
  "region_subtree_mods_push E root me s = (do {
     re \<leftarrow> regions s root;
     if length (subtree_mods re) \<ge> subtree_mods_cap re then
       (let new_cap = (if subtree_mods_cap re \<noteq> 0 then subtree_mods_cap re * 2 else 8) in
        if \<not> e_malloc E s (AllocBytes (new_cap * 8)) then Some (- 1, s)
        else do { s1 \<leftarrow> upd_region root (\<lambda>e. e\<lparr>subtree_mods := subtree_mods e @ [me],
                     subtree_mods_cap := new_cap\<rparr>) s; Some (0, s1) })
     else do { s1 \<leftarrow> upd_region root (\<lambda>e. e\<lparr>subtree_mods := subtree_mods e @ [me]\<rparr>) s;
               Some (0, s1) } })"

primrec region_collect_subtree_mods :: "nat \<Rightarrow> 'q env \<Rightarrow> rptr \<Rightarrow> rptr \<Rightarrow> 'q xy_state
    \<Rightarrow> (int \<times> 'q xy_state) option" where
  "region_collect_subtree_mods 0 E root node s = None"
| "region_collect_subtree_mods (Suc n) E root node s = (do {
     ne \<leftarrow> regions s node;
     ms \<leftarrow> walk (next_addr s) (mod_next s) (mods_head ne);
     (r, s1) \<leftarrow> for_each (region_subtree_mods_push E root) ms s;
     if r < 0 then Some (- 1, s1)
     else do {
       ne1 \<leftarrow> regions s1 node;
       cs \<leftarrow> walk (next_addr s1) (region_sibling s1) (children_head ne1);
       for_each (region_collect_subtree_mods n E root) cs s1 } })"

definition max_levels :: nat where "max_levels = 65"

definition region_rebuild_subtree_mods :: "'q env \<Rightarrow> rptr option \<Rightarrow> 'q xy_state
    \<Rightarrow> (int \<times> 'q xy_state) option" where
  "region_rebuild_subtree_mods E root0 s = (case root0 of None \<Rightarrow> Some (0, s)
     | Some root \<Rightarrow> do {
         s1 \<leftarrow> upd_region root (\<lambda>e. e\<lparr>subtree_mods := []\<rparr>) s;
         (r, s2) \<leftarrow> region_collect_subtree_mods max_levels E root root s1;
         if r < 0 then Some (- 1, s2)
         else do { s3 \<leftarrow> upd_region root (\<lambda>e. e\<lparr>subtree_mods_dirty := False\<rparr>) s2;
                   Some (0, s3) } })"

text \<open>A region entry as \<open>calloc\<close> leaves it.\<close>

definition region_zero :: "'q xy_region_entry" where
  "region_zero = \<lparr> re_id = 0, re_depth = 0, re_plen = 0, re_child_bits = 0, re_owner_path = None,
     denied_hooks = [], denied_modules = [], denied_hooks_set = None, denied_modules_set = None,
     subtree_flags = 0, dispatch_gen = 0, claim_handler = 0, claim_handler_ud = 0,
     require_claim = False, re_parent = None, children_head = None, sibling_next = None,
     mods_head = None, mods_tail = None, subtree_mods = [], subtree_mods_cap = 0,
     subtree_mods_dirty = False, hook_dispatch = [] \<rparr>"

definition alloc_region :: "'q env \<Rightarrow> 'q xy_region_entry \<Rightarrow> 'q xy_state
    \<Rightarrow> (rptr \<times> 'q xy_state) option" where
  "alloc_region E e s = (if e_malloc E s AllocRegion
     then Some (next_addr s, s\<lparr>regions := (regions s)(next_addr s \<mapsto> e), next_addr := next_addr s + 1\<rparr>)
     else None)"

definition region_hd_put :: "'q qmap_ops \<Rightarrow> u64 \<Rightarrow> rptr \<Rightarrow> 'q xy_state \<Rightarrow> 'q xy_state option" where
  "region_hd_put Q rid p s = (do {
     h \<leftarrow> region_hd s;
     Some (s\<lparr>region_hd := Some (qmap_put Q h (KId rid) (VPtr p))\<rparr>) })"

definition region_ensure_root :: "'q env \<Rightarrow> 'q qmap_ops \<Rightarrow> 'q xy_state \<Rightarrow> 'q xy_state option" where
  "region_ensure_root E Q s = (do {
     (root, s1) \<leftarrow> (case region_lookup Q XY_REGION_ROOT s of
         Some root \<Rightarrow> Some (root, s)
       | None \<Rightarrow> do {
           (root, s0) \<leftarrow> alloc_region E (region_zero\<lparr>re_id := XY_REGION_ROOT, dispatch_gen := 1\<rparr>) s;
           s1 \<leftarrow> region_hd_put Q XY_REGION_ROOT root s0;
           Some (root, s1) });
     Some (if xy_current_region_entry s1 = None \<or> xy_current_region_id s1 = XY_REGION_ROOT
           then s1\<lparr>xy_current_region_entry := Some root\<rparr> else s1) })"

text \<open>\<open>region_entry_free\<close>: the entry and everything it owns are gone.\<close>

definition region_entry_free :: "rptr \<Rightarrow> 'q xy_state \<Rightarrow> 'q xy_state option" where
  "region_entry_free p s = (case regions s p of None \<Rightarrow> None
     | Some _ \<Rightarrow> Some (s\<lparr>regions := (regions s)(p := None)\<rparr>))"

section \<open>The ancestor chain\<close>

lemma swap_loop_middle:
  "swap_loop (length us) (length us + length ms - 1) (us @ ms @ vs) = us @ rev ms @ vs"
proof (induction "length ms" arbitrary: ms us vs rule: less_induct)
  case less
  consider "ms = []" | x where "ms = [x]" | x ys y where "ms = x # ys @ [y]"
    by (metis append_butlast_last_id list.exhaust)
  then show ?case
  proof cases
    case (3 x ys y)
    have swap: "(us @ ms @ vs)[length us := (us @ ms @ vs) ! (length us + length ms - 1),
        length us + length ms - 1 := (us @ ms @ vs) ! length us] = (us @ [y]) @ ys @ [x] @ vs"
      using 3 by (auto simp: nth_append list_update_append)
    have "length ys < length ms" using 3 by simp
    from less [OF this, of "us @ [y]" "[x] @ vs"]
    have "swap_loop (length us + 1) (length us + length ms - 1 - 1) ((us @ [y]) @ ys @ [x] @ vs)
        = (us @ [y]) @ rev ys @ [x] @ vs"
      using 3 by simp
    moreover have "length us < length us + length ms - 1" using 3 by simp
    ultimately have "swap_loop (length us) (length us + length ms - 1) (us @ ms @ vs)
        = (us @ [y]) @ rev ys @ [x] @ vs"
      by (subst swap_loop.simps) (simp only: swap if_True)
    with 3 show ?thesis by simp
  qed (auto simp: swap_loop.simps)
qed

lemma swap_loop_rev: "swap_loop 0 (length xs - 1) xs = rev xs"
  using swap_loop_middle [of "[]" xs "[]"] by simp

lemma region_ancestor_chain_linked:
  assumes "linked (region_parent s) start ps" and "length ps \<le> cap"
  shows "region_ancestor_chain s start cap = Some (rev ps)"
  using assms by (simp add: region_ancestor_chain_def linked_chain_loop swap_loop_rev
      del: One_nat_def)

end
