(* ===== verification/Xy_Tree.thy ===== *)
theory Xy_Tree
  imports Xy_Region
begin

text \<open>
  The region tree: its invariant, the ancestor relation, and what the upward loops
  of Xy_Region do under the invariant.  The acyclic parent chain is an interface of
  its own (locale \<open>parent_forest\<close>): any store whose parent links decrease a bounded
  rank has terminating upward loops and complete bounded chains.
\<close>

section \<open>Forests of parent links\<close>

locale parent_forest =
  fixes up :: "'s \<Rightarrow> nat \<Rightarrow> nat option option"
    and rank :: "'s \<Rightarrow> nat \<Rightarrow> nat"
    and ok :: "'s \<Rightarrow> bool"
    and size_of :: "'s \<Rightarrow> nat"
    and max_rank :: nat
  assumes up_live: "ok s \<Longrightarrow> up s p = Some (Some q) \<Longrightarrow> up s q \<noteq> None"
    and up_rank: "ok s \<Longrightarrow> up s p = Some (Some q) \<Longrightarrow> rank s q < rank s p"
    and rank_bound: "ok s \<Longrightarrow> up s p \<noteq> None \<Longrightarrow> rank s p \<le> max_rank"
    and up_bound: "ok s \<Longrightarrow> up s p \<noteq> None \<Longrightarrow> p < size_of s"
begin

lemma chain_exists:
  assumes "ok s" and "up s p \<noteq> None"
  shows "\<exists>ps. linked (up s) (Some p) (p # ps) \<and> length (p # ps) \<le> Suc (rank s p)"
  using assms
proof (induction "rank s p" arbitrary: p rule: less_induct)
  case less
  then obtain q where q: "up s p = Some q" by auto
  show ?case
  proof (cases q)
    case None
    with q show ?thesis by (intro exI [of _ "[]"]) auto
  next
    case (Some r)
    with q less.prems have "rank s r < rank s p" "up s r \<noteq> None"
      by (auto dest: up_rank up_live)
    from less.hyps [OF this(1) less.prems(1) this(2)] obtain ps where
      "linked (up s) (Some r) (r # ps)" "length (r # ps) \<le> Suc (rank s r)" by blast
    with q Some \<open>rank s r < rank s p\<close> show ?thesis
      by (intro exI [of _ "r # ps"]) auto
  qed
qed

lemma chain_walk:
  assumes "ok s" and "up s p \<noteq> None"
  shows "\<exists>ps. walk (size_of s) (up s) (Some p) = Some ps \<and> linked (up s) (Some p) ps"
proof -
  from chain_exists [OF assms] obtain ps where ps: "linked (up s) (Some p) (p # ps)" by blast
  then have "walk (size_of s) (up s) (Some p) = Some (p # ps)"
    by (rule linked_bounded_walk) (use assms(1) up_bound in blast)
  with ps show ?thesis by blast
qed

lemma chain_short:
  assumes "ok s" and "linked (up s) (Some p) ps"
  shows "length ps \<le> Suc max_rank"
proof -
  from assms(2) have live: "up s p \<noteq> None" by (cases ps) auto
  from chain_exists [OF assms(1) live] obtain qs where
    qs: "linked (up s) (Some p) (p # qs)" "length (p # qs) \<le> Suc (rank s p)" by blast
  from linked_unique [OF assms(2) qs(1)] qs(2) rank_bound [OF assms(1) live]
  show ?thesis by (metis Suc_le_mono order_trans)
qed

lemma chain_rank:
  assumes "ok s" and "linked (up s) (Some p) (p # ps)" and "q \<in> set ps"
  shows "rank s q < rank s p"
  using assms(2,3)
proof (induction ps arbitrary: p)
  case (Cons a ps)
  then have "up s p = Some (Some a)" and l: "linked (up s) (Some a) (a # ps)" by auto
  with assms(1) have lt: "rank s a < rank s p" by (auto dest: up_rank)
  show ?case
  proof (cases "q = a")
    case False
    with Cons.prems(2) have "q \<in> set ps" by simp
    from Cons.IH [OF l this] lt show ?thesis by simp
  qed (use lt in simp)
qed simp

end

section \<open>The invariant of the region tree\<close>

definition region_rank :: "'q xy_state \<Rightarrow> rptr \<Rightarrow> nat" where
  "region_rank s p = (case regions s p of None \<Rightarrow> 0 | Some e \<Rightarrow> unat (re_plen e))"

definition wf_parents :: "'q xy_state \<Rightarrow> bool" where
  "wf_parents s \<longleftrightarrow> (\<forall>p e. regions s p = Some e \<longrightarrow>
     p < next_addr s \<and> unat (re_plen e) \<le> 64 \<and>
     (\<forall>q. re_parent e = Some q \<longrightarrow> regions s q \<noteq> None \<and> region_rank s q < unat (re_plen e)))"

definition wf_children :: "'q xy_state \<Rightarrow> bool" where
  "wf_children s \<longleftrightarrow> (\<forall>p e. regions s p = Some e \<longrightarrow>
     (\<exists>cs. linked (region_sibling s) (children_head e) cs
        \<and> set cs = {c. region_parent s c = Some (Some p)}))"

text \<open>The module list of a region: the \<open>next\<close> links from the head and the \<open>prev\<close> links
  from the tail visit the same modules in opposite orders, all of them owned by it.\<close>

definition mod_list :: "'q xy_state \<Rightarrow> rptr \<Rightarrow> mptr list \<Rightarrow> bool" where
  "mod_list s p ms \<longleftrightarrow> (\<exists>e. regions s p = Some e
     \<and> linked (mod_next s) (mods_head e) ms
     \<and> linked (mod_prev s) (mods_tail e) (rev ms)
     \<and> (\<forall>m \<in> set ms. mod_region s m = Some (Some p)))"

definition wf_mods :: "'q xy_state \<Rightarrow> bool" where
  "wf_mods s \<longleftrightarrow> (\<forall>m. mods s m \<noteq> None \<longrightarrow> m < next_addr s)
     \<and> (\<forall>p. regions s p \<noteq> None \<longrightarrow> (\<exists>ms. mod_list s p ms))"

definition wf_tree :: "'q xy_state \<Rightarrow> bool" where
  "wf_tree s \<longleftrightarrow> wf_parents s \<and> wf_children s \<and> wf_mods s"

lemma wf_parentsD:
  assumes "wf_parents s" and "regions s p = Some e"
  shows "p < next_addr s" "unat (re_plen e) \<le> 64"
    "re_parent e = Some q \<Longrightarrow> regions s q \<noteq> None"
    "re_parent e = Some q \<Longrightarrow> region_rank s q < unat (re_plen e)"
  using assms unfolding wf_parents_def by blast+

lemma region_parent_Some:
  "region_parent s p = Some q \<Longrightarrow> \<exists>e. regions s p = Some e \<and> re_parent e = q \<and>
     region_rank s p = unat (re_plen e)"
  by (auto simp: region_parent_def region_rank_def)

interpretation region_forest: parent_forest region_parent region_rank wf_parents next_addr 64
proof
  fix s :: "'q xy_state" and p q
  assume ok: "wf_parents s"
  show "region_parent s q \<noteq> None" if "region_parent s p = Some (Some q)"
    using wf_parentsD(3) [OF ok] region_parent_Some [OF that] by (auto simp: region_parent_def)
  show "region_rank s q < region_rank s p" if "region_parent s p = Some (Some q)"
    using wf_parentsD(4) [OF ok] region_parent_Some [OF that] by auto
  show "region_rank s p \<le> 64" if "region_parent s p \<noteq> None"
    using wf_parentsD(2) [OF ok] that region_parent_Some by fastforce
  show "p < next_addr s" if "region_parent s p \<noteq> None"
    using wf_parentsD(1) [OF ok] that by (auto simp: region_parent_def)
qed

lemma region_parent_None_iff [simp]: "region_parent s p = None \<longleftrightarrow> regions s p = None"
  by (simp add: region_parent_def)

lemma wf_tree_parts:
  "wf_tree s \<Longrightarrow> wf_parents s" "wf_tree s \<Longrightarrow> wf_children s" "wf_tree s \<Longrightarrow> wf_mods s"
  by (simp_all add: wf_tree_def)

lemma up_chain_total:
  "wf_parents s \<Longrightarrow> regions s p \<noteq> None \<Longrightarrow>
     \<exists>ps. up_chain s (Some p) = Some ps \<and> linked (region_parent s) (Some p) ps"
  unfolding up_chain_def using region_forest.chain_walk [of s p] by auto

lemma up_chain_linked: "up_chain s p = Some ps \<Longrightarrow> linked (region_parent s) p ps"
  unfolding up_chain_def by (rule walk_linked)

section \<open>Ancestors\<close>

text \<open>\<open>ancestor s a r\<close>: \<open>a\<close> is \<open>r\<close> or one of its ancestors.\<close>

definition ancestor :: "'q xy_state \<Rightarrow> rptr \<Rightarrow> rptr \<Rightarrow> bool" where
  "ancestor s a r = (case up_chain s (Some r) of None \<Rightarrow> False | Some ps \<Rightarrow> a \<in> set ps)"

lemma ancestor_iff:
  "wf_parents s \<Longrightarrow> linked (region_parent s) (Some r) ps \<Longrightarrow> ancestor s a r \<longleftrightarrow> a \<in> set ps"
  by (metis ancestor_def linked_hd linked_unique option.simps(5) region_parent_None_iff
      up_chain_total option.distinct(1))

lemma ancestor_live:
  assumes "ancestor s a r"
  shows "regions s a \<noteq> None" "regions s r \<noteq> None"
proof -
  from assms obtain ps where ps: "linked (region_parent s) (Some r) ps" "a \<in> set ps"
    by (auto simp: ancestor_def dest: up_chain_linked split: option.splits)
  from linked_live [OF this] show "regions s a \<noteq> None" by simp
  from ps(1) have "r \<in> set ps" by (auto dest: linked_hd)
  from linked_live [OF ps(1) this] show "regions s r \<noteq> None" by simp
qed

lemma ancestor_refl: "wf_parents s \<Longrightarrow> regions s r \<noteq> None \<Longrightarrow> ancestor s r r"
  by (metis ancestor_iff linked_hd list.set_intros(1) up_chain_total)

lemma ancestor_step:
  assumes "wf_parents s" and "region_parent s r = Some (Some q)"
  shows "ancestor s a r \<longleftrightarrow> a = r \<or> ancestor s a q"
proof -
  from region_forest.up_live [OF assms] have "regions s q \<noteq> None" by simp
  with assms(1) obtain ps where ps: "linked (region_parent s) (Some q) ps"
    using up_chain_total by blast
  with assms(2) have "linked (region_parent s) (Some r) (r # ps)" by auto
  from ancestor_iff [OF assms(1) this] ancestor_iff [OF assms(1) ps] show ?thesis by simp
qed

lemma ancestor_root:
  "wf_parents s \<Longrightarrow> region_parent s r = Some None \<Longrightarrow> ancestor s a r \<longleftrightarrow> a = r"
  using ancestor_iff [of s r "[r]" a] by auto

lemma ancestor_rank:
  assumes "wf_parents s" and "ancestor s a r" and "a \<noteq> r"
  shows "region_rank s a < region_rank s r"
proof -
  from assms(2) obtain ps where ps: "linked (region_parent s) (Some r) ps" "a \<in> set ps"
    by (auto simp: ancestor_def dest: up_chain_linked split: option.splits)
  then obtain qs where "ps = r # qs" by (auto dest: linked_hd)
  with ps assms show ?thesis using region_forest.chain_rank [of s r qs a] by auto
qed

lemma ancestor_antisym: "wf_parents s \<Longrightarrow> ancestor s a r \<Longrightarrow> ancestor s r a \<Longrightarrow> a = r"
  by (metis ancestor_rank less_asym)

lemma ancestor_trans:
  assumes wf: "wf_parents s" and "ancestor s a b" and "ancestor s b r"
  shows "ancestor s a r"
  using assms(3)
proof (induction "region_rank s r" arbitrary: r rule: less_induct)
  case less
  show ?case
  proof (cases "region_parent s r")
    case None
    with less.prems show ?thesis by (auto dest: ancestor_live)
  next
    case (Some q)
    show ?thesis
    proof (cases q)
      case None
      with Some less.prems wf assms(2) show ?thesis by (simp add: ancestor_root)
    next
      case (Some q')
      with \<open>region_parent s r = Some q\<close> have up: "region_parent s r = Some (Some q')" by simp
      with wf have lt: "region_rank s q' < region_rank s r" by (rule region_forest.up_rank)
      from less.prems wf up consider "b = r" | "ancestor s b q'" by (auto simp: ancestor_step)
      then show ?thesis
      proof cases
        case 2
        from less.hyps [OF lt 2] wf up show ?thesis by (simp add: ancestor_step)
      qed (use assms(2) in simp)
    qed
  qed
qed

text \<open>Two ancestors of one region are comparable; siblings are not.\<close>

lemma siblings_apart:
  assumes wf: "wf_parents s"
    and "ancestor s c r" "ancestor s d r"
    and "region_parent s c = Some (Some p)" "region_parent s d = Some (Some p)"
  shows "c = d"
  using assms(2,3)
proof (induction "region_rank s r" arbitrary: r rule: less_induct)
  case less
  show ?case
  proof (rule ccontr)
    assume ne: "c \<noteq> d"
    have "ancestor s d c \<or> ancestor s c d \<or>
        (\<exists>q. region_parent s r = Some (Some q) \<and> ancestor s c q \<and> ancestor s d q)"
      using less.prems wf by (cases "region_parent s r" rule: option.exhaust)
        (auto dest: ancestor_live simp: ancestor_step ancestor_root split: option.splits,
         metis ancestor_root ancestor_step option.exhaust)
    moreover have False if "ancestor s x y" "x \<noteq> y"
      "region_parent s x = Some (Some p)" "region_parent s y = Some (Some p)" for x y
    proof -
      from that wf have "ancestor s x p" by (simp add: ancestor_step)
      then have "region_rank s x \<le> region_rank s p"
        using wf ancestor_rank by (cases "x = p") (auto intro: less_imp_le)
      with that(3) wf show False using region_forest.up_rank by (metis leD)
    qed
    moreover have False if "region_parent s r = Some (Some q)" "ancestor s c q" "ancestor s d q" for q
      using less.hyps [of q] that ne wf region_forest.up_rank by blast
    ultimately show False using ne assms(4,5) by metis
  qed
qed

end
