(* ===== verification/Xy_Example.thy ===== *)
theory Xy_Example
  imports Xy_Tree
begin

text \<open>
  A concrete library state the witnesses run on: the root region (address 1) with two
  children (2 and 3, claimed in this order with two bits each), a grandchild 4 under
  2, two modules in the root, one in 2, one in 4, and a module entry 9 that is
  allocated but in no list yet.  Its tables are association lists.
\<close>

type_synonym demo_q = "(qkey \<times> qval) list"

definition demo_region :: "u64 \<Rightarrow> u8 \<Rightarrow> u8 \<Rightarrow> rptr option \<Rightarrow> rptr option \<Rightarrow> rptr option
    \<Rightarrow> mptr option \<Rightarrow> mptr option \<Rightarrow> demo_q xy_region_entry" where
  "demo_region rid depth plen up kids sib mhd mtl = \<lparr> re_id = rid, re_depth = depth, re_plen = plen,
     re_child_bits = plen, re_owner_path = None, denied_hooks = [], denied_modules = [],
     denied_hooks_set = None, denied_modules_set = None, subtree_flags = 0, dispatch_gen = 1,
     claim_handler = 0, claim_handler_ud = 0, require_claim = False, re_parent = up,
     children_head = kids, sibling_next = sib, mods_head = mhd, mods_tail = mtl,
     subtree_mods = [], subtree_mods_cap = 0, subtree_mods_dirty = True, hook_dispatch = [] \<rparr>"

definition demo_mod :: "rptr option \<Rightarrow> u64 \<Rightarrow> cptr option \<Rightarrow> mptr option \<Rightarrow> mptr option \<Rightarrow> xy_mod_entry" where
  "demo_mod r rid ctx nxt prv = \<lparr> me_ctx = ctx, region_next = nxt, fn_cache = [], region_state = None,
     load_path = Some 20, me_handle = Some 7, region_entry = r, me_region_id = rid,
     region_prev = prv, refcount = 1, parent_entry = None, hook_impl_bits = [],
     me_mod_key = ''k'', tmp_load_path = None \<rparr>"

definition demo_ctx :: "u64 \<Rightarrow> xy_ctx" where
  "demo_ctx rid = \<lparr> ctx_api = [FCall \<mapsto> H_xy_call, FLoad \<mapsto> H_xy_load], ctx_adapter = None, ctx_module_path = Some ''m'', ctx_region_id = rid,
     ctx_region_state = None \<rparr>"

definition demo :: "demo_q xy_state" where
  "demo = xy_boot\<lparr>
     regions := [1 \<mapsto> demo_region 0 0 0 None (Some 3) None (Some 5) (Some 6),
                 2 \<mapsto> demo_region 0x4000000000000000 1 2 (Some 1) (Some 4) None (Some 7) (Some 7),
                 3 \<mapsto> demo_region 0x8000000000000000 1 2 (Some 1) None (Some 2) None None,
                 4 \<mapsto> demo_region 0x5000000000000000 2 4 (Some 2) None None (Some 8) (Some 8)],
     mods := [5 \<mapsto> demo_mod (Some 1) 0 (Some 11) (Some 6) None,
              6 \<mapsto> demo_mod (Some 1) 0 (Some 12) None (Some 5),
              7 \<mapsto> demo_mod (Some 2) 0x4000000000000000 (Some 13) None None,
              8 \<mapsto> demo_mod (Some 4) 0x5000000000000000 (Some 14) None None,
              9 \<mapsto> demo_mod None 0 None None None],
     ctxs := [11 \<mapsto> demo_ctx 0, 12 \<mapsto> demo_ctx 0, 13 \<mapsto> demo_ctx 0x4000000000000000,
              14 \<mapsto> demo_ctx 0x5000000000000000],
     strs := [20 \<mapsto> ''m.so''],
     next_addr := 30,
     mod_hd := Some [], mod_by_region_hd := Some [], sica_hd := Some [], path_intern_hd := Some [],
     region_hd := Some [(KId 0, VPtr 1), (KId 0x4000000000000000, VPtr 2),
                        (KId 0x8000000000000000, VPtr 3), (KId 0x5000000000000000, VPtr 4)],
     hook_id_hd := Some [], xy_inited := True, xy_current_region_entry := Some 1 \<rparr>"

lemma demo_sel [simp]:
  "regions demo 1 = Some (demo_region 0 0 0 None (Some 3) None (Some 5) (Some 6))"
  "regions demo (Suc 0) = Some (demo_region 0 0 0 None (Some 3) None (Some 5) (Some 6))"
  "regions demo 2 = Some (demo_region 0x4000000000000000 1 2 (Some 1) (Some 4) None (Some 7) (Some 7))"
  "regions demo 3 = Some (demo_region 0x8000000000000000 1 2 (Some 1) None (Some 2) None None)"
  "regions demo 4 = Some (demo_region 0x5000000000000000 2 4 (Some 2) None None (Some 8) (Some 8))"
  "mods demo 5 = Some (demo_mod (Some 1) 0 (Some 11) (Some 6) None)"
  "mods demo 6 = Some (demo_mod (Some 1) 0 (Some 12) None (Some 5))"
  "mods demo 7 = Some (demo_mod (Some 2) 0x4000000000000000 (Some 13) None None)"
  "mods demo 8 = Some (demo_mod (Some 4) 0x5000000000000000 (Some 14) None None)"
  "mods demo 9 = Some (demo_mod None 0 None None None)"
  "next_addr demo = 30"
  by (simp_all add: demo_def)

lemma demo_regions_cases:
  "regions demo p = Some e \<Longrightarrow> p = 1 \<or> p = 2 \<or> p = 3 \<or> p = 4"
  by (simp add: demo_def xy_boot_def split: if_splits)

lemma demo_mods_cases:
  "mods demo m = Some e \<Longrightarrow> m = 5 \<or> m = 6 \<or> m = 7 \<or> m = 8 \<or> m = 9"
  by (simp add: demo_def xy_boot_def split: if_splits)

lemma demo_wf_parents: "wf_parents demo"
  unfolding wf_parents_def
proof (intro allI impI)
  fix p e assume e: "regions demo p = Some e"
  from demo_regions_cases [OF this] consider "p = 1" | "p = 2" | "p = 3" | "p = 4" by blast
  then show "p < next_addr demo \<and> unat (re_plen e) \<le> 64 \<and>
      (\<forall>q. re_parent e = Some q \<longrightarrow> regions demo q \<noteq> None \<and> region_rank demo q < unat (re_plen e))"
    by cases (use e in \<open>auto simp: demo_region_def region_rank_def\<close>)
qed

lemma demo_parent_iff:
  "region_parent demo c = Some (Some p) \<longleftrightarrow> (c, p) \<in> {(2, 1), (3, 1), (4, 2)}"
proof -
  have "c = 1 \<or> c = 2 \<or> c = 3 \<or> c = 4" if "regions demo c \<noteq> None"
    using that demo_regions_cases by blast
  then show ?thesis
    by (cases "regions demo c = None") (auto simp: region_parent_def demo_region_def)
qed

lemma demo_wf_children: "wf_children demo"
  unfolding wf_children_def
proof (intro allI impI)
  fix p e assume e: "regions demo p = Some e"
  have l: "linked (region_sibling demo) (children_head e)
      (if p = 1 then [3, 2] else if p = 2 then [4] else [])"
    using demo_regions_cases [OF e] e
    by (auto simp: region_sibling_def demo_region_def)
  have "set (if p = 1 then [3, 2] else if p = 2 then [4] else []) = {c. region_parent demo c = Some (Some p)}"
    unfolding demo_parent_iff by auto
  with l show "\<exists>cs. linked (region_sibling demo) (children_head e) cs
      \<and> set cs = {c. region_parent demo c = Some (Some p)}" by blast
qed

lemma demo_mod_lists:
  "mod_list demo 1 [5, 6]" "mod_list demo 2 [7]" "mod_list demo 3 []" "mod_list demo 4 [8]"
  by (simp_all add: mod_list_def link_defs demo_region_def demo_mod_def)

lemma demo_wf: "wf_tree demo"
proof -
  have "m < 30" if "mods demo m \<noteq> None" for m
    using that demo_mods_cases by fastforce
  moreover have "\<exists>ms. mod_list demo p ms" if "regions demo p \<noteq> None" for p
    using that demo_regions_cases demo_mod_lists by blast
  ultimately have "wf_mods demo" by (simp add: wf_mods_def)
  with demo_wf_parents demo_wf_children show ?thesis by (simp add: wf_tree_def)
qed

text \<open>An environment in which every allocation succeeds, loaded object 7 exports the hook
  \<open>h\<close> at address 100, and the callbacks fill the result with 42.\<close>

definition demo_env :: "demo_q env" where
  "demo_env = \<lparr> e_malloc = (\<lambda>_ _. True), e_realpath = (\<lambda>_. None),
     e_dlopen = (\<lambda>_ s. Some (Some 7, s)), e_copy_tmp = (\<lambda>_ _. None),
     e_dlsym = (\<lambda>h n. if n = ''h'' \<or> n = ''xy_install'' then 100 else 0), e_base = (\<lambda>_. Some 7),
     e_call = (\<lambda>_ r _ _ s. Some (map_option (map (\<lambda>_. 42)) r, s)), e_handler = (\<lambda>_ _ b _ s. Some ((0, b), s)),
     e_void = (\<lambda>_ s. Some s), e_size = (\<lambda>_. 0), e_cleanup = (\<lambda>_ _ s. Some s),
     e_ctx = (\<lambda>_. None), e_claim_sym = (\<lambda>_. 1) \<rparr>"

lemma demo_env_sel [simp]:
  "e_malloc demo_env s req = True" "e_realpath demo_env p = None"
  "e_dlsym demo_env dl n = (if n = ''h'' \<or> n = ''xy_install'' then 100 else 0)"
  "e_call demo_env c r cb a s = Some (map_option (map (\<lambda>_. 42)) r, s)"
  "e_handler demo_env c p b u s = Some ((0, b), s)"
  "e_void demo_env c s = Some s" "e_size demo_env c = 0"
  "e_dlopen demo_env f s = Some (Some 7, s)" "e_copy_tmp demo_env f s = None"
  by (simp_all add: demo_env_def)

end
