(* ===== verification/Xy_Path.thy ===== *)
theory Xy_Path
  imports Xy_Example "HOL-Library.Char_ord"
begin

text \<open>
  The identity of modules (src/libxylem.c, lines 188-215, 377-499 and 1090-1104): the
  path a name is loaded from, the interning of paths, so that equal paths are equal
  pointers, and the key a module instance is stored under in \<open>mod_hd\<close>: the path, a NUL
  and the region id in hexadecimal, written by \<open>snprintf\<close> into a buffer of
  \<open>mod_key_len\<close> bytes.
\<close>

section \<open>Operations\<close>

definition module_load_path :: "'q env \<Rightarrow> string \<Rightarrow> 'q xy_state \<Rightarrow> string option" where
  "module_load_path E fname s = (let buf = fname @ ''.so'' in
     if \<not> e_malloc E s (AllocStr (length buf + 1)) then None
     else Some (case e_realpath E buf of Some resolved \<Rightarrow> resolved | None \<Rightarrow> buf))"

definition path_hd :: "'q qmap_ops \<Rightarrow> 'q xy_state \<Rightarrow> 'q" where
  "path_hd Q s = (case path_intern_hd s of None \<Rightarrow> qmap_open Q | Some h \<Rightarrow> h)"

lemma path_hd_upd [simp]: "path_hd Q (s\<lparr>path_intern_hd := Some h\<rparr>) = h"
  by (simp add: path_hd_def)

definition module_path_intern :: "'q qmap_ops \<Rightarrow> string option \<Rightarrow> 'q xy_state
    \<Rightarrow> sptr option \<times> 'q xy_state" where
  "module_path_intern Q path s = (case path of None \<Rightarrow> (None, s)
     | Some str \<Rightarrow>
         (case qmap_get Q (path_hd Q s) (KStr str) of
            Some v \<Rightarrow> (qmap_ptr (Some v), s\<lparr>path_intern_hd := Some (path_hd Q s)\<rparr>)
          | None \<Rightarrow> (Some (next_addr s),
              s\<lparr>strs := (strs s)(next_addr s \<mapsto> str), next_addr := next_addr s + 1,
                path_intern_hd := Some (qmap_put Q (path_hd Q s) (KStr str) (VPtr (next_addr s)))\<rparr>)))"

definition path_intern_free_all :: "'q xy_state \<Rightarrow> 'q xy_state" where
  "path_intern_free_all s = s\<lparr>path_intern_hd := None\<rparr>"

text \<open>\<open>%016llx\<close>\<close>

definition hex_digit :: "u64 \<Rightarrow> char" where
  "hex_digit d = ''0123456789abcdef'' ! unat d"

definition hex16 :: "u64 \<Rightarrow> string" where
  "hex16 rid = map (\<lambda>i. hex_digit (drop_bit (4 * i) rid AND 15)) (rev [0..<16])"

text \<open>\<open>snprintf\<close> keeps the first \<open>n - 1\<close> bytes and ends with a NUL.\<close>

definition snprintf :: "nat \<Rightarrow> string \<Rightarrow> string" where
  "snprintf n out = (if n = 0 then [] else take (n - 1) out @ [CHR 0x00])"

definition mod_key :: "nat \<Rightarrow> string \<Rightarrow> u64 \<Rightarrow> string" where
  "mod_key buf_len path rid = snprintf buf_len (path @ [CHR 0x00] @ hex16 rid)"

definition MOD_KEY_SUFFIX_LEN :: nat where "MOD_KEY_SUFFIX_LEN = 17"

definition strlen :: "string \<Rightarrow> nat" where
  "strlen xs = length (takeWhile (\<lambda>c. c \<noteq> CHR 0x00) xs)"

definition mod_key_len :: "string \<Rightarrow> nat" where
  "mod_key_len path = strlen path + MOD_KEY_SUFFIX_LEN"

definition mod_key_measure :: "string \<Rightarrow> nat" where
  "mod_key_measure data = strlen data + MOD_KEY_SUFFIX_LEN"

definition key_of :: "string \<Rightarrow> u64 \<Rightarrow> string" where
  "key_of path rid = mod_key (mod_key_len path) path rid"

record xy_lookup_result =
  lk_load_path :: "string option"
  lk_key :: "string option"
  lk_entry :: "mptr option"
  lk_err :: int

definition mod_hd_get :: "'q qmap_ops \<Rightarrow> string \<Rightarrow> 'q xy_state \<Rightarrow> mptr option" where
  "mod_hd_get Q key s = (case mod_hd s of None \<Rightarrow> None
     | Some h \<Rightarrow> qmap_ptr (qmap_get Q h (KBlob key)))"

definition module_lookup_from_fname :: "'q env \<Rightarrow> 'q qmap_ops \<Rightarrow> string \<Rightarrow> u64 \<Rightarrow> 'q xy_state
    \<Rightarrow> xy_lookup_result" where
  "module_lookup_from_fname E Q fname rid s =
     (case module_load_path E fname s of
        None \<Rightarrow> \<lparr>lk_load_path = None, lk_key = None, lk_entry = None, lk_err = XY_ERR_INVALID\<rparr>
      | Some path \<Rightarrow>
          if \<not> e_malloc E s (AllocBytes (mod_key_len path))
          then \<lparr>lk_load_path = None, lk_key = None, lk_entry = None, lk_err = XY_ERR_INVALID\<rparr>
          else let key = mod_key (mod_key_len path) path rid in
            \<lparr>lk_load_path = Some path, lk_key = Some key, lk_entry = mod_hd_get Q key s,
             lk_err = XY_OK\<rparr>)"

section \<open>Module keys\<close>

definition c_string :: "string \<Rightarrow> bool" where
  "c_string xs \<longleftrightarrow> CHR 0x00 \<notin> set xs"

lemma strlen_c_string [simp]: "c_string xs \<Longrightarrow> strlen xs = length xs"
  unfolding strlen_def c_string_def by (subst takeWhile_eq_all_conv [THEN iffD2]) auto

lemma strlen_append_NUL [simp]: "c_string xs \<Longrightarrow> strlen (xs @ CHR 0x00 # ys) = length xs"
  unfolding strlen_def c_string_def by (subst takeWhile_append2) auto

lemma length_hex16 [simp]: "length (hex16 r) = 16"
  by (simp add: hex16_def)

lemma key_of_eq:
  "c_string p \<Longrightarrow> key_of p r = p @ CHR 0x00 # take 15 (hex16 r) @ [CHR 0x00]"
  by (simp add: key_of_def mod_key_def mod_key_len_def MOD_KEY_SUFFIX_LEN_def snprintf_def)

lemma c_string_split:
  "c_string p \<Longrightarrow> c_string q \<Longrightarrow> p @ CHR 0x00 # xs = q @ CHR 0x00 # ys \<longleftrightarrow> p = q \<and> xs = ys"
proof (induction p arbitrary: q)
  case Nil then show ?case by (cases q) (auto simp: c_string_def)
next
  case (Cons a p) then show ?case by (cases q) (auto simp: c_string_def)
qed

lemma hex_digit_inj:
  assumes "hex_digit (a AND 15) = hex_digit (b AND 15)"
  shows "a AND 15 = b AND 15"
proof -
  have d: "distinct ''0123456789abcdef''" by simp
  have lt: "unat (x AND 15) < 16" for x :: u64
  proof -
    have "x AND 15 \<le> 15" by (rule word_and_le1)
    then show ?thesis by (simp add: word_le_nat_alt)
  qed
  have len: "length ''0123456789abcdef'' = 16" by simp
  have "unat (a AND 15) = unat (b AND 15)"
    using assms nth_eq_iff_index_eq [OF d, of "unat (a AND 15)" "unat (b AND 15)"] lt
    unfolding hex_digit_def len by blast
  then show ?thesis by (rule word_unat_eq_iff [THEN iffD2])
qed

text \<open>A nibble is four bits: two ids that agree on the nibbles from 1 on agree on the bits
  from 4 on.\<close>

lemma nibbles_bits:
  fixes a b :: u64
  assumes "\<And>i. 1 \<le> i \<Longrightarrow> i < 16 \<Longrightarrow> drop_bit (4 * i) a AND 15 = drop_bit (4 * i) b AND 15"
  shows "drop_bit 4 a = drop_bit 4 b"
proof (rule bit_eqI)
  fix n assume "possible_bit TYPE(u64) n"
  show "bit (drop_bit 4 a) n \<longleftrightarrow> bit (drop_bit 4 b) n"
  proof (cases "4 + n < 64")
    case True
    let ?i = "(4 + n) div 4" and ?k = "(4 + n) mod 4"
    have i: "1 \<le> ?i" "?i < 16" using True by simp_all
    have k: "4 + n = 4 * ?i + ?k" by (rule mult_div_mod_eq [symmetric])
    have "?k < 4" by simp
    then have "bit (15 :: u64) ?k"
      by (cases "?k = 0"; cases "?k = 1"; cases "?k = 2"; cases "?k = 3") (auto simp: bit_numeral_rec)
    with assms [OF i] have "bit (drop_bit (4 * ?i) a) ?k = bit (drop_bit (4 * ?i) b) ?k"
      by (metis bit_and_iff)
    then show ?thesis by (simp only: bit_drop_bit_eq comp_def k [symmetric])
  next
    case False
    have "\<not> bit x (4 + n)" for x :: u64
      using False bit_imp_le_length [of x "4 + n"] by auto
    then show ?thesis by (simp add: bit_drop_bit_eq)
  qed
qed

lemma take_hex16: "take 15 (hex16 r) = map (\<lambda>i. hex_digit (drop_bit (4 * i) r AND 15)) (rev [1..<16])"
proof -
  have "take 15 (rev [0..<16]) = rev [1..<16::nat]" by (simp add: upt_conv_Cons)
  then show ?thesis unfolding hex16_def take_map by simp
qed

lemma take_hex16_iff: "take 15 (hex16 a) = take 15 (hex16 b) \<longleftrightarrow> drop_bit 4 a = drop_bit 4 b"
proof
  assume "take 15 (hex16 a) = take 15 (hex16 b)"
  then have "\<forall>i \<in> set (rev [1..<16]). hex_digit (drop_bit (4 * i) a AND 15) = hex_digit (drop_bit (4 * i) b AND 15)"
    unfolding take_hex16 map_eq_conv .
  then show "drop_bit 4 a = drop_bit 4 b" by (intro nibbles_bits hex_digit_inj) auto
next
  assume eq: "drop_bit 4 a = drop_bit 4 b"
  have "drop_bit (4 * i) a = drop_bit (4 * i) b" if "1 \<le> i" for i
  proof -
    have "4 * i = (4 * i - 4) + 4" using that by simp
    then show ?thesis using eq by (metis drop_bit_drop_bit)
  qed
  then show "take 15 (hex16 a) = take 15 (hex16 b)" unfolding take_hex16 by simp
qed

lemma key_of_eq_iff:
  "c_string p \<Longrightarrow> c_string q \<Longrightarrow> key_of p a = key_of q b \<longleftrightarrow> p = q \<and> drop_bit 4 a = drop_bit 4 b"
  by (auto simp: key_of_eq c_string_split take_hex16_iff)

text \<open>(C39) The key of a module instance identifies its path and the upper 60 bits of its
  region id: two instances share a key exactly when they have the same path and their
  region ids agree but for the lowest hexadecimal digit, which does not fit in the
  buffer.\<close>

theorem module_key_identity:
  assumes "c_string p" and "c_string q"
  shows "mod_key (mod_key_len p) p a = mod_key (mod_key_len q) q b \<longleftrightarrow> p = q \<and> drop_bit 4 a = drop_bit 4 b"
  using key_of_eq_iff [OF assms] unfolding key_of_def .

theorem module_key_identity_witness:
  "mod_key (mod_key_len ''m.so'') ''m.so'' 0x10 = mod_key (mod_key_len ''m.so'') ''m.so'' 0x11
   \<and> mod_key (mod_key_len ''m.so'') ''m.so'' 0x10 \<noteq> mod_key (mod_key_len ''m.so'') ''m.so'' 0x20"
proof -
  have c: "c_string ''m.so''" by (simp add: c_string_def)
  have "drop_bit 4 (0x10 :: u64) = drop_bit 4 0x11" "drop_bit 4 (0x10 :: u64) \<noteq> drop_bit 4 0x20"
    by code_simp+
  with module_key_identity [OF c c] show ?thesis by blast
qed

text \<open>The key fills its buffer, and the measure the hash table uses for the key type
  finds the whole key: the bytes after the embedded NUL take part in the comparison.\<close>

lemma module_key_measured:
  assumes "c_string p"
  shows "length (mod_key (mod_key_len p) p a) = mod_key_len p
    \<and> mod_key_measure (mod_key (mod_key_len p) p a) = mod_key_len p"
  using key_of_eq [OF assms, of a] assms unfolding key_of_def
  by (simp_all add: mod_key_measure_def mod_key_len_def MOD_KEY_SUFFIX_LEN_def)

section \<open>Interned paths\<close>

definition wf_intern :: "'q qmap_ops \<Rightarrow> 'q xy_state \<Rightarrow> bool" where
  "wf_intern Q s \<longleftrightarrow> (\<forall>a. strs s a \<noteq> None \<longrightarrow> a < next_addr s) \<and>
     (\<forall>str v. qmap_get Q (path_hd Q s) (KStr str) = Some v
        \<longrightarrow> (\<exists>a. v = VPtr a \<and> strs s a = Some str))"

lemma module_path_intern_ok:
  assumes "qmap_laws Q" and "wf_intern Q s"
  shows "\<exists>a s'. module_path_intern Q (Some p) s = (Some a, s') \<and> wf_intern Q s'
    \<and> strs s' a = Some p \<and> qmap_get Q (path_hd Q s') (KStr p) = Some (VPtr a)
    \<and> (\<forall>b str. strs s b = Some str \<longrightarrow> strs s' b = Some str)
    \<and> (\<forall>str v. qmap_get Q (path_hd Q s) (KStr str) = Some v \<longrightarrow>
         qmap_get Q (path_hd Q s') (KStr str) = Some v)
    \<and> s' = s\<lparr>strs := strs s', next_addr := next_addr s', path_intern_hd := path_intern_hd s'\<rparr>
    \<and> next_addr s \<le> next_addr s'"
proof (cases "qmap_get Q (path_hd Q s) (KStr p)")
  case None
  from assms(2) have fresh: "strs s b \<noteq> Some str" if "next_addr s \<le> b" for b str
    using that unfolding wf_intern_def by fastforce
  let ?s = "s\<lparr>strs := (strs s)(next_addr s \<mapsto> p), next_addr := next_addr s + 1,
      path_intern_hd := Some (qmap_put Q (path_hd Q s) (KStr p) (VPtr (next_addr s)))\<rparr>"
  have hd: "path_hd Q ?s = qmap_put Q (path_hd Q s) (KStr p) (VPtr (next_addr s))"
    by (simp add: path_hd_def)
  have "wf_intern Q ?s"
    unfolding wf_intern_def hd
  proof (intro conjI allI impI)
    show "a < next_addr ?s" if "strs ?s a \<noteq> None" for a
      using that assms(2) by (auto simp: wf_intern_def less_Suc_eq split: if_splits)
    show "\<exists>a. v = VPtr a \<and> strs ?s a = Some str"
      if v: "qmap_get Q (qmap_put Q (path_hd Q s) (KStr p) (VPtr (next_addr s))) (KStr str) = Some v" for str v
    proof (cases "str = p")
      case True
      with v show ?thesis
        by (intro exI [of _ "next_addr s"]) (simp add: qmap_simps [OF assms(1)])
    next
      case False
      with v have "qmap_get Q (path_hd Q s) (KStr str) = Some v" by (simp add: qmap_simps [OF assms(1)])
      with assms(2) obtain a where a: "v = VPtr a" "strs s a = Some str" unfolding wf_intern_def by blast
      with fresh [of a str] have "a \<noteq> next_addr s" by auto
      with a show ?thesis by auto
    qed
  qed
  moreover have "module_path_intern Q (Some p) s = (Some (next_addr s), ?s)"
    using None by (simp add: module_path_intern_def)
  ultimately show ?thesis using None fresh
    by (intro exI [of _ "next_addr s"] exI [of _ ?s])
      (auto simp: qmap_simps [OF assms(1)])
next
  case (Some v)
  with assms(2) obtain a where a: "v = VPtr a" "strs s a = Some p"
    unfolding wf_intern_def by blast
  let ?s = "s\<lparr>path_intern_hd := Some (path_hd Q s)\<rparr>"
  have hd: "path_hd Q ?s = path_hd Q s" by (simp add: path_hd_def)
  have "wf_intern Q ?s" using assms(2) unfolding wf_intern_def hd by simp
  with Some a show ?thesis
    by (intro exI [of _ a] exI [of _ ?s]) (simp add: module_path_intern_def hd)
qed

text \<open>Interning gives one pointer per path: of two paths interned one after the other,
  the pointers are equal exactly when the paths are, and each pointer holds its path.
  Comparing \<open>load_path\<close> pointers is comparing paths.\<close>

lemma intern_injective:
  assumes "qmap_laws Q" and "wf_intern Q s"
    and "module_path_intern Q (Some p) s = (Some a, s1)"
    and "module_path_intern Q (Some q) s1 = (Some b, s2)"
  shows "(a = b \<longleftrightarrow> p = q) \<and> strs s2 a = Some p \<and> strs s2 b = Some q \<and> wf_intern Q s2"
proof -
  from module_path_intern_ok [OF assms(1,2), of p] assms(3) have 1: "wf_intern Q s1"
    "strs s1 a = Some p" "qmap_get Q (path_hd Q s1) (KStr p) = Some (VPtr a)" by auto
  from module_path_intern_ok [OF assms(1) 1(1), of q] assms(4) have 2: "wf_intern Q s2"
    "strs s2 b = Some q" "qmap_get Q (path_hd Q s2) (KStr q) = Some (VPtr b)"
    "strs s2 a = Some p" "qmap_get Q (path_hd Q s2) (KStr p) = Some (VPtr a)" using 1(2,3) by auto
  from 2 show ?thesis by auto
qed

end
