(* ===== verification/Xy_Boot.thy ===== *)
theory Xy_Boot
  imports Xy_Path
begin

text \<open>
  Bringing the library up (src/libxylem-runtime.c): \<open>xy_runtime_bootstrap\<close> opens the
  tables and creates the root region, \<open>xy_runtime_ensure\<close> does so on the first call of
  every API function.  The invariant \<open>wf_index\<close> ties the table of regions to the region
  objects: an id is stored exactly when a region has it.  (Creating the type ids of
  libqmap has no counterpart here: keys are typed by \<open>qkey\<close>.)
\<close>

section \<open>Operations\<close>

definition open_once :: "'q qmap_ops \<Rightarrow> 'q option \<Rightarrow> 'q option" where
  "open_once Q h = (case h of None \<Rightarrow> Some (qmap_open Q) | Some q \<Rightarrow> Some q)"

definition xy_runtime_bootstrap :: "'q env \<Rightarrow> 'q qmap_ops \<Rightarrow> 'q xy_state \<Rightarrow> (int \<times> 'q xy_state) option" where
  "xy_runtime_bootstrap E Q s = (do {
     s1 \<leftarrow> region_ensure_root E Q (s\<lparr>
         sica_hd := open_once Q (sica_hd s),
         hook_id_hd := open_once Q (hook_id_hd s),
         path_intern_hd := open_once Q (path_intern_hd s),
         mod_hd := Some (qmap_open Q),
         mod_by_region_hd := Some (mmap_open Q),
         region_hd := Some (qmap_open Q) \<rparr>);
     Some (XY_OK, s1\<lparr>xy_inited := True\<rparr>) })"

definition xy_runtime_ensure :: "'q env \<Rightarrow> 'q qmap_ops \<Rightarrow> 'q xy_state \<Rightarrow> (int \<times> 'q xy_state) option" where
  "xy_runtime_ensure E Q s = (if xy_inited s then Some (XY_OK, s) else xy_runtime_bootstrap E Q s)"

definition xy_init :: "'q env \<Rightarrow> 'q qmap_ops \<Rightarrow> 'q xy_state \<Rightarrow> 'q xy_state option" where
  "xy_init E Q s = (do { (ret, s1) \<leftarrow> xy_runtime_ensure E Q s; Some (xy_set_err ret s1) })"

text \<open>The opening lines of the API functions.\<close>

definition ensured :: "'q env \<Rightarrow> 'q qmap_ops \<Rightarrow> ('q xy_state \<Rightarrow> (int \<times> 'q xy_state) option)
    \<Rightarrow> 'q xy_state \<Rightarrow> (int \<times> 'q xy_state) option" where
  "ensured E Q body s = (do {
     (enter_ret, s1) \<leftarrow> xy_runtime_ensure E Q s;
     if enter_ret \<noteq> XY_OK then Some (fail_with enter_ret s1) else body s1 })"

lemma ensured_inited [simp]: "xy_inited s \<Longrightarrow> ensured E Q body s = body s"
  by (simp add: ensured_def xy_runtime_ensure_def)

section \<open>The table of regions\<close>

definition wf_index :: "'q qmap_ops \<Rightarrow> 'q xy_state \<Rightarrow> bool" where
  "wf_index Q s \<longleftrightarrow> (\<exists>h. region_hd s = Some h
     \<and> (\<forall>p e. regions s p = Some e \<longrightarrow> qmap_get Q h (KId (re_id e)) = Some (VPtr p))
     \<and> (\<forall>rid v. qmap_get Q h (KId rid) = Some v \<longrightarrow>
          (\<exists>p e. v = VPtr p \<and> regions s p = Some e \<and> re_id e = rid)))"

text \<open>Looking an id up finds the region that has it.\<close>

lemma region_lookup_iff:
  assumes "wf_index Q s"
  shows "region_lookup Q rid s = Some p \<longleftrightarrow> (\<exists>e. regions s p = Some e \<and> re_id e = rid)"
proof -
  from assms obtain h where h: "region_hd s = Some h"
    "\<And>p e. regions s p = Some e \<Longrightarrow> qmap_get Q h (KId (re_id e)) = Some (VPtr p)"
    "\<And>rid v. qmap_get Q h (KId rid) = Some v \<Longrightarrow> \<exists>p e. v = VPtr p \<and> regions s p = Some e \<and> re_id e = rid"
    unfolding wf_index_def by blast
  show ?thesis
  proof
    assume "region_lookup Q rid s = Some p"
    then have "qmap_ptr (qmap_get Q h (KId rid)) = Some p" by (simp add: region_lookup_def h(1))
    then obtain v where v: "qmap_get Q h (KId rid) = Some v" "qmap_ptr (Some v) = Some p"
      by (cases "qmap_get Q h (KId rid)") auto
    from h(3) [OF v(1)] v(2) show "\<exists>e. regions s p = Some e \<and> re_id e = rid" by auto
  next
    assume "\<exists>e. regions s p = Some e \<and> re_id e = rid"
    with h(2) show "region_lookup Q rid s = Some p" by (auto simp: region_lookup_def h(1))
  qed
qed

lemma region_lookup_None:
  "wf_index Q s \<Longrightarrow> region_lookup Q rid s = None \<longleftrightarrow> (\<forall>p e. regions s p = Some e \<longrightarrow> re_id e \<noteq> rid)"
  using region_lookup_iff [of Q s rid] by (metis option.exhaust option.distinct(1))

lemma region_ids_unique:
  "wf_index Q s \<Longrightarrow> regions s p = Some e \<Longrightarrow> regions s p' = Some e' \<Longrightarrow> re_id e = re_id e' \<Longrightarrow> p = p'"
  using region_lookup_iff [of Q s "re_id e"] by (metis option.inject)

section \<open>The state after the start\<close>

text \<open>\<open>quiet s\<close>: no region and no module object exists, as at program start and after
  \<open>xy_shutdown\<close>.\<close>

definition quiet :: "'q qmap_ops \<Rightarrow> 'q xy_state \<Rightarrow> bool" where
  "quiet Q s \<longleftrightarrow> regions s = (\<lambda>_. None) \<and> mods s = (\<lambda>_. None) \<and> \<not> xy_inited s
     \<and> xy_current_region_id s = XY_REGION_ROOT \<and> wf_intern Q s"

text \<open>\<open>wf_current\<close>: the thread's current region is a live region and its id agrees.\<close>

definition wf_current :: "'q xy_state \<Rightarrow> bool" where
  "wf_current s \<longleftrightarrow> (\<exists>p e. xy_current_region_entry s = Some p \<and> regions s p = Some e
     \<and> re_id e = xy_current_region_id s)"

text \<open>\<open>wf_modtab\<close>: what \<open>mod_hd\<close> stores under a key is a module entry that carries this key, and
  the context of a module entry exists.\<close>

definition wf_modtab :: "'q qmap_ops \<Rightarrow> 'q xy_state \<Rightarrow> bool" where
  "wf_modtab Q s \<longleftrightarrow>
     (\<forall>h k v. mod_hd s = Some h \<longrightarrow> qmap_get Q h k = Some v \<longrightarrow>
        (\<exists>m e. v = VPtr m \<and> mods s m = Some e \<and> k = KBlob (me_mod_key e))) \<and>
     (\<forall>m e c. mods s m = Some e \<longrightarrow> me_ctx e = Some c \<longrightarrow> ctxs s c \<noteq> None)"

lemma mod_hd_get_live:
  assumes "wf_modtab Q s" and "mod_hd_get Q key s = Some m"
  shows "\<exists>e. mods s m = Some e \<and> me_mod_key e = key"
proof -
  from assms(2) obtain h v where h: "mod_hd s = Some h" "qmap_get Q h (KBlob key) = Some v" "qmap_ptr (Some v) = Some m"
    by (auto simp: mod_hd_get_def qmap_ptr_def split: option.splits)
  with assms(1) obtain m' e where "v = VPtr m'" "mods s m' = Some e" "KBlob key = KBlob (me_mod_key e)"
    unfolding wf_modtab_def by blast
  with h(3) show ?thesis by auto
qed

definition wf_lib :: "'q qmap_ops \<Rightarrow> 'q xy_state \<Rightarrow> bool" where
  "wf_lib Q s \<longleftrightarrow> xy_inited s \<and> wf_tree s \<and> wf_index Q s \<and> wf_intern Q s \<and> wf_current s
     \<and> wf_modtab Q s \<and> mod_hd s \<noteq> None \<and> mod_by_region_hd s \<noteq> None \<and> sica_hd s \<noteq> None \<and> hook_id_hd s \<noteq> None"

lemma wf_libD:
  assumes "wf_lib Q s"
  shows "xy_inited s" "wf_tree s" "wf_index Q s" "wf_intern Q s" "wf_current s"
    "mod_hd s \<noteq> None" "mod_by_region_hd s \<noteq> None" "sica_hd s \<noteq> None" "hook_id_hd s \<noteq> None"
    "wf_modtab Q s"
  using assms by (simp_all add: wf_lib_def)

lemma quiet_boot: "qmap_laws Q \<Longrightarrow> quiet Q xy_boot"
  by (simp add: quiet_def xy_boot_def wf_intern_def path_hd_def qmap_simps)

lemma wf_tree_single:
  assumes "regions s = [p \<mapsto> e]" and "mods s = (\<lambda>_. None)" and "p < next_addr s"
    and "re_parent e = None" "children_head e = None" "mods_head e = None" "mods_tail e = None"
    and "re_plen e = 0"
  shows "wf_tree s"
proof -
  have "wf_parents s" using assms by (simp add: wf_parents_def)
  moreover have "wf_children s" using assms by (auto simp: wf_children_def region_parent_def)
  moreover have "mod_list s p []" using assms by (simp add: mod_list_def)
  then have "wf_mods s" using assms(1,2) by (auto simp: wf_mods_def)
  ultimately show ?thesis by (simp add: wf_tree_def)
qed

lemma bootstrap_ok:
  assumes Q: "qmap_laws Q" and q: "quiet Q s" and m: "\<And>s. e_malloc E s AllocRegion"
  shows "\<exists>s'. xy_runtime_bootstrap E Q s = Some (XY_OK, s') \<and> wf_lib Q s'
    \<and> xy_current_region_id s' = XY_REGION_ROOT"
proof -
  let ?root = "region_zero\<lparr>re_id := XY_REGION_ROOT, dispatch_gen := 1\<rparr> :: 'a xy_region_entry"
  let ?p = "next_addr s"
  let ?s = "s\<lparr>sica_hd := open_once Q (sica_hd s), hook_id_hd := open_once Q (hook_id_hd s),
      path_intern_hd := open_once Q (path_intern_hd s), mod_hd := Some (qmap_open Q),
      mod_by_region_hd := Some (mmap_open Q), region_hd := Some (qmap_open Q)\<rparr>"
  let ?t = "?s\<lparr>regions := [?p \<mapsto> ?root], next_addr := ?p + 1,
      region_hd := Some (qmap_put Q (qmap_open Q) (KId XY_REGION_ROOT) (VPtr ?p)),
      xy_current_region_entry := Some ?p, xy_inited := True\<rparr>"
  from q have s: "regions s = (\<lambda>_. None)" "mods s = (\<lambda>_. None)"
    "xy_current_region_id s = XY_REGION_ROOT" "wf_intern Q s" by (simp_all add: quiet_def)
  have "region_lookup Q XY_REGION_ROOT ?s = None"
    by (simp add: region_lookup_def qmap_simps [OF Q])
  then have "xy_runtime_bootstrap E Q s = Some (XY_OK, ?t)"
    using s m by (simp add: xy_runtime_bootstrap_def region_ensure_root_def alloc_region_def
        region_hd_put_def)
  moreover have "wf_tree ?t"
    by (rule wf_tree_single [of _ ?p ?root]) (simp_all add: s region_zero_def)
  moreover have "wf_index Q ?t"
    by (auto simp: wf_index_def qmap_simps [OF Q] region_zero_def split: if_splits)
  moreover have "path_hd Q ?t = path_hd Q s"
    by (simp add: path_hd_def open_once_def split: option.split)
  then have "wf_intern Q ?t" using s(4) by (auto simp: wf_intern_def intro: less_SucI)
  moreover have "wf_current ?t" by (simp add: wf_current_def s region_zero_def)
  moreover have "wf_modtab Q ?t" by (simp add: wf_modtab_def s qmap_simps [OF Q])
  ultimately show ?thesis
    by (intro exI [of _ ?t]) (auto simp: wf_lib_def s open_once_def split: option.split)
qed

text \<open>The first call of an API function brings the library up: from the state of program
  start (or after a shutdown) \<open>xy_runtime_ensure\<close> returns XY_OK, every invariant holds,
  and the current region is the root; a second call changes nothing.\<close>

lemma runtime_ensure_establishes:
  assumes "qmap_laws Q" and "quiet Q s" and "\<And>s. e_malloc E s AllocRegion"
  shows "\<exists>s'. xy_runtime_ensure E Q s = Some (XY_OK, s') \<and> wf_lib Q s'
    \<and> region_lookup Q XY_REGION_ROOT s' = xy_current_region_entry s'
    \<and> xy_runtime_ensure E Q s' = Some (XY_OK, s')"
proof -
  from assms(2) have "\<not> xy_inited s" by (simp add: quiet_def)
  with bootstrap_ok [OF assms(1,2,3)] obtain s' where s': "xy_runtime_ensure E Q s = Some (XY_OK, s')"
    "wf_lib Q s'" "xy_current_region_id s' = XY_REGION_ROOT"
    by (auto simp: xy_runtime_ensure_def)
  with region_lookup_iff [OF wf_libD(3) [OF s'(2)]] wf_libD(5) [OF s'(2)]
  have "region_lookup Q XY_REGION_ROOT s' = xy_current_region_entry s'"
    by (auto simp: wf_current_def)
  with s' show ?thesis by (auto simp: xy_runtime_ensure_def dest: wf_libD)
qed

section \<open>The example state\<close>

lemma demo_index: "wf_index alist_qmap demo"
proof -
  have h: "region_hd demo = Some [(KId 0, VPtr 1), (KId 0x4000000000000000, VPtr 2),
      (KId 0x8000000000000000, VPtr 3), (KId 0x5000000000000000, VPtr 4)]" by (simp add: demo_def)
  show ?thesis
    unfolding wf_index_def h alist_qmap_sel
  proof (rule exI, intro conjI allI impI, rule refl)
    fix p e assume e: "regions demo p = Some e"
    from demo_regions_cases [OF this] e
    show "map_of [(KId 0, VPtr 1), (KId 0x4000000000000000, VPtr 2), (KId 0x8000000000000000, VPtr 3),
        (KId 0x5000000000000000, VPtr 4)] (KId (re_id e)) = Some (VPtr p)"
      by (elim disjE) (auto simp: demo_region_def)
  next
    fix rid v assume "map_of [(KId 0, VPtr 1), (KId 0x4000000000000000, VPtr 2), (KId 0x8000000000000000, VPtr 3),
        (KId 0x5000000000000000, VPtr 4)] (KId rid) = Some v"
    then show "\<exists>p e. v = VPtr p \<and> regions demo p = Some e \<and> re_id e = rid"
      by (auto simp: demo_region_def split: if_splits)
  qed
qed

lemma demo_intern: "wf_intern alist_qmap demo"
  by (simp add: wf_intern_def demo_def xy_boot_def path_hd_def)

lemma demo_current: "wf_current demo"
  by (simp add: wf_current_def demo_def xy_boot_def XY_REGION_ROOT_def demo_region_def)

lemma demo_modtab: "wf_modtab alist_qmap demo"
proof -
  have "ctxs demo c \<noteq> None" if m: "mods demo m = Some e" and c: "me_ctx e = Some c" for m e c
    using demo_mods_cases [OF m] m c by (elim disjE) (auto simp: demo_mod_def demo_def)
  then show ?thesis by (simp add: wf_modtab_def demo_def)
qed

lemma demo_wf_lib: "wf_lib alist_qmap demo"
  using demo_wf demo_index demo_intern demo_current demo_modtab
  by (simp add: wf_lib_def) (simp add: demo_def xy_boot_def)

end
