(* ===== verification/Xy_Subtree.thy ===== *)
theory Xy_Subtree
  imports Xy_Example
begin

text \<open>
  What the loops over the region tree compute: the frame of the upward loops
  (\<open>same_tree\<close>), the depth-first list of a subtree's modules as a specification
  (\<open>dfs_mods\<close>), and the refinement: \<open>region_rebuild_subtree_mods\<close> stores exactly that
  list, which holds each module of the region and its descendants once.
\<close>

section \<open>Operations that leave the tree alone\<close>

definition rlinks :: "'q xy_region_entry \<Rightarrow> _" where
  "rlinks e = (re_parent e, children_head e, sibling_next e, mods_head e, mods_tail e, re_plen e)"

definition same_tree :: "'q xy_state \<Rightarrow> 'q xy_state \<Rightarrow> bool" where
  "same_tree s s' \<longleftrightarrow> (\<forall>p. map_option rlinks (regions s' p) = map_option rlinks (regions s p))
     \<and> mods s' = mods s \<and> next_addr s' = next_addr s"

lemma same_tree_refl [simp]: "same_tree s s"
  by (simp add: same_tree_def)

lemma same_tree_trans: "same_tree s t \<Longrightarrow> same_tree t u \<Longrightarrow> same_tree s u"
  by (simp add: same_tree_def)

lemma same_tree_region:
  assumes "same_tree s s'"
  shows "regions s' p = None \<longleftrightarrow> regions s p = None"
    and "regions s p = Some e \<Longrightarrow> \<exists>e'. regions s' p = Some e' \<and> rlinks e' = rlinks e"
proof -
  from assms have v: "map_option rlinks (regions s' p) = map_option rlinks (regions s p)"
    by (simp add: same_tree_def)
  show "regions s' p = None \<longleftrightarrow> regions s p = None"
    using arg_cong [OF v, of "\<lambda>x. x = None"] by simp
  show "\<exists>e'. regions s' p = Some e' \<and> rlinks e' = rlinks e" if "regions s p = Some e"
    using v that by (cases "regions s' p") auto
qed

lemma same_tree_map:
  assumes "same_tree s s'" and "\<And>e e'. rlinks e = rlinks e' \<Longrightarrow> g e = g e'"
  shows "map_option g (regions s' p) = map_option g (regions s p)"
proof (cases "regions s p")
  case None
  with same_tree_region(1) [OF assms(1)] show ?thesis by simp
next
  case (Some e)
  from same_tree_region(2) [OF assms(1) Some] obtain e' where
    "regions s' p = Some e'" "rlinks e' = rlinks e" by blast
  with Some assms(2) [OF this(2)] show ?thesis by simp
qed

lemma same_tree_links:
  assumes "same_tree s s'"
  shows "region_parent s' = region_parent s" "region_sibling s' = region_sibling s"
    "region_rank s' = region_rank s" "mods s' = mods s" "next_addr s' = next_addr s"
    "mod_next s' = mod_next s" "mod_prev s' = mod_prev s" "mod_region s' = mod_region s"
proof -
  show "region_parent s' = region_parent s" "region_sibling s' = region_sibling s"
    unfolding region_parent_def region_sibling_def fun_eq_iff
    using same_tree_map [OF assms, of re_parent] same_tree_map [OF assms, of sibling_next]
    by (simp_all add: rlinks_def)
  have a: "map_option (\<lambda>e. unat (re_plen e)) (regions s' p)
      = map_option (\<lambda>e. unat (re_plen e)) (regions s p)" for p
    by (rule same_tree_map [OF assms]) (simp add: rlinks_def)
  have b: "region_rank t p = (case map_option (\<lambda>e. unat (re_plen e)) (regions t p) of
      None \<Rightarrow> 0 | Some n \<Rightarrow> n)" for t :: "'q xy_state" and p
    by (cases "regions t p") (simp_all add: region_rank_def)
  show "region_rank s' = region_rank s" by (rule ext) (simp only: b a)
qed (use assms in \<open>auto simp: same_tree_def link_defs fun_eq_iff\<close>)

lemma same_tree_head:
  assumes "same_tree s s'" and "regions s p = Some e"
  obtains e' where "regions s' p = Some e'" "re_parent e' = re_parent e"
    "children_head e' = children_head e" "mods_head e' = mods_head e"
    "mods_tail e' = mods_tail e" "re_plen e' = re_plen e"
  using same_tree_region(2) [OF assms] by (auto simp: rlinks_def)

lemma same_tree_sym: "same_tree s s' \<Longrightarrow> same_tree s' s"
  by (simp add: same_tree_def)

lemma same_tree_parents:
  assumes "same_tree s s'" and "wf_parents s"
  shows "wf_parents s'"
  unfolding wf_parents_def
proof (intro allI impI)
  fix p e assume "regions s' p = Some e"
  with same_tree_sym [OF assms(1)] obtain e0 where e0: "regions s p = Some e0"
    "re_parent e0 = re_parent e" "re_plen e0 = re_plen e" by (rule same_tree_head)
  show "p < next_addr s' \<and> unat (re_plen e) \<le> 64 \<and>
      (\<forall>q. re_parent e = Some q \<longrightarrow> regions s' q \<noteq> None \<and> region_rank s' q < unat (re_plen e))"
    using wf_parentsD [OF assms(2) e0(1)] e0(2,3)
    by (simp add: same_tree_links [OF assms(1)] same_tree_region(1) [OF assms(1)])
qed

lemma same_tree_wf:
  assumes "same_tree s s'" and "wf_tree s"
  shows "wf_tree s'"
proof -
  note l = same_tree_links [OF assms(1)] and r = same_tree_region(1) [OF assms(1)]
  note h = same_tree_head [OF same_tree_sym [OF assms(1)]]
  have "wf_parents s'" by (rule same_tree_parents [OF assms(1) wf_tree_parts(1) [OF assms(2)]])
  moreover have "wf_children s'"
    using wf_tree_parts(2) [OF assms(2)] unfolding wf_children_def l by (metis h)
  moreover have "mod_list s' p ms" if "mod_list s p ms" for p ms
    using that unfolding mod_list_def l by (metis same_tree_head [OF assms(1)])
  then have "wf_mods s'"
    using wf_tree_parts(3) [OF assms(2)] unfolding wf_mods_def l r by blast
  ultimately show ?thesis by (simp add: wf_tree_def)
qed

lemma same_tree_ancestor: "same_tree s s' \<Longrightarrow> ancestor s' = ancestor s"
  by (simp add: ancestor_def up_chain_def same_tree_links fun_eq_iff)

section \<open>The upward loops\<close>

definition ancestor_upd :: "('q xy_region_entry \<Rightarrow> 'q xy_region_entry) \<Rightarrow> rptr option
    \<Rightarrow> 'q xy_state \<Rightarrow> (rptr \<Rightarrow> 'q xy_region_entry option)" where
  "ancestor_upd f entry s = (\<lambda>p. if (\<exists>r. entry = Some r \<and> ancestor s p r)
     then map_option f (regions s p) else regions s p)"

lemma for_ancestors_eq:
  assumes "wf_parents s" and "\<And>r. entry = Some r \<Longrightarrow> regions s r \<noteq> None"
  shows "for_ancestors f entry s = Some (s\<lparr>regions := ancestor_upd f entry s\<rparr>)"
proof (cases entry)
  case None
  then show ?thesis by (simp add: for_ancestors_def up_chain_def ancestor_upd_def)
next
  case (Some r)
  with assms obtain ps where ps: "up_chain s (Some r) = Some ps"
    "linked (region_parent s) (Some r) ps" using up_chain_total by blast
  have "fold (\<lambda>p h. heap_upd h p f) ps (regions s) = ancestor_upd f entry s"
    using Some ancestor_iff [OF assms(1) ps(2)]
    by (auto simp: ancestor_upd_def fun_eq_iff fold_heap_upd linked_distinct [OF ps(2)])
  with Some ps show ?thesis by (simp add: for_ancestors_def)
qed

lemma ancestor_upd_same_tree:
  "(\<And>e. rlinks (f e) = rlinks e) \<Longrightarrow> same_tree s (s\<lparr>regions := ancestor_upd f entry s\<rparr>)"
  by (simp add: same_tree_def ancestor_upd_def option.map_comp comp_def)

lemma rlinks_upd [simp]:
  "rlinks (set_deny_flag e) = rlinks e" "rlinks (bump_gen e) = rlinks e"
  "rlinks (set_dirty e) = rlinks e"
  by (simp_all add: rlinks_def set_deny_flag_def bump_gen_def set_dirty_def)

definition dirty_and_bump :: "'q xy_region_entry \<Rightarrow> 'q xy_region_entry" where
  "dirty_and_bump e = set_dirty (bump_gen e)"

lemma rlinks_dirty_and_bump [simp]: "rlinks (dirty_and_bump e) = rlinks e"
  by (simp add: dirty_and_bump_def)

lemma region_mark_subtree_dirty_eq:
  assumes "wf_parents s" and "\<And>r. entry = Some r \<Longrightarrow> regions s r \<noteq> None"
  shows "region_mark_subtree_dirty entry s
    = Some (s\<lparr>regions := ancestor_upd dirty_and_bump entry s\<rparr>)"
proof -
  let ?t = "s\<lparr>regions := ancestor_upd bump_gen entry s\<rparr>"
  have st: "same_tree s ?t" by (rule ancestor_upd_same_tree) simp
  have wf: "wf_parents ?t"
    by (rule same_tree_parents [OF st assms(1)])
  have live: "\<And>r. entry = Some r \<Longrightarrow> regions ?t r \<noteq> None"
    using assms(2) same_tree_region(1) [OF st] by blast
  have "ancestor_upd set_dirty entry ?t p = ancestor_upd dirty_and_bump entry s p" for p
  proof -
    have "ancestor_upd set_dirty entry ?t p = (if (\<exists>r. entry = Some r \<and> ancestor s p r)
        then map_option set_dirty (regions ?t p) else regions ?t p)"
      by (simp only: ancestor_upd_def [of set_dirty entry ?t] same_tree_ancestor [OF st])
    moreover have "regions ?t p = ancestor_upd bump_gen entry s p" by simp
    ultimately show ?thesis
      unfolding ancestor_upd_def [of _ _ s] dirty_and_bump_def [abs_def]
      by (cases "\<exists>r. entry = Some r \<and> ancestor s p r")
        (simp_all only: if_True if_False option.map_comp comp_def)
  qed
  then have "ancestor_upd set_dirty entry ?t = ancestor_upd dirty_and_bump entry s" ..
  then show ?thesis
    unfolding region_mark_subtree_dirty_def region_dispatch_gen_bump_def
    by (simp add: for_ancestors_eq [OF assms] for_ancestors_eq [OF wf live])
qed

section \<open>The specification of the subtree list\<close>

primrec dfs_mods :: "nat \<Rightarrow> 'q xy_state \<Rightarrow> rptr \<Rightarrow> mptr list option" where
  "dfs_mods 0 s node = None"
| "dfs_mods (Suc n) s node = (do {
     e \<leftarrow> regions s node;
     ms \<leftarrow> walk (next_addr s) (mod_next s) (mods_head e);
     cs \<leftarrow> walk (next_addr s) (region_sibling s) (children_head e);
     mss \<leftarrow> those (map (dfs_mods n s) cs);
     Some (ms @ concat mss) })"

definition region_mods :: "'q xy_state \<Rightarrow> rptr \<Rightarrow> mptr list" where
  "region_mods s p = (case regions s p of None \<Rightarrow> []
     | Some e \<Rightarrow> (case walk (next_addr s) (mod_next s) (mods_head e) of None \<Rightarrow> [] | Some ms \<Rightarrow> ms))"

definition region_children :: "'q xy_state \<Rightarrow> rptr \<Rightarrow> rptr list" where
  "region_children s p = (case regions s p of None \<Rightarrow> []
     | Some e \<Rightarrow> (case walk (next_addr s) (region_sibling s) (children_head e) of None \<Rightarrow> [] | Some cs \<Rightarrow> cs))"

lemma those_map_Some: "(\<And>x. x \<in> set xs \<Longrightarrow> f x = Some (g x)) \<Longrightarrow> those (map f xs) = Some (map g xs)"
  by (induction xs) auto

lemma those_Some_iff: "those ys = Some zs \<longleftrightarrow> ys = map Some zs"
  by (induction ys arbitrary: zs) (auto split: option.splits)

lemma dfs_mods_same_tree:
  assumes "same_tree s s'"
  shows "dfs_mods n s' = dfs_mods n s"
proof (induction n)
  case (Suc n)
  show ?case
  proof
    fix node
    show "dfs_mods (Suc n) s' node = dfs_mods (Suc n) s node"
    proof (cases "regions s node")
      case None
      then have "regions s' node = None" using same_tree_region(1) [OF assms] by blast
      with None show ?thesis by simp
    next
      case (Some e)
      with assms show ?thesis
        by (auto elim!: same_tree_head simp: same_tree_links [OF assms] Suc)
    qed
  qed
qed (simp add: fun_eq_iff)

lemma mod_list_walk:
  assumes "wf_mods s" and "mod_list s p ms"
  shows "region_mods s p = ms" "\<exists>e. regions s p = Some e \<and> walk (next_addr s) (mod_next s) (mods_head e) = Some ms"
proof -
  from assms(2) obtain e where e: "regions s p = Some e" "linked (mod_next s) (mods_head e) ms"
    by (auto simp: mod_list_def)
  have "walk (next_addr s) (mod_next s) (mods_head e) = Some ms"
    by (rule linked_bounded_walk [OF e(2)])
      (use assms(1) in \<open>auto simp: mod_next_def wf_mods_def\<close>)
  with e show "region_mods s p = ms"
    "\<exists>e. regions s p = Some e \<and> walk (next_addr s) (mod_next s) (mods_head e) = Some ms"
    by (simp_all add: region_mods_def)
qed

lemma region_mods_list: "wf_mods s \<Longrightarrow> regions s p \<noteq> None \<Longrightarrow> mod_list s p (region_mods s p)"
  using mod_list_walk(1) unfolding wf_mods_def by metis

lemma region_children_list:
  assumes "wf_parents s" "wf_children s" and "regions s p = Some e"
  shows "linked (region_sibling s) (children_head e) (region_children s p)"
    "walk (next_addr s) (region_sibling s) (children_head e) = Some (region_children s p)"
    "set (region_children s p) = {c. region_parent s c = Some (Some p)}"
proof -
  from assms(2,3) obtain cs where cs: "linked (region_sibling s) (children_head e) cs"
    "set cs = {c. region_parent s c = Some (Some p)}" unfolding wf_children_def by blast
  have w: "walk (next_addr s) (region_sibling s) (children_head e) = Some cs"
    by (rule linked_bounded_walk [OF cs(1)])
      (use wf_parentsD(1) [OF assms(1)] in \<open>auto simp: region_sibling_def\<close>)
  then have "region_children s p = cs" using assms(3) by (simp add: region_children_def)
  with cs w show "linked (region_sibling s) (children_head e) (region_children s p)"
    "walk (next_addr s) (region_sibling s) (children_head e) = Some (region_children s p)"
    "set (region_children s p) = {c. region_parent s c = Some (Some p)}" by simp_all
qed

text \<open>Unfolding the specification once, under the invariant.\<close>

lemma dfs_mods_Suc:
  assumes "wf_tree s" and "regions s p \<noteq> None"
  shows "dfs_mods (Suc n) s p = (do { mss \<leftarrow> those (map (dfs_mods n s) (region_children s p));
      Some (region_mods s p @ concat mss) })"
proof -
  note wf = wf_tree_parts [OF assms(1)]
  from assms(2) obtain e where e: "regions s p = Some e" by auto
  from region_mods_list [OF wf(3) assms(2)] mod_list_walk(2) [OF wf(3)] e
  have "walk (next_addr s) (mod_next s) (mods_head e) = Some (region_mods s p)" by force
  with region_children_list(2) [OF wf(1,2) e] e show ?thesis by simp
qed

lemma dfs_mods_total:
  assumes "wf_tree s"
  shows "regions s p \<noteq> None \<Longrightarrow> 65 \<le> n + region_rank s p \<Longrightarrow> dfs_mods n s p \<noteq> None"
proof (induction n arbitrary: p)
  case 0
  with assms show ?case using wf_parentsD(2) [OF wf_tree_parts(1) [OF assms]]
    by (fastforce simp: region_rank_def)
next
  case (Suc n)
  from Suc.prems(1) obtain e where e: "regions s p = Some e" by auto
  have "dfs_mods n s c \<noteq> None" if "c \<in> set (region_children s p)" for c
  proof -
    from that e have up: "region_parent s c = Some (Some p)"
      using region_children_list(3) [OF wf_tree_parts(1) [OF assms] wf_tree_parts(2) [OF assms] e] by simp
    then have "region_rank s p < region_rank s c"
      using region_forest.up_rank wf_tree_parts(1) [OF assms] by blast
    with Suc.prems up show ?thesis by (intro Suc.IH) (auto dest: region_parent_Some)
  qed
  then have "those (map (dfs_mods n s) (region_children s p))
      = Some (map (\<lambda>c. the (dfs_mods n s c)) (region_children s p))"
    by (intro those_map_Some) auto
  with assms Suc.prems show ?case by (simp add: dfs_mods_Suc del: dfs_mods.simps)
qed

lemma region_child_rank:
  assumes "wf_tree s" and "regions s p \<noteq> None" and "c \<in> set (region_children s p)"
  shows "region_parent s c = Some (Some p)" "region_rank s p < region_rank s c" "regions s c \<noteq> None"
proof -
  from assms(2) obtain e where e: "regions s p = Some e" by auto
  show up: "region_parent s c = Some (Some p)"
    using region_children_list(3) [OF wf_tree_parts(1) [OF assms(1)] wf_tree_parts(2) [OF assms(1)] e]
      assms(3) by simp
  show "region_rank s p < region_rank s c"
    using region_forest.up_rank [OF wf_tree_parts(1) [OF assms(1)] up] .
  show "regions s c \<noteq> None" using region_parent_Some [OF up] by auto
qed

lemma dfs_mods_unfold:
  assumes "wf_tree s" and "regions s p \<noteq> None" and "65 \<le> Suc n + region_rank s p"
  shows "dfs_mods (Suc n) s p
    = Some (region_mods s p @ concat (map (\<lambda>c. the (dfs_mods n s c)) (region_children s p)))"
proof -
  have "dfs_mods n s c \<noteq> None" if "c \<in> set (region_children s p)" for c
    using region_child_rank [OF assms(1,2) that] assms(3)
    by (intro dfs_mods_total [OF assms(1)]) auto
  then have "those (map (dfs_mods n s) (region_children s p))
      = Some (map (\<lambda>c. the (dfs_mods n s c)) (region_children s p))"
    by (intro those_map_Some) auto
  with assms(1,2) show ?thesis by (simp add: dfs_mods_Suc del: dfs_mods.simps)
qed

section \<open>The collection stores the specified list\<close>

definition appended :: "rptr \<Rightarrow> mptr list \<Rightarrow> 'q xy_state \<Rightarrow> 'q xy_state \<Rightarrow> bool" where
  "appended root l s s' \<longleftrightarrow> (\<exists>re cap. regions s root = Some re \<and>
     s' = s\<lparr>regions := (regions s)(root \<mapsto>
       re\<lparr>subtree_mods := subtree_mods re @ l, subtree_mods_cap := cap\<rparr>)\<rparr>)"

lemma appended_Nil: "regions s root \<noteq> None \<Longrightarrow> appended root [] s s"
proof -
  assume "regions s root \<noteq> None"
  then obtain re where re: "regions s root = Some re" by auto
  then have "s = s\<lparr>regions := (regions s)(root \<mapsto>
      re\<lparr>subtree_mods := subtree_mods re @ [], subtree_mods_cap := subtree_mods_cap re\<rparr>)\<rparr>"
    by (simp add: fun_upd_idem)
  with re show ?thesis unfolding appended_def by blast
qed

lemma appended_trans: "appended root l s t \<Longrightarrow> appended root k t u \<Longrightarrow> appended root (l @ k) s u"
proof -
  assume "appended root l s t" and tu: "appended root k t u"
  then obtain re c where re: "regions s root = Some re" and t: "t = s\<lparr>regions := (regions s)(root \<mapsto>
      re\<lparr>subtree_mods := subtree_mods re @ l, subtree_mods_cap := c\<rparr>)\<rparr>"
    by (auto simp: appended_def)
  from tu [unfolded appended_def t] obtain c' where "u = s\<lparr>regions := (regions s)(root \<mapsto>
      re\<lparr>subtree_mods := subtree_mods re @ l @ k, subtree_mods_cap := c'\<rparr>)\<rparr>" by auto
  with re show ?thesis unfolding appended_def by blast
qed

lemma appended_same_tree: "appended root l s s' \<Longrightarrow> same_tree s s'"
  by (auto simp: appended_def same_tree_def rlinks_def)

lemma appended_live: "appended root l s s' \<Longrightarrow> regions s' root \<noteq> None"
  by (auto simp: appended_def)

definition alloc_ok :: "'q env \<Rightarrow> bool" where
  "alloc_ok E \<longleftrightarrow> (\<forall>s r. e_malloc E s r)"

lemma push_appended:
  assumes "regions s root \<noteq> None"
  shows "\<exists>r s' l. region_subtree_mods_push E root me s = Some (r, s') \<and> appended root l s s'
     \<and> (r = 0 \<and> l = [me] \<or> r = - 1 \<and> l = [] \<and> \<not> alloc_ok E)"
proof -
  from assms obtain re where re: "regions s root = Some re" by auto
  have app: "appended root [me] s (s\<lparr>regions := (regions s)(root \<mapsto>
      re\<lparr>subtree_mods := subtree_mods re @ [me], subtree_mods_cap := cap\<rparr>)\<rparr>)" for cap
    using re by (auto simp: appended_def)
  have "re\<lparr>subtree_mods := subtree_mods re @ [me]\<rparr>
      = re\<lparr>subtree_mods := subtree_mods re @ [me], subtree_mods_cap := subtree_mods_cap re\<rparr>" by simp
  with app [of "subtree_mods_cap re"] app re appended_Nil [OF assms] show ?thesis
    by (auto simp: region_subtree_mods_push_def upd_region_Some Let_def alloc_ok_def)
qed

text \<open>A loop of appending bodies appends the concatenation, or a part of it when an
  allocation fails.\<close>

lemma for_each_appended:
  assumes "\<And>x t. x \<in> set xs \<Longrightarrow> same_tree s t \<Longrightarrow> regions t root \<noteq> None \<Longrightarrow>
      \<exists>r t' l. body x t = Some (r, t') \<and> appended root l t t'
        \<and> (r = 0 \<and> l = g x \<or> r < 0 \<and> \<not> alloc_ok E)"
    and "regions s root \<noteq> None"
  shows "\<exists>r s' l. for_each body xs s = Some (r, s') \<and> appended root l s s'
     \<and> (r = 0 \<and> l = concat (map g xs) \<or> r < 0 \<and> \<not> alloc_ok E)"
  using assms
proof (induction xs arbitrary: s)
  case Nil
  then show ?case using appended_Nil by fastforce
next
  case (Cons x xs)
  from Cons.prems(1) [of x s] Cons.prems(2) obtain r t l where
    b: "body x s = Some (r, t)" "appended root l s t"
      "r = 0 \<and> l = g x \<or> r < 0 \<and> \<not> alloc_ok E" by auto
  show ?case
  proof (cases "r < 0")
    case True
    with b show ?thesis by auto
  next
    case False
    note st = appended_same_tree [OF b(2)]
    have "\<exists>r s' k. for_each body xs t = Some (r, s') \<and> appended root k t s'
        \<and> (r = 0 \<and> k = concat (map g xs) \<or> r < 0 \<and> \<not> alloc_ok E)"
      by (rule Cons.IH [OF _ appended_live [OF b(2)]])
        (use Cons.prems(1) same_tree_trans [OF st] in auto)
    with False b show ?thesis by (auto dest: appended_trans)
  qed
qed

lemma region_collect_appended:
  assumes "wf_tree s" and "regions s root \<noteq> None" and "regions s node \<noteq> None"
    and "65 \<le> n + region_rank s node"
  shows "\<exists>r s' l. region_collect_subtree_mods n E root node s = Some (r, s') \<and> appended root l s s'
     \<and> (r = 0 \<and> Some l = dfs_mods n s node \<or> r < 0 \<and> \<not> alloc_ok E)"
  using assms
proof (induction n arbitrary: s node)
  case 0
  then show ?case using dfs_mods_total [of s node 0] by simp
next
  case (Suc n)
  note wf = wf_tree_parts [OF Suc.prems(1)]
  from Suc.prems(3) obtain e where e: "regions s node = Some e" by auto
  have w: "walk (next_addr s) (mod_next s) (mods_head e) = Some (region_mods s node)"
    using region_mods_list [OF wf(3) Suc.prems(3)] mod_list_walk(2) [OF wf(3)] e by force
  have push: "\<exists>r t' l. region_subtree_mods_push E root x t = Some (r, t') \<and> appended root l t t'
      \<and> (r = 0 \<and> l = [x] \<or> r < 0 \<and> \<not> alloc_ok E)" if "regions t root \<noteq> None" for x t
    using push_appended [OF that, of E x] by (metis neg_less_0_iff_less zero_less_one)
  from for_each_appended [of "region_mods s node" s root "region_subtree_mods_push E root"
      "\<lambda>m. [m]" E, OF push Suc.prems(2)]
  obtain r t l where own: "for_each (region_subtree_mods_push E root) (region_mods s node) s = Some (r, t)"
      "appended root l s t" "r = 0 \<and> l = region_mods s node \<or> r < 0 \<and> \<not> alloc_ok E"
    by auto
  show ?case
  proof (cases "r < 0")
    case True
    with e w own show ?thesis by auto
  next
    case False
    with own(3) have r0: "r = 0" "l = region_mods s node" by auto
    note st = appended_same_tree [OF own(2)]
    have wft: "wf_tree t" using same_tree_wf [OF st Suc.prems(1)] .
    from same_tree_head [OF st e] obtain e' where e': "regions t node = Some e'"
      "children_head e' = children_head e" .
    have rc: "region_children t node = region_children s node"
      using e e' by (simp add: region_children_def same_tree_links [OF st])
    have kids: "walk (next_addr t) (region_sibling t) (children_head e') = Some (region_children s node)"
      using region_children_list(2) [OF wf_tree_parts(1,2) [OF wft] e'(1)] rc by simp
    have "\<exists>r' u k. region_collect_subtree_mods n E root c v = Some (r', u) \<and> appended root k v u
        \<and> (r' = 0 \<and> k = the (dfs_mods n s c) \<or> r' < 0 \<and> \<not> alloc_ok E)"
      if "c \<in> set (region_children s node)" "same_tree t v" "regions v root \<noteq> None" for c v
    proof -
      note sv = same_tree_trans [OF st that(2)]
      note lt = region_child_rank(2) [OF Suc.prems(1,3) that(1)]
        and live = region_child_rank(3) [OF Suc.prems(1,3) that(1)]
      have "\<exists>r' u k. region_collect_subtree_mods n E root c v = Some (r', u) \<and> appended root k v u
          \<and> (r' = 0 \<and> Some k = dfs_mods n v c \<or> r' < 0 \<and> \<not> alloc_ok E)"
        using Suc.prems(4) lt live that(3)
        by (intro Suc.IH same_tree_wf [OF sv Suc.prems(1)])
          (simp_all add: same_tree_links [OF sv] same_tree_region(1) [OF sv])
      then show ?thesis unfolding dfs_mods_same_tree [OF sv] by (metis option.sel)
    qed
    from for_each_appended [where xs = "region_children s node"
        and g = "\<lambda>c. the (dfs_mods n s c)", OF this appended_live [OF own(2)]]
    obtain r' u k where
      sub: "for_each (region_collect_subtree_mods n E root) (region_children s node) t = Some (r', u)"
        "appended root k t u"
        "r' = 0 \<and> k = concat (map (\<lambda>c. the (dfs_mods n s c)) (region_children s node))
          \<or> r' < 0 \<and> \<not> alloc_ok E" by blast
    note dfs_mods_unfold [OF Suc.prems(1,3,4)]
    moreover have "region_collect_subtree_mods (Suc n) E root node s = Some (r', u)"
      using e w own(1) r0 e'(1) kids sub(1) by simp
    ultimately show ?thesis
      using appended_trans [OF own(2) sub(2)] sub(3) r0(2) by (metis (no_types, lifting))
  qed
qed

text \<open>The modules of a region's subtree, in dispatch order.\<close>

definition subtree_list :: "'q xy_state \<Rightarrow> rptr \<Rightarrow> mptr list" where
  "subtree_list s p = (case dfs_mods max_levels s p of None \<Rightarrow> [] | Some ms \<Rightarrow> ms)"

lemma subtree_list_same_tree: "same_tree s s' \<Longrightarrow> subtree_list s' = subtree_list s"
  by (simp add: subtree_list_def dfs_mods_same_tree fun_eq_iff)

lemma dfs_mods_subtree_list:
  "wf_tree s \<Longrightarrow> regions s p \<noteq> None \<Longrightarrow> dfs_mods max_levels s p = Some (subtree_list s p)"
  using dfs_mods_total [of s p max_levels]
  by (auto simp: subtree_list_def max_levels_def split: option.splits simp del: dfs_mods.simps)

lemma region_rebuild_ok:
  assumes "wf_tree s" and "regions s root = Some re"
  shows "\<exists>r s'. region_rebuild_subtree_mods E (Some root) s = Some (r, s') \<and> same_tree s s'
     \<and> (\<exists>l cap d. s' = s\<lparr>regions := (regions s)(root \<mapsto>
         re\<lparr>subtree_mods := l, subtree_mods_cap := cap, subtree_mods_dirty := d\<rparr>)\<rparr>
       \<and> (r = 0 \<and> l = subtree_list s root \<and> \<not> d \<or> r < 0 \<and> \<not> alloc_ok E \<and> d = subtree_mods_dirty re))"
proof -
  let ?t = "s\<lparr>regions := (regions s)(root \<mapsto> re\<lparr>subtree_mods := []\<rparr>)\<rparr>"
  have st: "same_tree s ?t" using assms(2) by (simp add: same_tree_def rlinks_def)
  have wf: "wf_tree ?t" and live: "regions ?t root \<noteq> None"
    using same_tree_wf [OF st assms(1)] by simp_all
  obtain r u l where c: "region_collect_subtree_mods max_levels E root root ?t = Some (r, u)"
    "appended root l ?t u" "r = 0 \<and> Some l = dfs_mods max_levels ?t root \<or> r < 0 \<and> \<not> alloc_ok E"
    using region_collect_appended [OF wf live live, of max_levels E] by (auto simp: max_levels_def)
  have spec: "dfs_mods max_levels ?t root = Some (subtree_list s root)"
    using dfs_mods_subtree_list [OF wf live] unfolding subtree_list_same_tree [OF st] .
  from c(2) obtain cap where u: "u = s\<lparr>regions := (regions s)(root \<mapsto>
      re\<lparr>subtree_mods := l, subtree_mods_cap := cap\<rparr>)\<rparr>"
    by (auto simp: appended_def)
  have st': "same_tree s (s\<lparr>regions := (regions s)(root \<mapsto>
      re\<lparr>subtree_mods := k, subtree_mods_cap := c, subtree_mods_dirty := d\<rparr>)\<rparr>)" for k c d
    using assms(2) by (simp add: same_tree_def rlinks_def)
  show ?thesis
  proof (cases "r < 0")
    case True
    then have "region_rebuild_subtree_mods E (Some root) s = Some (- 1, u)"
      using assms(2) c(1) by (simp add: region_rebuild_subtree_mods_def upd_region_Some)
    moreover have "u = s\<lparr>regions := (regions s)(root \<mapsto> re\<lparr>subtree_mods := l,
        subtree_mods_cap := cap, subtree_mods_dirty := subtree_mods_dirty re\<rparr>)\<rparr>" using u by simp
    ultimately show ?thesis using st' [where k = l and c = cap and d = "subtree_mods_dirty re"] True c(3)
      by (intro exI [of _ "- 1"] exI [of _ u]) (auto intro!: exI)
  next
    case False
    with c(3) spec have "r = 0" "l = subtree_list s root" by auto
    moreover have "region_rebuild_subtree_mods E (Some root) s = Some (0, s\<lparr>regions := (regions s)(root \<mapsto>
        re\<lparr>subtree_mods := l, subtree_mods_cap := cap, subtree_mods_dirty := False\<rparr>)\<rparr>)"
      using assms(2) c(1) False u
      by (simp add: region_rebuild_subtree_mods_def upd_region_Some)
    ultimately show ?thesis using st' [where k = l and c = cap and d = False] by blast
  qed
qed

section \<open>Which modules a subtree holds\<close>

lemma ancestor_down:
  assumes wf: "wf_tree s" and p: "regions s p \<noteq> None"
  shows "ancestor s p r \<longleftrightarrow> r = p \<or> (\<exists>c \<in> set (region_children s p). ancestor s c r)"
proof
  note wfp = wf_tree_parts(1) [OF wf]
  have kids: "set (region_children s p) = {c. region_parent s c = Some (Some p)}"
    using p region_children_list(3) [OF wfp wf_tree_parts(2) [OF wf]] by blast
  show "ancestor s p r" if "r = p \<or> (\<exists>c \<in> set (region_children s p). ancestor s c r)"
  proof -
    have "ancestor s p c" if "c \<in> set (region_children s p)" for c
      using that kids wfp p by (simp add: ancestor_step ancestor_refl)
    with that show ?thesis using ancestor_refl [OF wfp p] ancestor_trans [OF wfp] by blast
  qed
  show "r = p \<or> (\<exists>c \<in> set (region_children s p). ancestor s c r)" if "ancestor s p r"
    using that
  proof (induction "region_rank s r" arbitrary: r rule: less_induct)
    case less
    from ancestor_live(2) [OF less.prems] obtain q where q: "region_parent s r = Some q"
      by (cases "region_parent s r") auto
    show ?case
    proof (cases q)
      case None
      with q less.prems wfp show ?thesis by (simp add: ancestor_root)
    next
      case (Some q')
      with q have up: "region_parent s r = Some (Some q')" by simp
      show ?thesis
      proof (cases "r = p")
        case False
        with less.prems wfp up have "ancestor s p q'" by (simp add: ancestor_step)
        from less.hyps [OF region_forest.up_rank [OF wfp up] this]
        consider "q' = p" | c where "c \<in> set (region_children s p)" "ancestor s c q'" by blast
        then show ?thesis
        proof cases
          case 1
          with up kids ancestor_refl [OF wfp ancestor_live(2) [OF less.prems]] show ?thesis by auto
        next
          case 2
          then show ?thesis using ancestor_step [OF wfp up] by blast
        qed
      qed simp
    qed
  qed
qed

lemma distinct_concat_map:
  "distinct xs \<Longrightarrow> (\<And>x. x \<in> set xs \<Longrightarrow> distinct (f x)) \<Longrightarrow>
   (\<And>x y. x \<in> set xs \<Longrightarrow> y \<in> set xs \<Longrightarrow> x \<noteq> y \<Longrightarrow> set (f x) \<inter> set (f y) = {}) \<Longrightarrow>
   distinct (concat (map f xs))"
proof (induction xs)
  case (Cons x xs)
  then have "set (f x) \<inter> set (f y) = {}" if "y \<in> set xs" for y using that by auto
  with Cons show ?case by auto
qed simp

lemma region_mods_owner:
  "wf_mods s \<Longrightarrow> m \<in> set (region_mods s r) \<Longrightarrow> mod_region s m = Some (Some r) \<and> regions s r \<noteq> None"
  using region_mods_list [of s r] by (cases "regions s r") (auto simp: mod_list_def region_mods_def)

lemma region_mods_distinct: "wf_mods s \<Longrightarrow> distinct (region_mods s r)"
  using region_mods_list [of s r]
  by (cases "regions s r") (auto simp: mod_list_def region_mods_def dest: linked_distinct)

lemma dfs_mods_set:
  assumes wf: "wf_tree s"
  shows "regions s p \<noteq> None \<Longrightarrow> 65 \<le> n + region_rank s p \<Longrightarrow> dfs_mods n s p = Some l \<Longrightarrow>
    set l = {m. \<exists>r. ancestor s p r \<and> m \<in> set (region_mods s r)} \<and> distinct l"
proof (induction n arbitrary: p l)
  case (Suc n)
  note wfp = wf_tree_parts(1) [OF wf] and wfm = wf_tree_parts(3) [OF wf]
  let ?f = "\<lambda>c. the (dfs_mods n s c)"
  from Suc.prems dfs_mods_unfold [OF wf Suc.prems(1,2)]
  have l: "l = region_mods s p @ concat (map ?f (region_children s p))" by simp
  have IH: "set (?f c) = {m. \<exists>r. ancestor s c r \<and> m \<in> set (region_mods s r)} \<and> distinct (?f c)"
    if "c \<in> set (region_children s p)" for c
  proof -
    note c = region_child_rank [OF wf Suc.prems(1) that]
    have "65 \<le> n + region_rank s c" using c(2) Suc.prems(2) by simp
    from Suc.IH [OF c(3) this] dfs_mods_total [OF wf c(3) this] show ?thesis by auto
  qed
  have owner: "r = r'" if "m \<in> set (region_mods s r)" "m \<in> set (region_mods s r')" for m r r'
    using region_mods_owner [OF wfm that(1)] region_mods_owner [OF wfm that(2)] by simp
  have "set l = {m. \<exists>r. ancestor s p r \<and> m \<in> set (region_mods s r)}"
    unfolding l using IH by (auto simp: ancestor_down [OF wf Suc.prems(1)])
  moreover have "distinct (concat (map ?f (region_children s p)))"
  proof (rule distinct_concat_map)
    from Suc.prems(1) obtain e where "regions s p = Some e" by auto
    from region_children_list(1) [OF wfp wf_tree_parts(2) [OF wf] this]
    show "distinct (region_children s p)" by (rule linked_distinct)
    show "set (?f c) \<inter> set (?f d) = {}"
      if "c \<in> set (region_children s p)" "d \<in> set (region_children s p)" "c \<noteq> d" for c d
    proof (rule ccontr)
      assume "set (?f c) \<inter> set (?f d) \<noteq> {}"
      with IH [OF that(1)] IH [OF that(2)] obtain m r r' where
        "ancestor s c r" "m \<in> set (region_mods s r)" "ancestor s d r'" "m \<in> set (region_mods s r')"
        by blast
      with owner have "ancestor s c r" "ancestor s d r" by metis+
      with siblings_apart [OF wfp _ _ region_child_rank(1) [OF wf Suc.prems(1) that(1)]
          region_child_rank(1) [OF wf Suc.prems(1) that(2)]] that(3) show False by blast
    qed
  qed (use IH in blast)
  moreover have "set (region_mods s p) \<inter> set (?f c) = {}" if "c \<in> set (region_children s p)" for c
  proof -
    have "\<not> ancestor s c p"
      using region_child_rank(2) [OF wf Suc.prems(1) that] ancestor_rank [OF wfp, of c p] by auto
    with IH [OF that] owner show ?thesis by blast
  qed
  ultimately show ?case unfolding l using region_mods_distinct [OF wfm] by auto
qed (use dfs_mods_total wf in auto)

lemma subtree_list_set:
  assumes "wf_tree s" and "regions s p \<noteq> None"
  shows "set (subtree_list s p) = {m. \<exists>r. ancestor s p r \<and> m \<in> set (region_mods s r)}"
    and "distinct (subtree_list s p)"
  using dfs_mods_set [OF assms, of max_levels] dfs_mods_subtree_list [OF assms]
  by (simp_all add: max_levels_def)

text \<open>The list starts with the region's own modules, then its children's lists, the most
  recently claimed child first.\<close>

lemma subtree_list_order:
  assumes "wf_tree s" and "regions s p \<noteq> None"
  shows "subtree_list s p
    = region_mods s p @ concat (map (subtree_list s) (region_children s p))"
proof -
  have enough: "dfs_mods n s c = Some (subtree_list s c)"
    if "regions s c \<noteq> None" "65 \<le> n + region_rank s c" for n c
    using that
  proof (induction "65 - region_rank s c" arbitrary: c n rule: less_induct)
    case less
    have lt: "region_rank s c \<le> 64"
      using less.prems(1) region_forest.rank_bound [OF wf_tree_parts(1) [OF assms(1)]] by simp
    with less.prems obtain n' where n': "n = Suc n'" by (cases n) auto
    have kids: "dfs_mods k s d = Some (subtree_list s d)"
      if "d \<in> set (region_children s c)" "65 \<le> Suc k + region_rank s c" for d k
    proof -
      note d = region_child_rank [OF assms(1) less.prems(1) that(1)]
      show ?thesis using less.hyps [of d k] d lt that(2) by simp
    qed
    have "dfs_mods (Suc k) s c = Some (region_mods s c @
        concat (map (subtree_list s) (region_children s c)))"
      if "65 \<le> Suc k + region_rank s c" for k
      using dfs_mods_unfold [OF assms(1) less.prems(1) that] kids that
      by (simp cong: map_cong del: dfs_mods.simps)
    from this [of n'] this [of 64] less.prems(2) n' dfs_mods_subtree_list [OF assms(1) less.prems(1)]
    show ?case by (simp add: max_levels_def del: dfs_mods.simps)
  qed
  have "dfs_mods 64 s c = Some (subtree_list s c)" if "c \<in> set (region_children s p)" for c
    using region_child_rank [OF assms that] by (intro enough) auto
  with dfs_mods_unfold [OF assms, of 64] dfs_mods_subtree_list [OF assms]
  show ?thesis by (simp add: max_levels_def cong: map_cong del: dfs_mods.simps)
qed

end
