(* ===== verification/Xy_Modlist.thy ===== *)
theory Xy_Modlist
  imports Xy_Subtree
begin

text \<open>
  The doubly-linked module list of a region (src/libxylem.c, lines 620-674): detaching
  a module, inserting it after another and appending it.  The list fixes the order of
  dispatch.  The contract is the locale \<open>module_sequence\<close>: the pointer operations
  implement removal from and insertion into a list of modules; the clients that rely
  on dispatch order (load appends, reload restores a position) use only its lemmas.
\<close>

section \<open>Operations\<close>

text \<open>Taking \<open>m\<close> out of the chain of region \<open>r\<close> (the two \<open>if\<close>s of
  \<open>module_region_detach\<close>, repeated in \<open>mod_load_abort\<close>).\<close>

definition module_unlink :: "mptr \<Rightarrow> rptr \<Rightarrow> 'q xy_state \<Rightarrow> 'q xy_state option" where
  "module_unlink m r s = (do {
     me \<leftarrow> mods s m;
     s1 \<leftarrow> (case region_prev me of
         Some p \<Rightarrow> upd_mod p (\<lambda>e. e\<lparr>region_next := region_next me\<rparr>) s
       | None \<Rightarrow> upd_region r (\<lambda>e. e\<lparr>mods_head := region_next me\<rparr>) s);
     me1 \<leftarrow> mods s1 m;
     (case region_next me1 of
         Some n \<Rightarrow> upd_mod n (\<lambda>e. e\<lparr>region_prev := region_prev me1\<rparr>) s1
       | None \<Rightarrow> upd_region r (\<lambda>e. e\<lparr>mods_tail := region_prev me1\<rparr>) s1) })"

definition module_region_detach :: "mptr option \<Rightarrow> 'q xy_state \<Rightarrow> 'q xy_state option" where
  "module_region_detach entry s = (case entry of None \<Rightarrow> Some s
     | Some m \<Rightarrow> do {
         me \<leftarrow> mods s m;
         (case region_entry me of None \<Rightarrow> Some s
          | Some r \<Rightarrow> do {
              s1 \<leftarrow> module_unlink m r s;
              s2 \<leftarrow> upd_mod m (\<lambda>e. e\<lparr>region_prev := None, region_next := None\<rparr>) s1;
              region_mark_subtree_dirty (Some r) s2 }) })"

text \<open>The links written by \<open>module_region_insert_after\<close>.\<close>

definition module_link :: "rptr \<Rightarrow> mptr \<Rightarrow> mptr option \<Rightarrow> 'q xy_state \<Rightarrow> 'q xy_state option" where
  "module_link r m after s = (do {
     s1 \<leftarrow> upd_mod m (\<lambda>e. e\<lparr>region_entry := Some r\<rparr>) s;
     (case after of
        None \<Rightarrow> do {
          re \<leftarrow> regions s1 r;
          s2 \<leftarrow> upd_mod m (\<lambda>e. e\<lparr>region_prev := None, region_next := mods_head re\<rparr>) s1;
          s3 \<leftarrow> (case mods_head re of
              Some h \<Rightarrow> upd_mod h (\<lambda>e. e\<lparr>region_prev := Some m\<rparr>) s2
            | None \<Rightarrow> upd_region r (\<lambda>e. e\<lparr>mods_tail := Some m\<rparr>) s2);
          upd_region r (\<lambda>e. e\<lparr>mods_head := Some m\<rparr>) s3 }
      | Some a \<Rightarrow> do {
          ae \<leftarrow> mods s1 a;
          s2 \<leftarrow> upd_mod m (\<lambda>e. e\<lparr>region_prev := Some a, region_next := region_next ae\<rparr>) s1;
          s3 \<leftarrow> (case region_next ae of
              Some n \<Rightarrow> upd_mod n (\<lambda>e. e\<lparr>region_prev := Some m\<rparr>) s2
            | None \<Rightarrow> upd_region r (\<lambda>e. e\<lparr>mods_tail := Some m\<rparr>) s2);
          upd_mod a (\<lambda>e. e\<lparr>region_next := Some m\<rparr>) s3 }) })"

definition module_region_insert_after :: "rptr option \<Rightarrow> mptr option \<Rightarrow> mptr option \<Rightarrow> 'q xy_state
    \<Rightarrow> 'q xy_state option" where
  "module_region_insert_after re entry after s = (case (re, entry) of
       (Some r, Some m) \<Rightarrow> do {
         s1 \<leftarrow> module_link r m after s;
         region_mark_subtree_dirty (Some r) s1 }
     | _ \<Rightarrow> Some s)"

definition module_region_append :: "rptr option \<Rightarrow> mptr option \<Rightarrow> 'q xy_state
    \<Rightarrow> 'q xy_state option" where
  "module_region_append re entry s = (case re of None \<Rightarrow> Some s
     | Some r \<Rightarrow> do {
         e \<leftarrow> regions s r;
         module_region_insert_after re entry (mods_tail e) s })"

section \<open>What the link operations change\<close>

text \<open>\<open>mdata\<close> and \<open>rdata\<close> blank the list links: everything else is data they keep.\<close>

definition mdata :: "xy_mod_entry \<Rightarrow> xy_mod_entry" where
  "mdata e = e\<lparr>region_next := None, region_prev := None\<rparr>"

definition rdata :: "'q xy_region_entry \<Rightarrow> 'q xy_region_entry" where
  "rdata e = e\<lparr>mods_head := None, mods_tail := None\<rparr>"

definition relinked :: "'q xy_state \<Rightarrow> 'q xy_state \<Rightarrow> bool" where
  "relinked s s' \<longleftrightarrow> (\<forall>m. map_option mdata (mods s' m) = map_option mdata (mods s m))
     \<and> (\<forall>p. map_option rdata (regions s' p) = map_option rdata (regions s p))
     \<and> s' = s\<lparr>regions := regions s', mods := mods s'\<rparr>"

lemma relinked_mod:
  assumes "relinked s s'" and "mods s m = Some e"
  obtains e' where "mods s' m = Some e'" "mdata e' = mdata e"
  using assms unfolding relinked_def by (cases "mods s' m") (auto dest: spec [of _ m])

lemma relinked_region:
  assumes "relinked s s'" and "regions s p = Some e"
  obtains e' where "regions s' p = Some e'" "rdata e' = rdata e"
proof -
  from assms(1) have "map_option rdata (regions s' p) = map_option rdata (regions s p)"
    by (simp add: relinked_def)
  with assms(2) that show ?thesis by (cases "regions s' p") auto
qed

lemma rdata_fields:
  assumes "rdata e' = rdata e"
  shows "re_parent e' = re_parent e" "re_plen e' = re_plen e" "children_head e' = children_head e"
    "sibling_next e' = sibling_next e" "dispatch_gen e' = dispatch_gen e" "re_id e' = re_id e"
    "hook_dispatch e' = hook_dispatch e"
proof -
  from assms have "\<And>f. f (rdata e') = f (rdata e)" by simp
  from this [of re_parent] this [of children_head] this [of sibling_next]
  show "re_parent e' = re_parent e" "children_head e' = children_head e"
    "sibling_next e' = sibling_next e" by (simp_all add: rdata_def)
qed (use arg_cong [OF assms, of re_plen] arg_cong [OF assms, of dispatch_gen]
    arg_cong [OF assms, of re_id] arg_cong [OF assms, of hook_dispatch] in \<open>simp_all add: rdata_def\<close>)

lemma mdata_region: "mdata e' = mdata e \<Longrightarrow> region_entry e' = region_entry e"
  by (drule arg_cong [of _ _ region_entry]) (simp add: mdata_def)

lemma relinked_views:
  assumes "relinked s s'"
  shows "region_parent s' = region_parent s" "region_sibling s' = region_sibling s"
    "region_rank s' = region_rank s" "next_addr s' = next_addr s" "mod_region s' = mod_region s"
    "mods s' m = None \<longleftrightarrow> mods s m = None" "regions s' p = None \<longleftrightarrow> regions s p = None"
proof -
  have r: "map_option rdata (regions s' p) = map_option rdata (regions s p)" for p
    using assms by (simp add: relinked_def)
  have m: "map_option mdata (mods s' m) = map_option mdata (mods s m)" for m
    using assms by (simp add: relinked_def)
  have rcase: "(regions s' p = None \<and> regions s p = None) \<or>
      (\<exists>e e'. regions s' p = Some e' \<and> regions s p = Some e \<and> rdata e' = rdata e)" for p
    using r [of p] by (cases "regions s' p"; cases "regions s p") auto
  have mcase: "(mods s' m = None \<and> mods s m = None) \<or>
      (\<exists>e e'. mods s' m = Some e' \<and> mods s m = Some e \<and> mdata e' = mdata e)" for m
    using m [of m] by (cases "mods s' m"; cases "mods s m") auto
  show "region_parent s' = region_parent s"
  proof
    fix p show "region_parent s' p = region_parent s p"
      using rcase [of p] rdata_fields(1) by (auto simp: region_parent_def)
  qed
  show "region_sibling s' = region_sibling s"
  proof
    fix p show "region_sibling s' p = region_sibling s p"
      using rcase [of p] rdata_fields(4) by (auto simp: region_sibling_def)
  qed
  show "region_rank s' = region_rank s"
  proof
    fix p show "region_rank s' p = region_rank s p"
      using rcase [of p] by (elim disjE exE conjE) (simp_all add: region_rank_def, drule rdata_fields(2), simp)
  qed
  show "mod_region s' = mod_region s"
  proof
    fix m show "mod_region s' m = mod_region s m"
      using mcase [of m] by (elim disjE exE conjE) (simp_all add: mod_region_def, drule mdata_region, simp)
  qed
  show "mods s' m = None \<longleftrightarrow> mods s m = None" using mcase [of m] by auto
  show "regions s' p = None \<longleftrightarrow> regions s p = None" using rcase [of p] by auto
  have "next_addr s' = next_addr (s\<lparr>regions := regions s', mods := mods s'\<rparr>)"
    using assms unfolding relinked_def by metis
  then show "next_addr s' = next_addr s" by simp
qed

lemma relinked_parents:
  assumes "relinked s s'" and "wf_parents s"
  shows "wf_parents s'"
  unfolding wf_parents_def
proof (intro allI impI)
  fix p e assume e: "regions s' p = Some e"
  then have "regions s p \<noteq> None" using relinked_views(7) [OF assms(1), of p] by simp
  then obtain e0 where e0: "regions s p = Some e0" by auto
  with e have "rdata e = rdata e0" using relinked_region [OF assms(1) e0] by auto
  note f = rdata_fields [OF this]
  show "p < next_addr s' \<and> unat (re_plen e) \<le> 64 \<and>
      (\<forall>q. re_parent e = Some q \<longrightarrow> regions s' q \<noteq> None \<and> region_rank s' q < unat (re_plen e))"
    using wf_parentsD [OF assms(2) e0] f
    by (simp add: relinked_views [OF assms(1)])
qed

lemma relinked_children:
  assumes "relinked s s'" and "wf_children s"
  shows "wf_children s'"
  unfolding wf_children_def
proof (intro allI impI)
  fix p e assume e: "regions s' p = Some e"
  then have "regions s p \<noteq> None" using relinked_views(7) [OF assms(1), of p] by simp
  then obtain e0 where e0: "regions s p = Some e0" by auto
  with e have "rdata e = rdata e0" using relinked_region [OF assms(1) e0] by auto
  from rdata_fields(3) [OF this] assms(2) e0
  show "\<exists>cs. linked (region_sibling s') (children_head e) cs \<and> set cs = {c. region_parent s' c = Some (Some p)}"
    by (simp add: relinked_views [OF assms(1)] wf_children_def)
qed

lemma ancestor_cong:
  "region_parent s' = region_parent s \<Longrightarrow> next_addr s' = next_addr s \<Longrightarrow> ancestor s' = ancestor s"
  by (intro ext) (simp add: ancestor_def up_chain_def)

section \<open>Unlinking\<close>

lemma unlink_chain:
  assumes "linked nx p (as @ x # bs)" and "nx x = Some q"
  shows "linked (if as = [] then nx else nx(last as := Some q)) (if as = [] then q else p) (as @ bs)"
proof (cases as rule: rev_cases)
  case Nil
  with assms show ?thesis by auto
next
  case (snoc as' y)
  with assms linked_unlink [of nx p as' y x bs q] show ?thesis by simp
qed

lemma chain_next: "linked nx p (as @ x # bs) \<Longrightarrow> nx x = Some (if bs = [] then None else Some (hd bs))"
  by (induction as arbitrary: p) (auto dest: linked_start)

lemma module_unlink_views:
  assumes "mod_list s r (as @ m # bs)"
  shows "\<exists>s'. module_unlink m r s = Some s' \<and> relinked s s'
    \<and> mods s' m = mods s m
    \<and> mod_next s' = (if as = [] then mod_next s else (mod_next s)(last as := mod_next s m))
    \<and> mod_prev s' = (if bs = [] then mod_prev s else (mod_prev s)(hd bs := mod_prev s m))
    \<and> (\<forall>p. p \<noteq> r \<longrightarrow> regions s' p = regions s p)
    \<and> (\<exists>e e'. regions s r = Some e \<and> regions s' r = Some e'
        \<and> Some (mods_head e') = (if as = [] then mod_next s m else Some (mods_head e))
        \<and> Some (mods_tail e') = (if bs = [] then mod_prev s m else Some (mods_tail e)))"
proof -
  from assms obtain e where e: "regions s r = Some e"
    "linked (mod_next s) (mods_head e) (as @ m # bs)"
    "linked (mod_prev s) (mods_tail e) (rev bs @ m # rev as)" by (auto simp: mod_list_def)
  have d: "distinct (as @ m # bs)" using linked_distinct [OF e(2)] .
  have live: "\<exists>xe. mods s x = Some xe" if "x \<in> set (as @ m # bs)" for x
    using linked_live [OF e(2) that] by (auto simp: mod_next_def)
  from live [of m] obtain me where me: "mods s m = Some me" by auto
  have prev: "region_prev me = (if as = [] then None else Some (last as))"
    using chain_next [OF e(3)] me by (auto simp: mod_prev_def hd_rev)
  have nxt: "region_next me = (if bs = [] then None else Some (hd bs))"
    using chain_next [OF e(2)] me by (auto simp: mod_next_def)
  have as: "as \<noteq> [] \<Longrightarrow> \<exists>ye. mods s (last as) = Some ye" using live by simp
  have bs: "bs \<noteq> [] \<Longrightarrow> \<exists>ye. mods s (hd bs) = Some ye" using live by simp
  have ne: "as \<noteq> [] \<Longrightarrow> m \<noteq> last as" "bs \<noteq> [] \<Longrightarrow> m \<noteq> hd bs"
    "as \<noteq> [] \<Longrightarrow> bs \<noteq> [] \<Longrightarrow> last as \<noteq> hd bs"
    using d last_in_set [of as] hd_in_set [of bs] by (auto, metis disjoint_iff)
  show ?thesis
  proof (cases "as = []"; cases "bs = []")
    assume "as = []" "bs = []"
    with me prev nxt e(1) show ?thesis
      by (simp add: module_unlink_def heap_simps relinked_def rdata_def link_defs fun_eq_iff)
  next
    assume c: "as = []" "bs \<noteq> []"
    with bs obtain ye where "mods s (hd bs) = Some ye" by blast
    with c ne me prev nxt e(1) show ?thesis
      by (simp add: module_unlink_def heap_simps relinked_def rdata_def mdata_def link_defs fun_eq_iff)
  next
    assume c: "as \<noteq> []" "bs = []"
    with as obtain ye where "mods s (last as) = Some ye" by blast
    with c ne me prev nxt e(1) show ?thesis
      by (simp add: module_unlink_def heap_simps relinked_def rdata_def mdata_def link_defs fun_eq_iff)
  next
    assume c: "as \<noteq> []" "bs \<noteq> []"
    with as bs obtain ye ze where "mods s (last as) = Some ye" "mods s (hd bs) = Some ze" by blast
    with c ne me prev nxt e(1) show ?thesis
      by (simp add: module_unlink_def heap_simps relinked_def rdata_def mdata_def link_defs fun_eq_iff)
  qed
qed

lemma mod_list_unique: "mod_list s r ms \<Longrightarrow> mod_list s r ms' \<Longrightarrow> ms = ms'"
  by (auto simp: mod_list_def dest: linked_unique)

lemma mod_list_disjoint:
  "mod_list s r ms \<Longrightarrow> mod_list s r' ms' \<Longrightarrow> m \<in> set ms \<Longrightarrow> m \<in> set ms' \<Longrightarrow> r = r'"
  by (fastforce simp: mod_list_def)

lemma mod_list_distinct: "mod_list s r ms \<Longrightarrow> distinct ms"
  by (auto simp: mod_list_def dest: linked_distinct)

text \<open>A list that avoids the rewritten links survives.\<close>

lemma mod_list_other:
  assumes "mod_list s p ms" and "regions s' p = regions s p"
    and "\<And>x. x \<in> set ms \<Longrightarrow> mod_next s' x = mod_next s x \<and> mod_prev s' x = mod_prev s x
        \<and> mod_region s' x = mod_region s x"
  shows "mod_list s' p ms"
proof -
  from assms(1) obtain e where e: "regions s p = Some e" "linked (mod_next s) (mods_head e) ms"
    "linked (mod_prev s) (mods_tail e) (rev ms)" "\<forall>m \<in> set ms. mod_region s m = Some (Some p)"
    by (auto simp: mod_list_def)
  have "linked (mod_next s') (mods_head e) ms"
    using linked_cong [of ms "mod_next s'" "mod_next s"] assms(3) e(2) by simp
  moreover have "linked (mod_prev s') (mods_tail e) (rev ms)"
    using linked_cong [of "rev ms" "mod_prev s'" "mod_prev s"] assms(3) e(3) by simp
  ultimately show ?thesis using assms(2,3) e(1,4) by (simp add: mod_list_def)
qed

lemma module_unlink_ok:
  assumes "mod_list s r (as @ m # bs)"
  shows "\<exists>s'. module_unlink m r s = Some s' \<and> relinked s s' \<and> mods s' m = mods s m
    \<and> mod_list s' r (as @ bs) \<and> (\<forall>p ms. p \<noteq> r \<longrightarrow> mod_list s p ms \<longrightarrow> mod_list s' p ms)"
proof -
  from module_unlink_views [OF assms] obtain s' e e' where s': "module_unlink m r s = Some s'"
    "relinked s s'" "mods s' m = mods s m"
    "mod_next s' = (if as = [] then mod_next s else (mod_next s)(last as := mod_next s m))"
    "mod_prev s' = (if bs = [] then mod_prev s else (mod_prev s)(hd bs := mod_prev s m))"
    "\<forall>p. p \<noteq> r \<longrightarrow> regions s' p = regions s p"
    "regions s r = Some e" "regions s' r = Some e'"
    "Some (mods_head e') = (if as = [] then mod_next s m else Some (mods_head e))"
    "Some (mods_tail e') = (if bs = [] then mod_prev s m else Some (mods_tail e))"
    by blast
  from assms s'(7) have l: "linked (mod_next s) (mods_head e) (as @ m # bs)"
    "linked (mod_prev s) (mods_tail e) (rev bs @ m # rev as)"
    "\<forall>x \<in> set (as @ m # bs). mod_region s x = Some (Some r)" by (auto simp: mod_list_def)
  obtain q where q: "mod_next s m = Some q" using chain_next [OF l(1)] by blast
  obtain q' where q': "mod_prev s m = Some q'" using chain_next [OF l(2)] by blast
  have "linked (mod_next s') (mods_head e') (as @ bs)"
    using unlink_chain [OF l(1) q] s'(4,9) q by (auto split: if_splits)
  moreover have "linked (mod_prev s') (mods_tail e') (rev (as @ bs))"
    using unlink_chain [OF l(2) q'] s'(5,10) q' by (auto simp: last_rev split: if_splits)
  ultimately have own: "mod_list s' r (as @ bs)"
    using l(3) s'(8) by (simp add: mod_list_def relinked_views(5) [OF s'(2)])
  have "mod_list s' p ms" if "p \<noteq> r" "mod_list s p ms" for p ms
  proof (rule mod_list_other [OF that(2)])
    show "regions s' p = regions s p" using s'(6) that(1) by blast
    fix x assume "x \<in> set ms"
    then have "x \<notin> set (as @ m # bs)" using mod_list_disjoint [OF assms that(2)] that(1) by blast
    then have "as \<noteq> [] \<Longrightarrow> x \<noteq> last as" "bs \<noteq> [] \<Longrightarrow> x \<noteq> hd bs"
      using last_in_set [of as] hd_in_set [of bs] by auto
    then show "mod_next s' x = mod_next s x \<and> mod_prev s' x = mod_prev s x
        \<and> mod_region s' x = mod_region s x"
      using s'(4,5) relinked_views(5) [OF s'(2)] by auto
  qed
  with s' own show ?thesis by blast
qed

lemma mod_list_same_tree:
  assumes "same_tree s s'" and "mod_list s p ms"
  shows "mod_list s' p ms"
  using assms(2) unfolding mod_list_def same_tree_links [OF assms(1)]
  by (metis same_tree_head [OF assms(1)])

text \<open>A module that is in no list.\<close>

definition unlisted :: "'q xy_state \<Rightarrow> mptr \<Rightarrow> bool" where
  "unlisted s m \<longleftrightarrow> mods s m \<noteq> None \<and> (\<forall>p. m \<notin> set (region_mods s p))"

lemma unlisted_iff:
  "wf_mods s \<Longrightarrow> unlisted s m \<longleftrightarrow> mods s m \<noteq> None \<and> (\<forall>p ms. mod_list s p ms \<longrightarrow> m \<notin> set ms)"
  unfolding unlisted_def using region_mods_list mod_list_walk(1)
  by (metis region_mods_owner)

lemma wf_treeI_relinked:
  assumes "wf_tree s" and "relinked s s'"
    and "\<And>p. regions s p \<noteq> None \<Longrightarrow> \<exists>ms. mod_list s' p ms"
  shows "wf_tree s'"
proof -
  note wf = wf_tree_parts [OF assms(1)]
  have "wf_mods s'" unfolding wf_mods_def
    using wf(3) assms(3) relinked_views [OF assms(2)] by (auto simp: wf_mods_def)
  then show ?thesis
    using relinked_parents [OF assms(2) wf(1)] relinked_children [OF assms(2) wf(2)]
    by (simp add: wf_tree_def)
qed

lemma region_mods_eq_transfer:
  assumes "wf_mods s" "wf_mods s'" and "\<And>ms. mod_list s p ms \<Longrightarrow> mod_list s' p ms"
    and "regions s' p = None \<longleftrightarrow> regions s p = None"
  shows "region_mods s' p = region_mods s p"
proof (cases "regions s p = None")
  case True
  with assms(4) show ?thesis by (simp add: region_mods_def)
next
  case False
  from assms(3) [OF region_mods_list [OF assms(1) False]] mod_list_walk(1) [OF assms(2)]
  show ?thesis by blast
qed

section \<open>Linking\<close>

lemma link_chain:
  assumes "linked nx p (as @ bs)" and "x \<notin> set (as @ bs)"
  shows "linked (if as = [] then nx(x := Some p) else nx(last as := Some (Some x), x := nx (last as)))
      (if as = [] then Some x else p) (as @ x # bs)"
proof (cases as rule: rev_cases)
  case Nil
  with assms linked_link_head show ?thesis by fastforce
next
  case (snoc as' y)
  from assms(1) snoc have "nx y \<noteq> None" using linked_live [of nx p "as @ bs" y] by simp
  then obtain q where "nx y = Some q" by auto
  with assms snoc linked_link [of nx p as' y bs x q] show ?thesis by simp
qed

lemma chain_last_next: "linked nx p as \<Longrightarrow> as \<noteq> [] \<Longrightarrow> nx (last as) = Some None"
  by (cases as rule: rev_cases) (auto dest: linked_last)

lemma chain_mid_next:
  "linked nx p (as @ bs) \<Longrightarrow> as \<noteq> [] \<Longrightarrow> nx (last as) = Some (if bs = [] then None else Some (hd bs))"
  by (cases as rule: rev_cases) (auto dest: chain_next)

definition set_region_entry :: "rptr \<Rightarrow> mptr \<Rightarrow> 'q xy_state \<Rightarrow> 'q xy_state" where
  "set_region_entry r m s = s\<lparr>mods := heap_upd (mods s) m (\<lambda>e. e\<lparr>region_entry := Some r\<rparr>)\<rparr>"

lemma module_link_views:
  assumes "mod_list s r (as @ bs)" and "m \<notin> set (as @ bs)" and "mods s m \<noteq> None"
    and after: "after = (if as = [] then None else Some (last as))"
  shows "\<exists>s'. module_link r m after s = Some s' \<and> relinked (set_region_entry r m s) s'
    \<and> (\<forall>p. p \<noteq> r \<longrightarrow> regions s' p = regions s p)
    \<and> (\<exists>e e'. regions s r = Some e \<and> regions s' r = Some e'
        \<and> mods_head e' = (if as = [] then Some m else mods_head e)
        \<and> mods_tail e' = (if bs = [] then Some m else mods_tail e)
        \<and> mod_next s' = (if as = [] then (mod_next s)(m := Some (mods_head e))
             else (mod_next s)(last as := Some (Some m), m := mod_next s (last as)))
        \<and> mod_prev s' = (if bs = [] then (mod_prev s)(m := Some (mods_tail e))
             else (mod_prev s)(hd bs := Some (Some m), m := mod_prev s (hd bs))))"
proof -
  from assms obtain e where e: "regions s r = Some e"
    "linked (mod_next s) (mods_head e) (as @ bs)"
    "linked (mod_prev s) (mods_tail e) (rev bs @ rev as)" by (auto simp: mod_list_def)
  have d: "distinct (as @ bs)" using linked_distinct [OF e(2)] .
  from assms(3) obtain me where me: "mods s m = Some me" by auto
  have live: "\<exists>xe. mods s x = Some xe" if "x \<in> set (as @ bs)" for x
    using linked_live [OF e(2) that] by (auto simp: mod_next_def)
  have ne: "as \<noteq> [] \<Longrightarrow> m \<noteq> last as" "bs \<noteq> [] \<Longrightarrow> m \<noteq> hd bs"
    "as \<noteq> [] \<Longrightarrow> bs \<noteq> [] \<Longrightarrow> last as \<noteq> hd bs"
    using d assms(2) last_in_set [of as] hd_in_set [of bs] by (auto, metis disjoint_iff)
  have hd: "as = [] \<Longrightarrow> mods_head e = (if bs = [] then None else Some (hd bs))"
    using linked_start [OF e(2)] by simp
  have tl: "bs = [] \<Longrightarrow> mods_tail e = (if as = [] then None else Some (last as))"
    using linked_start [OF e(3)] by (simp add: hd_rev)
  have nx: "as \<noteq> [] \<Longrightarrow> mod_next s (last as) = Some (if bs = [] then None else Some (hd bs))"
    using chain_mid_next [OF e(2)] .
  have pv: "bs \<noteq> [] \<Longrightarrow> mod_prev s (hd bs) = Some (if as = [] then None else Some (last as))"
    using chain_mid_next [OF e(3)] by (simp add: last_rev hd_rev)
  show ?thesis
  proof (cases "as = []"; cases "bs = []")
    assume c: "as = []" "bs = []"
    with me hd tl e(1) after show ?thesis
      by (simp add: module_link_def heap_simps relinked_def rdata_def mdata_def link_defs fun_eq_iff
          set_region_entry_def)
  next
    assume c: "as = []" "bs \<noteq> []"
    with live obtain ye where y: "mods s (hd bs) = Some ye" by fastforce
    with c pv have "region_prev ye = None" by (simp add: mod_prev_def)
    with c y ne me hd tl e(1) after show ?thesis
      by (simp add: module_link_def heap_simps relinked_def rdata_def mdata_def link_defs fun_eq_iff
          set_region_entry_def)
  next
    assume c: "as \<noteq> []" "bs = []"
    with live obtain ye where y: "mods s (last as) = Some ye" by fastforce
    with c nx have "region_next ye = None" by (simp add: mod_next_def)
    with c y ne me hd tl e(1) after show ?thesis
      by (simp add: module_link_def heap_simps relinked_def rdata_def mdata_def link_defs fun_eq_iff
          set_region_entry_def)
  next
    assume c: "as \<noteq> []" "bs \<noteq> []"
    with live obtain ye ze where y: "mods s (last as) = Some ye" "mods s (hd bs) = Some ze" by fastforce
    with c nx pv have "region_next ye = Some (hd bs)" "region_prev ze = Some (last as)"
      by (simp_all add: mod_next_def mod_prev_def)
    with c y ne me e(1) after show ?thesis
      by (simp add: module_link_def heap_simps relinked_def rdata_def mdata_def link_defs fun_eq_iff
          set_region_entry_def)
  qed
qed

lemma module_link_ok:
  assumes "mod_list s r (as @ bs)" and "m \<notin> set (as @ bs)" and "mods s m \<noteq> None"
    and "after = (if as = [] then None else Some (last as))"
    and other: "\<And>p ms. mod_list s p ms \<Longrightarrow> m \<notin> set ms"
  shows "\<exists>s'. module_link r m after s = Some s' \<and> relinked (set_region_entry r m s) s'
    \<and> mod_list s' r (as @ m # bs) \<and> (\<forall>p ms. p \<noteq> r \<longrightarrow> mod_list s p ms \<longrightarrow> mod_list s' p ms)"
proof -
  from module_link_views [OF assms(1-4)] obtain s' e e' where
    s': "module_link r m after s = Some s'" "relinked (set_region_entry r m s) s'"
    "\<forall>p. p \<noteq> r \<longrightarrow> regions s' p = regions s p"
    and e: "regions s r = Some e" "regions s' r = Some e'"
    "mods_head e' = (if as = [] then Some m else mods_head e)"
    "mods_tail e' = (if bs = [] then Some m else mods_tail e)"
    and nx: "mod_next s' = (if as = [] then (mod_next s)(m := Some (mods_head e))
        else (mod_next s)(last as := Some (Some m), m := mod_next s (last as)))"
    and pv: "mod_prev s' = (if bs = [] then (mod_prev s)(m := Some (mods_tail e))
        else (mod_prev s)(hd bs := Some (Some m), m := mod_prev s (hd bs)))"
    by blast
  from assms(1) e(1) have l: "linked (mod_next s) (mods_head e) (as @ bs)"
    "linked (mod_prev s) (mods_tail e) (rev bs @ rev as)"
    "\<forall>x \<in> set (as @ bs). mod_region s x = Some (Some r)" by (auto simp: mod_list_def)
  have owner: "mod_region s' x = (if x = m then Some (Some r) else mod_region s x)" for x
    using assms(3) by (auto simp: relinked_views(5) [OF s'(2)] mod_region_def set_region_entry_def
        heap_upd_apply)
  have "linked (mod_next s') (mods_head e') (as @ m # bs)"
    using link_chain [OF l(1) assms(2)] unfolding nx e(3) by (simp split: if_splits)
  moreover have "linked (mod_prev s') (mods_tail e') (rev (as @ m # bs))"
    using link_chain [OF l(2), of m] assms(2) unfolding pv e(4) by (simp add: last_rev split: if_splits)
  ultimately have own: "mod_list s' r (as @ m # bs)"
    using l(3) e(2) owner by (auto simp: mod_list_def)
  have "mod_list s' p ms" if "p \<noteq> r" "mod_list s p ms" for p ms
  proof (rule mod_list_other [OF that(2)])
    show "regions s' p = regions s p" using s'(3) that(1) by blast
    fix x assume x: "x \<in> set ms"
    then have "x \<notin> set (as @ bs)" using mod_list_disjoint [OF assms(1) that(2)] that(1) by blast
    then have "as \<noteq> [] \<Longrightarrow> x \<noteq> last as" "bs \<noteq> [] \<Longrightarrow> x \<noteq> hd bs"
      using last_in_set [of as] hd_in_set [of bs] by auto
    moreover have "x \<noteq> m" using other [OF that(2)] x by blast
    ultimately show "mod_next s' x = mod_next s x \<and> mod_prev s' x = mod_prev s x
        \<and> mod_region s' x = mod_region s x"
      using nx pv owner by auto
  qed
  with s' own show ?thesis by blast
qed

section \<open>The operations under the invariant\<close>

text \<open>\<open>touched r s s'\<close>: apart from list links, the regions above and including \<open>r\<close> have been
  marked dirty and their generation bumped, and nothing else has changed.\<close>

definition touched :: "rptr \<Rightarrow> 'q xy_state \<Rightarrow> 'q xy_state \<Rightarrow> bool" where
  "touched r s s' \<longleftrightarrow>
     (\<forall>p. map_option rdata (regions s' p)
        = map_option (\<lambda>e. rdata (if ancestor s p r then dirty_and_bump e else e)) (regions s p))
     \<and> (\<forall>m. map_option mdata (mods s' m) = map_option mdata (mods s m))
     \<and> s' = s\<lparr>regions := regions s', mods := mods s'\<rparr>"

lemma rdata_dirty_and_bump: "rdata (dirty_and_bump e) = dirty_and_bump (rdata e)"
  by (simp add: rdata_def dirty_and_bump_def set_dirty_def bump_gen_def)

lemma relinked_trans: "relinked s t \<Longrightarrow> relinked t u \<Longrightarrow> relinked s u"
proof -
  assume st: "relinked s t" and tu: "relinked t u"
  have "u = s\<lparr>regions := regions u, mods := mods u\<rparr>"
  proof -
    have "u = t\<lparr>regions := regions u, mods := mods u\<rparr>" using tu by (simp add: relinked_def)
    also have "t = s\<lparr>regions := regions t, mods := mods t\<rparr>" using st by (simp add: relinked_def)
    finally show ?thesis by simp
  qed
  with st tu show ?thesis by (simp add: relinked_def)
qed

text \<open>The last step of both operations.\<close>

lemma state_shape:
  "s1 = s\<lparr>regions := R, mods := M\<rparr> \<Longrightarrow> s1\<lparr>regions := A\<rparr> = s\<lparr>regions := A, mods := M\<rparr>"
  by simp

lemma mark_after_relink:
  assumes "wf_tree s" and "relinked s s1" and "wf_tree s1" and "regions s r \<noteq> None"
  shows "\<exists>s'. region_mark_subtree_dirty (Some r) s1 = Some s' \<and> touched r s s'
    \<and> same_tree s1 s' \<and> wf_tree s'"
proof -
  note wf1 = wf_tree_parts(1) [OF assms(3)]
  have live: "regions s1 r \<noteq> None" using relinked_views(7) [OF assms(2), of r] assms(4) by simp
  have anc: "ancestor s1 = ancestor s"
    by (rule ancestor_cong) (simp_all add: relinked_views [OF assms(2)])
  let ?s' = "s1\<lparr>regions := ancestor_upd dirty_and_bump (Some r) s1\<rparr>"
  have "region_mark_subtree_dirty (Some r) s1 = Some ?s'"
    by (rule region_mark_subtree_dirty_eq [OF wf1]) (use live in simp)
  moreover have "touched r s ?s'"
  proof -
    have "map_option rdata (ancestor_upd dirty_and_bump (Some r) s1 p)
        = map_option (\<lambda>e. rdata (if ancestor s p r then dirty_and_bump e else e)) (regions s p)" for p
    proof -
      have "map_option rdata (regions s1 p) = map_option rdata (regions s p)"
        using assms(2) by (simp add: relinked_def)
      then show ?thesis
        unfolding ancestor_upd_def anc
        by (cases "regions s1 p"; cases "regions s p") (auto simp: rdata_dirty_and_bump)
    qed
    moreover have "s1 = s\<lparr>regions := regions s1, mods := mods s1\<rparr>"
      using assms(2) by (simp add: relinked_def)
    from state_shape [OF this]
    have "?s' = s\<lparr>regions := regions ?s', mods := mods ?s'\<rparr>" by simp
    ultimately show ?thesis using assms(2) by (simp add: touched_def relinked_def)
  qed
  moreover have "same_tree s1 ?s'" by (rule ancestor_upd_same_tree) simp
  ultimately show ?thesis using same_tree_wf assms(3) by blast
qed

theorem module_region_detach_ok:
  assumes wf: "wf_tree s" and m: "m \<in> set (region_mods s r)"
  shows "\<exists>s'. module_region_detach (Some m) s = Some s' \<and> wf_tree s' \<and> touched r s s'
    \<and> region_mods s' r = remove1 m (region_mods s r)
    \<and> (\<forall>p. p \<noteq> r \<longrightarrow> region_mods s' p = region_mods s p) \<and> unlisted s' m"
proof -
  note wfm = wf_tree_parts(3) [OF wf]
  from region_mods_owner [OF wfm m] have reg: "mod_region s m = Some (Some r)" and
    live: "regions s r \<noteq> None" by simp_all
  from region_mods_list [OF wfm live] have ml: "mod_list s r (region_mods s r)" .
  from m obtain as bs where split: "region_mods s r = as @ m # bs" by (meson split_list)
  have d: "distinct (as @ m # bs)" using mod_list_distinct [OF ml] split by simp
  from module_unlink_ok [OF ml [unfolded split]] obtain s1 where s1:
    "module_unlink m r s = Some s1" "relinked s s1" "mods s1 m = mods s m"
    "mod_list s1 r (as @ bs)" "\<forall>p ms. p \<noteq> r \<longrightarrow> mod_list s p ms \<longrightarrow> mod_list s1 p ms" by blast
  from reg obtain me where me: "mods s m = Some me" "region_entry me = Some r"
    by (auto simp: mod_region_def)
  let ?s2 = "s1\<lparr>mods := (mods s1)(m \<mapsto> me\<lparr>region_prev := None, region_next := None\<rparr>)\<rparr>"
  have rl12: "relinked s1 ?s2" using s1(3) me(1) by (simp add: relinked_def mdata_def)
  have rl: "relinked s ?s2" using relinked_trans [OF s1(2) rl12] .
  have keep: "mod_list ?s2 p ms" if "mod_list s1 p ms" "m \<notin> set ms" for p ms
    by (rule mod_list_other [OF that(1)]) (use that(2) in \<open>auto simp: link_defs\<close>)
  have own: "mod_list ?s2 r (as @ bs)" using keep [OF s1(4)] d by auto
  have others: "mod_list ?s2 p ms" if "p \<noteq> r" "mod_list s p ms" for p ms
  proof -
    have "m \<notin> set ms" using mod_list_disjoint [OF ml that(2) m] that(1) by blast
    with keep s1(5) that show ?thesis by blast
  qed
  have wf2: "wf_tree ?s2"
  proof (rule wf_treeI_relinked [OF wf rl])
    fix p assume "regions s p \<noteq> None"
    then show "\<exists>ms. mod_list ?s2 p ms"
      using own others region_mods_list [OF wfm] by (cases "p = r") blast+
  qed
  from mark_after_relink [OF wf rl wf2 live] obtain s' where s':
    "region_mark_subtree_dirty (Some r) ?s2 = Some s'" "touched r s s'" "same_tree ?s2 s'"
    "wf_tree s'" by blast
  have "module_region_detach (Some m) s = Some s'"
    using me s1(1,3) s'(1) by (simp add: module_region_detach_def upd_mod_def)
  moreover have own': "region_mods s' r = remove1 m (region_mods s r)"
    using mod_list_walk(1) [OF wf_tree_parts(3) [OF s'(4)] mod_list_same_tree [OF s'(3) own]] split d
    by (simp add: remove1_append)
  moreover have oth: "region_mods s' p = region_mods s p" if "p \<noteq> r" for p
  proof (rule region_mods_eq_transfer [OF wfm wf_tree_parts(3) [OF s'(4)]])
    show "mod_list s' p ms" if "mod_list s p ms" for ms
      using mod_list_same_tree [OF s'(3)] others [OF \<open>p \<noteq> r\<close> that] by blast
    show "regions s' p = None \<longleftrightarrow> regions s p = None"
      using same_tree_region(1) [OF s'(3), of p] relinked_views(7) [OF rl, of p] by simp
  qed
  moreover have "unlisted s' m"
  proof -
    have "mods s' m \<noteq> None" using same_tree_links(4) [OF s'(3)] by simp
    moreover have "m \<notin> set (region_mods s' p)" for p
      using own' oth [of p] d split m region_mods_owner [OF wfm, of m p] reg
      by (cases "p = r") (auto simp: remove1_append)
    ultimately show ?thesis by (simp add: unlisted_def)
  qed
  ultimately show ?thesis using s' by blast
qed

text \<open>Insertion into a list of modules: at the head, or right after an element.\<close>

fun insert_after :: "'a option \<Rightarrow> 'a \<Rightarrow> 'a list \<Rightarrow> 'a list" where
  "insert_after None m xs = m # xs"
| "insert_after (Some a) m [] = [m]"
| "insert_after (Some a) m (x # xs) = (if x = a then x # m # xs else x # insert_after (Some a) m xs)"

lemma insert_after_split:
  "a \<notin> set us \<Longrightarrow> insert_after (Some a) m (us @ a # vs) = us @ a # m # vs"
  by (induction us) auto

theorem module_region_insert_after_ok:
  assumes wf: "wf_tree s" and live: "regions s r \<noteq> None" and m: "unlisted s m"
    and a: "\<And>a. after = Some a \<Longrightarrow> a \<in> set (region_mods s r)"
  shows "\<exists>s'. module_region_insert_after (Some r) (Some m) after s = Some s' \<and> wf_tree s'
    \<and> touched r (set_region_entry r m s) s'
    \<and> region_mods s' r = insert_after after m (region_mods s r)
    \<and> (\<forall>p. p \<noteq> r \<longrightarrow> region_mods s' p = region_mods s p)"
proof -
  note wfm = wf_tree_parts(3) [OF wf]
  let ?s0 = "set_region_entry r m s"
  from region_mods_list [OF wfm live] have ml: "mod_list s r (region_mods s r)" .
  note d = mod_list_distinct [OF ml]
  obtain as bs where split: "region_mods s r = as @ bs"
    "after = (if as = [] then None else Some (last as))"
    "insert_after after m (region_mods s r) = as @ m # bs"
  proof (cases after)
    case None
    then show ?thesis using that [of "[]" "region_mods s r"] by simp
  next
    case (Some x)
    from split_list [OF a [OF Some]] obtain us vs where "region_mods s r = us @ x # vs" by blast
    with Some d that [of "us @ [x]" vs] show ?thesis by (simp add: insert_after_split)
  qed
  have notin: "m \<notin> set (as @ bs)" and lm: "mods s m \<noteq> None"
    and other: "\<And>p ms. mod_list s p ms \<Longrightarrow> m \<notin> set ms"
    using m ml unfolding unlisted_iff [OF wfm] split(1) by blast+
  obtain s1 where s1:
    "module_link r m after s = Some s1" "relinked ?s0 s1" "mod_list s1 r (as @ m # bs)"
    "\<forall>p ms. p \<noteq> r \<longrightarrow> mod_list s p ms \<longrightarrow> mod_list s1 p ms"
    using module_link_ok [OF ml [unfolded split(1)] notin lm split(2)] other by blast
  have wf0: "wf_tree ?s0"
  proof -
    have st: "regions ?s0 = regions s" "next_addr ?s0 = next_addr s"
      by (simp_all add: set_region_entry_def)
    have "mod_list ?s0 p ms" if "mod_list s p ms" for p ms
      by (rule mod_list_other [OF that])
        (use other [OF that] in \<open>auto simp: link_defs set_region_entry_def heap_upd_apply option.map_comp comp_def\<close>)
    moreover have "mods ?s0 x \<noteq> None \<longleftrightarrow> mods s x \<noteq> None" for x
      by (simp add: set_region_entry_def heap_upd_apply)
    ultimately have "wf_mods ?s0" using wfm unfolding wf_mods_def st by blast
    moreover have "region_sibling ?s0 = region_sibling s" "region_parent ?s0 = region_parent s"
      "region_rank ?s0 = region_rank s"
      by (simp_all add: region_sibling_def region_parent_def region_rank_def st fun_eq_iff)
    ultimately show ?thesis using wf
      by (simp add: wf_tree_def wf_parents_def wf_children_def st)
  qed
  have wf1: "wf_tree s1"
  proof (rule wf_treeI_relinked [OF wf0 s1(2)])
    fix p assume "regions ?s0 p \<noteq> None"
    then have "regions s p \<noteq> None" by (simp add: set_region_entry_def)
    then show "\<exists>ms. mod_list s1 p ms"
      using s1(3,4) region_mods_list [OF wfm] by (cases "p = r") blast+
  qed
  have live0: "regions ?s0 r \<noteq> None" using live by (simp add: set_region_entry_def)
  from mark_after_relink [OF wf0 s1(2) wf1 live0] obtain s' where s':
    "region_mark_subtree_dirty (Some r) s1 = Some s'" "touched r ?s0 s'" "same_tree s1 s'" "wf_tree s'"
    by blast
  have "module_region_insert_after (Some r) (Some m) after s = Some s'"
    using s1(1) s'(1) by (simp add: module_region_insert_after_def)
  moreover have "region_mods s' r = insert_after after m (region_mods s r)"
    using mod_list_walk(1) [OF wf_tree_parts(3) [OF s'(4)] mod_list_same_tree [OF s'(3) s1(3)]] split(3)
    by simp
  moreover have "region_mods s' p = region_mods s p" if "p \<noteq> r" for p
  proof (rule region_mods_eq_transfer [OF wfm wf_tree_parts(3) [OF s'(4)]])
    show "mod_list s' p ms" if "mod_list s p ms" for ms
      using mod_list_same_tree [OF s'(3)] s1(4) \<open>p \<noteq> r\<close> that by blast
    have "regions ?s0 p = regions s p" by (simp add: set_region_entry_def)
    then show "regions s' p = None \<longleftrightarrow> regions s p = None"
      using same_tree_region(1) [OF s'(3), of p] relinked_views(7) [OF s1(2), of p] by simp
  qed
  ultimately show ?thesis using s' by blast
qed

section \<open>The contract of the dispatch order\<close>

locale module_sequence =
  fixes ok :: "'s \<Rightarrow> bool"
    and home :: "'s \<Rightarrow> 'r \<Rightarrow> bool"
    and seq :: "'s \<Rightarrow> 'r \<Rightarrow> 'm list"
    and free :: "'s \<Rightarrow> 'm \<Rightarrow> bool"
    and detach :: "'m \<Rightarrow> 's \<Rightarrow> 's option"
    and insert :: "'r \<Rightarrow> 'm \<Rightarrow> 'm option \<Rightarrow> 's \<Rightarrow> 's option"
  assumes detach_law: "ok s \<Longrightarrow> m \<in> set (seq s r) \<Longrightarrow>
      \<exists>s'. detach m s = Some s' \<and> ok s' \<and> home s' r \<and> free s' m
        \<and> seq s' r = remove1 m (seq s r) \<and> (\<forall>p. p \<noteq> r \<longrightarrow> seq s' p = seq s p)"
    and insert_law: "ok s \<Longrightarrow> home s r \<Longrightarrow> free s m \<Longrightarrow> (\<forall>a. after = Some a \<longrightarrow> a \<in> set (seq s r)) \<Longrightarrow>
      \<exists>s'. insert r m after s = Some s' \<and> ok s' \<and> home s' r
        \<and> seq s' r = insert_after after m (seq s r) \<and> (\<forall>p. p \<noteq> r \<longrightarrow> seq s' p = seq s p)"
    and seq_distinct: "ok s \<Longrightarrow> distinct (seq s r)"
begin

definition last_of :: "'m list \<Rightarrow> 'm option" where
  "last_of ms = (if ms = [] then None else Some (last ms))"

lemma insert_after_last: "distinct ms \<Longrightarrow> insert_after (last_of ms) m ms = ms @ [m]"
  by (cases ms rule: rev_cases) (auto simp: last_of_def insert_after_split [of _ _ _ "[]"])

lemma insert_after_prefix: "distinct (as @ bs) \<Longrightarrow> insert_after (last_of as) m (as @ bs) = as @ m # bs"
  by (cases as rule: rev_cases) (auto simp: last_of_def insert_after_split)

text \<open>Inserting after the last module appends.\<close>

lemma append_last:
  assumes "ok s" "home s r" "free s m"
  shows "\<exists>s'. insert r m (last_of (seq s r)) s = Some s' \<and> ok s' \<and> home s' r
    \<and> seq s' r = seq s r @ [m] \<and> (\<forall>p. p \<noteq> r \<longrightarrow> seq s' p = seq s p)"
proof -
  have "\<forall>a. last_of (seq s r) = Some a \<longrightarrow> a \<in> set (seq s r)"
    by (simp add: last_of_def)
  from insert_law [OF assms this] insert_after_last [OF seq_distinct [OF assms(1)], of r m]
  show ?thesis by simp
qed

text \<open>A module detached and put back after its predecessor is where it was.\<close>

lemma reposition:
  assumes "ok s" and "seq s r = as @ m # bs"
  shows "\<exists>s1 s2. detach m s = Some s1 \<and> insert r m (last_of as) s1 = Some s2 \<and> ok s2
    \<and> (\<forall>p. seq s2 p = seq s p)"
proof -
  have d: "distinct (as @ m # bs)" using seq_distinct [OF assms(1), of r] assms(2) by simp
  have "m \<in> set (seq s r)" using assms(2) by simp
  from detach_law [OF assms(1) this] obtain s1 where s1: "detach m s = Some s1" "ok s1" "home s1 r"
    "free s1 m" "seq s1 r = remove1 m (seq s r)" "\<forall>p. p \<noteq> r \<longrightarrow> seq s1 p = seq s p" by blast
  have seq1: "seq s1 r = as @ bs" using s1(5) assms(2) d by (simp add: remove1_append)
  then have "\<forall>a. last_of as = Some a \<longrightarrow> a \<in> set (seq s1 r)" by (auto simp: last_of_def)
  from insert_law [OF s1(2,3,4) this] obtain s2 where s2: "insert r m (last_of as) s1 = Some s2"
    "ok s2" "seq s2 r = insert_after (last_of as) m (seq s1 r)"
    "\<forall>p. p \<noteq> r \<longrightarrow> seq s2 p = seq s1 p" by blast
  have "seq s2 r = seq s r" using s2(3) seq1 d assms(2) insert_after_prefix [of as bs m] by simp
  then have "\<forall>p. seq s2 p = seq s p" using s1(6) s2(4) by metis
  with s1(1) s2(1,2) show ?thesis by blast
qed

text \<open>A module moved from the end of the list to the place another one had: the reload.\<close>

lemma move_from_end:
  assumes "ok s" and "seq s r = as @ bs @ [m]"
  shows "\<exists>s1 s2. detach m s = Some s1 \<and> insert r m (last_of as) s1 = Some s2 \<and> ok s2
    \<and> seq s2 r = as @ m # bs \<and> (\<forall>p. p \<noteq> r \<longrightarrow> seq s2 p = seq s p)"
proof -
  have d: "distinct (as @ bs @ [m])" using seq_distinct [OF assms(1), of r] assms(2) by simp
  have "m \<in> set (seq s r)" using assms(2) by simp
  from detach_law [OF assms(1) this] obtain s1 where s1: "detach m s = Some s1" "ok s1" "home s1 r"
    "free s1 m" "seq s1 r = remove1 m (seq s r)" "\<forall>p. p \<noteq> r \<longrightarrow> seq s1 p = seq s p" by blast
  have seq1: "seq s1 r = as @ bs" using s1(5) assms(2) d by (simp add: remove1_append)
  then have "\<forall>a. last_of as = Some a \<longrightarrow> a \<in> set (seq s1 r)" by (auto simp: last_of_def)
  from insert_law [OF s1(2,3,4) this] obtain s2 where s2: "insert r m (last_of as) s1 = Some s2"
    "ok s2" "seq s2 r = insert_after (last_of as) m (seq s1 r)"
    "\<forall>p. p \<noteq> r \<longrightarrow> seq s2 p = seq s1 p" by blast
  have "seq s2 r = as @ m # bs" using s2(3) seq1 d insert_after_prefix [of as bs m] by simp
  with s1(1,6) s2 show ?thesis by metis
qed

end

definition live_region :: "'q xy_state \<Rightarrow> rptr \<Rightarrow> bool" where
  "live_region s r \<longleftrightarrow> regions s r \<noteq> None"

lemma touched_live: "touched r s s' \<Longrightarrow> regions s' p = None \<longleftrightarrow> regions s p = None"
proof -
  assume "touched r s s'"
  then have "map_option rdata (regions s' p)
      = map_option (\<lambda>e. rdata (if ancestor s p r then dirty_and_bump e else e)) (regions s p)"
    by (simp add: touched_def)
  then show ?thesis by (cases "regions s' p"; cases "regions s p") auto
qed

interpretation dispatch_order: module_sequence wf_tree live_region region_mods unlisted
  "\<lambda>m. module_region_detach (Some m)" "\<lambda>r m. module_region_insert_after (Some r) (Some m)"
proof
  fix s :: "'q xy_state" and m r
  assume wf: "wf_tree s" and m: "m \<in> set (region_mods s r)"
  have "live_region s r"
    using region_mods_owner [OF wf_tree_parts(3) [OF wf] m] by (simp add: live_region_def)
  then show "\<exists>s'. module_region_detach (Some m) s = Some s' \<and> wf_tree s' \<and> live_region s' r
      \<and> unlisted s' m \<and> region_mods s' r = remove1 m (region_mods s r)
      \<and> (\<forall>p. p \<noteq> r \<longrightarrow> region_mods s' p = region_mods s p)"
    using module_region_detach_ok [OF wf m] touched_live by (metis live_region_def)
next
  fix s :: "'q xy_state" and r m after
  assume wf: "wf_tree s" and live: "live_region s r" and m: "unlisted s m"
    and a: "\<forall>a. after = Some a \<longrightarrow> a \<in> set (region_mods s r)"
  have live0: "regions (set_region_entry r m s) r \<noteq> None"
    using live by (simp add: live_region_def set_region_entry_def)
  have a': "\<And>x. after = Some x \<Longrightarrow> x \<in> set (region_mods s r)" using a by simp
  from module_region_insert_after_ok [OF wf live [unfolded live_region_def] m a']
  obtain s' where s': "module_region_insert_after (Some r) (Some m) after s = Some s'" "wf_tree s'"
    "touched r (set_region_entry r m s) s'"
    "region_mods s' r = insert_after after m (region_mods s r)"
    "\<forall>p. p \<noteq> r \<longrightarrow> region_mods s' p = region_mods s p" by blast
  have "live_region s' r" using touched_live [OF s'(3), of r] live0 by (simp add: live_region_def)
  with s' show "\<exists>s'. module_region_insert_after (Some r) (Some m) after s = Some s' \<and> wf_tree s'
      \<and> live_region s' r \<and> region_mods s' r = insert_after after m (region_mods s r)
      \<and> (\<forall>p. p \<noteq> r \<longrightarrow> region_mods s' p = region_mods s p)"
    by blast
next
  fix s :: "'q xy_state" and r
  assume "wf_tree s"
  then show "distinct (region_mods s r)"
    using region_mods_distinct wf_tree_parts(3) by blast
qed

lemma mods_tail_last:
  assumes "wf_tree s" and "regions s r = Some e"
  shows "mods_tail e = dispatch_order.last_of (region_mods s r)"
proof -
  from region_mods_list [OF wf_tree_parts(3) [OF assms(1)], of r] assms(2)
  have "linked (mod_prev s) (mods_tail e) (rev (region_mods s r))" by (auto simp: mod_list_def)
  from linked_start [OF this] show ?thesis by (simp add: dispatch_order.last_of_def hd_rev)
qed

lemma module_region_append_ok:
  assumes "wf_tree s" and "regions s r \<noteq> None" and "unlisted s m"
  shows "\<exists>s'. module_region_append (Some r) (Some m) s = Some s' \<and> wf_tree s'
    \<and> region_mods s' r = region_mods s r @ [m] \<and> (\<forall>p. p \<noteq> r \<longrightarrow> region_mods s' p = region_mods s p)"
proof -
  from assms(2) obtain e where e: "regions s r = Some e" by auto
  from dispatch_order.append_last [OF assms(1) _ assms(3), of r] e mods_tail_last [OF assms(1) e]
  show ?thesis by (auto simp: module_region_append_def live_region_def)
qed

end
