(* ===== verification/Xy_Order.thy ===== *)
theory Xy_Order
  imports Xy_Modlist
begin

text \<open>
  The properties of the region tree and of the module lists: the upward loops reach
  exactly the ancestors, the subtree cache lists exactly the modules of the subtree in
  depth-first order, and the list operations keep the dispatch order.
\<close>

lemma demo_region_mods:
  "region_mods demo 1 = [5, 6]" "region_mods demo 2 = [7]" "region_mods demo 3 = []"
  "region_mods demo 4 = [8]"
  using mod_list_walk(1) [OF wf_tree_parts(3) [OF demo_wf]] demo_mod_lists by blast+

lemma demo_unlisted: "unlisted demo 9"
proof -
  have "mod_region demo 9 = Some None" by (simp add: mod_region_def demo_mod_def)
  then have "9 \<notin> set (region_mods demo p)" for p
    using region_mods_owner [OF wf_tree_parts(3) [OF demo_wf], of 9 p] by auto
  then show ?thesis by (simp add: unlisted_def)
qed

section \<open>Ancestors\<close>

text \<open>(C40) The ancestor chain of an existing region, built in an array of 65 entries, is
  never truncated: it starts at a region without a parent, ends at the region itself,
  each entry is the parent of the next one, and it holds exactly the ancestors.\<close>

theorem ancestor_chain_complete:
  assumes "wf_parents s" and "regions s r \<noteq> None"
  shows "\<exists>chain. region_ancestor_chain s (Some r) 65 = Some chain
    \<and> set chain = {a. ancestor s a r} \<and> distinct chain \<and> last chain = r
    \<and> region_parent s (hd chain) = Some None
    \<and> (\<forall>i. Suc i < length chain \<longrightarrow> region_parent s (chain ! Suc i) = Some (Some (chain ! i)))"
proof -
  from up_chain_total [OF assms] obtain ps where ps: "linked (region_parent s) (Some r) ps" by blast
  have len: "length ps \<le> 65" using region_forest.chain_short [OF assms(1) ps] by simp
  from ps obtain qs where qs: "ps = r # qs" by (auto dest: linked_hd)
  have "region_parent s (last ps) = Some None"
    using linked_last [of "region_parent s" "Some r" "butlast ps" "last ps"] ps qs
    by (simp only: append_butlast_last_id list.distinct not_False_eq_True)
  moreover have "region_parent s (rev ps ! Suc i) = Some (Some (rev ps ! i))"
    if "Suc i < length ps" for i
  proof -
    let ?j = "length ps - Suc (Suc i)"
    have split: "ps = take ?j ps @ ps ! ?j # ps ! Suc ?j # drop (Suc (Suc ?j)) ps"
      using that by (metis Cons_nth_drop_Suc Suc_diff_Suc Suc_lessD append_take_drop_id diff_less
          length_greater_0_conv less_Suc_eq_0_disj list.size(3) not_less_zero zero_less_Suc)
    then have "region_parent s (ps ! ?j) = Some (Some (ps ! Suc ?j))"
      using linked_mid ps by metis
    then show ?thesis using that by (simp add: rev_nth Suc_diff_Suc)
  qed
  ultimately show ?thesis
    using region_ancestor_chain_linked [OF ps len] ancestor_iff [OF assms(1) ps] qs
      linked_distinct [OF ps] hd_rev [of ps] last_rev [of ps]
    by (intro exI [of _ "rev ps"]) (simp, fastforce)
qed

theorem ancestor_chain_complete_witness:
  "\<exists>chain. region_ancestor_chain demo (Some 4) 65 = Some chain \<and> last chain = 4"
  using ancestor_chain_complete [OF demo_wf_parents, of 4] by auto

text \<open>Marking a region dirty succeeds on every well-formed tree and reaches exactly
  the region and its ancestors: their subtree caches become dirty and their dispatch
  generations move to the next value, which is never the value 0 of an unused cache;
  every other region and everything else stays as it was.\<close>

lemma mark_dirty_exact:
  assumes "wf_parents s" and "regions s r \<noteq> None"
  shows "\<exists>s'. region_mark_subtree_dirty (Some r) s = Some s'
    \<and> (\<forall>p e. regions s p = Some e \<longrightarrow> regions s' p = Some (if ancestor s p r
          then e\<lparr>dispatch_gen := next_gen (dispatch_gen e), subtree_mods_dirty := True\<rparr> else e))
    \<and> (\<forall>g. next_gen g \<noteq> 0 \<and> next_gen g \<noteq> g)
    \<and> s' = s\<lparr>regions := regions s'\<rparr>"
proof -
  have "region_mark_subtree_dirty (Some r) s
      = Some (s\<lparr>regions := ancestor_upd dirty_and_bump (Some r) s\<rparr>)"
    by (rule region_mark_subtree_dirty_eq [OF assms(1)]) (use assms(2) in simp)
  moreover have "next_gen g \<noteq> 0 \<and> next_gen g \<noteq> g" for g
    by (auto simp: next_gen_def Let_def)
  ultimately show ?thesis
    by (auto simp: ancestor_upd_def dirty_and_bump_def set_dirty_def bump_gen_def)
qed

section \<open>The subtree cache\<close>

text \<open>(C19) When no allocation fails, rebuilding the subtree cache of a region returns 0,
  clears its dirty bit, and leaves in \<open>subtree_mods\<close> exactly the modules of the region
  and of all regions below it, each once; nothing but the cache of that region changes.\<close>

theorem rebuild_collects_subtree:
  assumes "wf_tree s" and "regions s root = Some re" and "alloc_ok E"
  shows "\<exists>ms cap s'. region_rebuild_subtree_mods E (Some root) s = Some (0, s')
    \<and> s' = s\<lparr>regions := (regions s)(root \<mapsto>
        re\<lparr>subtree_mods := ms, subtree_mods_cap := cap, subtree_mods_dirty := False\<rparr>)\<rparr>
    \<and> set ms = {m. \<exists>r. ancestor s root r \<and> m \<in> set (region_mods s r)} \<and> distinct ms"
proof -
  from region_rebuild_ok [OF assms(1,2), of E] assms(3) obtain s' l cap where
    "region_rebuild_subtree_mods E (Some root) s = Some (0, s')"
    "s' = s\<lparr>regions := (regions s)(root \<mapsto>
        re\<lparr>subtree_mods := l, subtree_mods_cap := cap, subtree_mods_dirty := False\<rparr>)\<rparr>"
    "l = subtree_list s root" by auto
  with subtree_list_set [OF assms(1), of root] assms(2) show ?thesis by blast
qed

theorem rebuild_collects_subtree_witness:
  "\<exists>ms cap s'. region_rebuild_subtree_mods demo_env (Some 1) demo = Some (0, s')
    \<and> set ms = {m. \<exists>r. ancestor demo 1 r \<and> m \<in> set (region_mods demo r)}"
proof -
  have "alloc_ok demo_env" by (simp add: alloc_ok_def)
  from rebuild_collects_subtree [OF demo_wf demo_sel(1) this] show ?thesis by blast
qed

text \<open>The cached list is in depth-first order: the region's own modules in their list
  order, then the lists of its children, the most recently claimed child first.\<close>

lemma subtree_depth_first:
  assumes "wf_tree s" and "regions s root = Some re" and "alloc_ok E"
  shows "\<exists>s' re'. region_rebuild_subtree_mods E (Some root) s = Some (0, s')
    \<and> regions s' root = Some re'
    \<and> subtree_mods re' = region_mods s root @ concat (map (subtree_list s) (region_children s root))"
  using region_rebuild_ok [OF assms(1,2), of E] assms subtree_list_order [OF assms(1), of root]
  by auto

end
