(* ===== verification/Xy_Frame.thy ===== *)
theory Xy_Frame
  imports Xy_Boot Xy_Order
begin

text \<open>
  Frame facts: what the invariants depend on.  \<open>same_shape\<close> says that the links of the
  region tree and of the module lists are unchanged and that nothing has been
  deallocated from the allocator's range; operations on caches, flags, keys and
  contexts keep the shape, and with it \<open>wf_tree\<close>, the module lists and the ancestors.
\<close>

definition mlinks :: "xy_mod_entry \<Rightarrow> _" where
  "mlinks e = (region_next e, region_prev e, region_entry e)"

definition same_shape :: "'q xy_state \<Rightarrow> 'q xy_state \<Rightarrow> bool" where
  "same_shape s s' \<longleftrightarrow> (\<forall>p. map_option rlinks (regions s' p) = map_option rlinks (regions s p))
     \<and> (\<forall>m. map_option mlinks (mods s' m) = map_option mlinks (mods s m))
     \<and> next_addr s \<le> next_addr s'"

lemma same_shape_refl [simp]: "same_shape s s"
  by (simp add: same_shape_def)

lemma same_shape_trans: "same_shape s t \<Longrightarrow> same_shape t u \<Longrightarrow> same_shape s u"
  by (simp add: same_shape_def)

lemma same_tree_shape: "same_tree s s' \<Longrightarrow> same_shape s s'"
  by (simp add: same_tree_def same_shape_def)

lemma same_shapeI:
  assumes "regions s' = regions s" "mods s' = mods s" "next_addr s \<le> next_addr s'"
  shows "same_shape s s'"
  using assms by (simp add: same_shape_def)

lemma same_shape_mod_upd:
  assumes "mods s m = Some e" and "mlinks (f e) = mlinks e"
  shows "same_shape s (s\<lparr>mods := (mods s)(m \<mapsto> f e)\<rparr>)"
  using assms by (simp add: same_shape_def)

lemma same_shape_region_upd:
  assumes "regions s p = Some e" and "rlinks (f e) = rlinks e"
  shows "same_shape s (s\<lparr>regions := (regions s)(p \<mapsto> f e)\<rparr>)"
  using assms by (simp add: same_shape_def)

lemma map_option_factor:
  assumes "map_option f x = map_option f y" and "\<And>a b. f a = f b \<Longrightarrow> g a = g b"
  shows "map_option g x = map_option g y"
  using assms(1) by (cases x; cases y) (auto intro: assms(2))

lemma same_shape_links:
  assumes "same_shape s s'"
  shows "region_parent s' = region_parent s" "region_sibling s' = region_sibling s"
    "region_rank s' = region_rank s" "mod_next s' = mod_next s" "mod_prev s' = mod_prev s"
    "mod_region s' = mod_region s" "next_addr s \<le> next_addr s'"
proof -
  from assms have r: "\<And>p. map_option rlinks (regions s' p) = map_option rlinks (regions s p)"
    and m: "\<And>m. map_option mlinks (mods s' m) = map_option mlinks (mods s m)"
    and n: "next_addr s \<le> next_addr s'" by (simp_all add: same_shape_def)
  show "next_addr s \<le> next_addr s'" by (rule n)
  show "region_parent s' = region_parent s" "region_sibling s' = region_sibling s"
    unfolding region_parent_def region_sibling_def fun_eq_iff
    by (auto intro!: map_option_factor [OF r] simp: rlinks_def)
  have "map_option (\<lambda>e. unat (re_plen e)) (regions s' p) = map_option (\<lambda>e. unat (re_plen e)) (regions s p)" for p
    by (rule map_option_factor [OF r]) (simp add: rlinks_def)
  then show "region_rank s' = region_rank s"
    unfolding region_rank_def fun_eq_iff
    by (metis (no_types, lifting) map_option_case option.case_eq_if option.map_disc_iff option.map_sel)
  show "mod_next s' = mod_next s" "mod_prev s' = mod_prev s" "mod_region s' = mod_region s"
    unfolding mod_next_def mod_prev_def mod_region_def fun_eq_iff
    by (auto intro!: map_option_factor [OF m] simp: mlinks_def)
qed

lemma same_shape_live:
  assumes "same_shape s s'"
  shows "regions s' p = None \<longleftrightarrow> regions s p = None" "mods s' m = None \<longleftrightarrow> mods s m = None"
proof -
  from assms have "map_option rlinks (regions s' p) = map_option rlinks (regions s p)"
    "map_option mlinks (mods s' m) = map_option mlinks (mods s m)" by (simp_all add: same_shape_def)
  then show "regions s' p = None \<longleftrightarrow> regions s p = None" "mods s' m = None \<longleftrightarrow> mods s m = None"
    by (auto simp flip: None_eq_map_option_iff)
qed

lemma same_shape_region:
  assumes "same_shape s s'" and "regions s p = Some e"
  obtains e' where "regions s' p = Some e'" "rlinks e' = rlinks e"
  using assms unfolding same_shape_def by (cases "regions s' p") (auto dest: spec [of _ p])

lemma same_shape_mod_list:
  assumes "same_shape s s'" and "mod_list s p ms"
  shows "mod_list s' p ms"
proof -
  from assms(2) obtain e where e: "regions s p = Some e" unfolding mod_list_def by blast
  from same_shape_region [OF assms(1) e] obtain e' where
    "regions s' p = Some e'" "rlinks e' = rlinks e" .
  with assms(2) e same_shape_links [OF assms(1)] show ?thesis
    by (auto simp: mod_list_def rlinks_def)
qed

lemma same_shape_wf:
  assumes "same_shape s s'" and "wf_tree s"
    and "\<And>p. regions s' p \<noteq> None \<Longrightarrow> p < next_addr s'" and "\<And>m. mods s' m \<noteq> None \<Longrightarrow> m < next_addr s'"
  shows "wf_tree s'"
proof -
  note l = same_shape_links [OF assms(1)] and live = same_shape_live [OF assms(1)]
  have pre: "\<exists>e0. regions s p = Some e0 \<and> rlinks e = rlinks e0" if "regions s' p = Some e" for p e
  proof -
    from that live(1) [of p] obtain e0 where e0: "regions s p = Some e0" by auto
    from same_shape_region [OF assms(1) e0] that e0 show ?thesis by auto
  qed
  have "wf_parents s'"
    unfolding wf_parents_def
  proof (intro allI impI)
    fix p e assume e: "regions s' p = Some e"
    from pre [OF e] obtain e0 where e0: "regions s p = Some e0" "rlinks e = rlinks e0" by blast
    from wf_parentsD [OF wf_tree_parts(1) [OF assms(2)] e0(1)] e0(2) assms(3) [of p] e
    show "p < next_addr s' \<and> unat (re_plen e) \<le> 64 \<and>
        (\<forall>q. re_parent e = Some q \<longrightarrow> regions s' q \<noteq> None \<and> region_rank s' q < unat (re_plen e))"
      by (simp add: rlinks_def l live)
  qed
  moreover have "wf_children s'"
    unfolding wf_children_def l
  proof (intro allI impI)
    fix p e assume "regions s' p = Some e"
    from pre [OF this] obtain e0 where e0: "regions s p = Some e0" "rlinks e = rlinks e0" by blast
    with wf_tree_parts(2) [OF assms(2)] show "\<exists>cs. linked (region_sibling s) (children_head e) cs
        \<and> set cs = {c. region_parent s c = Some (Some p)}"
      by (simp add: wf_children_def rlinks_def)
  qed
  moreover have "wf_mods s'"
    unfolding wf_mods_def
  proof (intro conjI allI impI)
    fix p assume "regions s' p \<noteq> None"
    then have "regions s p \<noteq> None" by (simp add: live)
    from same_shape_mod_list [OF assms(1) region_mods_list [OF wf_tree_parts(3) [OF assms(2)] this]]
    show "\<exists>ms. mod_list s' p ms" ..
  qed (use assms(4) in blast)
  ultimately show ?thesis by (simp add: wf_tree_def)
qed

lemma same_shape_wf':
  assumes "same_shape s s'" and "wf_tree s"
  shows "wf_tree s'"
proof (rule same_shape_wf [OF assms])
  note n = same_shape_links(7) [OF assms(1)] and live = same_shape_live [OF assms(1)]
  show "p < next_addr s'" if "regions s' p \<noteq> None" for p
    using that live wf_parentsD(1) [OF wf_tree_parts(1) [OF assms(2)]] n by (metis not_Some_eq order_less_le_trans)
  show "m < next_addr s'" if "mods s' m \<noteq> None" for m
    using that live wf_tree_parts(3) [OF assms(2)] n unfolding wf_mods_def by (metis order_less_le_trans)
qed

lemma same_shape_region_mods:
  assumes "same_shape s s'" and "wf_tree s"
  shows "region_mods s' p = region_mods s p"
proof (rule region_mods_eq_transfer [OF wf_tree_parts(3) [OF assms(2)]
      wf_tree_parts(3) [OF same_shape_wf' [OF assms]]])
  show "mod_list s' p ms" if "mod_list s p ms" for ms using same_shape_mod_list [OF assms(1) that] .
  show "regions s' p = None \<longleftrightarrow> regions s p = None" using same_shape_live(1) [OF assms(1)] .
qed

lemma same_shape_ancestor:
  assumes "same_shape s s'" and "wf_tree s"
  shows "ancestor s' a r \<longleftrightarrow> ancestor s a r"
proof (cases "regions s r")
  case None
  then show ?thesis using same_shape_live(1) [OF assms(1), of r] ancestor_live by blast
next
  case (Some e)
  note wf = wf_tree_parts(1) [OF assms(2)] wf_tree_parts(1) [OF same_shape_wf' [OF assms]]
  from Some up_chain_total [OF wf(1), of r] obtain ps where
    ps: "linked (region_parent s) (Some r) ps" by auto
  then have "linked (region_parent s') (Some r) ps" by (simp add: same_shape_links(1) [OF assms(1)])
  with ps show ?thesis using ancestor_iff wf by metis
qed

section \<open>The tables\<close>

lemma wf_index_frame:
  assumes "wf_index Q s" and "region_hd s' = region_hd s"
    and "\<And>p. map_option re_id (regions s' p) = map_option re_id (regions s p)"
  shows "wf_index Q s'"
proof -
  have pre: "\<exists>e'. regions s p = Some e' \<and> re_id e' = re_id e" if "regions s' p = Some e" for p e
    using assms(3) [of p] that by (cases "regions s p") auto
  have forth: "\<exists>e'. regions s' p = Some e' \<and> re_id e' = re_id e" if "regions s p = Some e" for p e
    using assms(3) [of p] that by (cases "regions s' p") auto
  from assms(1) obtain h where h: "region_hd s = Some h"
    "\<And>p e. regions s p = Some e \<Longrightarrow> qmap_get Q h (KId (re_id e)) = Some (VPtr p)"
    "\<And>rid v. qmap_get Q h (KId rid) = Some v \<Longrightarrow>
      \<exists>p e. v = VPtr p \<and> regions s p = Some e \<and> re_id e = rid"
    unfolding wf_index_def by blast
  show ?thesis
    unfolding wf_index_def assms(2) h(1)
  proof (rule exI, intro conjI allI impI, rule refl)
    fix p e assume "regions s' p = Some e"
    then show "qmap_get Q h (KId (re_id e)) = Some (VPtr p)" using pre h(2) by fastforce
  next
    fix rid v assume "qmap_get Q h (KId rid) = Some v"
    from h(3) [OF this] obtain p e where p: "v = VPtr p" "regions s p = Some e" "re_id e = rid" by blast
    from forth [OF p(2)] p show "\<exists>p e. v = VPtr p \<and> regions s' p = Some e \<and> re_id e = rid" by blast
  qed
qed

lemma wf_intern_frame:
  "wf_intern Q s \<Longrightarrow> strs s' = strs s \<Longrightarrow> path_intern_hd s' = path_intern_hd s \<Longrightarrow>
     next_addr s \<le> next_addr s' \<Longrightarrow> wf_intern Q s'"
  unfolding wf_intern_def path_hd_def by (auto intro: order_less_le_trans)

lemma wf_current_frame:
  assumes "wf_current s" and "xy_current_region_entry s' = xy_current_region_entry s"
    and "xy_current_region_id s' = xy_current_region_id s"
    and "\<And>p. map_option re_id (regions s' p) = map_option re_id (regions s p)"
  shows "wf_current s'"
proof -
  from assms(1) obtain p e where p: "xy_current_region_entry s = Some p" "regions s p = Some e"
    "re_id e = xy_current_region_id s" unfolding wf_current_def by blast
  with assms(4) [of p] show ?thesis using assms(2,3) by (cases "regions s' p") (auto simp: wf_current_def)
qed

definition mident :: "xy_mod_entry \<Rightarrow> _" where
  "mident e = (me_mod_key e, me_ctx e)"

lemma wf_modtab_frame:
  assumes "wf_modtab Q s" and "mod_hd s' = mod_hd s"
    and m: "\<And>m. map_option mident (mods s' m) = map_option mident (mods s m)"
    and c: "\<And>c. ctxs s c \<noteq> None \<Longrightarrow> ctxs s' c \<noteq> None"
  shows "wf_modtab Q s'"
proof -
  have pre: "\<exists>e0. mods s m = Some e0 \<and> mident e0 = mident e" if "mods s' m = Some e" for m e
    using m [of m] that by (cases "mods s m") auto
  have forth: "\<exists>e'. mods s' m = Some e' \<and> mident e' = mident e" if "mods s m = Some e" for m e
    using m [of m] that by (cases "mods s' m") auto
  show ?thesis
    unfolding wf_modtab_def assms(2)
  proof (intro conjI allI impI)
    fix h k v assume "mod_hd s = Some h" "qmap_get Q h k = Some v"
    with assms(1) obtain m e where e: "v = VPtr m" "mods s m = Some e" "k = KBlob (me_mod_key e)"
      unfolding wf_modtab_def by blast
    from forth [OF e(2)] e show "\<exists>m e. v = VPtr m \<and> mods s' m = Some e \<and> k = KBlob (me_mod_key e)"
      by (auto simp: mident_def)
  next
    fix m e c' assume "mods s' m = Some e" "me_ctx e = Some c'"
    with pre obtain e0 where "mods s m = Some e0" "me_ctx e0 = Some c'" by (fastforce simp: mident_def)
    with assms(1) c show "ctxs s' c' \<noteq> None" unfolding wf_modtab_def by blast
  qed
qed

text \<open>\<open>keeps s s'\<close>: the tables, the shape, the ids and the current region are unchanged; with
  it every invariant of \<open>wf_lib\<close> survives.\<close>

definition keeps :: "'q xy_state \<Rightarrow> 'q xy_state \<Rightarrow> bool" where
  "keeps s s' \<longleftrightarrow> same_shape s s' \<and> (\<forall>p. map_option re_id (regions s' p) = map_option re_id (regions s p))
     \<and> region_hd s' = region_hd s \<and> strs s' = strs s \<and> path_intern_hd s' = path_intern_hd s
     \<and> xy_inited s' = xy_inited s \<and> xy_current_region_entry s' = xy_current_region_entry s
     \<and> xy_current_region_id s' = xy_current_region_id s
     \<and> mod_hd s' = mod_hd s \<and> (\<forall>m. map_option mident (mods s' m) = map_option mident (mods s m))
     \<and> (\<forall>c. ctxs s c \<noteq> None \<longrightarrow> ctxs s' c \<noteq> None) \<and> (mod_by_region_hd s' = None) = (mod_by_region_hd s = None)
     \<and> (sica_hd s' = None) = (sica_hd s = None) \<and> (hook_id_hd s' = None) = (hook_id_hd s = None)"

lemma keeps_refl [simp]: "keeps s s"
  by (simp add: keeps_def)

lemma keeps_trans: "keeps s t \<Longrightarrow> keeps t u \<Longrightarrow> keeps s u"
  unfolding keeps_def by (auto elim: same_shape_trans)

lemma keeps_wf_lib:
  assumes "keeps s s'" and "wf_lib Q s"
  shows "wf_lib Q s'"
proof -
  from assms(1) have k: "same_shape s s'" "\<And>p. map_option re_id (regions s' p) = map_option re_id (regions s p)"
    "region_hd s' = region_hd s" "strs s' = strs s" "path_intern_hd s' = path_intern_hd s"
    "xy_current_region_entry s' = xy_current_region_entry s" "xy_current_region_id s' = xy_current_region_id s"
    by (simp_all add: keeps_def)
  note w = wf_libD [OF assms(2)]
  have "wf_tree s'" by (rule same_shape_wf' [OF k(1) w(2)])
  moreover have "wf_index Q s'" by (rule wf_index_frame [OF w(3) k(3) k(2)])
  moreover have "wf_intern Q s'" by (rule wf_intern_frame [OF w(4) k(4,5) same_shape_links(7) [OF k(1)]])
  moreover have "wf_modtab Q s'" using assms(1) by (intro wf_modtab_frame [OF w(10)]) (simp_all add: keeps_def)
  moreover have "wf_current s'" by (rule wf_current_frame [OF w(5) k(6,7) k(2)])
  ultimately show ?thesis using assms(1) w unfolding wf_lib_def keeps_def by simp
qed

lemma keeps_region_upd:
  assumes "regions s p = Some e" and "rlinks (f e) = rlinks e" and "re_id (f e) = re_id e"
  shows "keeps s (s\<lparr>regions := (regions s)(p \<mapsto> f e)\<rparr>)"
  using assms by (simp add: keeps_def same_shape_region_upd)

lemma keeps_mod_upd:
  assumes "mods s m = Some e" and "mlinks (f e) = mlinks e" and "mident (f e) = mident e"
  shows "keeps s (s\<lparr>mods := (mods s)(m \<mapsto> f e)\<rparr>)"
  using assms by (simp add: keeps_def same_shape_mod_upd)

text \<open>Writes to variables that no invariant mentions.\<close>

lemma keeps_globals [simp]:
  "keeps s (s\<lparr>xy_err_val := e\<rparr>)" "keeps s (s\<lparr>xy_last_ran := n\<rparr>)" "keeps s (s\<lparr>xy_last_retp := r\<rparr>)"
  "keeps s (s\<lparr>xy_last_retbuf := b\<rparr>)" "keeps s (s\<lparr>cur_adapter := a\<rparr>)" "keeps s (s\<lparr>ctxs := (ctxs s)(c \<mapsto> x)\<rparr>)"
  "keeps s (s\<lparr>adapters := ad\<rparr>)" "keeps s (xy_set_err e s)" "keeps s (s\<lparr>xy_adapter_by_id := aa\<rparr>)"
  by (simp_all add: keeps_def same_shapeI xy_set_err_def)

text \<open>Moving to another region of the library.\<close>

lemma wf_lib_moved:
  assumes lib: "wf_lib Q t" and t': "t' = t\<lparr>xy_current_region_id := i, xy_current_region_entry := q, xy_err_val := x\<rparr>"
    and cur: "wf_current t'"
  shows "wf_lib Q t'"
proof -
  note v = wf_libD [OF lib]
  have sh: "same_shape t t'" by (rule same_shapeI) (simp_all add: t')
  show ?thesis
    using v cur same_shape_wf' [OF sh v(2)] wf_index_frame [OF v(3), of t'] wf_intern_frame [OF v(4), of t']
      wf_modtab_frame [OF v(10), of t'] by (simp add: wf_lib_def t')
qed

end
