(* ===== verification/Xy_Claim.thy ===== *)
theory Xy_Claim
  imports Xy_Frame
begin

text \<open>
  Claiming a child region (src/libxylem.c, lines 501-575 and 1133-1320): the claim gate
  of a region, the search for a free slot under a parent, the claim handler's verdict,
  the new region's place in the tree and in the table, and the move of the loading
  module to its new region: its entry in \<open>mod_hd\<close> and in \<open>mod_by_region_hd\<close> and the id
  in its context.
\<close>

section \<open>Operations\<close>

definition xy_require_claim :: "'q env \<Rightarrow> 'q qmap_ops \<Rightarrow> code \<Rightarrow> addr \<Rightarrow> 'q xy_state
    \<Rightarrow> (int \<times> 'q xy_state) option" where
  "xy_require_claim E Q fn ud = ensured E Q (\<lambda>s.
     (case region_lookup Q (xy_current_region_id s) s of
        None \<Rightarrow> Some (fail_with XY_ERR_NOTFOUND s)
      | Some reg \<Rightarrow> do {
          s1 \<leftarrow> (if fn = 0
             then upd_region reg (\<lambda>e. e\<lparr>claim_handler := 0, claim_handler_ud := 0, require_claim := False\<rparr>) s
             else upd_region reg (\<lambda>e. e\<lparr>claim_handler := fn, claim_handler_ud := ud, require_claim := True\<rparr>) s);
          Some (fail_with XY_OK s1) }))"

lemma countdown:
  fixes num s :: u64
  assumes "s + 1 \<noteq> num"
  shows "unat (num - (2 + s)) < unat (num - (s + 1))"
proof -
  have "num - (s + 1) \<noteq> 0" using assms by simp
  then have "unat (num - (s + 1) - 1) < unat (num - (s + 1))" by (rule measure_unat)
  then show ?thesis by (simp add: algebra_simps)
qed

text \<open>The \<open>do \<dots> while (s != num_slots)\<close> loop over candidate ids.\<close>

function slot_loop :: "(u64 \<Rightarrow> bool) \<Rightarrow> u64 \<Rightarrow> nat \<Rightarrow> u64 \<Rightarrow> u64 \<Rightarrow> u64" where
  "slot_loop taken pid slot_shift num_slots s =
     (let candidate_id = pid OR push_bit slot_shift s in
      if \<not> taken candidate_id then candidate_id
      else if s + 1 = num_slots then XY_REGION_INVALID
      else slot_loop taken pid slot_shift num_slots (s + 1))"
  by pat_completeness auto

termination by (relation "measure (\<lambda>(taken, pid, sh, num, s). unat (num - (s + 1)))")
    (simp_all add: countdown)

declare slot_loop.simps [simp del]

definition region_alloc_slot :: "'q qmap_ops \<Rightarrow> 'q xy_region_entry \<Rightarrow> u8 \<Rightarrow> 'q xy_state \<Rightarrow> u64" where
  "region_alloc_slot Q parent bits s = (let cplen = re_plen parent + bits in
     if cplen > 64 then XY_REGION_INVALID
     else let num_slots = (if cplen = 64 then 0 else push_bit (unat bits) 1);
              slot_shift = (if cplen < 64 then unat (64 - cplen) else 0)
          in slot_loop (\<lambda>c. region_lookup Q c s \<noteq> None) (re_id parent) slot_shift num_slots 0)"

definition MOD_BY_REGION_MAX :: nat where "MOD_BY_REGION_MAX = 512"

definition vptr :: "qval \<Rightarrow> addr option" where
  "vptr v = (case v of VPtr p \<Rightarrow> Some p | VInt _ \<Rightarrow> None)"

definition reindexed :: "'q qmap_ops \<Rightarrow> mptr \<Rightarrow> u64 \<Rightarrow> u64 \<Rightarrow> 'q \<Rightarrow> 'q" where
  "reindexed Q me parent_id child_id h =
     (let others = take MOD_BY_REGION_MAX
            (filter (\<lambda>e. e \<noteq> me) (List.map_filter vptr (mmap_iter Q h (KId parent_id))));
          h1 = mmap_del_all Q h (KId parent_id);
          h2 = fold (\<lambda>e h. mmap_put Q h (KId parent_id) (VPtr e)) others h1
      in mmap_put Q h2 (KId child_id) (VPtr me))"

definition module_rekey_region_index :: "'q qmap_ops \<Rightarrow> mptr \<Rightarrow> u64 \<Rightarrow> u64 \<Rightarrow> 'q xy_state
    \<Rightarrow> 'q xy_state option" where
  "module_rekey_region_index Q me parent_id child_id s = (do {
     h \<leftarrow> mod_by_region_hd s;
     Some (s\<lparr>mod_by_region_hd := Some (reindexed Q me parent_id child_id h)\<rparr>) })"

definition module_rekey_loaded_entry :: "'q env \<Rightarrow> 'q qmap_ops \<Rightarrow> mptr \<Rightarrow> string \<Rightarrow> string \<Rightarrow> u64 \<Rightarrow> u64
    \<Rightarrow> 'q xy_state \<Rightarrow> 'q xy_state option" where
  "module_rekey_loaded_entry E Q me old_key path parent_id child_id s =
     (if \<not> e_malloc E s (AllocBytes (mod_key_len path)) then Some s
      else do {
        let new_key = mod_key (mod_key_len path) path child_id;
        s1 \<leftarrow> upd_mod me (\<lambda>e. e\<lparr>me_region_id := child_id\<rparr>) s;
        h \<leftarrow> mod_hd s1;
        let s2 = s1\<lparr>mod_hd := Some (qmap_del Q (qmap_put Q h (KBlob new_key) (VPtr me)) (KBlob old_key))\<rparr>;
        s3 \<leftarrow> upd_mod me (\<lambda>e. e\<lparr>me_mod_key := new_key\<rparr>) s2;
        s4 \<leftarrow> module_rekey_region_index Q me parent_id child_id s3;
        e \<leftarrow> mods s4 me;
        (case me_ctx e of None \<Rightarrow> Some s4
         | Some c \<Rightarrow> upd_ctx c (\<lambda>x. x\<lparr>ctx_region_id := child_id\<rparr>) s4) })"

definition module_rekey_for_claim :: "'q env \<Rightarrow> 'q qmap_ops \<Rightarrow> string \<Rightarrow> u64 \<Rightarrow> u64 \<Rightarrow> 'q xy_state
    \<Rightarrow> 'q xy_state option" where
  "module_rekey_for_claim E Q caller parent_id child_id s =
     (let lookup = module_lookup_from_fname E Q caller parent_id s in
      case (lk_load_path lookup, lk_key lookup, lk_entry lookup) of
        (Some path, Some key, Some me) \<Rightarrow> module_rekey_loaded_entry E Q me key path parent_id child_id s
      | _ \<Rightarrow> Some s)"

text \<open>The second half of \<open>_xy_claim_for_load\<close>, after the handler has granted \<open>granted\<close> bits.\<close>

definition new_child :: "'q xy_region_entry \<Rightarrow> rptr \<Rightarrow> u64 \<Rightarrow> u8 \<Rightarrow> string option \<Rightarrow> 'q xy_region_entry" where
  "new_child pe p child_id granted caller = region_zero\<lparr>re_id := child_id, re_plen := re_plen pe + granted,
     re_depth := re_depth pe + 1, re_child_bits := granted, re_owner_path := caller, dispatch_gen := 1,
     re_parent := Some p\<rparr>"

definition link_child :: "'q env \<Rightarrow> 'q qmap_ops \<Rightarrow> 'q xy_region_entry \<Rightarrow> rptr \<Rightarrow> 'q xy_state
    \<Rightarrow> (rptr \<times> 'q xy_state) option" where
  "link_child E Q child p s = (do {
     (c, s1) \<leftarrow> alloc_region E child s;
     s2 \<leftarrow> region_hd_put Q (re_id child) c s1;
     pe \<leftarrow> regions s2 p;
     s3 \<leftarrow> upd_region c (\<lambda>e. e\<lparr>sibling_next := children_head pe\<rparr>) s2;
     s4 \<leftarrow> upd_region p (\<lambda>e. e\<lparr>children_head := Some c\<rparr>) s3;
     s5 \<leftarrow> region_mark_subtree_dirty (Some p) s4;
     Some (c, s5) })"

definition claim_child :: "'q env \<Rightarrow> 'q qmap_ops \<Rightarrow> string option \<Rightarrow> u64 \<Rightarrow> rptr \<Rightarrow> u8 \<Rightarrow> 'q xy_state
    \<Rightarrow> (int \<times> 'q xy_state) option" where
  "claim_child E Q caller parent_id p granted s = (do {
     pe \<leftarrow> regions s p;
     let child_id = region_alloc_slot Q pe granted s;
     if child_id = XY_REGION_INVALID then Some (fail_with XY_ERR_TOOBIG s)
     else do {
       (c, s1) \<leftarrow> link_child E Q (new_child pe p child_id granted caller) p s;
       let s2 = set_current_region child_id (Some c) s1;
       s3 \<leftarrow> (case caller of None \<Rightarrow> Some s2
           | Some fname \<Rightarrow> module_rekey_for_claim E Q fname parent_id child_id s2);
       Some (fail_with XY_OK s3) } })"

definition xy_claim_for_load :: "'q env \<Rightarrow> 'q qmap_ops \<Rightarrow> string option \<Rightarrow> u64 \<Rightarrow> u8 \<Rightarrow> 'q xy_state
    \<Rightarrow> (int \<times> 'q xy_state) option" where
  "xy_claim_for_load E Q caller parent_id bits s =
     (if bits = 0 \<or> bits > 64 then Some (fail_with XY_ERR_INVALID s)
      else case region_lookup Q parent_id s of
        None \<Rightarrow> Some (fail_with XY_ERR_NOTFOUND s)
      | Some p \<Rightarrow> do {
          pe \<leftarrow> regions s p;
          if claim_handler pe = 0 then Some (fail_with XY_ERR_EPERM s)
          else do {
            ((hret, granted), s1) \<leftarrow> e_handler E (claim_handler pe)
                (case caller of None \<Rightarrow> [] | Some c \<Rightarrow> c) bits (claim_handler_ud pe) s;
            if hret \<noteq> XY_OK then Some (fail_with XY_ERR_EPERM s1)
            else if granted = 0 \<or> granted > 64 then Some (fail_with XY_ERR_EPERM s1)
            else claim_child E Q caller parent_id p granted s1 } })"

section \<open>The slot search\<close>

definition slot_id :: "u64 \<Rightarrow> nat \<Rightarrow> nat \<Rightarrow> u64" where
  "slot_id pid sh i = pid OR push_bit sh (of_nat i)"

lemma slot_loop_spec:
  fixes s num :: u64
  defines "n \<equiv> unat (num - (s + 1)) + 1"
  shows "(\<exists>i < n. slot_loop taken pid sh num s = slot_id pid sh (unat s + i)
       \<and> \<not> taken (slot_id pid sh (unat s + i)) \<and> (\<forall>j < i. taken (slot_id pid sh (unat s + j))))
    \<or> slot_loop taken pid sh num s = XY_REGION_INVALID \<and> (\<forall>j < n. taken (slot_id pid sh (unat s + j)))"
  unfolding n_def
proof (induction taken pid sh num s rule: slot_loop.induct)
  case (1 taken pid sh num s)
  have slot0: "slot_id pid sh (unat s) = pid OR push_bit sh s" by (simp add: slot_id_def)
  have shift: "slot_id pid sh (unat (s + 1) + j) = slot_id pid sh (unat s + Suc j)" for j
    by (simp add: slot_id_def algebra_simps)
  show ?case
  proof (cases "taken (slot_id pid sh (unat s))")
    case False
    then show ?thesis
      by (intro disjI1 exI [of _ 0]) (simp add: slot_loop.simps [of taken] slot0 Let_def)
  next
    case True
    note taken0 = this
    show ?thesis
    proof (cases "s + 1 = num")
      case True
      then show ?thesis using taken0 by (intro disjI2) (simp add: slot_loop.simps [of taken] slot0 Let_def)
    next
      case False
      let ?r = "slot_loop taken pid sh num (s + 1)"
      have eq: "slot_loop taken pid sh num s = ?r"
        using taken0 False by (subst slot_loop.simps) (simp add: slot0 Let_def)
      have ne: "num - (s + 1) \<noteq> 0" using False by simp
      have "unat (num - (s + 1 + 1)) + 1 = unat (num - (s + 1))"
      proof -
        have pos: "unat (num - (s + 1)) \<noteq> 0" using ne by (simp only: unat_eq_0 not_False_eq_True)
        have e: "num - (s + 1 + 1) = num - (s + 1) - 1" by (simp add: algebra_simps)
        show ?thesis unfolding e unat_minus_one [OF ne] using pos by arith
      qed
      note IH = 1 [OF refl _ False, unfolded this shift]
      have t0: "\<not> \<not> taken (pid OR push_bit sh s)" using taken0 by (simp add: slot0)
      from IH [OF t0] show ?thesis unfolding eq
      proof (elim disjE exE conjE)
        fix i assume "i < unat (num - (s + 1))" "?r = slot_id pid sh (unat s + Suc i)"
          "\<not> taken (slot_id pid sh (unat s + Suc i))" "\<forall>j<i. taken (slot_id pid sh (unat s + Suc j))"
        with taken0 show "(\<exists>i<unat (num - (s + 1)) + 1. ?r = slot_id pid sh (unat s + i)
            \<and> \<not> taken (slot_id pid sh (unat s + i)) \<and> (\<forall>j<i. taken (slot_id pid sh (unat s + j))))
          \<or> ?r = XY_REGION_INVALID \<and> (\<forall>j<unat (num - (s + 1)) + 1. taken (slot_id pid sh (unat s + j)))"
          by (intro disjI1 exI [of _ "Suc i"]) (auto simp: less_Suc_eq_0_disj)
      next
        assume "?r = XY_REGION_INVALID" "\<forall>j<unat (num - (s + 1)). taken (slot_id pid sh (unat s + Suc j))"
        with taken0 show "(\<exists>i<unat (num - (s + 1)) + 1. ?r = slot_id pid sh (unat s + i)
            \<and> \<not> taken (slot_id pid sh (unat s + i)) \<and> (\<forall>j<i. taken (slot_id pid sh (unat s + j))))
          \<or> ?r = XY_REGION_INVALID \<and> (\<forall>j<unat (num - (s + 1)) + 1. taken (slot_id pid sh (unat s + j)))"
          by (intro disjI2) (auto simp: less_Suc_eq_0_disj)
      qed
    qed
  qed
qed

lemma bit_slot_id:
  "bit (slot_id pid sh i) k \<longleftrightarrow> k < 64 \<and> (bit pid k \<or> sh \<le> k \<and> bit i (k - sh))"
  using bit_imp_le_length [of pid k] by (auto simp: slot_id_def bit_simps)

text \<open>An id is aligned to a prefix length when the bits below the prefix are 0.\<close>

definition aligned :: "nat \<Rightarrow> u64 \<Rightarrow> bool" where
  "aligned plen rid \<longleftrightarrow> take_bit (64 - plen) rid = 0"

definition in_prefix :: "u64 \<Rightarrow> nat \<Rightarrow> u64 \<Rightarrow> bool" where
  "in_prefix pid plen rid \<longleftrightarrow> drop_bit (64 - plen) rid = drop_bit (64 - plen) pid"

lemma aligned_bit: "aligned plen rid \<Longrightarrow> k < 64 - plen \<Longrightarrow> \<not> bit rid k"
  unfolding aligned_def by (metis bit_0_eq bit_take_bit_iff bot_apply bot_bool_def)

lemma nat_bit_less: "i < 2 ^ b \<Longrightarrow> b \<le> n \<Longrightarrow> \<not> bit (i :: nat) n"
  by (metis bit_take_bit_iff leD take_bit_nat_eq_self)

lemma slot_aligned:
  assumes "aligned plen pid" and "plen + b + sh = 64"
  shows "aligned (plen + b) (slot_id pid sh i)"
  unfolding aligned_def
  by (rule bit_eqI) (use assms aligned_bit [OF assms(1)] in \<open>auto simp: bit_simps bit_slot_id\<close>)

lemma slot_in_prefix:
  assumes "plen + b + sh = 64" and "i < 2 ^ b"
  shows "in_prefix pid plen (slot_id pid sh i)"
  unfolding in_prefix_def
proof (rule bit_eqI)
  fix k
  have "\<not> bit i (64 - plen + k - sh)" using assms by (intro nat_bit_less [of i b]) auto
  then show "bit (drop_bit (64 - plen) (slot_id pid sh i)) k = bit (drop_bit (64 - plen) pid) k"
    using bit_imp_le_length [of pid "64 - plen + k"] by (auto simp: bit_simps bit_slot_id)
qed

lemma slot_inj:
  assumes "aligned plen pid" and "plen + b + sh = 64" and "i < 2 ^ b" "j < 2 ^ b"
    and "slot_id pid sh i = slot_id pid sh j"
  shows "i = j"
proof (rule bit_eqI)
  fix k
  show "bit i k \<longleftrightarrow> bit j k"
  proof (cases "k < b")
    case True
    with assms(2) have "sh + k < 64 - plen" "sh + k < 64" by auto
    with aligned_bit [OF assms(1)] have "bit (slot_id pid sh n) (sh + k) \<longleftrightarrow> bit n k" for n
      by (simp add: bit_slot_id)
    with assms(5) show ?thesis by metis
  qed (use nat_bit_less [of _ b k] assms(3,4) in auto)
qed

lemma in_prefix_slot:
  assumes "aligned plen pid" and "plen + b = 64" and "in_prefix pid plen rid"
  shows "rid = slot_id pid 0 (unat (take_bit b rid))"
proof (rule bit_eqI)
  fix k
  have d: "bit (drop_bit b rid) (k - b) = bit (drop_bit b pid) (k - b)"
    using assms(2,3) by (simp add: in_prefix_def flip: assms(2))
  show "bit rid k \<longleftrightarrow> bit (slot_id pid 0 (unat (take_bit b rid))) k"
  proof (cases "k < b")
    case True
    with aligned_bit [OF assms(1), of k] assms(2) bit_imp_le_length [of rid k] show ?thesis
      by (auto simp: bit_slot_id bit_simps)
  next
    case False
    with d bit_imp_le_length [of pid k] show ?thesis by (auto simp: bit_slot_id bit_simps)
  qed
qed

lemma slot_zero: "slot_id pid sh 0 = pid"
  by (simp add: slot_id_def)

lemma aligned_not_invalid: "aligned plen rid \<Longrightarrow> plen < 64 \<Longrightarrow> rid \<noteq> XY_REGION_INVALID"
  using aligned_bit [of plen rid 0] by (auto simp: XY_REGION_INVALID_def)

lemma child_plen:
  fixes a b :: u8
  assumes "unat a \<le> 64" and "unat b \<le> 64"
  shows "unat (a + b) = unat a + unat b"
  using assms by (intro unat_add_lem [THEN iffD1]) simp

text \<open>What the search returns under a parent that is shorter than 64 bits with the new one.\<close>

lemma region_alloc_slot_ok:
  assumes plen: "unat (re_plen pe) + unat bits < 64" and al: "aligned (unat (re_plen pe)) (re_id pe)"
    and taken: "region_lookup Q (re_id pe) s \<noteq> None"
  defines "sh \<equiv> 64 - (unat (re_plen pe) + unat bits)"
  shows "(\<exists>i. 0 < i \<and> i < 2 ^ unat bits \<and> region_alloc_slot Q pe bits s = slot_id (re_id pe) sh i
      \<and> region_lookup Q (slot_id (re_id pe) sh i) s = None
      \<and> (\<forall>j < i. region_lookup Q (slot_id (re_id pe) sh j) s \<noteq> None))
    \<or> region_alloc_slot Q pe bits s = XY_REGION_INVALID
      \<and> (\<forall>j < 2 ^ unat bits. region_lookup Q (slot_id (re_id pe) sh j) s \<noteq> None)"
proof -
  let ?c = "re_plen pe + bits"
  have c: "unat ?c = unat (re_plen pe) + unat bits" using plen by (intro child_plen) auto
  then have lt: "?c < 64" using plen by (simp add: word_less_nat_alt)
  then have "\<not> ?c > 64" "?c \<noteq> 64" by auto
  have "unat (64 - ?c) = sh" using lt c by (simp add: sh_def unat_sub order_less_imp_le)
  then have alloc: "region_alloc_slot Q pe bits s
      = slot_loop (\<lambda>c. region_lookup Q c s \<noteq> None) (re_id pe) sh (push_bit (unat bits) 1) 0"
    using lt \<open>\<not> ?c > 64\<close> \<open>?c \<noteq> 64\<close> by (simp add: region_alloc_slot_def Let_def)
  have pos: "(0::nat) < 2 ^ unat bits" by simp
  have p64: "(2::nat) ^ unat bits < 2 ^ 64" using plen by (intro power_strict_increasing) auto
  have num: "unat (push_bit (unat bits) (1 :: u64)) = 2 ^ unat bits"
  proof -
    have "unat (push_bit (unat bits) (1 :: u64)) = take_bit 64 (push_bit (unat bits) (unat (1 :: u64)))"
      by (simp only: unsigned_push_bit_eq) simp
    also have "\<dots> = 2 ^ unat bits" using p64 by (simp add: push_bit_eq_mult take_bit_eq_mod)
    finally show ?thesis .
  qed
  have "unat (push_bit (unat bits) (1 :: u64) - 1) = 2 ^ unat bits - 1"
    using unat_minus_one [of "push_bit (unat bits) (1 :: u64)"] num pos by (metis less_numeral_extra(3) unat_0)
  then have n: "unat (push_bit (unat bits) (1 :: u64) - (0 + 1)) + 1 = 2 ^ unat bits" using pos by simp
  have z: "region_lookup Q (slot_id (re_id pe) sh 0) s \<noteq> None" using taken by (simp add: slot_zero)
  from slot_loop_spec [of "push_bit (unat bits) 1" 0 "\<lambda>c. region_lookup Q c s \<noteq> None" "re_id pe" sh,
      unfolded n, unfolded unat_0 add_0]
  show ?thesis
  proof (elim disjE exE conjE)
    fix i assume i: "i < 2 ^ unat bits" "slot_loop (\<lambda>c. region_lookup Q c s \<noteq> None) (re_id pe) sh
        (push_bit (unat bits) 1) 0 = slot_id (re_id pe) sh i"
      "\<not> region_lookup Q (slot_id (re_id pe) sh i) s \<noteq> None"
      "\<forall>j<i. region_lookup Q (slot_id (re_id pe) sh j) s \<noteq> None"
    then have "0 < i" using z by (cases i) auto
    with i show ?thesis by (intro disjI1 exI [of _ i]) (simp add: alloc)
  qed (simp add: alloc)
qed

end
