(* ===== verification/Xy_Claimed.thy ===== *)
theory Xy_Claimed
  imports Xy_Claim
begin

text \<open>
  What a granted claim does to the library: the new region is a leaf under its parent
  and the head of the parent's children, it is found under its id, nothing else of the
  tree changes, and the invariants survive; its id is the first free slot below the
  parent's prefix.
\<close>

section \<open>Linking a new region\<close>

definition child_linked :: "'q qmap_ops \<Rightarrow> 'q xy_region_entry \<Rightarrow> rptr \<Rightarrow> 'q xy_state \<Rightarrow> 'q xy_state" where
  "child_linked Q child p s = (let pe = the (regions s p); c = next_addr s in
     s\<lparr>next_addr := c + 1, region_hd := Some (qmap_put Q (the (region_hd s)) (KId (re_id child)) (VPtr c)),
       regions := (regions s)(c \<mapsto> child\<lparr>sibling_next := children_head pe\<rparr>,
                             p \<mapsto> pe\<lparr>children_head := Some c\<rparr>)\<rparr>)"

lemma child_links:
  assumes "regions s p = Some pe" and "regions s (next_addr s) = None" and "re_parent child = Some p"
  shows "region_sibling (child_linked Q child p s) = (region_sibling s)(next_addr s := Some (children_head pe))"
    and "region_parent (child_linked Q child p s) = (region_parent s)(next_addr s := Some (Some p))"
    and "mods (child_linked Q child p s) = mods s"
    and "next_addr (child_linked Q child p s) = next_addr s + 1"
    and "regions (child_linked Q child p s) = (regions s)(next_addr s \<mapsto> child\<lparr>sibling_next := children_head pe\<rparr>,
          p \<mapsto> pe\<lparr>children_head := Some (next_addr s)\<rparr>)"
  using assms by (auto simp: child_linked_def Let_def region_sibling_def region_parent_def fun_eq_iff)

lemma fresh_region: "wf_parents s \<Longrightarrow> regions s (next_addr s) = None"
  unfolding wf_parents_def by (metis less_irrefl not_Some_eq)

lemma child_linked_wf:
  assumes wf: "wf_tree s" and pe: "regions s p = Some pe"
    and up: "re_parent child = Some p" and leaf: "children_head child = None" "mods_head child = None" "mods_tail child = None"
    and plen: "unat (re_plen pe) < unat (re_plen child)" "unat (re_plen child) \<le> 64"
  shows "wf_tree (child_linked Q child p s)"
    and "region_children (child_linked Q child p s) p = next_addr s # region_children s p"
    and "\<And>q ms. mod_list s q ms \<Longrightarrow> mod_list (child_linked Q child p s) q ms"
    and "mod_list (child_linked Q child p s) (next_addr s) []"
proof -
  let ?c = "next_addr s" and ?t = "child_linked Q child p s"
  note wfp = wf_tree_parts(1) [OF wf] and wfc = wf_tree_parts(2) [OF wf] and wfm = wf_tree_parts(3) [OF wf]
  have fresh: "regions s ?c = None" by (rule fresh_region [OF wfp])
  note l = child_links [OF pe fresh up, of Q]
  have pc: "p \<noteq> ?c" using pe fresh by auto
  have rank: "region_rank ?t q = (if q = ?c then unat (re_plen child) else region_rank s q)" for q
    using pe pc by (simp add: region_rank_def l)
  have wfp': "wf_parents ?t"
    unfolding wf_parents_def
  proof (intro allI impI)
    fix q e assume e: "regions ?t q = Some e"
    show "q < next_addr ?t \<and> unat (re_plen e) \<le> 64 \<and>
        (\<forall>a. re_parent e = Some a \<longrightarrow> regions ?t a \<noteq> None \<and> region_rank ?t a < unat (re_plen e))"
    proof (cases "q = ?c")
      case True
      with e pc have "e = child\<lparr>sibling_next := children_head pe\<rparr>" by (simp add: l)
      moreover have "region_rank ?t p < unat (re_plen child)" using plen(1) pc pe unfolding rank by (simp add: region_rank_def)
      ultimately show ?thesis using True plen(2) up pc by (simp add: l(4,5))
    next
      case False
      then obtain e0 where e0: "regions s q = Some e0" "re_plen e = re_plen e0" "re_parent e = re_parent e0"
        using e pe by (cases "q = p") (auto simp: l)
      have "regions ?t a \<noteq> None \<and> region_rank ?t a < unat (re_plen e)" if "re_parent e = Some a" for a
      proof -
        from wf_parentsD(3,4) [OF wfp e0(1)] that e0(2,3)
        have a: "regions s a \<noteq> None" "region_rank s a < unat (re_plen e)" by simp_all
        then have "a \<noteq> ?c" using fresh by auto
        with a show ?thesis by (simp add: rank l(5))
      qed
      with wf_parentsD(1,2) [OF wfp e0(1)] e0(2) show ?thesis by (simp add: l(4))
    qed
  qed
  obtain cs where cs: "linked (region_sibling s) (children_head pe) cs" "set cs = {x. region_parent s x = Some (Some p)}"
    "region_children s p = cs"
    using region_children_list [OF wfp wfc pe] by blast
  have cnot: "?c \<notin> set cs" using cs(2) fresh by (auto simp: region_parent_def)
  have newcs: "linked (region_sibling ?t) (Some ?c) (?c # cs)"
    unfolding l(1) by (rule linked_link_head [OF cs(1) cnot])
  have wfc': "wf_children ?t"
    unfolding wf_children_def
  proof (intro allI impI)
    fix q e assume e: "regions ?t q = Some e"
    consider "q = p" | "q = ?c" | "q \<noteq> p" "q \<noteq> ?c" by blast
    then show "\<exists>cs. linked (region_sibling ?t) (children_head e) cs \<and> set cs = {x. region_parent ?t x = Some (Some q)}"
    proof cases
      case 1
      then have "children_head e = Some ?c" using e by (auto simp: l)
      moreover have "set (?c # cs) = {x. region_parent ?t x = Some (Some q)}" using 1 cs(2) by (auto simp: l(2))
      ultimately show ?thesis using newcs by metis
    next
      case 2
      then have "children_head e = None" using e pc leaf(1) by (auto simp: l)
      moreover have "region_parent s x \<noteq> Some (Some ?c)" for x
        using region_forest.up_live [OF wfp, of x ?c] fresh by auto
      then have "{x. region_parent ?t x = Some (Some q)} = {}" using 2 pc by (auto simp: l(2))
      ultimately show ?thesis by simp
    next
      case 3
      then have e0: "regions s q = Some e" using e by (simp add: l)
      then obtain ds where ds: "linked (region_sibling s) (children_head e) ds"
        "set ds = {x. region_parent s x = Some (Some q)}" using wfc unfolding wf_children_def by blast
      have "?c \<notin> set ds" using ds(2) fresh by (auto simp: region_parent_def)
      then have "linked (region_sibling ?t) (children_head e) ds = linked (region_sibling s) (children_head e) ds"
        unfolding l(1) by (intro linked_cong) auto
      moreover have "{x. region_parent ?t x = Some (Some q)} = {x. region_parent s x = Some (Some q)}"
        using 3 fresh by (auto simp: l(2) region_parent_def)
      ultimately show ?thesis using ds by auto
    qed
  qed
  have ml: "mod_list ?t q ms" if "mod_list s q ms" for q ms
  proof -
    have "q \<noteq> ?c" using that fresh by (auto simp: mod_list_def)
    moreover have "mod_next ?t = mod_next s" "mod_prev ?t = mod_prev s" "mod_region ?t = mod_region s"
      by (simp_all add: fun_eq_iff mod_next_def mod_prev_def mod_region_def l(3))
    ultimately show ?thesis using that pe by (auto simp: mod_list_def l(5))
  qed
  then show "\<And>q ms. mod_list s q ms \<Longrightarrow> mod_list ?t q ms" by blast
  show mlc: "mod_list ?t ?c []" using pc leaf by (simp add: mod_list_def l(5))
  have "wf_mods ?t"
    unfolding wf_mods_def
  proof (intro conjI allI impI)
    show "m < next_addr ?t" if "mods ?t m \<noteq> None" for m
      using that wfm by (auto simp: l(3,4) wf_mods_def intro: less_SucI)
    show "\<exists>ms. mod_list ?t q ms" if "regions ?t q \<noteq> None" for q
    proof (cases "q = ?c")
      case False
      with that pe have "regions s q \<noteq> None" by (auto simp: l(5) split: if_splits)
      from ml [OF region_mods_list [OF wfm this]] show ?thesis ..
    qed (use mlc in blast)
  qed
  with wfp' wfc' show "wf_tree ?t" by (simp add: wf_tree_def)
  have "regions ?t p = Some (pe\<lparr>children_head := Some ?c\<rparr>)" by (simp add: l(5))
  from region_children_list(1) [OF wfp' wfc' this]
  have "linked (region_sibling ?t) (Some ?c) (region_children ?t p)" by simp
  from linked_unique [OF this newcs] show "region_children ?t p = ?c # region_children s p"
    unfolding cs(3) .
qed

lemma child_linked_index:
  assumes "qmap_laws Q" and "wf_index Q s" and "regions s p = Some pe" and "regions s (next_addr s) = None"
    and "region_lookup Q (re_id child) s = None"
  shows "wf_index Q (child_linked Q child p s)"
proof -
  let ?c = "next_addr s"
  from assms(2) obtain h where h: "region_hd s = Some h"
    "\<And>p e. regions s p = Some e \<Longrightarrow> qmap_get Q h (KId (re_id e)) = Some (VPtr p)"
    "\<And>rid v. qmap_get Q h (KId rid) = Some v \<Longrightarrow> \<exists>p e. v = VPtr p \<and> regions s p = Some e \<and> re_id e = rid"
    unfolding wf_index_def by blast
  have new: "re_id e \<noteq> re_id child" if "regions s q = Some e" for q e
    using assms(5) region_lookup_None [OF assms(2)] that by blast
  have pc: "p \<noteq> ?c" using assms(3,4) by auto
  have t: "regions (child_linked Q child p s) = (regions s)(?c \<mapsto> child\<lparr>sibling_next := children_head pe\<rparr>,
      p \<mapsto> pe\<lparr>children_head := Some ?c\<rparr>)"
    "region_hd (child_linked Q child p s) = Some (qmap_put Q h (KId (re_id child)) (VPtr ?c))"
    using assms(3) h(1) by (simp_all add: child_linked_def Let_def)
  show ?thesis
    unfolding wf_index_def t
  proof (rule exI, intro conjI allI impI, rule refl)
    fix q e assume "((regions s)(?c \<mapsto> child\<lparr>sibling_next := children_head pe\<rparr>,
        p \<mapsto> pe\<lparr>children_head := Some ?c\<rparr>)) q = Some e"
    then show "qmap_get Q (qmap_put Q h (KId (re_id child)) (VPtr ?c)) (KId (re_id e)) = Some (VPtr q)"
      using h(2) new assms(3) pc by (auto simp: qmap_simps [OF assms(1)] split: if_splits)
  next
    fix rid v assume v: "qmap_get Q (qmap_put Q h (KId (re_id child)) (VPtr ?c)) (KId rid) = Some v"
    show "\<exists>q e. v = VPtr q \<and> ((regions s)(?c \<mapsto> child\<lparr>sibling_next := children_head pe\<rparr>,
        p \<mapsto> pe\<lparr>children_head := Some ?c\<rparr>)) q = Some e \<and> re_id e = rid"
    proof (cases "rid = re_id child")
      case True
      with v pc show ?thesis by (intro exI [of _ ?c]) (simp add: qmap_simps [OF assms(1)])
    next
      case False
      with v have "qmap_get Q h (KId rid) = Some v" by (simp add: qmap_simps [OF assms(1)])
      from h(3) [OF this] obtain q e where "v = VPtr q" "regions s q = Some e" "re_id e = rid" by blast
      with assms(3,4) show ?thesis
        by (intro exI [of _ q] exI [of _ "if q = p then pe\<lparr>children_head := Some ?c\<rparr> else e"]) auto
    qed
  qed
qed

lemma child_linked_ancestor:
  assumes wf: "wf_tree s" and wf': "wf_parents (child_linked Q child p s)" and pe: "regions s p = Some pe"
    and up: "re_parent child = Some p"
  shows "regions s r \<noteq> None \<Longrightarrow> ancestor (child_linked Q child p s) a r \<longleftrightarrow> ancestor s a r"
    and "ancestor (child_linked Q child p s) a (next_addr s) \<longleftrightarrow> a = next_addr s \<or> ancestor s a p"
proof -
  let ?c = "next_addr s" and ?t = "child_linked Q child p s"
  note wfp = wf_tree_parts(1) [OF wf]
  have fresh: "regions s ?c = None" by (rule fresh_region [OF wfp])
  note l = child_links [OF pe fresh up, of Q]
  have old: "ancestor ?t a r \<longleftrightarrow> ancestor s a r" if r: "regions s r \<noteq> None" for r
  proof -
    from up_chain_total [OF wfp r] obtain ps where ps: "linked (region_parent s) (Some r) ps" by blast
    have "?c \<notin> set ps" using linked_live [OF ps, of ?c] fresh by auto
    then have "linked (region_parent ?t) (Some r) ps = linked (region_parent s) (Some r) ps"
      unfolding l(2) by (intro linked_cong) auto
    with ps ancestor_iff [OF wfp ps] ancestor_iff [OF wf', of r ps] show ?thesis by simp
  qed
  then show "regions s r \<noteq> None \<Longrightarrow> ancestor ?t a r \<longleftrightarrow> ancestor s a r" .
  have "region_parent ?t ?c = Some (Some p)" by (simp add: l(2))
  from ancestor_step [OF wf' this, of a] old [of p] pe
  show "ancestor ?t a ?c \<longleftrightarrow> a = ?c \<or> ancestor s a p" by simp
qed

lemma link_child_ok:
  assumes Q: "qmap_laws Q" and m: "\<And>s. e_malloc E s AllocRegion"
    and wf: "wf_tree s" and ix: "wf_index Q s" and pe: "regions s p = Some pe"
    and up: "re_parent child = Some p" and leaf: "children_head child = None" "mods_head child = None" "mods_tail child = None"
    and plen: "unat (re_plen pe) < unat (re_plen child)" "unat (re_plen child) \<le> 64"
    and new: "region_lookup Q (re_id child) s = None"
  shows "\<exists>s'. link_child E Q child p s = Some (next_addr s, s') \<and> wf_tree s' \<and> wf_index Q s'
    \<and> same_tree (child_linked Q child p s) s'
    \<and> s' = (child_linked Q child p s)\<lparr>regions := ancestor_upd dirty_and_bump (Some p) (child_linked Q child p s)\<rparr>"
proof -
  let ?t = "child_linked Q child p s"
  have fresh: "regions s (next_addr s) = None" by (rule fresh_region [OF wf_tree_parts(1) [OF wf]])
  have pc: "p \<noteq> next_addr s" using pe fresh by auto
  from ix obtain h where h: "region_hd s = Some h" unfolding wf_index_def by blast
  note w = child_linked_wf [OF wf pe up leaf plen, where Q = Q]
  have live: "regions ?t p \<noteq> None" by (simp add: child_links(5) [OF pe fresh up])
  have "link_child E Q child p s = (do { s5 \<leftarrow> region_mark_subtree_dirty (Some p) ?t; Some (next_addr s, s5) })"
    using m h pe pc
    by (simp add: link_child_def alloc_region_def region_hd_put_def upd_region_def child_linked_def Let_def fun_upd_twist)
  also have "\<dots> = Some (next_addr s, ?t\<lparr>regions := ancestor_upd dirty_and_bump (Some p) ?t\<rparr>)"
    using region_mark_subtree_dirty_eq [OF wf_tree_parts(1) [OF w(1)], of "Some p"] live by simp
  finally have eq: "link_child E Q child p s
    = Some (next_addr s, ?t\<lparr>regions := ancestor_upd dirty_and_bump (Some p) ?t\<rparr>)" .
  have st: "same_tree ?t (?t\<lparr>regions := ancestor_upd dirty_and_bump (Some p) ?t\<rparr>)"
    by (rule ancestor_upd_same_tree) simp
  have "wf_index Q (?t\<lparr>regions := ancestor_upd dirty_and_bump (Some p) ?t\<rparr>)"
    by (rule wf_index_frame [OF child_linked_index [OF Q ix pe fresh new]])
      (simp_all add: ancestor_upd_def dirty_and_bump_def set_dirty_def bump_gen_def option.map_comp comp_def)
  with eq st same_tree_wf [OF st w(1)] show ?thesis by blast
qed

section \<open>Moving the loading module\<close>

lemma mod_hd_get_put_del:
  assumes "qmap_laws Q" and "mod_hd s' = Some (qmap_del Q (qmap_put Q h (KBlob new) (VPtr m)) (KBlob old))"
    and "mod_hd s = Some h"
  shows "mod_hd_get Q k s' = (if k = old then None else if k = new then Some m else mod_hd_get Q k s)"
  using assms by (simp add: mod_hd_get_def qmap_simps)

lemma rekey_loaded_eq:
  assumes "mods s me = Some e" and "mod_hd s = Some h" and "mod_by_region_hd s = Some b"
    and "e_malloc E s (AllocBytes (mod_key_len path))" and "\<And>c. me_ctx e = Some c \<Longrightarrow> ctxs s c \<noteq> None"
  shows "module_rekey_loaded_entry E Q me old_key path parent_id child_id s = Some (s\<lparr>
      mods := (mods s)(me \<mapsto> e\<lparr>me_region_id := child_id, me_mod_key := key_of path child_id\<rparr>),
      mod_hd := Some (qmap_del Q (qmap_put Q h (KBlob (key_of path child_id)) (VPtr me)) (KBlob old_key)),
      mod_by_region_hd := Some (reindexed Q me parent_id child_id b),
      ctxs := (case me_ctx e of None \<Rightarrow> ctxs s | Some c \<Rightarrow> (ctxs s)(c \<mapsto> (the (ctxs s c))\<lparr>ctx_region_id := child_id\<rparr>))\<rparr>)"
  using assms by (cases "me_ctx e")
    (auto simp: module_rekey_loaded_entry_def module_rekey_region_index_def Let_def upd_mod_def upd_ctx_def key_of_def)

lemma rekey_loaded_ok:
  assumes Q: "qmap_laws Q" and wf: "wf_lib Q s" and e: "mods s me = Some e" and key: "me_mod_key e = old_key"
    and m: "e_malloc E s (AllocBytes (mod_key_len path))"
    and new_key_def: "new_key = key_of path child_id"
  shows "\<exists>s'. module_rekey_loaded_entry E Q me old_key path parent_id child_id s = Some s' \<and> wf_lib Q s'
    \<and> same_shape s s' \<and> regions s' = regions s \<and> region_hd s' = region_hd s
    \<and> xy_current_region_id s' = xy_current_region_id s \<and> xy_current_region_entry s' = xy_current_region_entry s
    \<and> (\<forall>k. mod_hd_get Q k s' = (if k = old_key then None else if k = new_key then Some me else mod_hd_get Q k s))
    \<and> mods s' = (mods s)(me \<mapsto> e\<lparr>me_region_id := child_id, me_mod_key := new_key\<rparr>)
    \<and> (\<forall>c x. me_ctx e = Some c \<longrightarrow> ctxs s c = Some x \<longrightarrow> ctxs s' c = Some (x\<lparr>ctx_region_id := child_id\<rparr>))"
proof -
  note w = wf_libD [OF wf]
  from w(6,7) obtain h b where h: "mod_hd s = Some h" and b: "mod_by_region_hd s = Some b" by auto
  let ?e = "e\<lparr>me_region_id := child_id, me_mod_key := new_key\<rparr>"
  let ?h = "qmap_del Q (qmap_put Q h (KBlob new_key) (VPtr me)) (KBlob old_key)"
  let ?cx = "case me_ctx e of None \<Rightarrow> ctxs s | Some c \<Rightarrow> (ctxs s)(c \<mapsto> (the (ctxs s c))\<lparr>ctx_region_id := child_id\<rparr>)"
  let ?b = "reindexed Q me parent_id child_id b"
  let ?s = "s\<lparr>mods := (mods s)(me \<mapsto> ?e), mod_hd := Some ?h, mod_by_region_hd := Some ?b, ctxs := ?cx\<rparr>"
  have cx: "ctxs s c \<noteq> None" if "me_ctx e = Some c" for c
    using w(10) e that unfolding wf_modtab_def by blast
  have eq: "module_rekey_loaded_entry E Q me old_key path parent_id child_id s = Some ?s"
    using rekey_loaded_eq [OF e h b m cx] by (simp add: new_key_def)
  have sh: "same_shape s ?s" using e by (simp add: same_shape_def mlinks_def)
  have "wf_tree ?s" by (rule same_shape_wf' [OF sh w(2)])
  moreover have "wf_index Q ?s" by (rule wf_index_frame [OF w(3)]) simp_all
  moreover have "wf_intern Q ?s" by (rule wf_intern_frame [OF w(4)]) simp_all
  moreover have "wf_current ?s" by (rule wf_current_frame [OF w(5)]) simp_all
  moreover have "wf_modtab Q ?s"
    unfolding wf_modtab_def
  proof (intro conjI allI impI)
    fix h' k v assume "mod_hd ?s = Some h'" "qmap_get Q h' k = Some v"
    then have v: "k \<noteq> KBlob old_key" "(if k = KBlob new_key then Some (VPtr me) else qmap_get Q h k) = Some v"
      by (auto simp: qmap_simps [OF Q] split: if_splits)
    show "\<exists>m e. v = VPtr m \<and> mods ?s m = Some e \<and> k = KBlob (me_mod_key e)"
    proof (cases "k = KBlob new_key")
      case False
      with v have "qmap_get Q h k = Some v" by simp
      with w(10) h obtain m e' where m: "v = VPtr m" "mods s m = Some e'" "k = KBlob (me_mod_key e')"
        unfolding wf_modtab_def by blast
      with v(1) e key have "m \<noteq> me" by auto
      with m show ?thesis by auto
    qed (use v in auto)
  next
    fix m e' c assume "mods ?s m = Some e'" "me_ctx e' = Some c"
    then have "ctxs s c \<noteq> None"
      using w(10) cx unfolding wf_modtab_def by (auto split: if_splits)
    then show "ctxs ?s c \<noteq> None" by (auto split: option.split)
  qed
  ultimately have "wf_lib Q ?s" using w by (simp add: wf_lib_def)
  with eq sh h show ?thesis
    by (intro exI [of _ ?s]) (simp add: mod_hd_get_put_del [OF Q _ h])
qed

lemma rekey_for_claim_ok:
  assumes Q: "qmap_laws Q" and wf: "wf_lib Q s" and m: "alloc_ok E"
  shows "\<exists>s'. module_rekey_for_claim E Q fname parent_id child_id s = Some s' \<and> wf_lib Q s'
    \<and> same_shape s s' \<and> regions s' = regions s \<and> region_hd s' = region_hd s
    \<and> xy_current_region_id s' = xy_current_region_id s \<and> xy_current_region_entry s' = xy_current_region_entry s"
proof -
  obtain path where path: "module_load_path E fname s = Some path"
    using m by (auto simp: module_load_path_def alloc_ok_def Let_def)
  let ?key = "key_of path parent_id"
  have l: "module_lookup_from_fname E Q fname parent_id s
      = \<lparr>lk_load_path = Some path, lk_key = Some ?key, lk_entry = mod_hd_get Q ?key s, lk_err = XY_OK\<rparr>"
    using m path by (simp add: module_lookup_from_fname_def alloc_ok_def Let_def key_of_def)
  show ?thesis
  proof (cases "mod_hd_get Q ?key s")
    case None
    with wf show ?thesis by (intro exI [of _ s]) (simp add: module_rekey_for_claim_def l)
  next
    case (Some me)
    from mod_hd_get_live [OF wf_libD(10) [OF wf] Some] obtain e where
      e: "mods s me = Some e" "me_mod_key e = ?key" by blast
    have "e_malloc E s (AllocBytes (mod_key_len path))" using m by (simp add: alloc_ok_def)
    from rekey_loaded_ok [OF Q wf e this refl, of parent_id child_id] Some show ?thesis
      by (auto simp: module_rekey_for_claim_def l)
  qed
qed

section \<open>A granted claim\<close>

definition wf_prefix :: "'q xy_state \<Rightarrow> bool" where
  "wf_prefix s \<longleftrightarrow> (\<forall>p e. regions s p = Some e \<longrightarrow> aligned (unat (re_plen e)) (re_id e)
     \<and> (\<forall>q qe. re_parent e = Some q \<longrightarrow> regions s q = Some qe \<longrightarrow> in_prefix (re_id qe) (unat (re_plen qe)) (re_id e)))"

lemma linked_child_entry:
  assumes "regions s p = Some pe" and "regions s (next_addr s) = None" and "re_parent child = Some p"
    and "\<not> ancestor (child_linked Q child p s) (next_addr s) p"
  shows "ancestor_upd dirty_and_bump (Some p) (child_linked Q child p s) (next_addr s)
      = Some (child\<lparr>sibling_next := children_head pe\<rparr>)"
proof -
  have "p \<noteq> next_addr s" using assms(1,2) by auto
  with assms show ?thesis by (simp add: ancestor_upd_def child_links(5))
qed

lemma claim_child_ok:
  assumes Q: "qmap_laws Q" and m: "alloc_ok E" and wf: "wf_lib Q s" and pe: "regions s p = Some pe"
    and al: "aligned (unat (re_plen pe)) (re_id pe)"
    and g: "0 < unat granted" "unat (re_plen pe) + unat granted < 64"
    and child_id: "child_id = region_alloc_slot Q pe granted s" and ok: "child_id \<noteq> XY_REGION_INVALID"
  shows "\<exists>c s'. claim_child E Q caller (re_id pe) p granted s = Some (XY_OK, s') \<and> wf_lib Q s'
    \<and> regions s c = None
    \<and> regions s' c = Some ((new_child pe p child_id granted caller)\<lparr>sibling_next := children_head pe\<rparr>)
    \<and> region_children s' p = c # region_children s p
    \<and> (\<forall>a r. regions s r \<noteq> None \<longrightarrow> ancestor s' a r = ancestor s a r)
    \<and> (\<forall>a. ancestor s' a c \<longleftrightarrow> a = c \<or> ancestor s a p)
    \<and> (\<forall>q. region_mods s' q = region_mods s q)
    \<and> xy_current_region_id s' = child_id \<and> xy_current_region_entry s' = Some c
    \<and> (\<forall>q e. regions s q = Some e \<longrightarrow> (\<exists>e'. regions s' q = Some e' \<and> re_id e' = re_id e
          \<and> re_plen e' = re_plen e \<and> re_parent e' = re_parent e))
    \<and> (\<forall>q e'. regions s' q = Some e' \<longrightarrow> q = c \<or> regions s q \<noteq> None)"
proof -
  note w = wf_libD [OF wf]
  note wfp = wf_tree_parts(1) [OF w(2)]
  let ?child = "new_child pe p child_id granted caller" and ?c = "next_addr s"
  let ?t = "child_linked Q ?child p s"
  have plen: "unat (re_plen ?child) = unat (re_plen pe) + unat granted"
    using g(2) by (simp add: new_child_def child_plen)
  have leaf: "re_parent ?child = Some p" "children_head ?child = None" "mods_head ?child = None"
    "mods_tail ?child = None" "re_id ?child = child_id"
    by (simp_all add: new_child_def region_zero_def)
  have fresh: "regions s ?c = None" by (rule fresh_region [OF wfp])
  have pc: "p \<noteq> ?c" using pe fresh by auto
  have taken: "region_lookup Q (re_id pe) s \<noteq> None"
    using region_lookup_iff [OF w(3), of "re_id pe" p] pe by auto
  have "region_lookup Q child_id s = None"
    using region_alloc_slot_ok [OF g(2) al taken] ok unfolding child_id by auto
  then have free: "region_lookup Q (re_id ?child) s = None" by (simp only: leaf(5))
  have mr: "\<And>s. e_malloc E s AllocRegion" using m by (simp add: alloc_ok_def)
  have pl: "unat (re_plen pe) < unat (re_plen ?child)" "unat (re_plen ?child) \<le> 64" using plen g by simp_all
  from link_child_ok [OF Q mr w(2,3) pe leaf(1-4) pl free] obtain s1 where
    s1: "link_child E Q ?child p s = Some (?c, s1)" "wf_tree s1" "wf_index Q s1" "same_tree ?t s1"
    "s1 = ?t\<lparr>regions := ancestor_upd dirty_and_bump (Some p) ?t\<rparr>" by blast
  note cw = child_linked_wf [OF w(2) pe leaf(1-4) pl, where Q = Q]
  note ca = child_linked_ancestor [OF w(2) wf_tree_parts(1) [OF cw(1)] pe leaf(1)]
  have notc: "\<not> ancestor ?t ?c p" using ca(1) [of p ?c] pe ancestor_live(1) [of s ?c p] fresh by auto
  have c1: "regions s1 ?c = Some (?child\<lparr>sibling_next := children_head pe\<rparr>)"
    using linked_child_entry [OF pe fresh leaf(1) notc] by (simp add: s1(5))
  have old: "\<exists>e'. regions s1 q = Some e' \<and> re_id e' = re_id e \<and> re_plen e' = re_plen e \<and> re_parent e' = re_parent e"
    if "regions s q = Some e" for q e
    using that pe fresh pc unfolding s1(5)
    by (auto simp: ancestor_upd_def child_links(5) [OF pe fresh leaf(1)] dirty_and_bump_def set_dirty_def bump_gen_def)
  have only: "q = ?c \<or> regions s q \<noteq> None" if "regions s1 q = Some e'" for q e'
    using that pe same_tree_region(1) [OF s1(4), of q] by (auto simp: child_links(5) [OF pe fresh leaf(1)] split: if_splits)
  let ?s2 = "set_current_region child_id (Some ?c) s1"
  have s1_simps: "strs s1 = strs s" "path_intern_hd s1 = path_intern_hd s" "next_addr s1 = next_addr s + 1"
    "mods s1 = mods s" "ctxs s1 = ctxs s" "mod_hd s1 = mod_hd s" "xy_inited s1 = xy_inited s"
    "mod_by_region_hd s1 = mod_by_region_hd s" "sica_hd s1 = sica_hd s" "hook_id_hd s1 = hook_id_hd s"
    by (simp_all add: s1(5) child_linked_def Let_def)
  have lib2: "wf_lib Q ?s2"
  proof -
    have "wf_tree ?s2" by (rule same_shape_wf' [OF same_shapeI s1(2)]) (simp_all add: set_current_region_def)
    moreover have "wf_index Q ?s2" by (rule wf_index_frame [OF s1(3)]) (simp_all add: set_current_region_def)
    moreover have "wf_intern Q ?s2" by (rule wf_intern_frame [OF w(4)]) (simp_all add: set_current_region_def s1_simps)
    moreover have "wf_modtab Q ?s2" by (rule wf_modtab_frame [OF w(10)]) (simp_all add: set_current_region_def s1_simps)
    moreover have "wf_current ?s2" using c1 leaf(5) by (simp add: wf_current_def set_current_region_def)
    ultimately show ?thesis using w by (simp add: wf_lib_def set_current_region_def s1_simps)
  qed
  obtain s3 where s3: "(case caller of None \<Rightarrow> Some ?s2 | Some fname \<Rightarrow>
      module_rekey_for_claim E Q fname (re_id pe) child_id ?s2) = Some s3" "wf_lib Q s3" "same_shape ?s2 s3"
    "regions s3 = regions ?s2" "xy_current_region_id s3 = child_id" "xy_current_region_entry s3 = Some ?c"
  proof (cases caller)
    case None
    with that [of ?s2] lib2 show ?thesis by (simp add: set_current_region_def)
  next
    case (Some fname)
    from rekey_for_claim_ok [OF Q lib2 m, of fname "re_id pe" child_id] Some that show ?thesis
      by (auto simp: set_current_region_def)
  qed
  let ?s' = "xy_set_err XY_OK s3"
  have eq: "claim_child E Q caller (re_id pe) p granted s = Some (XY_OK, ?s')"
    using pe ok s1(1) s3(1) unfolding child_id by (simp add: claim_child_def fail_with_def Let_def)
  have sh: "same_shape s1 ?s'"
    by (rule same_shape_trans [OF _ same_shape_trans [OF s3(3)]])
      (auto intro: same_shapeI simp: set_current_region_def xy_set_err_def)
  have lib': "wf_lib Q ?s'" by (rule keeps_wf_lib [OF _ s3(2)]) simp
  have regs: "regions ?s' = regions s1" by (simp add: s3(4) set_current_region_def xy_set_err_def)
  have kids: "region_children ?s' p = ?c # region_children s p"
  proof -
    have "region_children s1 p = region_children ?t p"
      using same_tree_links [OF s1(4)] same_tree_region(2) [OF s1(4)] same_tree_region(1) [OF s1(4), of p]
      by (cases "regions ?t p") (force simp: region_children_def rlinks_def)+
    moreover have "region_children ?s' p = region_children s1 p"
    proof -
      from old [OF pe] obtain e1 where e1: "regions s1 p = Some e1" by blast
      with regs have e': "regions ?s' p = Some e1" by simp
      note a = region_children_list(1) [OF wf_tree_parts(1,2) [OF s1(2)] e1]
      note b = region_children_list(1) [OF wf_tree_parts(1,2) [OF wf_libD(2) [OF lib']] e']
      from linked_unique [OF b] a show ?thesis by (simp add: same_shape_links(2) [OF sh])
    qed
    ultimately show ?thesis using cw(2) by simp
  qed
  have anc: "ancestor ?s' a r = ancestor ?t a r" for a r
    using same_shape_ancestor [OF sh s1(2)] same_tree_ancestor [OF s1(4)] by simp
  have rm: "region_mods ?s' q = region_mods s q" for q
  proof -
    have "region_mods ?s' q = region_mods ?t q"
      using same_shape_region_mods [OF same_shape_trans [OF same_tree_shape [OF s1(4)] sh] cw(1)] .
    also have "\<dots> = region_mods s q"
    proof (cases "q = ?c")
      case True
      then have "region_mods ?t q = []" using mod_list_walk(1) [OF wf_tree_parts(3) [OF cw(1)] cw(4)] by simp
      with True fresh show ?thesis by (simp add: region_mods_def)
    next
      case False
      with pe have live: "regions ?t q = None \<longleftrightarrow> regions s q = None"
        by (auto simp: child_links(5) [OF pe fresh leaf(1)])
      show ?thesis
        by (rule region_mods_eq_transfer [OF wf_tree_parts(3) [OF w(2)] wf_tree_parts(3) [OF cw(1)] cw(3) live])
    qed
    finally show ?thesis .
  qed
  have cur: "xy_current_region_id ?s' = child_id" "xy_current_region_entry ?s' = Some ?c"
    by (simp_all add: xy_set_err_def s3(5,6))
  show ?thesis
    using eq lib' fresh c1 regs kids anc ca rm cur old only
    by (intro exI [of _ ?c] exI [of _ ?s']) simp
qed

text \<open>(C22) The slot search under an aligned parent, when the new prefix stays below 64 bits:
  it returns the first free slot, a nonzero offset shifted under the parent's prefix, so
  the id is new, differs from the parent's, is aligned to the new prefix length and lies
  in the parent's prefix; or every slot is taken and it returns the invalid id.  Slot 0
  is the parent's own id and is never returned: at most \<open>2 ^ bits - 1\<close> children fit.\<close>

theorem alloc_slot_first_free:
  assumes "unat (re_plen pe) + unat bits < 64" and "aligned (unat (re_plen pe)) (re_id pe)"
    and "region_lookup Q (re_id pe) s \<noteq> None"
  shows "(\<exists>i. 0 < i \<and> i < 2 ^ unat bits
      \<and> region_alloc_slot Q pe bits s = re_id pe OR push_bit (64 - (unat (re_plen pe) + unat bits)) (of_nat i)
      \<and> region_lookup Q (region_alloc_slot Q pe bits s) s = None
      \<and> region_alloc_slot Q pe bits s \<noteq> re_id pe
      \<and> aligned (unat (re_plen pe) + unat bits) (region_alloc_slot Q pe bits s)
      \<and> in_prefix (re_id pe) (unat (re_plen pe)) (region_alloc_slot Q pe bits s)
      \<and> (\<forall>j < i. region_lookup Q (re_id pe OR push_bit (64 - (unat (re_plen pe) + unat bits)) (of_nat j)) s \<noteq> None))
    \<or> region_alloc_slot Q pe bits s = XY_REGION_INVALID
      \<and> (\<forall>j < 2 ^ unat bits.
            region_lookup Q (re_id pe OR push_bit (64 - (unat (re_plen pe) + unat bits)) (of_nat j)) s \<noteq> None)"
proof -
  let ?sh = "64 - (unat (re_plen pe) + unat bits)"
  have sum: "unat (re_plen pe) + unat bits + ?sh = 64" using assms(1) by simp
  from region_alloc_slot_ok [OF assms] show ?thesis
  proof (elim disjE exE conjE)
    fix i assume i: "0 < i" "i < 2 ^ unat bits" "region_alloc_slot Q pe bits s = slot_id (re_id pe) ?sh i"
      "region_lookup Q (slot_id (re_id pe) ?sh i) s = None"
      "\<forall>j<i. region_lookup Q (slot_id (re_id pe) ?sh j) s \<noteq> None"
    have "slot_id (re_id pe) ?sh i \<noteq> re_id pe"
      using slot_inj [OF assms(2) sum i(2), of 0] i(1) by (auto simp: slot_zero)
    with i slot_aligned [OF assms(2) sum, of i] slot_in_prefix [OF sum i(2), of "re_id pe"]
    show ?thesis by (intro disjI1 exI [of _ i]) (simp add: slot_id_def)
  qed (simp add: slot_id_def)
qed

lemma demo_aligned: "aligned (unat (re_plen (demo_region 0 0 0 None (Some 3) None (Some 5) (Some 6))))
    (re_id (demo_region 0 0 0 None (Some 3) None (Some 5) (Some 6)))"
  by (simp add: aligned_def demo_region_def)

lemma demo_slot: "region_alloc_slot alist_qmap (demo_region 0 0 0 None (Some 3) None (Some 5) (Some 6)) 2 demo
    = 0xC000000000000000"
  by (simp add: region_alloc_slot_def slot_loop.simps demo_region_def region_lookup_def demo_def push_bit_eq_mult)

theorem alloc_slot_first_free_witness:
  "region_alloc_slot alist_qmap (demo_region 0 0 0 None (Some 3) None (Some 5) (Some 6)) 2 demo = 0xC000000000000000
    \<and> region_lookup alist_qmap (0xC000000000000000) demo = None"
proof -
  have a: "unat (re_plen (demo_region 0 0 0 None (Some 3) None (Some 5) (Some 6))) + unat (2 :: u8) < 64"
    by (simp add: demo_region_def)
  have b: "region_lookup alist_qmap (re_id (demo_region 0 0 0 None (Some 3) None (Some 5) (Some 6))) demo \<noteq> None"
    by (simp add: demo_region_def region_lookup_def demo_def)
  from alloc_slot_first_free [OF a demo_aligned b] demo_slot show ?thesis
    by (auto simp: XY_REGION_INVALID_def)
qed

text \<open>(C23) The slot search when the new prefix takes all 64 bits: the bound of the loop wraps to 0, so
  that the loop does not stop after the parent's own \<open>2 ^ bits\<close> slots.  When these are all
  taken and some id reachable by the loop is free, the search returns a free id outside the
  parent's prefix, where it should return the invalid id.\<close>

theorem full_width_slot_escapes:
  assumes "unat (re_plen pe) + unat bits = 64" and "aligned (unat (re_plen pe)) (re_id pe)"
    and "\<forall>i < 2 ^ unat bits. region_lookup Q (re_id pe OR of_nat i) s \<noteq> None"
    and "region_lookup Q (re_id pe OR x) s = None"
  shows "region_lookup Q (region_alloc_slot Q pe bits s) s = None
    \<and> \<not> in_prefix (re_id pe) (unat (re_plen pe)) (region_alloc_slot Q pe bits s)"
proof -
  let ?r = "region_alloc_slot Q pe bits s" and ?taken = "\<lambda>c. region_lookup Q c s \<noteq> None"
  have "unat (re_plen pe + bits) = 64" using child_plen [of "re_plen pe" bits] assms(1) by simp
  then have "re_plen pe + bits = 64" by (simp add: word_unat_eq_iff)
  then have r: "?r = slot_loop ?taken (re_id pe) 0 0 0" by (simp add: region_alloc_slot_def Let_def)
  have n: "unat (0 - (0 + 1) :: u64) + 1 = 2 ^ 64" by (simp add: unsigned_minus_1_eq_mask mask_eq_exp_minus_1)
  have "\<not> ?taken (slot_id (re_id pe) 0 (unat (0 :: u64) + unat x))" "unat x < 2 ^ 64"
    using assms(4) unsigned_less [of x] by (simp_all add: slot_id_def)
  with slot_loop_spec [where taken = ?taken and pid = "re_id pe" and sh = 0 and num = 0 and s = 0, unfolded n] r
  have free: "\<not> ?taken ?r" by metis
  moreover have "\<not> in_prefix (re_id pe) (unat (re_plen pe)) ?r"
  proof
    assume "in_prefix (re_id pe) (unat (re_plen pe)) ?r"
    from in_prefix_slot [OF assms(2,1) this] have "?r = re_id pe OR of_nat (unat (take_bit (unat bits) ?r))"
      by (simp add: slot_id_def)
    moreover have "unat (take_bit (unat bits) ?r) < 2 ^ unat bits"
      by (simp add: unsigned_take_bit_eq)
    ultimately show False using assms(3) free by metis
  qed
  ultimately show ?thesis by simp
qed

text \<open>Region 2 has 63 bits, and its one child has been claimed: ids 2 and 3 are taken.\<close>

definition demo_full :: "demo_q xy_state" where
  "demo_full = demo\<lparr>region_hd := Some [(KId 0, VPtr 1), (KId 2, VPtr 2), (KId 3, VPtr 3)]\<rparr>"

theorem full_width_slot_escapes_witness:
  "region_lookup alist_qmap (region_alloc_slot alist_qmap (demo_region 2 1 63 (Some 1) None None None None) 1 demo_full) demo_full = None
    \<and> \<not> in_prefix 2 63 (region_alloc_slot alist_qmap (demo_region 2 1 63 (Some 1) None None None None) 1 demo_full)"
proof -
  let ?pe = "demo_region 2 1 63 (Some 1) None None None None"
  have b: "unat (re_plen ?pe) + unat (1 :: u8) = 64" "aligned (unat (re_plen ?pe)) (re_id ?pe)"
    by (simp_all add: demo_region_def aligned_def)
  have full: "\<forall>i < 2 ^ unat (1 :: u8). region_lookup alist_qmap (re_id ?pe OR of_nat i) demo_full \<noteq> None"
  proof (intro allI impI)
    fix i :: nat assume "i < 2 ^ unat (1 :: u8)"
    then have "i = 0 \<or> i = 1" by auto
    then show "region_lookup alist_qmap (re_id ?pe OR of_nat i) demo_full \<noteq> None"
      by (auto simp: demo_region_def region_lookup_def demo_full_def)
  qed
  have "region_lookup alist_qmap (re_id ?pe OR 4) demo_full = None"
    by (simp add: demo_region_def region_lookup_def demo_full_def)
  from full_width_slot_escapes [OF b full this] show ?thesis by (simp add: demo_region_def)
qed

text \<open>(C18) A granted claim (the new prefix below 64 bits, some slot free, no allocation
  failing) returns XY_OK and adds exactly one region: a leaf at a fresh address under the
  claiming parent, first among its children, with the id found by the slot search, that
  id in the table, the parent's prefix length plus the granted bits, and the parent's
  ancestors as its own.  All other regions keep their id, parent and modules, the new
  region becomes the current one, and every invariant of the library still holds.\<close>

theorem claim_adds_region:
  assumes "qmap_laws Q" and "alloc_ok E" and "wf_lib Q s" and "regions s p = Some pe"
    and "aligned (unat (re_plen pe)) (re_id pe)"
    and "0 < unat granted" and "unat (re_plen pe) + unat granted < 64"
    and "region_alloc_slot Q pe granted s \<noteq> XY_REGION_INVALID"
  shows "\<exists>c s' ce. claim_child E Q caller (re_id pe) p granted s = Some (XY_OK, s') \<and> wf_lib Q s'
    \<and> regions s c = None \<and> regions s' c = Some ce
    \<and> re_id ce = region_alloc_slot Q pe granted s \<and> re_parent ce = Some p
    \<and> unat (re_plen ce) = unat (re_plen pe) + unat granted \<and> re_depth ce = re_depth pe + 1
    \<and> region_lookup Q (re_id ce) s' = Some c
    \<and> region_children s' p = c # region_children s p
    \<and> (\<forall>a. ancestor s' a c \<longleftrightarrow> a = c \<or> ancestor s a p)
    \<and> (\<forall>q e. regions s q = Some e \<longrightarrow> (\<exists>e'. regions s' q = Some e' \<and> re_id e' = re_id e
          \<and> re_parent e' = re_parent e \<and> region_mods s' q = region_mods s q))
    \<and> xy_current_region_id s' = re_id ce \<and> xy_current_region_entry s' = Some c"
proof -
  let ?id = "region_alloc_slot Q pe granted s"
  let ?ce = "(new_child pe p ?id granted caller)\<lparr>sibling_next := children_head pe\<rparr>"
  from claim_child_ok [OF assms(1-7) refl assms(8), of caller] obtain c s' where
    c: "claim_child E Q caller (re_id pe) p granted s = Some (XY_OK, s')" "wf_lib Q s'" "regions s c = None"
    "regions s' c = Some ?ce" "region_children s' p = c # region_children s p"
    "\<forall>a. ancestor s' a c \<longleftrightarrow> a = c \<or> ancestor s a p" "\<forall>q. region_mods s' q = region_mods s q"
    "xy_current_region_id s' = ?id" "xy_current_region_entry s' = Some c"
    "\<forall>q e. regions s q = Some e \<longrightarrow> (\<exists>e'. regions s' q = Some e' \<and> re_id e' = re_id e
          \<and> re_plen e' = re_plen e \<and> re_parent e' = re_parent e)" by blast
  have ce: "re_id ?ce = ?id" "re_parent ?ce = Some p" "re_depth ?ce = re_depth pe + 1"
    "unat (re_plen ?ce) = unat (re_plen pe) + unat granted"
    using assms(7) by (simp_all add: new_child_def child_plen)
  have "region_lookup Q ?id s' = Some c"
    using region_lookup_iff [OF wf_libD(3) [OF c(2)], of ?id c] c(4) ce(1) by simp
  moreover have "\<forall>q e. regions s q = Some e \<longrightarrow> (\<exists>e'. regions s' q = Some e' \<and> re_id e' = re_id e
      \<and> re_parent e' = re_parent e \<and> region_mods s' q = region_mods s q)"
    using c(7,10) by blast
  ultimately show ?thesis
    using c(1-6,8,9) ce by (intro exI [of _ c] exI [of _ s'] exI [of _ ?ce]) simp
qed

theorem claim_adds_region_witness:
  "\<exists>c s' ce. claim_child demo_env alist_qmap (Some ''m'') 0 1 2 demo = Some (XY_OK, s')
    \<and> wf_lib alist_qmap s' \<and> regions s' c = Some ce \<and> re_id ce = 0xC000000000000000"
proof -
  let ?pe = "demo_region 0 0 0 None (Some 3) None (Some 5) (Some 6)"
  have E: "alloc_ok demo_env" by (simp add: alloc_ok_def)
  have a: "unat (re_plen ?pe) + unat (2 :: u8) < 64" "0 < unat (2 :: u8)" by (simp_all add: demo_region_def)
  have i: "region_alloc_slot alist_qmap ?pe 2 demo \<noteq> XY_REGION_INVALID"
    by (simp add: demo_slot XY_REGION_INVALID_def)
  have z: "re_id ?pe = 0" by (simp add: demo_region_def)
  from claim_adds_region [OF alist_qmap_laws E demo_wf_lib demo_sel(1) demo_aligned a(2,1) i, of "Some ''m''"]
  show ?thesis unfolding demo_slot z by blast
qed

text \<open>The key of a module moves with its claim: after re-keying, the old key finds
  nothing and the new key finds the module, unless both keys coincide, which happens
  exactly when the child's id differs from the parent's in the lowest hexadecimal digit
  only; then the entry is deleted right after it was stored and the module is in the
  table no more.\<close>

lemma rekey_moves_module:
  assumes "qmap_laws Q" and "wf_lib Q s" and "c_string path" and "mods s me = Some e"
    and "me_mod_key e = key_of path parent_id" and "e_malloc E s (AllocBytes (mod_key_len path))"
  shows "\<exists>s'. module_rekey_loaded_entry E Q me (key_of path parent_id) path parent_id child_id s = Some s'
    \<and> wf_lib Q s' \<and> mod_hd_get Q (key_of path parent_id) s' = None
    \<and> mod_hd_get Q (key_of path child_id) s'
        = (if drop_bit 4 parent_id = drop_bit 4 child_id then None else Some me)
    \<and> map_option me_region_id (mods s' me) = Some child_id"
  using rekey_loaded_ok [OF assms(1,2,4,5,6) refl, of parent_id child_id]
    key_of_eq_iff [OF assms(3,3), of child_id parent_id] by auto

text \<open>(C24) A claim that fails changes nothing but the error value (and what its handler did),
  and its code says why: XY_ERR_INVALID for zero or more than 64 requested bits,
  XY_ERR_NOTFOUND for an unknown parent, XY_ERR_EPERM when there is no handler, when it
  refuses, or when it grants no valid width, and XY_ERR_TOOBIG when no slot is free.\<close>

theorem claim_failure_atomic:
  assumes "xy_claim_for_load E Q caller rid bits s = Some (r, s')" and "r \<noteq> XY_OK"
  shows "r = XY_ERR_INVALID \<and> (bits = 0 \<or> bits > 64) \<and> s' = s\<lparr>xy_err_val := r\<rparr>
    \<or> r = XY_ERR_NOTFOUND \<and> region_lookup Q rid s = None \<and> s' = s\<lparr>xy_err_val := r\<rparr>
    \<or> (\<exists>p pe. region_lookup Q rid s = Some p \<and> regions s p = Some pe
        \<and> (r = XY_ERR_EPERM \<and> claim_handler pe = 0 \<and> s' = s\<lparr>xy_err_val := r\<rparr>
          \<or> (\<exists>h g s1. e_handler E (claim_handler pe) (case caller of None \<Rightarrow> [] | Some c \<Rightarrow> c) bits
                (claim_handler_ud pe) s = Some ((h, g), s1) \<and> s' = s1\<lparr>xy_err_val := r\<rparr>
              \<and> (r = XY_ERR_EPERM \<and> (h \<noteq> XY_OK \<or> g = 0 \<or> g > 64)
                \<or> r = XY_ERR_TOOBIG \<and> (\<exists>pe1. regions s1 p = Some pe1 \<and> region_alloc_slot Q pe1 g s1 = XY_REGION_INVALID)))))"
proof -
  have ok: "claim_child E Q caller rid p g s1 = Some (r, s') \<Longrightarrow> r = XY_ERR_TOOBIG
      \<and> s' = s1\<lparr>xy_err_val := r\<rparr> \<and> (\<exists>pe1. regions s1 p = Some pe1 \<and> region_alloc_slot Q pe1 g s1 = XY_REGION_INVALID)"
    for p g s1
    using assms(2) by (auto simp: claim_child_def fail_with_def xy_set_err_def Let_def bind_eq_Some_conv split: if_splits)
  show ?thesis
  proof (cases "bits = 0 \<or> bits > 64")
    case True
    with assms(1) show ?thesis by (auto simp: xy_claim_for_load_def fail_with_def xy_set_err_def)
  next
    case False
    show ?thesis
    proof (cases "region_lookup Q rid s")
      case None
      with False assms(1) show ?thesis by (auto simp: xy_claim_for_load_def fail_with_def xy_set_err_def)
    next
      case (Some p)
      with False assms(1) obtain pe where pe: "regions s p = Some pe"
        by (auto simp: xy_claim_for_load_def bind_eq_Some_conv)
      show ?thesis
      proof (cases "claim_handler pe = 0")
        case True
        with False Some pe assms(1) show ?thesis by (auto simp: xy_claim_for_load_def fail_with_def xy_set_err_def)
      next
        case nz: False
        from False Some pe nz assms(1) obtain h g s1 where h: "e_handler E (claim_handler pe)
            (case caller of None \<Rightarrow> [] | Some c \<Rightarrow> c) bits (claim_handler_ud pe) s = Some ((h, g), s1)"
          "(if h \<noteq> XY_OK then Some (fail_with XY_ERR_EPERM s1)
            else if g = 0 \<or> g > 64 then Some (fail_with XY_ERR_EPERM s1)
            else claim_child E Q caller rid p g s1) = Some (r, s')"
          by (auto simp: xy_claim_for_load_def bind_eq_Some_conv)
        from h(2) ok [of p g s1] have "s' = s1\<lparr>xy_err_val := r\<rparr> \<and> (r = XY_ERR_EPERM \<and> (h \<noteq> XY_OK \<or> g = 0 \<or> g > 64)
            \<or> r = XY_ERR_TOOBIG \<and> (\<exists>pe1. regions s1 p = Some pe1 \<and> region_alloc_slot Q pe1 g s1 = XY_REGION_INVALID))"
          by (auto simp: fail_with_def xy_set_err_def split: if_splits)
        with Some pe h(1) show ?thesis by blast
      qed
    qed
  qed
qed

theorem claim_failure_atomic_witness:
  "xy_claim_for_load demo_env alist_qmap None 1 65 demo = Some (XY_ERR_INVALID, demo\<lparr>xy_err_val := XY_ERR_INVALID\<rparr>)
   \<and> ((65 :: u8) = 0 \<or> (65 :: u8) > 64)"
proof -
  have "xy_claim_for_load demo_env alist_qmap None 1 65 demo
      = Some (XY_ERR_INVALID, demo\<lparr>xy_err_val := XY_ERR_INVALID\<rparr>)"
    by (simp add: xy_claim_for_load_def fail_with_def xy_set_err_def)
  moreover from claim_failure_atomic [OF this] have "(65 :: u8) = 0 \<or> (65 :: u8) > 64"
    by (simp add: xy_codes)
  ultimately show ?thesis by blast
qed

end
