(* ===== verification/Xy_Deny.thy ===== *)
theory Xy_Deny
  imports Xy_Claimed
begin

text \<open>
  Denying (src/libxylem.c, lines 589-618, 1079-1087 and 1322-1379): a region keeps the
  hooks and the modules it denies as lists and as sets for lookup; \<open>xy_deny\<close> adds to
  both, raises the flag of the region and of its ancestors, and bumps their dispatch
  generation; removing a module's denies takes a path out of list and set.
\<close>

section \<open>Operations\<close>

definition set_put :: "'q qmap_ops \<Rightarrow> qkey \<Rightarrow> 'q option \<Rightarrow> 'q option" where
  "set_put Q k h = Some (qmap_put Q (case h of None \<Rightarrow> qmap_open Q | Some q \<Rightarrow> q) k (VPtr 1))"

definition set_has :: "'q qmap_ops \<Rightarrow> 'q option \<Rightarrow> qkey \<Rightarrow> bool" where
  "set_has Q h k \<longleftrightarrow> (case h of None \<Rightarrow> False | Some q \<Rightarrow> qmap_get Q q k \<noteq> None)"

definition add_hook_deny :: "'q qmap_ops \<Rightarrow> string \<Rightarrow> 'q xy_region_entry \<Rightarrow> 'q xy_region_entry" where
  "add_hook_deny Q what e = e\<lparr>denied_hooks := what # denied_hooks e,
     denied_hooks_set := set_put Q (KStr what) (denied_hooks_set e)\<rparr>"

definition add_module_deny :: "'q qmap_ops \<Rightarrow> sptr \<Rightarrow> 'q xy_region_entry \<Rightarrow> 'q xy_region_entry" where
  "add_module_deny Q path e = e\<lparr>denied_modules := path # denied_modules e,
     denied_modules_set := set_put Q (KPtr path) (denied_modules_set e)\<rparr>"

definition deny_raise :: "rptr \<Rightarrow> 'q xy_state \<Rightarrow> (int \<times> 'q xy_state) option" where
  "deny_raise reg s = (do {
     s1 \<leftarrow> region_propagate_deny (Some reg) s;
     s2 \<leftarrow> region_dispatch_gen_bump (Some reg) s1;
     Some (fail_with XY_OK s2) })"

definition xy_deny :: "'q env \<Rightarrow> 'q qmap_ops \<Rightarrow> string \<Rightarrow> xy_deny_type \<Rightarrow> 'q xy_state
    \<Rightarrow> (int \<times> 'q xy_state) option" where
  "xy_deny E Q what type = ensured E Q (\<lambda>s.
     (case region_lookup Q (xy_current_region_id s) s of
        None \<Rightarrow> Some (fail_with XY_ERR_NOTFOUND s)
      | Some reg \<Rightarrow>
          if \<not> e_malloc E s AllocDeny then None
          else (case type of
            XY_DENY_HOOK \<Rightarrow>
              if \<not> e_malloc E s (AllocStr (length what + 1)) then None
              else do {
                s1 \<leftarrow> upd_region reg (add_hook_deny Q what) s;
                deny_raise reg s1 }
          | XY_DENY_MODULE \<Rightarrow>
              (case module_load_path E what s of
                 None \<Rightarrow> Some (fail_with XY_ERR_INVALID s)
               | Some path \<Rightarrow>
                   (case module_path_intern Q (Some path) s of
                      (None, s1) \<Rightarrow> Some (fail_with XY_ERR_INVALID s1)
                    | (Some interned, s1) \<Rightarrow> do {
                        s2 \<leftarrow> upd_region reg (add_module_deny Q interned) s1;
                        deny_raise reg s2 })))))"

definition denied_in :: "'q qmap_ops \<Rightarrow> 'q xy_region_entry \<Rightarrow> sptr \<Rightarrow> bool" where
  "denied_in Q e path \<longleftrightarrow> set_has Q (denied_modules_set e) (KPtr path) \<or> path \<in> set (denied_modules e)"

definition module_is_denied :: "'q qmap_ops \<Rightarrow> 'q xy_state \<Rightarrow> rptr option \<Rightarrow> sptr option \<Rightarrow> bool option" where
  "module_is_denied Q s re path = (case (re, path) of
       (Some r, Some a) \<Rightarrow> map_option (\<lambda>e. denied_in Q e a) (regions s r)
     | _ \<Rightarrow> Some False)"

text \<open>The walk over the list of denied modules; every removed node is also deleted from the
  set.\<close>

fun remove_denies_loop :: "'q qmap_ops \<Rightarrow> sptr \<Rightarrow> sptr list \<Rightarrow> 'q option \<Rightarrow> sptr list \<times> 'q option" where
  "remove_denies_loop Q path [] h = ([], h)"
| "remove_denies_loop Q path (d # ds) h =
     (if d = path then remove_denies_loop Q path ds (map_option (\<lambda>q. qmap_del Q q (KPtr d)) h)
      else (let (ds', h') = remove_denies_loop Q path ds h in (d # ds', h')))"

definition drop_denies :: "'q qmap_ops \<Rightarrow> sptr \<Rightarrow> 'q xy_region_entry \<Rightarrow> 'q xy_region_entry" where
  "drop_denies Q path e = (let (ds, h) = remove_denies_loop Q path (denied_modules e) (denied_modules_set e)
     in e\<lparr>denied_modules := ds, denied_modules_set := h\<rparr>)"

definition module_remove_denies :: "'q qmap_ops \<Rightarrow> rptr option \<Rightarrow> sptr option \<Rightarrow> 'q xy_state
    \<Rightarrow> 'q xy_state option" where
  "module_remove_denies Q re path s = (case (re, path) of
       (Some r, Some a) \<Rightarrow> upd_region r (drop_denies Q a) s
     | _ \<Rightarrow> Some s)"

definition module_remove_path_owned_entries :: "'q qmap_ops \<Rightarrow> rptr option \<Rightarrow> sptr option \<Rightarrow> 'q xy_state
    \<Rightarrow> 'q xy_state option" where
  "module_remove_path_owned_entries Q re path s =
     (if re = None \<or> path = None then Some s else module_remove_denies Q re path s)"

section \<open>Lists and sets agree\<close>

definition wf_deny :: "'q qmap_ops \<Rightarrow> 'q xy_region_entry \<Rightarrow> bool" where
  "wf_deny Q e \<longleftrightarrow> (\<forall>n. set_has Q (denied_hooks_set e) (KStr n) \<longleftrightarrow> n \<in> set (denied_hooks e))
     \<and> (\<forall>a. set_has Q (denied_modules_set e) (KPtr a) \<longleftrightarrow> a \<in> set (denied_modules e))"

lemma set_has_put: "qmap_laws Q \<Longrightarrow> set_has Q (set_put Q k h) k' \<longleftrightarrow> k' = k \<or> set_has Q h k'"
  by (simp add: set_has_def set_put_def qmap_simps split: option.split)

lemma set_has_del:
  "qmap_laws Q \<Longrightarrow> set_has Q (map_option (\<lambda>q. qmap_del Q q k) h) k' \<longleftrightarrow> k' \<noteq> k \<and> set_has Q h k'"
  by (simp add: set_has_def qmap_simps split: option.split)

lemma remove_denies_loop_list: "fst (remove_denies_loop Q path ds h) = filter (\<lambda>d. d \<noteq> path) ds"
  by (induction Q path ds h rule: remove_denies_loop.induct) (auto split: prod.splits)

lemma remove_denies_loop_set:
  "qmap_laws Q \<Longrightarrow> set_has Q (snd (remove_denies_loop Q path ds h)) k
     \<longleftrightarrow> (if path \<in> set ds then k \<noteq> KPtr path \<and> set_has Q h k else set_has Q h k)"
  by (induction Q path ds h rule: remove_denies_loop.induct) (auto simp: set_has_del split: prod.splits)

lemma wf_deny_ops:
  assumes "qmap_laws Q" and "wf_deny Q e"
  shows "wf_deny Q (add_hook_deny Q what e)" "wf_deny Q (add_module_deny Q path e)" "wf_deny Q (drop_denies Q path e)"
proof -
  show "wf_deny Q (add_hook_deny Q what e)" "wf_deny Q (add_module_deny Q path e)"
    using assms by (auto simp: wf_deny_def add_hook_deny_def add_module_deny_def set_has_put)
  obtain ds h where l: "remove_denies_loop Q path (denied_modules e) (denied_modules_set e) = (ds, h)" by fastforce
  have ds: "ds = filter (\<lambda>d. d \<noteq> path) (denied_modules e)"
    using remove_denies_loop_list [of Q path "denied_modules e" "denied_modules_set e"] l by simp
  have "set_has Q h (KPtr a) \<longleftrightarrow> a \<in> set ds" for a
  proof -
    have "set_has Q (denied_modules_set e) (KPtr a) \<longleftrightarrow> a \<in> set (denied_modules e)"
      using assms(2) by (simp add: wf_deny_def)
    with remove_denies_loop_set [OF assms(1), of path "denied_modules e" "denied_modules_set e" "KPtr a"]
    show ?thesis unfolding l ds by (cases "a = path") (auto split: if_splits)
  qed
  with assms(2) show "wf_deny Q (drop_denies Q path e)"
    by (simp add: wf_deny_def drop_denies_def l)
qed

lemma deny_ops_fields [simp]:
  "rlinks (add_hook_deny Q w e) = rlinks e" "re_id (add_hook_deny Q w e) = re_id e"
  "rlinks (add_module_deny Q a e) = rlinks e" "re_id (add_module_deny Q a e) = re_id e"
  "rlinks (drop_denies Q a e) = rlinks e" "re_id (drop_denies Q a e) = re_id e"
  by (simp_all add: add_hook_deny_def add_module_deny_def drop_denies_def rlinks_def split: prod.split)

lemma denied_in_ops:
  assumes "qmap_laws Q" and "wf_deny Q e"
  shows "denied_in Q (add_module_deny Q a e) b \<longleftrightarrow> b = a \<or> denied_in Q e b"
    and "denied_in Q (drop_denies Q a e) b \<longleftrightarrow> b \<noteq> a \<and> denied_in Q e b"
  using wf_deny_ops [OF assms] assms(2) remove_denies_loop_list [of Q a "denied_modules e" "denied_modules_set e"]
  by (auto simp: denied_in_def wf_deny_def)
    (auto simp: add_module_deny_def drop_denies_def split: prod.splits)

section \<open>Raising the flag\<close>

definition flag_and_bump :: "'q xy_region_entry \<Rightarrow> 'q xy_region_entry" where
  "flag_and_bump e = bump_gen (set_deny_flag e)"

lemma deny_raise_eq:
  assumes "wf_parents s" and "regions s reg \<noteq> None"
  shows "deny_raise reg s
    = Some (XY_OK, s\<lparr>regions := ancestor_upd flag_and_bump (Some reg) s, xy_err_val := XY_OK\<rparr>)"
proof -
  let ?t = "s\<lparr>regions := ancestor_upd set_deny_flag (Some reg) s\<rparr>"
  have st: "same_tree s ?t" by (rule ancestor_upd_same_tree) simp
  have 1: "region_propagate_deny (Some reg) s = Some ?t"
    unfolding region_propagate_deny_def by (rule for_ancestors_eq [OF assms(1)]) (use assms(2) in simp)
  have 2: "region_dispatch_gen_bump (Some reg) ?t = Some (?t\<lparr>regions := ancestor_upd bump_gen (Some reg) ?t\<rparr>)"
    unfolding region_dispatch_gen_bump_def
    by (rule for_ancestors_eq [OF same_tree_parents [OF st assms(1)]]) (use assms(2) same_tree_region(1) [OF st, of reg] in auto)
  have "ancestor_upd bump_gen (Some reg) ?t p = ancestor_upd flag_and_bump (Some reg) s p" for p
    using same_tree_ancestor [OF st]
    by (cases "regions s p") (simp_all add: ancestor_upd_def flag_and_bump_def)
  then have 3: "ancestor_upd bump_gen (Some reg) ?t = ancestor_upd flag_and_bump (Some reg) s" by blast
  show ?thesis
    unfolding deny_raise_def 1 bind.bind_lunit 2 3 by (simp add: fail_with_def xy_set_err_def)
qed

text \<open>What a successful deny does to the regions: the entry goes into the current region,
  the flag and the generation change for it and its ancestors, nothing else does.\<close>

definition deny_effect :: "('q xy_region_entry \<Rightarrow> 'q xy_region_entry) \<Rightarrow> rptr \<Rightarrow> 'q xy_state
    \<Rightarrow> rptr \<Rightarrow> 'q xy_region_entry \<Rightarrow> 'q xy_region_entry" where
  "deny_effect add reg s p e = (if ancestor s p reg
     then flag_and_bump (if p = reg then add e else e) else e)"

lemma deny_raise_upd:
  assumes wf: "wf_tree s" and e: "regions s reg = Some e" and add: "\<And>e. rlinks (add e) = rlinks e"
  shows "\<exists>s'. upd_region reg add s = Some (s\<lparr>regions := (regions s)(reg \<mapsto> add e)\<rparr>)
    \<and> deny_raise reg (s\<lparr>regions := (regions s)(reg \<mapsto> add e)\<rparr>) = Some (XY_OK, s')
    \<and> s' = s\<lparr>regions := regions s', xy_err_val := XY_OK\<rparr>
    \<and> (\<forall>p. regions s' p = map_option (deny_effect add reg s p) (regions s p))"
proof -
  let ?t = "s\<lparr>regions := (regions s)(reg \<mapsto> add e)\<rparr>"
  have sh: "same_shape s ?t" by (rule same_shape_region_upd [OF e, of add]) (rule add)
  have wft: "wf_tree ?t" by (rule same_shape_wf' [OF sh wf])
  let ?s' = "?t\<lparr>regions := ancestor_upd flag_and_bump (Some reg) ?t, xy_err_val := XY_OK\<rparr>"
  have 1: "deny_raise reg ?t = Some (XY_OK, ?s')"
    by (rule deny_raise_eq [OF wf_tree_parts(1) [OF wft]]) simp
  have anc: "ancestor s reg reg" using ancestor_refl [OF wf_tree_parts(1) [OF wf], of reg] e by simp
  have 2: "regions ?s' p = map_option (deny_effect add reg s p) (regions s p)" for p
    using same_shape_ancestor [OF sh wf, of p reg] e anc
    by (cases "regions s p") (auto simp: ancestor_upd_def deny_effect_def)
  show ?thesis using 1 2 e by (intro exI [of _ ?s']) (simp add: upd_region_def)
qed

lemma deny_effect_fields:
  assumes "\<And>e. rlinks (add e) = rlinks e" and "\<And>e. re_id (add e) = re_id e"
  shows "rlinks (deny_effect add reg s p e) = rlinks e" "re_id (deny_effect add reg s p e) = re_id e"
proof -
  have "re_id (flag_and_bump x) = re_id x" "rlinks (flag_and_bump x) = rlinks x" for x :: "'a xy_region_entry"
    by (simp add: flag_and_bump_def bump_gen_def set_deny_flag_def) (simp add: flag_and_bump_def)
  with assms show "rlinks (deny_effect add reg s p e) = rlinks e" "re_id (deny_effect add reg s p e) = re_id e"
    by (simp_all add: deny_effect_def)
qed

lemma deny_keeps:
  assumes "\<And>e. rlinks (add e) = rlinks e" and "\<And>e. re_id (add e) = re_id e"
    and "s' = s\<lparr>regions := regions s', xy_err_val := XY_OK\<rparr>"
    and "\<And>p. regions s' p = map_option (deny_effect add reg s p) (regions s p)"
  shows "keeps s s'"
proof -
  have "same_shape s s'"
    unfolding same_shape_def using assms(4) deny_effect_fields [OF assms(1,2)]
    by (subst (2) assms(3), subst (3) assms(3)) (simp add: option.map_comp comp_def)
  moreover have "map_option re_id (regions s' p) = map_option re_id (regions s p)" for p
    using assms(4) deny_effect_fields [OF assms(1,2)] by (simp add: option.map_comp comp_def)
  moreover have "region_hd s' = region_hd s" "strs s' = strs s" "path_intern_hd s' = path_intern_hd s"
    "xy_inited s' = xy_inited s" "xy_current_region_entry s' = xy_current_region_entry s"
    "xy_current_region_id s' = xy_current_region_id s" "mod_hd s' = mod_hd s" "mods s' = mods s"
    "ctxs s' = ctxs s" "mod_by_region_hd s' = mod_by_region_hd s" "sica_hd s' = sica_hd s" "hook_id_hd s' = hook_id_hd s"
    by (subst assms(3), simp)+
  ultimately show ?thesis by (simp add: keeps_def)
qed

lemma xy_deny_hook_ok:
  assumes m: "alloc_ok E" and wf: "wf_lib Q s" and p: "xy_current_region_entry s = Some reg"
  shows "\<exists>s'. xy_deny E Q what XY_DENY_HOOK s = Some (XY_OK, s') \<and> wf_lib Q s' \<and> keeps s s'
    \<and> s' = s\<lparr>regions := regions s', xy_err_val := XY_OK\<rparr>
    \<and> (\<forall>p. regions s' p = map_option (deny_effect (add_hook_deny Q what) reg s p) (regions s p))"
proof -
  note w = wf_libD [OF wf]
  from w(5) p obtain e where e: "regions s reg = Some e" "re_id e = xy_current_region_id s"
    by (auto simp: wf_current_def)
  have l: "region_lookup Q (xy_current_region_id s) s = Some reg"
    using region_lookup_iff [OF w(3)] e by blast
  from deny_raise_upd [OF w(2) e(1), of "add_hook_deny Q what"] obtain s' where s':
    "upd_region reg (add_hook_deny Q what) s = Some (s\<lparr>regions := (regions s)(reg \<mapsto> add_hook_deny Q what e)\<rparr>)"
    "deny_raise reg (s\<lparr>regions := (regions s)(reg \<mapsto> add_hook_deny Q what e)\<rparr>) = Some (XY_OK, s')"
    "s' = s\<lparr>regions := regions s', xy_err_val := XY_OK\<rparr>"
    "\<And>p. regions s' p = map_option (deny_effect (add_hook_deny Q what) reg s p) (regions s p)" by auto
  have "keeps s s'" by (rule deny_keeps [OF _ _ s'(3,4)]) simp_all
  moreover have "xy_deny E Q what XY_DENY_HOOK s = Some (XY_OK, s')"
    using l m s'(1,2) by (simp add: xy_deny_def w(1) alloc_ok_def)
  ultimately show ?thesis using keeps_wf_lib [OF _ wf] s'(3,4) by blast
qed

lemma deny_sel:
  "subtree_flags (add_hook_deny Q what e) = subtree_flags e" "dispatch_gen (add_hook_deny Q what e) = dispatch_gen e"
  "denied_hooks_set (add_hook_deny Q what e) = set_put Q (KStr what) (denied_hooks_set e)"
  "subtree_flags (flag_and_bump e) = subtree_flags e OR XY_SUBTREE_HAS_DENY"
  "dispatch_gen (flag_and_bump e) = next_gen (dispatch_gen e)" "denied_hooks_set (flag_and_bump e) = denied_hooks_set e"
  by (simp_all add: add_hook_deny_def flag_and_bump_def bump_gen_def set_deny_flag_def)

text \<open>(C8) Denying a hook from the current region succeeds and keeps every invariant.  The
  hook is then in the region's deny set, the deny flag is raised in the region and in
  each of its ancestors, whose cached dispatch vectors go stale with the new generation;
  the regions below it are not touched at all: their flag, and so what they deny, is
  what it was.\<close>

theorem deny_hook_reaches_ancestors_only:
  assumes "qmap_laws Q" and "alloc_ok E" and "wf_lib Q s" and "xy_current_region_entry s = Some reg"
  shows "\<exists>s'. xy_deny E Q what XY_DENY_HOOK s = Some (XY_OK, s') \<and> wf_lib Q s'
    \<and> (\<forall>p e. regions s p = Some e \<longrightarrow> (\<exists>e'. regions s' p = Some e'
        \<and> (ancestor s p reg \<longrightarrow> subtree_flags e' = subtree_flags e OR XY_SUBTREE_HAS_DENY
             \<and> dispatch_gen e' = next_gen (dispatch_gen e))
        \<and> (p = reg \<longrightarrow> set_has Q (denied_hooks_set e') (KStr what))
        \<and> (\<not> ancestor s p reg \<longrightarrow> e' = e)))"
proof -
  from xy_deny_hook_ok [OF assms(2-4), of what] obtain s' where s':
    "xy_deny E Q what XY_DENY_HOOK s = Some (XY_OK, s')" "wf_lib Q s'"
    "\<forall>p. regions s' p = map_option (deny_effect (add_hook_deny Q what) reg s p) (regions s p)" by blast
  have reg: "ancestor s reg reg"
    using wf_libD(5) [OF assms(3)] assms(4) ancestor_refl [OF wf_tree_parts(1) [OF wf_libD(2) [OF assms(3)]], of reg]
    by (auto simp: wf_current_def)
  show ?thesis
    using s' reg by (intro exI [of _ s']) (auto simp: deny_effect_def deny_sel set_has_put [OF assms(1)])
qed

theorem deny_hook_reaches_ancestors_only_witness:
  "\<exists>s' e'. xy_deny demo_env alist_qmap ''h'' XY_DENY_HOOK demo = Some (XY_OK, s')
    \<and> regions s' 1 = Some e' \<and> set_has alist_qmap (denied_hooks_set e') (KStr ''h'')"
proof -
  have E: "alloc_ok demo_env" by (simp add: alloc_ok_def)
  have c: "xy_current_region_entry demo = Some 1" by (simp add: demo_def)
  from deny_hook_reaches_ancestors_only [OF alist_qmap_laws E demo_wf_lib c, of "''h''"] demo_sel(1)
  show ?thesis by blast
qed

text \<open>The list and the set of denied modules say the same, before and after: a module is
  denied in a region exactly when its path was added and not removed since; removing a
  path's denies removes all of them and no other path's.\<close>

lemma module_denies_roundtrip:
  assumes "qmap_laws Q" and "wf_deny Q e"
  shows "wf_deny Q (add_module_deny Q a e) \<and> wf_deny Q (drop_denies Q a e)
    \<and> (denied_in Q (add_module_deny Q a e) b \<longleftrightarrow> b = a \<or> denied_in Q e b)
    \<and> (denied_in Q (drop_denies Q a (add_module_deny Q a e)) b \<longleftrightarrow> b \<noteq> a \<and> denied_in Q e b)"
  using wf_deny_ops [OF assms] denied_in_ops [OF assms]
    denied_in_ops(2) [OF assms(1) wf_deny_ops(2) [OF assms]] by blast

end
