(* ===== verification/Xy_Hooks.thy ===== *)
theory Xy_Hooks
  imports Xy_Deny
begin

text \<open>
  Hooks (src/libxylem.c, lines 116-168 and 676-698, src/libxylem-internal.h, lines
  120-130, src/libxylem-dispatch.c, lines 40-105 and 364-411): hook ids, the bit set of
  the hooks a module implements, the per-module cache of resolved symbols, and the
  registration of adapters.
\<close>

section \<open>Operations\<close>

definition module_has_hook_implemented :: "xy_mod_entry \<Rightarrow> int \<Rightarrow> bool" where
  "module_has_hook_implemented me hook_id =
     (if hook_id < 0 then False
      else let word = nat (hook_id div 64) in
        if word \<ge> length (hook_impl_bits me) then False
        else hook_impl_bits me ! word AND push_bit (nat (hook_id mod 64)) 1 \<noteq> 0)"

definition module_ensure_hook_impl_words :: "'q env \<Rightarrow> mptr option \<Rightarrow> int \<Rightarrow> 'q xy_state
    \<Rightarrow> (int \<times> 'q xy_state) option" where
  "module_ensure_hook_impl_words E me hook_id s = (case me of None \<Rightarrow> Some (- 1, s)
     | Some m \<Rightarrow>
       if hook_id < 0 then Some (- 1, s)
       else do {
         e \<leftarrow> mods s m;
         let needed_words = nat (hook_id div 64) + 1;
         if needed_words \<le> length (hook_impl_bits e) then Some (0, s)
         else if \<not> e_malloc E s (AllocBytes (needed_words * 8)) then Some (- 1, s)
         else do { s1 \<leftarrow> upd_mod m (\<lambda>e. e\<lparr>hook_impl_bits := grow needed_words 0 (hook_impl_bits e)\<rparr>) s;
                   Some (0, s1) } })"

definition set_hook_bit :: "int \<Rightarrow> u64 list \<Rightarrow> u64 list" where
  "set_hook_bit hook_id ws = (let w = nat (hook_id div 64) in
     ws[w := ws ! w OR push_bit (nat (hook_id mod 64)) 1])"

definition module_mark_hook_implemented :: "'q env \<Rightarrow> mptr option \<Rightarrow> int \<Rightarrow> 'q xy_state
    \<Rightarrow> 'q xy_state option" where
  "module_mark_hook_implemented E me hook_id s = (case me of None \<Rightarrow> Some s
     | Some m \<Rightarrow>
       if hook_id < 0 then Some s
       else do {
         (r, s1) \<leftarrow> module_ensure_hook_impl_words E me hook_id s;
         if r < 0 then Some s1
         else upd_mod m (\<lambda>e. e\<lparr>hook_impl_bits := set_hook_bit hook_id (hook_impl_bits e)\<rparr>) s1 })"

definition module_ensure_fn_cache_cap :: "'q env \<Rightarrow> mptr option \<Rightarrow> int \<Rightarrow> 'q xy_state
    \<Rightarrow> (int \<times> 'q xy_state) option" where
  "module_ensure_fn_cache_cap E me needed s = (case me of None \<Rightarrow> Some (0, s)
     | Some m \<Rightarrow> do {
         e \<leftarrow> mods s m;
         if needed \<le> int (length (fn_cache e)) then Some (0, s)
         else if \<not> e_malloc E s (AllocBytes (nat needed * 8)) then Some (- 1, s)
         else do { s1 \<leftarrow> upd_mod m (\<lambda>e. e\<lparr>fn_cache := grow (nat needed) 0 (fn_cache e)\<rparr>) s;
                   Some (0, s1) } })"

text \<open>The resolution of one symbol: \<open>dlsym\<close>, the store into the cache, the bit.\<close>

definition resolve_store :: "'q env \<Rightarrow> mptr \<Rightarrow> int \<Rightarrow> string \<Rightarrow> 'q xy_state
    \<Rightarrow> (code \<times> 'q xy_state) option" where
  "resolve_store E m hook_id name s = (do {
     e \<leftarrow> mods s m;
     h \<leftarrow> me_handle e;
     let cb = e_dlsym E h name;
     s1 \<leftarrow> (if hook_id \<ge> 0 then do {
          cs \<leftarrow> upd_opt (fn_cache e) hook_id (if cb \<noteq> 0 then cb else XY_FN_NOT_FOUND);
          upd_mod m (\<lambda>e. e\<lparr>fn_cache := cs\<rparr>) s }
        else Some s);
     s2 \<leftarrow> (if cb \<noteq> 0 \<and> hook_id \<ge> 0 then module_mark_hook_implemented E (Some m) hook_id s1 else Some s1);
     Some (cb, s2) })"

definition fn_cache_resolve :: "'q env \<Rightarrow> mptr \<Rightarrow> int \<Rightarrow> string \<Rightarrow> 'q xy_state
    \<Rightarrow> (code \<times> 'q xy_state) option" where
  "fn_cache_resolve E m hook_id name s = (do {
     e \<leftarrow> mods s m;
     if hook_id \<ge> 0 \<and> hook_id < int (length (fn_cache e)) \<and> fn_cache e ! nat hook_id \<noteq> 0
     then Some (if fn_cache e ! nat hook_id = XY_FN_NOT_FOUND then 0 else fn_cache e ! nat hook_id, s)
     else if hook_id \<ge> int (length (fn_cache e)) then do {
       (r, s1) \<leftarrow> module_ensure_fn_cache_cap E (Some m) (hook_id + 16) s;
       if r < 0 then Some (XY_FN_RESOLVE_OOM, s1) else resolve_store E m hook_id name s1 }
     else resolve_store E m hook_id name s })"

text \<open>One step of the loop of \<open>fn_cache_prewarm\<close> over \<open>hook_id_hd\<close>.\<close>

definition prewarm_step :: "'q env \<Rightarrow> mptr \<Rightarrow> qkey \<times> qval \<Rightarrow> 'q xy_state
    \<Rightarrow> (int \<times> 'q xy_state) option" where
  "prewarm_step E m kv s = (case kv of
       (KStr name, VInt hook_id) \<Rightarrow> do {
         e \<leftarrow> mods s m;
         if hook_id < 0 \<or> hook_id \<ge> int (length (fn_cache e)) then Some (0, s)
         else if fn_cache e ! nat hook_id \<noteq> 0 then Some (0, s)
         else do { (cb, s1) \<leftarrow> resolve_store E m hook_id name s; Some (0, s1) } }
     | _ \<Rightarrow> None)"

definition fn_cache_prewarm :: "'q env \<Rightarrow> 'q qmap_ops \<Rightarrow> mptr option \<Rightarrow> 'q xy_state
    \<Rightarrow> (int \<times> 'q xy_state) option" where
  "fn_cache_prewarm E Q me s = (case me of None \<Rightarrow> Some (0, s)
     | Some m \<Rightarrow> do {
         e \<leftarrow> mods s m;
         if me_handle e = None then Some (0, s)
         else if xy_hook_id_counter s \<le> 0 then Some (0, s)
         else do {
           (r, s1) \<leftarrow> module_ensure_fn_cache_cap E me (xy_hook_id_counter s + 16) s;
           if r < 0 then Some (- 1, s1)
           else do {
             h \<leftarrow> hook_id_hd s1;
             for_each (prewarm_step E m) (qmap_iter Q h) s1 } } })"

text \<open>The loop that warms every loaded module after a new hook id.\<close>

primrec prewarm_all :: "'q env \<Rightarrow> 'q qmap_ops \<Rightarrow> (qkey \<times> qval) list \<Rightarrow> 'q xy_state \<Rightarrow> 'q xy_state option" where
  "prewarm_all E Q [] s = Some s"
| "prewarm_all E Q (kv # kvs) s = (do {
     (r, s1) \<leftarrow> fn_cache_prewarm E Q (qmap_ptr (Some (snd kv))) s;
     prewarm_all E Q kvs s1 })"

definition upd_adapter :: "aptr \<Rightarrow> (xy_adapter \<Rightarrow> xy_adapter) \<Rightarrow> 'q xy_state \<Rightarrow> 'q xy_state option" where
  "upd_adapter a f s = (case adapters s a of None \<Rightarrow> None
     | Some e \<Rightarrow> Some (s\<lparr>adapters := (adapters s)(a \<mapsto> f e)\<rparr>))"

text \<open>\<open>xy_areg\<close>.  For a name that is registered already it returns the stored word, the
  address of the first adapter, read as an \<open>unsigned\<close>.\<close>

definition as_unsigned :: "qval \<Rightarrow> int" where
  "as_unsigned v = (case v of VPtr p \<Rightarrow> int p mod 2 ^ 32 | VInt i \<Rightarrow> i mod 2 ^ 32)"

definition new_hook :: "'q env \<Rightarrow> 'q qmap_ops \<Rightarrow> string \<Rightarrow> aptr \<Rightarrow> 'q xy_state
    \<Rightarrow> (int \<times> 'q xy_state) option" where
  "new_hook E Q name adapter s = (do {
     sh \<leftarrow> sica_hd s;
     hh \<leftarrow> hook_id_hd s;
     let hook_id = xy_hook_id_counter s;
     let s1 = s\<lparr>sica_hd := Some (qmap_put Q sh (KStr name) (VPtr adapter)),
                xy_hook_id_counter := hook_id + 1,
                hook_id_hd := Some (qmap_put Q hh (KStr name) (VInt hook_id))\<rparr>;
     s2 \<leftarrow> upd_adapter adapter (\<lambda>a. a\<lparr>ad_hook_id := hook_id\<rparr>) s1;
     if hook_id \<ge> int (length (xy_adapter_by_id s2)) \<and> \<not> e_malloc E s2 (AllocBytes (nat (hook_id + 16) * 8))
     then Some (XY_ERR_INVALID mod 2 ^ 32, xy_set_err XY_ERR_INVALID s2)
     else do {
       let tab = (if hook_id \<ge> int (length (xy_adapter_by_id s2))
                  then grow (nat (hook_id + 16)) None (xy_adapter_by_id s2) else xy_adapter_by_id s2);
       tab' \<leftarrow> upd_opt tab hook_id (Some adapter);
       let s3 = s2\<lparr>xy_adapter_by_id := tab'\<rparr>;
       s4 \<leftarrow> (case mod_hd s3 of None \<Rightarrow> Some s3 | Some h \<Rightarrow> prewarm_all E Q (qmap_iter Q h) s3);
       Some (0, xy_set_err XY_OK s4) } })"

definition xy_areg :: "'q env \<Rightarrow> 'q qmap_ops \<Rightarrow> string \<Rightarrow> aptr \<Rightarrow> 'q xy_state
    \<Rightarrow> (int \<times> 'q xy_state) option" where
  "xy_areg E Q name adapter s0 = (do {
     (enter_ret, s) \<leftarrow> xy_runtime_ensure E Q s0;
     if enter_ret \<noteq> XY_OK then Some (XY_INVALID, xy_set_err enter_ret s)
     else do {
       ad \<leftarrow> adapters s adapter;
       if ret_size ad > XY_MAX_RET_SIZE then Some (XY_INVALID, xy_set_err XY_ERR_TOOBIG s)
       else do {
         sh \<leftarrow> sica_hd s;
         (case qmap_get Q sh (KStr name) of
            Some v \<Rightarrow> Some (as_unsigned v, s)
          | None \<Rightarrow> new_hook E Q name adapter s) } } })"

text \<open>The base address of a loaded object, and the loop that forgets the symbols that lie in
  the object of an unloaded module.\<close>

definition module_base_from_symbol :: "'q env \<Rightarrow> code \<Rightarrow> addr option" where
  "module_base_from_symbol E symb = (if symb = 0 then None else e_base E symb)"

definition module_handle_base :: "'q env \<Rightarrow> dlhandle \<Rightarrow> addr option" where
  "module_handle_base E h = (let any_sym = e_dlsym E h ''xy_install'' in
     module_base_from_symbol E (if any_sym = 0 then e_dlsym E h ''get_xy_ptr'' else any_sym))"

definition clear_in_base :: "'q env \<Rightarrow> addr \<Rightarrow> code list \<Rightarrow> code list" where
  "clear_in_base E base cs = map (\<lambda>fp. if fp = 0 \<or> fp = XY_FN_NOT_FOUND then fp
     else if module_base_from_symbol E fp = Some base then 0 else fp) cs"

primrec clear_loop :: "'q env \<Rightarrow> addr \<Rightarrow> mptr \<Rightarrow> (qkey \<times> qval) list \<Rightarrow> 'q xy_state \<Rightarrow> 'q xy_state option" where
  "clear_loop E base entry [] s = Some s"
| "clear_loop E base entry (kv # kvs) s = (case qmap_ptr (Some (snd kv)) of
       None \<Rightarrow> clear_loop E base entry kvs s
     | Some m \<Rightarrow> if m = entry then clear_loop E base entry kvs s
         else do { s1 \<leftarrow> upd_mod m (\<lambda>e. e\<lparr>fn_cache := clear_in_base E base (fn_cache e)\<rparr>) s;
                   clear_loop E base entry kvs s1 })"

definition module_clear_fn_cache_for_handle :: "'q env \<Rightarrow> 'q qmap_ops \<Rightarrow> mptr option \<Rightarrow> 'q xy_state
    \<Rightarrow> 'q xy_state option" where
  "module_clear_fn_cache_for_handle E Q entry s = (case entry of None \<Rightarrow> Some s
     | Some m \<Rightarrow> do {
         e \<leftarrow> mods s m;
         (case me_handle e of None \<Rightarrow> Some s
          | Some h \<Rightarrow> (case module_handle_base E h of None \<Rightarrow> Some s
              | Some base \<Rightarrow> do {
                  t \<leftarrow> mod_hd s;
                  clear_loop E base m (qmap_iter Q t) s })) })"

section \<open>Hook bits\<close>

lemma bit_test: "(w :: u64) AND push_bit n 1 \<noteq> 0 \<longleftrightarrow> bit w n" if "n < 64"
  using that by (simp add: and_exp_eq_0_iff_not_bit push_bit_eq_mult flip: bit_iff_and_push_bit_not_eq_0)

definition hook_bit :: "u64 list \<Rightarrow> int \<Rightarrow> bool" where
  "hook_bit ws i \<longleftrightarrow> 0 \<le> i \<and> nat (i div 64) < length ws \<and> bit (ws ! nat (i div 64)) (nat (i mod 64))"

lemma has_hook_iff: "module_has_hook_implemented e i \<longleftrightarrow> hook_bit (hook_impl_bits e) i"
  using bit_test [of "nat (i mod 64)" "hook_impl_bits e ! nat (i div 64)"]
  by (auto simp: module_has_hook_implemented_def hook_bit_def Let_def not_le nat_less_iff)

lemma hook_bit_grow: "hook_bit (grow n 0 ws) i \<longleftrightarrow> hook_bit ws i"
  by (cases "nat (i div 64) < length ws") (auto simp: hook_bit_def nth_grow)

lemma hook_bit_set:
  assumes "0 \<le> h" and "nat (h div 64) < length ws"
  shows "hook_bit (set_hook_bit h ws) i \<longleftrightarrow> i = h \<or> hook_bit ws i"
proof -
  have same: "i = h \<longleftrightarrow> nat (i div 64) = nat (h div 64) \<and> nat (i mod 64) = nat (h mod 64)" if "0 \<le> i"
  proof -
    have "i = h \<longleftrightarrow> i div 64 = h div 64 \<and> i mod 64 = h mod 64" by (metis mult_div_mod_eq)
    with that assms(1) show ?thesis by (simp add: eq_nat_nat_iff pos_imp_zdiv_nonneg_iff)
  qed
  have lt: "nat (i mod 64) < 64" by (simp add: nat_less_iff)
  have b: "bit (w OR push_bit k (1::u64)) (nat (i mod 64)) \<longleftrightarrow> bit w (nat (i mod 64)) \<or> nat (i mod 64) = k" for w k
    using lt by (auto simp: bit_simps)
  show ?thesis
  proof (cases "0 \<le> i")
    case True
    show ?thesis
      unfolding hook_bit_def set_hook_bit_def Let_def same [OF True] length_list_update
      using assms(2) True by (cases "nat (i div 64) = nat (h div 64)") (auto simp only: nth_list_update_eq nth_list_update_neq b simp_thms)
  next
    case False
    with assms(1) show ?thesis by (auto simp: hook_bit_def)
  qed
qed

lemma mark_ok:
  assumes "alloc_ok E" and "mods s m = Some e" and "0 \<le> h"
  shows "\<exists>ws. module_mark_hook_implemented E (Some m) h s = Some (s\<lparr>mods := (mods s)(m \<mapsto> e\<lparr>hook_impl_bits := ws\<rparr>)\<rparr>)
    \<and> (\<forall>i. hook_bit ws i \<longleftrightarrow> i = h \<or> hook_bit (hook_impl_bits e) i)"
proof -
  let ?n = "nat (h div 64) + 1"
  let ?ws = "if ?n \<le> length (hook_impl_bits e) then hook_impl_bits e else grow ?n 0 (hook_impl_bits e)"
  have "module_mark_hook_implemented E (Some m) h s
      = Some (s\<lparr>mods := (mods s)(m \<mapsto> e\<lparr>hook_impl_bits := set_hook_bit h ?ws\<rparr>)\<rparr>)"
    using assms
    by (simp add: module_mark_hook_implemented_def module_ensure_hook_impl_words_def alloc_ok_def upd_mod_def Let_def)
  moreover have "hook_bit (set_hook_bit h ?ws) i \<longleftrightarrow> i = h \<or> hook_bit (hook_impl_bits e) i" for i
    using hook_bit_set [OF assms(3), of ?ws i] by (auto simp: hook_bit_grow)
  ultimately show ?thesis by blast
qed

section \<open>The symbol cache\<close>

text \<open>\<open>dlsym\<close> returns 0 or an address inside an object, so never one of the two markers.\<close>

definition dl_ok :: "'q env \<Rightarrow> bool" where
  "dl_ok E \<longleftrightarrow> (\<forall>h n. e_dlsym E h n \<noteq> XY_FN_NOT_FOUND \<and> e_dlsym E h n \<noteq> XY_FN_RESOLVE_OOM)"

definition cached :: "code \<Rightarrow> code" where
  "cached cb = (if cb \<noteq> 0 then cb else XY_FN_NOT_FOUND)"

lemma cached_read:
  assumes "dl_ok E"
  shows "cached (e_dlsym E h n) = XY_FN_NOT_FOUND \<Longrightarrow> e_dlsym E h n = 0"
    and "cached (e_dlsym E h n) \<noteq> XY_FN_NOT_FOUND \<Longrightarrow> cached (e_dlsym E h n) = e_dlsym E h n"
    and "cached (e_dlsym E h n) \<noteq> 0"
  using assms by (auto simp: cached_def dl_ok_def XY_FN_NOT_FOUND_def split: if_splits)

text \<open>What the cache and the bits of a module may say about a hook: a cached value is what
  \<open>dlsym\<close> says, a found symbol has its bit, and a bit stands for an existing symbol.\<close>

definition hook_ok :: "'q env \<Rightarrow> string \<Rightarrow> int \<Rightarrow> xy_mod_entry \<Rightarrow> bool" where
  "hook_ok E name i e \<longleftrightarrow> (\<exists>h. me_handle e = Some h
     \<and> (\<forall>v. nth_opt (fn_cache e) i = Some v \<longrightarrow> v = 0 \<or> v = cached (e_dlsym E h name)
          \<and> (e_dlsym E h name \<noteq> 0 \<longrightarrow> hook_bit (hook_impl_bits e) i))
     \<and> (hook_bit (hook_impl_bits e) i \<longrightarrow> e_dlsym E h name \<noteq> 0 \<and> nth_opt (fn_cache e) i \<noteq> None))"

text \<open>An entry after a resolution: only the cache and the bits differ, and only at the hook.\<close>

definition resolved :: "code \<Rightarrow> int \<Rightarrow> xy_mod_entry \<Rightarrow> xy_mod_entry \<Rightarrow> bool" where
  "resolved cb i e e' \<longleftrightarrow> e' = e\<lparr>fn_cache := fn_cache e', hook_impl_bits := hook_impl_bits e'\<rparr>
     \<and> nth_opt (fn_cache e') i = Some (cached cb)
     \<and> (hook_bit (hook_impl_bits e') i \<longleftrightarrow> cb \<noteq> 0)
     \<and> (\<forall>j. j \<noteq> i \<longrightarrow> hook_bit (hook_impl_bits e') j = hook_bit (hook_impl_bits e) j)
     \<and> (\<forall>j v. j \<noteq> i \<longrightarrow> nth_opt (fn_cache e) j = Some v \<longrightarrow> nth_opt (fn_cache e') j = Some v)
     \<and> (\<forall>j v. j \<noteq> i \<longrightarrow> nth_opt (fn_cache e) j = None \<longrightarrow> nth_opt (fn_cache e') j = Some v \<longrightarrow> v = 0)"

lemma nth_opt_upd:
  "0 \<le> i \<Longrightarrow> nat i < length xs \<Longrightarrow> nth_opt (xs[nat i := v]) j = (if j = i then Some v else nth_opt xs j)"
  by (auto simp: nth_opt_def nth_list_update eq_nat_nat_iff nat_less_iff)

lemma nth_opt_grow:
  "length xs \<le> n \<Longrightarrow> nth_opt (grow n v xs) j
     = (if 0 \<le> j \<and> j < int n then (if j < int (length xs) then nth_opt xs j else Some v) else None)"
  by (auto simp: nth_opt_def nth_grow nat_less_iff max_def)

lemma resolve_store_ok:
  assumes "alloc_ok E" and "mods s m = Some e" and "me_handle e = Some h" and "0 \<le> i" "nat i < length (fn_cache e)"
    and bit: "hook_bit (hook_impl_bits e) i \<longrightarrow> e_dlsym E h name \<noteq> 0"
  shows "\<exists>e'. resolve_store E m i name s = Some (e_dlsym E h name, s\<lparr>mods := (mods s)(m \<mapsto> e')\<rparr>)
    \<and> resolved (e_dlsym E h name) i e e'"
proof -
  let ?cb = "e_dlsym E h name"
  let ?e = "e\<lparr>fn_cache := (fn_cache e)[nat i := cached ?cb]\<rparr>"
  let ?s = "s\<lparr>mods := (mods s)(m \<mapsto> ?e)\<rparr>"
  have c: "nth_opt (fn_cache ?e) j = (if j = i then Some (cached ?cb) else nth_opt (fn_cache e) j)" for j
    using nth_opt_upd [OF assms(4,5)] by simp
  have pre: "resolve_store E m i name s = (do {
      s2 \<leftarrow> (if ?cb \<noteq> 0 then module_mark_hook_implemented E (Some m) i ?s else Some ?s); Some (?cb, s2) })"
    using assms by (simp add: resolve_store_def upd_opt_def upd_mod_def Let_def cached_def nat_less_iff)
  show ?thesis
  proof (cases "?cb = 0")
    case True
    with pre c bit show ?thesis by (intro exI [of _ ?e]) (simp add: resolved_def)
  next
    case False
    have "mods ?s m = Some ?e" by simp
    from mark_ok [OF assms(1) this assms(4)] obtain ws where
      "module_mark_hook_implemented E (Some m) i ?s
        = Some (?s\<lparr>mods := (mods ?s)(m \<mapsto> ?e\<lparr>hook_impl_bits := ws\<rparr>)\<rparr>)"
      "\<forall>j. hook_bit ws j \<longleftrightarrow> j = i \<or> hook_bit (hook_impl_bits ?e) j" by blast
    with pre False c show ?thesis
      by (intro exI [of _ "?e\<lparr>hook_impl_bits := ws\<rparr>"]) (simp add: resolved_def)
  qed
qed

lemma fn_cache_resolve_ok:
  assumes E: "alloc_ok E" "dl_ok E" and e: "mods s m = Some e" and h: "me_handle e = Some h" and i: "0 \<le> i"
    and ok: "hook_ok E name i e"
  shows "\<exists>e'. fn_cache_resolve E m i name s = Some (e_dlsym E h name, s\<lparr>mods := (mods s)(m \<mapsto> e')\<rparr>)
    \<and> resolved (e_dlsym E h name) i e e'"
proof -
  let ?cb = "e_dlsym E h name"
  from ok h have ok': "\<And>v. nth_opt (fn_cache e) i = Some v \<Longrightarrow> v = 0 \<or> v = cached ?cb
          \<and> (?cb \<noteq> 0 \<longrightarrow> hook_bit (hook_impl_bits e) i)"
    "hook_bit (hook_impl_bits e) i \<Longrightarrow> ?cb \<noteq> 0 \<and> nth_opt (fn_cache e) i \<noteq> None"
    by (auto simp: hook_ok_def)
  show ?thesis
  proof (cases "i < int (length (fn_cache e))")
    case True
    then have n: "nth_opt (fn_cache e) i = Some (fn_cache e ! nat i)" "nat i < length (fn_cache e)"
      using i by (simp_all add: nth_opt_def nat_less_iff)
    show ?thesis
    proof (cases "fn_cache e ! nat i = 0")
      case 0: True
      have "fn_cache_resolve E m i name s = resolve_store E m i name s"
        using True 0 e i by (simp add: fn_cache_resolve_def)
      with resolve_store_ok [OF E(1) e h i n(2), of name] ok'(2) show ?thesis by simp
    next
      case False
      with ok'(1) [OF n(1)] have v: "fn_cache e ! nat i = cached ?cb" "?cb \<noteq> 0 \<longrightarrow> hook_bit (hook_impl_bits e) i" by auto
      have "fn_cache_resolve E m i name s = Some (?cb, s)"
        using True False e i v(1) cached_read(1,2) [OF E(2), of h name] by (simp add: fn_cache_resolve_def)
      moreover have "s\<lparr>mods := (mods s)(m \<mapsto> e)\<rparr> = s" using e by (simp add: fun_upd_idem)
      moreover have "resolved ?cb i e e" using n(1) v ok'(2) by (auto simp: resolved_def)
      ultimately show ?thesis by (intro exI [of _ e]) simp
    qed
  next
    case False
    let ?e = "e\<lparr>fn_cache := grow (nat (i + 16)) 0 (fn_cache e)\<rparr>"
    let ?s = "s\<lparr>mods := (mods s)(m \<mapsto> ?e)\<rparr>"
    have len: "length (fn_cache e) \<le> nat (i + 16)" "nat i < length (fn_cache ?e)" using False i by auto
    have g: "nth_opt (fn_cache ?e) j = (if 0 \<le> j \<and> j < i + 16 then
        (if j < int (length (fn_cache e)) then nth_opt (fn_cache e) j else Some 0) else None)" for j
      using nth_opt_grow [OF len(1)] i by simp
    have "\<not> i + 16 \<le> int (length (fn_cache e))" "nth_opt (fn_cache e) i = None"
      using False by (simp_all add: nth_opt_def)
    then have eq: "fn_cache_resolve E m i name s = resolve_store E m i name ?s"
      using False e i E(1) by (simp add: fn_cache_resolve_def module_ensure_fn_cache_cap_def alloc_ok_def upd_mod_def)
    have b: "hook_bit (hook_impl_bits ?e) i \<longrightarrow> ?cb \<noteq> 0" using ok'(2) by simp
    have "mods ?s m = Some ?e" "me_handle ?e = Some h" using h by simp_all
    from resolve_store_ok [OF E(1) this i len(2) b] obtain e' where e':
      "resolve_store E m i name ?s = Some (?cb, ?s\<lparr>mods := (mods ?s)(m \<mapsto> e')\<rparr>)" "resolved ?cb i ?e e'" by blast
    have r: "resolved ?cb i e e'"
      unfolding resolved_def
    proof (intro conjI allI impI)
      note r = e'(2) [unfolded resolved_def]
      show "e' = e\<lparr>fn_cache := fn_cache e', hook_impl_bits := hook_impl_bits e'\<rparr>"
        using r by (metis (no_types, lifting) xy_mod_entry.surjective xy_mod_entry.update_convs(3))
      show "nth_opt (fn_cache e') i = Some (cached ?cb)" "hook_bit (hook_impl_bits e') i \<longleftrightarrow> ?cb \<noteq> 0"
        using r by blast+
      show "hook_bit (hook_impl_bits e') j = hook_bit (hook_impl_bits e) j" if "j \<noteq> i" for j
        using r that by simp
      show "nth_opt (fn_cache e') j = Some v" if "j \<noteq> i" "nth_opt (fn_cache e) j = Some v" for j v
      proof -
        have "0 \<le> j \<and> j < int (length (fn_cache e))" using that(2) by (simp add: nth_opt_def split: if_splits)
        then have "nth_opt (fn_cache ?e) j = Some v" unfolding g using that(2) False i by simp
        with r that(1) show ?thesis by blast
      qed
      show "v = 0" if "j \<noteq> i" "nth_opt (fn_cache e) j = None" "nth_opt (fn_cache e') j = Some v" for j v
      proof (cases "nth_opt (fn_cache ?e) j")
        case None
        with r that show ?thesis by blast
      next
        case (Some w)
        then have "w = 0" unfolding g using that(2) by (auto split: if_splits)
        with r that(1,3) Some show ?thesis by auto
      qed
    qed
    have "?s\<lparr>mods := (mods ?s)(m \<mapsto> e')\<rparr> = s\<lparr>mods := (mods s)(m \<mapsto> e')\<rparr>" by simp
    with eq e'(1) r show ?thesis by (intro exI [of _ e']) simp
  qed
qed

text \<open>Resolving a hook in a module whose cache says nothing false: it returns what
  \<open>dlsym\<close> returns (0 when the module does not export the hook), stores the answer, found
  or not, under the hook's id, sets the hook's bit exactly when it was found, and leaves
  the answers for all other hooks; asking again gives the same answer from the cache and
  changes nothing.\<close>

lemma resolve_agrees_with_dlsym:
  assumes "alloc_ok E" "dl_ok E" and "mods s m = Some e" and "me_handle e = Some h" and "0 \<le> i"
    and "hook_ok E name i e"
  shows "\<exists>e' s'. fn_cache_resolve E m i name s = Some (e_dlsym E h name, s') \<and> s' = s\<lparr>mods := (mods s)(m \<mapsto> e')\<rparr>
    \<and> (module_has_hook_implemented e' i \<longleftrightarrow> e_dlsym E h name \<noteq> 0) \<and> hook_ok E name i e'
    \<and> (\<forall>j. j \<noteq> i \<longrightarrow> module_has_hook_implemented e' j = module_has_hook_implemented e j)
    \<and> fn_cache_resolve E m i name s' = Some (e_dlsym E h name, s')"
proof -
  from fn_cache_resolve_ok [OF assms] obtain e' where e': "fn_cache_resolve E m i name s
      = Some (e_dlsym E h name, s\<lparr>mods := (mods s)(m \<mapsto> e')\<rparr>)" "resolved (e_dlsym E h name) i e e'" by blast
  let ?s' = "s\<lparr>mods := (mods s)(m \<mapsto> e')\<rparr>"
  have h': "me_handle e' = Some h" using e'(2) assms(4) unfolding resolved_def
    by (metis (no_types, lifting) xy_mod_entry.select_convs(6) xy_mod_entry.surjective xy_mod_entry.update_convs(3,12))
  have ok': "hook_ok E name i e'" using e'(2) h' by (auto simp: hook_ok_def resolved_def)
  have n: "0 \<le> i" "i < int (length (fn_cache e'))" "fn_cache e' ! nat i = cached (e_dlsym E h name)"
    using e'(2) by (auto simp: resolved_def nth_opt_def split: if_splits)
  have "fn_cache_resolve E m i name ?s' = Some (e_dlsym E h name, ?s')"
    using n cached_read [OF assms(2), of h name] by (simp add: fn_cache_resolve_def)
  with e' ok' show ?thesis
    by (intro exI [of _ e'] exI [of _ ?s']) (simp add: has_hook_iff resolved_def)
qed

lemma demo_dl_ok: "dl_ok demo_env"
  by (simp add: dl_ok_def XY_FN_NOT_FOUND_def XY_FN_RESOLVE_OOM_def)

lemma demo_hook_ok: "hook_ok demo_env n i (demo_mod r rid ctx nxt prv)"
proof -
  have "nth_opt ([] :: code list) i = None" by (simp add: nth_opt_def)
  then show ?thesis by (simp add: hook_ok_def demo_mod_def hook_bit_def)
qed

end
