(* ===== verification/Xy_Warm.thy ===== *)
theory Xy_Warm
  imports Xy_Hooks
begin

text \<open>
  Warm symbol caches: what \<open>fn_cache_prewarm\<close> and \<open>xy_areg\<close> establish for the hooks in
  \<open>hook_id_hd\<close>.  Ids are handed out once per name, in order, so the caches of different
  hooks do not interfere.
\<close>

definition hook_num :: "'q qmap_ops \<Rightarrow> 'q xy_state \<Rightarrow> string \<Rightarrow> int option" where
  "hook_num Q s name = (case hook_id_hd s of None \<Rightarrow> None
     | Some h \<Rightarrow> (case qmap_get Q h (KStr name) of Some (VInt i) \<Rightarrow> Some i | _ \<Rightarrow> None))"

definition wf_hooks :: "'q qmap_ops \<Rightarrow> 'q xy_state \<Rightarrow> bool" where
  "wf_hooks Q s \<longleftrightarrow> 0 \<le> xy_hook_id_counter s
     \<and> (\<exists>h. hook_id_hd s = Some h
        \<and> (\<forall>k v. qmap_get Q h k = Some v \<longrightarrow> (\<exists>n i. k = KStr n \<and> v = VInt i \<and> 0 \<le> i \<and> i < xy_hook_id_counter s))
        \<and> (\<forall>n n' i. qmap_get Q h (KStr n) = Some (VInt i) \<longrightarrow> qmap_get Q h (KStr n') = Some (VInt i) \<longrightarrow> n = n'))"

text \<open>Nothing is known yet about hook ids from \<open>c\<close> on.\<close>

definition blank :: "int \<Rightarrow> xy_mod_entry \<Rightarrow> bool" where
  "blank c e \<longleftrightarrow> (\<forall>i. c \<le> i \<longrightarrow> (\<forall>v. nth_opt (fn_cache e) i = Some v \<longrightarrow> v = 0) \<and> \<not> hook_bit (hook_impl_bits e) i)"

definition mod_hooks_ok :: "'q env \<Rightarrow> 'q qmap_ops \<Rightarrow> 'q xy_state \<Rightarrow> xy_mod_entry \<Rightarrow> bool" where
  "mod_hooks_ok E Q s e \<longleftrightarrow> me_handle e \<noteq> None \<and> (\<forall>n i. hook_num Q s n = Some i \<longrightarrow> hook_ok E n i e)
     \<and> blank (xy_hook_id_counter s) e"

definition warm :: "'q env \<Rightarrow> string \<Rightarrow> int \<Rightarrow> xy_mod_entry \<Rightarrow> bool" where
  "warm E n i e \<longleftrightarrow> (\<exists>h. me_handle e = Some h \<and> nth_opt (fn_cache e) i = Some (cached (e_dlsym E h n)))"

lemma resolved_handle: "resolved cb i e e' \<Longrightarrow> me_handle e' = me_handle e"
  unfolding resolved_def
  by (metis (no_types, lifting) xy_mod_entry.select_convs(6) xy_mod_entry.surjective xy_mod_entry.update_convs(3,12))

lemma hook_ok_resolved:
  assumes "resolved (e_dlsym E h n) i e e'" and "me_handle e = Some h"
  shows "hook_ok E n i e'" and "warm E n i e'"
    and "j \<noteq> i \<Longrightarrow> hook_ok E n' j e \<Longrightarrow> hook_ok E n' j e'"
    and "j \<noteq> i \<Longrightarrow> warm E n' j e \<Longrightarrow> warm E n' j e'"
proof -
  note r = assms(1) [unfolded resolved_def] and h = resolved_handle [OF assms(1)]
  show "hook_ok E n i e'" "warm E n i e'" using r h assms(2) by (auto simp: hook_ok_def warm_def)
  show "warm E n' j e'" if "j \<noteq> i" "warm E n' j e" using that r h by (auto simp: warm_def)
  show "hook_ok E n' j e'" if "j \<noteq> i" "hook_ok E n' j e"
  proof -
    from that(2) assms(2) have o: "\<And>v. nth_opt (fn_cache e) j = Some v \<Longrightarrow> v = 0 \<or> v = cached (e_dlsym E h n')
          \<and> (e_dlsym E h n' \<noteq> 0 \<longrightarrow> hook_bit (hook_impl_bits e) j)"
      "hook_bit (hook_impl_bits e) j \<Longrightarrow> e_dlsym E h n' \<noteq> 0 \<and> nth_opt (fn_cache e) j \<noteq> None"
      by (auto simp: hook_ok_def)
    have b: "hook_bit (hook_impl_bits e') j = hook_bit (hook_impl_bits e) j" using r that(1) by blast
    have keep: "nth_opt (fn_cache e') j = Some v" if "nth_opt (fn_cache e) j = Some v" for v
      using r \<open>j \<noteq> i\<close> that by blast
    have new: "v = 0" if "nth_opt (fn_cache e) j = None" "nth_opt (fn_cache e') j = Some v" for v
      using r \<open>j \<noteq> i\<close> that by blast
    show ?thesis
      unfolding hook_ok_def b h
    proof (intro exI conjI allI impI)
      show "me_handle e = Some h" by (rule assms(2))
      fix v assume v: "nth_opt (fn_cache e') j = Some v"
      show "v = 0 \<or> v = cached (e_dlsym E h n') \<and> (e_dlsym E h n' \<noteq> 0 \<longrightarrow> hook_bit (hook_impl_bits e) j)"
      proof (cases "nth_opt (fn_cache e) j")
        case (Some w)
        with keep v have "w = v" by simp
        with o(1) Some show ?thesis by blast
      qed (use new v in blast)
    next
      assume "hook_bit (hook_impl_bits e) j"
      from o(2) [OF this] keep show "e_dlsym E h n' \<noteq> 0" "nth_opt (fn_cache e') j \<noteq> None" by auto
    qed
  qed
qed

text \<open>\<open>warmed H e e'\<close>: only cache and bits differ, everything known stays right, and the hooks
  of \<open>H\<close> are resolved.\<close>

lemma blank_resolved: "resolved cb i e e' \<Longrightarrow> i < c \<Longrightarrow> blank c e \<Longrightarrow> blank c e'"
  unfolding resolved_def blank_def by (metis linorder_not_less not_None_eq)

definition warmed :: "'q env \<Rightarrow> int \<Rightarrow> (string \<times> int) set \<Rightarrow> (string \<times> int) set \<Rightarrow> xy_mod_entry \<Rightarrow> xy_mod_entry \<Rightarrow> bool" where
  "warmed E c K H e e' \<longleftrightarrow> e' = e\<lparr>fn_cache := fn_cache e', hook_impl_bits := hook_impl_bits e'\<rparr>
     \<and> (\<forall>(n, i) \<in> K. hook_ok E n i e') \<and> (\<forall>(n, i) \<in> H. warm E n i e') \<and> (blank c e \<longrightarrow> blank c e')"

lemma warmed_handle: "warmed E c K H e e' \<Longrightarrow> me_handle e' = me_handle e"
  unfolding warmed_def
  by (metis (no_types, lifting) xy_mod_entry.select_convs(6) xy_mod_entry.surjective xy_mod_entry.update_convs(3,12))

lemma warmed_ident: "warmed E c K H e e' \<Longrightarrow> mlinks e' = mlinks e \<and> mident e' = mident e"
proof -
  assume "warmed E c K H e e'"
  then have "e' = e\<lparr>fn_cache := fn_cache e', hook_impl_bits := hook_impl_bits e'\<rparr>" by (simp add: warmed_def)
  then obtain cs ws where "e' = e\<lparr>fn_cache := cs, hook_impl_bits := ws\<rparr>" by blast
  then show ?thesis by (simp add: mlinks_def mident_def)
qed

lemma prewarm_loop_ok:
  assumes E: "alloc_ok E" "dl_ok E" and inj: "\<And>n n' i. (n, i) \<in> K \<Longrightarrow> (n', i) \<in> K \<Longrightarrow> n = n'"
    and sub: "\<And>k v. (k, v) \<in> set kvs \<Longrightarrow> \<exists>n i. k = KStr n \<and> v = VInt i \<and> (n, i) \<in> K \<and> 0 \<le> i \<and> i < c"
    and e: "mods s m = Some e" "me_handle e = Some h" and ok: "\<And>n i. (n, i) \<in> K \<Longrightarrow> hook_ok E n i e"
    and len: "\<And>i. 0 \<le> i \<Longrightarrow> i < c \<Longrightarrow> nth_opt (fn_cache e) i \<noteq> None"
    and H: "\<And>n i. (n, i) \<in> H \<Longrightarrow> (n, i) \<in> K \<and> warm E n i e"
  shows "\<exists>e'. for_each (prewarm_step E m) kvs s = Some (0, s\<lparr>mods := (mods s)(m \<mapsto> e')\<rparr>)
    \<and> warmed E c K (H \<union> {(n, i). (KStr n, VInt i) \<in> set kvs}) e e'"
  using sub e ok len H
proof (induction kvs arbitrary: s e H)
  case Nil
  then have "s\<lparr>mods := (mods s)(m \<mapsto> e)\<rparr> = s" by (simp add: fun_upd_idem)
  moreover have "warmed E c K (H \<union> {(n, i). (KStr n, VInt i) \<in> set []}) e e"
    using Nil by (auto simp: warmed_def)
  ultimately show ?case by (intro exI [of _ e]) (simp only: for_each.simps simp_thms)
next
  case (Cons kv kvs)
  obtain k v where kv: "kv = (k, v)" by fastforce
  from Cons.prems(1) [of k v] kv obtain n i where n: "k = KStr n" "v = VInt i" "(n, i) \<in> K" "0 \<le> i" "i < c" by auto
  from Cons.prems(5) [OF n(4,5)] have il: "i < int (length (fn_cache e))" "nat i < length (fn_cache e)"
    using n(4) by (auto simp: nth_opt_def nat_less_iff split: if_splits)
  have nth: "nth_opt (fn_cache e) i = Some (fn_cache e ! nat i)" using n(4) il by (simp add: nth_opt_def)
  obtain e1 where e1: "prewarm_step E m kv s = Some (0, s\<lparr>mods := (mods s)(m \<mapsto> e1)\<rparr>)" "resolved (e_dlsym E h n) i e e1"
  proof (cases "fn_cache e ! nat i = 0")
    case True
    have "hook_bit (hook_impl_bits e) i \<longrightarrow> e_dlsym E h n \<noteq> 0"
      using Cons.prems(4) [OF n(3)] Cons.prems(3) by (auto simp: hook_ok_def)
    from resolve_store_ok [OF E(1) Cons.prems(2,3) n(4) il(2) this] True il n Cons.prems(2) that show ?thesis
      by (auto simp: prewarm_step_def kv)
  next
    case False
    then have "prewarm_step E m kv s = Some (0, s)" using n il Cons.prems(2) by (simp add: prewarm_step_def kv)
    moreover have "s\<lparr>mods := (mods s)(m \<mapsto> e)\<rparr> = s" using Cons.prems(2) by (simp add: fun_upd_idem)
    moreover have "resolved (e_dlsym E h n) i e e"
      using Cons.prems(4) [OF n(3)] Cons.prems(3) nth False by (auto simp: hook_ok_def resolved_def)
    ultimately show ?thesis using that [of e] by simp
  qed
  let ?s1 = "s\<lparr>mods := (mods s)(m \<mapsto> e1)\<rparr>"
  note hr = hook_ok_resolved [OF e1(2) Cons.prems(3)]
  have h1: "me_handle e1 = Some h" using resolved_handle [OF e1(2)] Cons.prems(3) by simp
  have ok1: "hook_ok E n' j e1" if "(n', j) \<in> K" for n' j
    using that Cons.prems(4) hr(1,3) inj n(3) by (cases "j = i") blast+
  have len1: "nth_opt (fn_cache e1) j \<noteq> None" if "0 \<le> j" "j < c" for j
    using Cons.prems(5) [OF that] e1(2) by (cases "j = i") (auto simp: resolved_def)
  have H1: "(n', j) \<in> K \<and> warm E n' j e1" if "(n', j) \<in> insert (n, i) H" for n' j
  proof (cases "j = i")
    case True
    with that Cons.prems(6) n(3) have "(n', j) \<in> K" by auto
    with inj n(3) True hr(2) show ?thesis by blast
  next
    case False
    with that Cons.prems(6) hr(4) n(3) show ?thesis by blast
  qed
  have "\<exists>e'. for_each (prewarm_step E m) kvs ?s1 = Some (0, ?s1\<lparr>mods := (mods ?s1)(m \<mapsto> e')\<rparr>)
    \<and> warmed E c K (insert (n, i) H \<union> {(n, i). (KStr n, VInt i) \<in> set kvs}) e1 e'"
    by (rule Cons.IH) (use Cons.prems(1) h1 ok1 len1 H1 in auto)
  then obtain e' where e': "for_each (prewarm_step E m) kvs ?s1 = Some (0, ?s1\<lparr>mods := (mods ?s1)(m \<mapsto> e')\<rparr>)"
    "warmed E c K (insert (n, i) H \<union> {(n, i). (KStr n, VInt i) \<in> set kvs}) e1 e'" by blast
  have shape: "e' = e\<lparr>fn_cache := fn_cache e', hook_impl_bits := hook_impl_bits e'\<rparr>"
  proof -
    from e1(2) obtain a b where "e1 = e\<lparr>fn_cache := a, hook_impl_bits := b\<rparr>" unfolding resolved_def by blast
    moreover from e'(2) obtain a' b' where "e' = e1\<lparr>fn_cache := a', hook_impl_bits := b'\<rparr>" unfolding warmed_def by blast
    ultimately show ?thesis by simp
  qed
  have "insert (n, i) H \<union> {(n, i). (KStr n, VInt i) \<in> set kvs} = H \<union> {(n, i). (KStr n, VInt i) \<in> set (kv # kvs)}"
    using kv n by auto
  note e2 = e'(2) [unfolded this]
  have "warmed E c K (H \<union> {(n, i). (KStr n, VInt i) \<in> set (kv # kvs)}) e e'"
    using shape e2 blank_resolved [OF e1(2) n(5)] unfolding warmed_def by blast
  with e1(1) e'(1) show ?case by (intro exI [of _ e']) (simp del: fun_upd_apply)
qed

definition hook_pairs :: "'q qmap_ops \<Rightarrow> 'q xy_state \<Rightarrow> (string \<times> int) set" where
  "hook_pairs Q s = {(n, i). hook_num Q s n = Some i}"

lemma hook_num_iff:
  "wf_hooks Q s \<Longrightarrow> hook_id_hd s = Some h \<Longrightarrow> hook_num Q s n = Some i \<longleftrightarrow> qmap_get Q h (KStr n) = Some (VInt i)"
  unfolding hook_num_def wf_hooks_def by (fastforce split: option.splits qval.splits)

lemma fn_cache_prewarm_ok:
  assumes Q: "qmap_laws Q" and E: "alloc_ok E" "dl_ok E" and wf: "wf_hooks Q s"
    and e: "mods s m = Some e" and ok: "mod_hooks_ok E Q s e"
  shows "\<exists>e'. fn_cache_prewarm E Q (Some m) s = Some (0, s\<lparr>mods := (mods s)(m \<mapsto> e')\<rparr>)
    \<and> warmed E (xy_hook_id_counter s) (hook_pairs Q s) (hook_pairs Q s) e e'"
proof -
  from wf obtain h where h: "hook_id_hd s = Some h" and c: "0 \<le> xy_hook_id_counter s"
    and tab: "\<And>k v. qmap_get Q h k = Some v \<Longrightarrow> \<exists>n i. k = KStr n \<and> v = VInt i \<and> 0 \<le> i \<and> i < xy_hook_id_counter s"
    and inj: "\<And>n n' i. qmap_get Q h (KStr n) = Some (VInt i) \<Longrightarrow> qmap_get Q h (KStr n') = Some (VInt i) \<Longrightarrow> n = n'"
    unfolding wf_hooks_def by blast
  note num = hook_num_iff [OF wf h]
  from ok obtain hd where hd: "me_handle e = Some hd" and hk: "\<And>n i. (n, i) \<in> hook_pairs Q s \<Longrightarrow> hook_ok E n i e"
    by (auto simp: mod_hooks_ok_def hook_pairs_def)
  show ?thesis
  proof (cases "xy_hook_id_counter s = 0")
    case True
    then have "hook_pairs Q s = {}" using tab by (fastforce simp: hook_pairs_def num)
    moreover have "s\<lparr>mods := (mods s)(m \<mapsto> e)\<rparr> = s" using e by (simp add: fun_upd_idem)
    ultimately show ?thesis using True e by (intro exI [of _ e]) (simp add: fn_cache_prewarm_def warmed_def)
  next
    case False
    with c have pos: "0 < xy_hook_id_counter s" by simp
    let ?n = "xy_hook_id_counter s + 16"
    let ?e = "if ?n \<le> int (length (fn_cache e)) then e else e\<lparr>fn_cache := grow (nat ?n) 0 (fn_cache e)\<rparr>"
    let ?s = "s\<lparr>mods := (mods s)(m \<mapsto> ?e)\<rparr>"
    have s0: "?s = s" if "?n \<le> int (length (fn_cache e))" using that e by (simp add: fun_upd_idem)
    have cap: "module_ensure_fn_cache_cap E (Some m) ?n s = Some (0, ?s)"
      using e E(1) s0 by (auto simp: module_ensure_fn_cache_cap_def alloc_ok_def upd_mod_def)
    have g: "nth_opt (fn_cache ?e) j = (if 0 \<le> j \<and> j < int (length (fn_cache e)) then nth_opt (fn_cache e) j
        else if 0 \<le> j \<and> j < ?n \<and> \<not> ?n \<le> int (length (fn_cache e)) then Some 0 else None)" for j
    proof (cases "?n \<le> int (length (fn_cache e))")
      case True
      then show ?thesis by (auto simp: nth_opt_def)
    next
      case False
      then have "length (fn_cache e) \<le> nat ?n" by linarith
      from nth_opt_grow [OF this, of 0 j] False pos show ?thesis by (auto simp: nth_opt_def [of "fn_cache e"])
    qed
    have ok1: "hook_ok E n i ?e" if "(n, i) \<in> hook_pairs Q s" for n i
    proof -
      have same: "hook_impl_bits ?e = hook_impl_bits e" "me_handle ?e = me_handle e" by simp_all
      from hk [OF that] show ?thesis
        unfolding hook_ok_def same g by (auto simp: nth_opt_def split: if_splits)
    qed
    have len: "nth_opt (fn_cache ?e) i \<noteq> None" if "0 \<le> i" "i < xy_hook_id_counter s" for i
      using that by (auto simp: g nth_opt_def)
    have "\<exists>e'. for_each (prewarm_step E m) (qmap_iter Q h) ?s = Some (0, ?s\<lparr>mods := (mods ?s)(m \<mapsto> e')\<rparr>)
      \<and> warmed E (xy_hook_id_counter s) (hook_pairs Q s) ({} \<union> {(n, i). (KStr n, VInt i) \<in> set (qmap_iter Q h)}) ?e e'"
    proof (rule prewarm_loop_ok [OF E _ _ _ _ ok1 len])
      show "n = n'" if "(n, i) \<in> hook_pairs Q s" "(n', i) \<in> hook_pairs Q s" for n n' i
        using that inj by (simp add: hook_pairs_def num)
      show "\<exists>n i. k = KStr n \<and> v = VInt i \<and> (n, i) \<in> hook_pairs Q s \<and> 0 \<le> i \<and> i < xy_hook_id_counter s"
        if "(k, v) \<in> set (qmap_iter Q h)" for k v
        using tab [of k v] that by (auto simp: hook_pairs_def num qmap_iter_get [OF Q])
    qed (use hd in auto)
    then obtain e' where e': "for_each (prewarm_step E m) (qmap_iter Q h) ?s = Some (0, ?s\<lparr>mods := (mods ?s)(m \<mapsto> e')\<rparr>)"
      "warmed E (xy_hook_id_counter s) (hook_pairs Q s) {(n, i). (KStr n, VInt i) \<in> set (qmap_iter Q h)} ?e e'" by auto
    have "{(n, i). (KStr n, VInt i) \<in> set (qmap_iter Q h)} = hook_pairs Q s"
      by (auto simp: hook_pairs_def num qmap_iter_get [OF Q])
    moreover have "blank (xy_hook_id_counter s) ?e" if "blank (xy_hook_id_counter s) e"
    proof -
      have "hook_impl_bits ?e = hook_impl_bits e" by simp
      with that show ?thesis unfolding blank_def g by auto
    qed
    ultimately have w: "warmed E (xy_hook_id_counter s) (hook_pairs Q s) (hook_pairs Q s) e e'"
      using e'(2) by (auto simp: warmed_def split: if_splits)
    have "hook_id_hd ?s = Some h" using h by simp
    then have "fn_cache_prewarm E Q (Some m) s = Some (0, ?s\<lparr>mods := (mods ?s)(m \<mapsto> e')\<rparr>)"
      using e hd pos cap e'(1) by (simp add: fn_cache_prewarm_def del: if_split)
    with w show ?thesis by (intro exI [of _ e']) simp
  qed
qed

section \<open>Registering an adapter\<close>

lemma hook_num_upd [simp]: "hook_num Q (s\<lparr>mods := ms\<rparr>) = hook_num Q s"
  "hook_pairs Q (s\<lparr>mods := ms\<rparr>) = hook_pairs Q s" "wf_hooks Q (s\<lparr>mods := ms\<rparr>) = wf_hooks Q s"
  by (simp_all add: hook_num_def hook_pairs_def wf_hooks_def fun_eq_iff)

lemma mod_hooks_warmed:
  assumes "warmed E (xy_hook_id_counter s) (hook_pairs Q s) H e e'" and "mod_hooks_ok E Q s e"
  shows "mod_hooks_ok E Q s e'"
  using assms warmed_handle [OF assms(1)]
  by (auto simp: mod_hooks_ok_def warmed_def hook_pairs_def)

lemma warmed_mono: "warmed E c K H e e' \<Longrightarrow> H' \<subseteq> H \<Longrightarrow> warmed E c K H' e e'"
  unfolding warmed_def by blast

lemma warmed_trans_keep:
  assumes "warmed E c K H e e1" and "warmed E c K H e1 e2"
  shows "warmed E c K H e e2"
proof -
  from assms(1) obtain a b where "e1 = e\<lparr>fn_cache := a, hook_impl_bits := b\<rparr>" unfolding warmed_def by blast
  moreover from assms(2) obtain a' b' where "e2 = e1\<lparr>fn_cache := a', hook_impl_bits := b'\<rparr>" unfolding warmed_def by blast
  ultimately have "e2 = e\<lparr>fn_cache := fn_cache e2, hook_impl_bits := hook_impl_bits e2\<rparr>" by simp
  with assms show ?thesis unfolding warmed_def by blast
qed

text \<open>Warming all modules of a table: each of them ends warm for every hook, whether it was
  warmed once or, under two keys, twice.\<close>

definition all_warmed :: "'q env \<Rightarrow> 'q qmap_ops \<Rightarrow> mptr set \<Rightarrow> 'q xy_state \<Rightarrow> 'q xy_state \<Rightarrow> bool" where
  "all_warmed E Q M s s' \<longleftrightarrow> s' = s\<lparr>mods := mods s'\<rparr>
     \<and> (\<forall>m. mods s' m = None \<longleftrightarrow> mods s m = None)
     \<and> (\<forall>m e e'. mods s m = Some e \<longrightarrow> mods s' m = Some e'
          \<longrightarrow> e' = e \<and> m \<notin> M \<or> warmed E (xy_hook_id_counter s) (hook_pairs Q s) (hook_pairs Q s) e e')"

lemma prewarm_all_ok:
  assumes Q: "qmap_laws Q" and E: "alloc_ok E" "dl_ok E"
  shows "wf_hooks Q s \<Longrightarrow> (\<And>m e. mods s m = Some e \<Longrightarrow> mod_hooks_ok E Q s e) \<Longrightarrow>
    (\<And>k v. (k, v) \<in> set kvs \<Longrightarrow> \<exists>m. v = VPtr m \<and> mods s m \<noteq> None) \<Longrightarrow>
    \<exists>s'. prewarm_all E Q kvs s = Some s' \<and> all_warmed E Q {m. \<exists>k. (k, VPtr m) \<in> set kvs} s s'"
proof (induction kvs arbitrary: s)
  case Nil
  then show ?case by (intro exI [of _ s]) (auto simp: all_warmed_def)
next
  case (Cons kv kvs)
  obtain k v where kv: "kv = (k, v)" by fastforce
  from Cons.prems(3) [of k v] kv obtain m e where m: "v = VPtr m" "mods s m = Some e" by auto
  from fn_cache_prewarm_ok [OF Q E Cons.prems(1) m(2) Cons.prems(2) [OF m(2)]] obtain e1 where
    e1: "fn_cache_prewarm E Q (Some m) s = Some (0, s\<lparr>mods := (mods s)(m \<mapsto> e1)\<rparr>)"
    "warmed E (xy_hook_id_counter s) (hook_pairs Q s) (hook_pairs Q s) e e1" by blast
  let ?s1 = "s\<lparr>mods := (mods s)(m \<mapsto> e1)\<rparr>"
  have ok1: "mod_hooks_ok E Q ?s1 e'" if "mods ?s1 n = Some e'" for n e'
  proof -
    have "mod_hooks_ok E Q s e'"
      using that Cons.prems(2) mod_hooks_warmed [OF e1(2) Cons.prems(2) [OF m(2)]] by (auto split: if_splits)
    then show ?thesis by (simp add: mod_hooks_ok_def)
  qed
  have "\<exists>s'. prewarm_all E Q kvs ?s1 = Some s' \<and> all_warmed E Q {m. \<exists>k. (k, VPtr m) \<in> set kvs} ?s1 s'"
  proof (rule Cons.IH)
    show "wf_hooks Q ?s1" using Cons.prems(1) by simp
    fix k' v' assume "(k', v') \<in> set kvs"
    then obtain m' where "v' = VPtr m'" "mods s m' \<noteq> None" using Cons.prems(3) [of k' v'] by auto
    then show "\<exists>m'. v' = VPtr m' \<and> mods ?s1 m' \<noteq> None" by (intro exI [of _ m']) simp
  qed (rule ok1)
  then obtain s' where s': "prewarm_all E Q kvs ?s1 = Some s'"
    "all_warmed E Q {m. \<exists>k. (k, VPtr m) \<in> set kvs} ?s1 s'" by blast
  have "all_warmed E Q {m. \<exists>k. (k, VPtr m) \<in> set (kv # kvs)} s s'"
    unfolding all_warmed_def
  proof (intro conjI allI impI)
    from s'(2) obtain ms where "s' = ?s1\<lparr>mods := ms\<rparr>" unfolding all_warmed_def by blast
    then show "s' = s\<lparr>mods := mods s'\<rparr>" by simp
    show "mods s' n = None \<longleftrightarrow> mods s n = None" for n using s'(2) m(2) by (auto simp: all_warmed_def split: if_splits)
    fix n en en' assume n: "mods s n = Some en" "mods s' n = Some en'"
    let ?en1 = "if n = m then e1 else en"
    have "mods ?s1 n = Some ?en1" using n(1) by simp
    with s'(2) n(2) consider "en' = ?en1" "n \<notin> {m. \<exists>k. (k, VPtr m) \<in> set kvs}"
      | "warmed E (xy_hook_id_counter s) (hook_pairs Q s) (hook_pairs Q s) ?en1 en'"
      unfolding all_warmed_def by fastforce
    then show "en' = en \<and> n \<notin> {m. \<exists>k. (k, VPtr m) \<in> set (kv # kvs)}
        \<or> warmed E (xy_hook_id_counter s) (hook_pairs Q s) (hook_pairs Q s) en en'"
    proof cases
      case 1
      with e1(2) m n kv show ?thesis by (cases "n = m") auto
    next
      case 2
      show ?thesis
      proof (cases "n = m")
        case True
        with m(2) n(1) have "en = e" by simp
        with True warmed_trans_keep [OF e1(2)] 2 show ?thesis by simp
      qed (use 2 in simp)
    qed
  qed
  with e1(1) s'(1) show ?case by (intro exI [of _ s']) (simp add: kv m(1))
qed

lemma all_warmed_keeps:
  assumes "all_warmed E Q M s s'"
  shows "keeps s s'"
proof -
  have m: "map_option mlinks (mods s' m) = map_option mlinks (mods s m)
      \<and> map_option mident (mods s' m) = map_option mident (mods s m)" for m
  proof (cases "mods s m")
    case None
    with assms show ?thesis by (simp add: all_warmed_def)
  next
    case (Some e)
    with assms obtain e' where e': "mods s' m = Some e'" by (fastforce simp: all_warmed_def)
    with assms Some show ?thesis
      unfolding all_warmed_def using warmed_ident by fastforce
  qed
  from assms have "s' = s\<lparr>mods := mods s'\<rparr>" by (simp add: all_warmed_def)
  then obtain ms where s': "s' = s\<lparr>mods := ms\<rparr>" by blast
  with m show ?thesis by (simp add: keeps_def same_shape_def)
qed

text \<open>The state right after a hook id has been minted, before the modules are warmed.\<close>

definition minted :: "'q qmap_ops \<Rightarrow> string \<Rightarrow> aptr \<Rightarrow> xy_adapter \<Rightarrow> 'q xy_state \<Rightarrow> 'q xy_state" where
  "minted Q name a ad s = (let i = xy_hook_id_counter s; tab = xy_adapter_by_id s in
     s\<lparr>sica_hd := Some (qmap_put Q (the (sica_hd s)) (KStr name) (VPtr a)), xy_hook_id_counter := i + 1,
       hook_id_hd := Some (qmap_put Q (the (hook_id_hd s)) (KStr name) (VInt i)),
       adapters := (adapters s)(a \<mapsto> ad\<lparr>ad_hook_id := i\<rparr>),
       xy_adapter_by_id := (if i \<ge> int (length tab) then grow (nat (i + 16)) None tab else tab)[nat i := Some a]\<rparr>)"

lemma minted_hooks:
  assumes Q: "qmap_laws Q" and wf: "wf_hooks Q s" and new: "hook_num Q s name = None"
  shows "wf_hooks Q (minted Q name a ad s)"
    and "hook_num Q (minted Q name a ad s) n = (if n = name then Some (xy_hook_id_counter s) else hook_num Q s n)"
proof -
  from wf obtain h where h: "hook_id_hd s = Some h" and c: "0 \<le> xy_hook_id_counter s"
    and tab: "\<And>k v. qmap_get Q h k = Some v \<Longrightarrow> \<exists>n i. k = KStr n \<and> v = VInt i \<and> 0 \<le> i \<and> i < xy_hook_id_counter s"
    and inj: "\<And>n n' i. qmap_get Q h (KStr n) = Some (VInt i) \<Longrightarrow> qmap_get Q h (KStr n') = Some (VInt i) \<Longrightarrow> n = n'"
    unfolding wf_hooks_def by blast
  let ?h = "qmap_put Q h (KStr name) (VInt (xy_hook_id_counter s))"
  have h': "hook_id_hd (minted Q name a ad s) = Some ?h" "xy_hook_id_counter (minted Q name a ad s) = xy_hook_id_counter s + 1"
    by (simp_all add: minted_def Let_def h)
  show "hook_num Q (minted Q name a ad s) n = (if n = name then Some (xy_hook_id_counter s) else hook_num Q s n)"
    by (simp add: hook_num_def h h' qmap_simps [OF Q])
  have lt: "i < xy_hook_id_counter s" if "qmap_get Q h (KStr n) = Some (VInt i)" for n i
    using tab [OF that] by auto
  show "wf_hooks Q (minted Q name a ad s)"
    unfolding wf_hooks_def h'
  proof (intro conjI exI [of _ ?h] allI impI)
    show "0 \<le> xy_hook_id_counter s + 1" using c by simp
    fix k v assume "qmap_get Q ?h k = Some v"
    then show "\<exists>n i. k = KStr n \<and> v = VInt i \<and> 0 \<le> i \<and> i < xy_hook_id_counter s + 1"
      using tab [of k v] c by (fastforce simp: qmap_simps [OF Q] split: if_splits)
  next
    show "Some ?h = Some ?h" by (rule refl)
  next
    fix n n' i assume "qmap_get Q ?h (KStr n) = Some (VInt i)" "qmap_get Q ?h (KStr n') = Some (VInt i)"
    then show "n = n'" using inj [of n i n'] lt [of n i] lt [of n' i]
      by (cases "n = name"; cases "n' = name") (auto simp: qmap_simps [OF Q])
  qed
qed

lemma mod_hooks_minted:
  assumes Q: "qmap_laws Q" and wf: "wf_hooks Q s" and new: "hook_num Q s name = None" and ok: "mod_hooks_ok E Q s e"
  shows "mod_hooks_ok E Q (minted Q name a ad s) e"
proof -
  let ?c = "xy_hook_id_counter s"
  from ok have b: "blank ?c e" and h: "me_handle e \<noteq> None" and k: "\<And>n i. hook_num Q s n = Some i \<Longrightarrow> hook_ok E n i e"
    by (simp_all add: mod_hooks_ok_def)
  have "blank (?c + 1) e" using b unfolding blank_def by (meson add_increasing2 order_trans zless_add1_eq zle_add1_eq_le less_imp_le)
  moreover have "hook_ok E name ?c e" using b h by (auto simp: hook_ok_def blank_def)
  ultimately show ?thesis
    using k h unfolding mod_hooks_ok_def minted_hooks(2) [OF Q wf new]
    by (auto simp: minted_def Let_def split: if_splits)
qed

lemma minted_keeps: "sica_hd s \<noteq> None \<Longrightarrow> hook_id_hd s \<noteq> None \<Longrightarrow> keeps s (minted Q name a ad s)"
  by (simp add: minted_def Let_def keeps_def same_shapeI)

lemma xy_areg_ok:
  assumes Q: "qmap_laws Q" and E: "alloc_ok E" "dl_ok E" and lib: "wf_lib Q s" and wf: "wf_hooks Q s"
    and mods_ok: "\<forall>m e. mods s m = Some e \<longrightarrow> mod_hooks_ok E Q s e"
    and ad: "adapters s a = Some ad" "ret_size ad \<le> XY_MAX_RET_SIZE"
    and new: "hook_num Q s name = None" "\<forall>h. sica_hd s = Some h \<longrightarrow> qmap_get Q h (KStr name) = None"
  shows "\<exists>s'. xy_areg E Q name a s = Some (0, xy_set_err XY_OK s')
    \<and> all_warmed E Q {m. \<exists>h k. mod_hd s = Some h \<and> qmap_get Q h k = Some (VPtr m)} (minted Q name a ad s) s'"
proof -
  note w = wf_libD [OF lib]
  let ?t = "minted Q name a ad s" and ?i = "xy_hook_id_counter s"
  from w(6,8,9) obtain mh sh hh where hds: "mod_hd s = Some mh" "sica_hd s = Some sh" "hook_id_hd s = Some hh" by auto
  have i0: "0 \<le> ?i" using wf by (simp add: wf_hooks_def)
  have t: "mods ?t = mods s" "mod_hd ?t = Some mh" by (simp_all add: minted_def Let_def hds)
  have vals: "\<exists>m. v = VPtr m \<and> mods ?t m \<noteq> None" if "(k, v) \<in> set (qmap_iter Q mh)" for k v
  proof -
    from that have "qmap_get Q mh k = Some v" by (simp add: qmap_iter_get [OF Q])
    with w(10) hds(1) show ?thesis unfolding wf_modtab_def t by blast
  qed
  have mo: "mod_hooks_ok E Q ?t e" if "mods ?t m = Some e" for m e
    using mod_hooks_minted [OF Q wf new(1)] mods_ok that t by simp
  have "\<exists>s'. prewarm_all E Q (qmap_iter Q mh) ?t = Some s'
      \<and> all_warmed E Q {m. \<exists>k. (k, VPtr m) \<in> set (qmap_iter Q mh)} ?t s'"
    by (rule prewarm_all_ok [OF Q E minted_hooks(1) [OF Q wf new(1)]]) (erule mo, erule vals)
  then obtain s' where
    s': "prewarm_all E Q (qmap_iter Q mh) ?t = Some s'"
    "all_warmed E Q {m. \<exists>k. (k, VPtr m) \<in> set (qmap_iter Q mh)} ?t s'" by blast
  have "{m. \<exists>k. (k, VPtr m) \<in> set (qmap_iter Q mh)} = {m. \<exists>h k. mod_hd s = Some h \<and> qmap_get Q h k = Some (VPtr m)}"
    by (simp add: hds qmap_iter_get [OF Q])
  note aw = s'(2) [unfolded this]
  have "new_hook E Q name a s = Some (0, xy_set_err XY_OK s')"
    using hds ad(1) i0 E(1) s'(1)
    by (cases "?i \<ge> int (length (xy_adapter_by_id s))")
      (simp_all add: new_hook_def upd_adapter_def alloc_ok_def Let_def minted_def upd_opt_def nat_less_iff)
  then have "xy_areg E Q name a s = Some (0, xy_set_err XY_OK s')"
    using w(1) ad hds new(2) by (simp add: xy_areg_def xy_runtime_ensure_def XY_OK_def)
  with aw show ?thesis by blast
qed

text \<open>Warming a module resolves every hook that is registered: afterwards its cache holds,
  under the id of each hook, what \<open>dlsym\<close> says about the hook's name; nothing else of the
  entry or of the library changes.\<close>

lemma prewarm_resolves_all_hooks:
  assumes "qmap_laws Q" and "alloc_ok E" "dl_ok E" and "wf_hooks Q s"
    and "mods s m = Some e" and "mod_hooks_ok E Q s e"
  shows "\<exists>e'. fn_cache_prewarm E Q (Some m) s = Some (0, s\<lparr>mods := (mods s)(m \<mapsto> e')\<rparr>)
    \<and> e' = e\<lparr>fn_cache := fn_cache e', hook_impl_bits := hook_impl_bits e'\<rparr>
    \<and> (\<forall>n i. hook_num Q s n = Some i \<longrightarrow> warm E n i e'
          \<and> (module_has_hook_implemented e' i \<longleftrightarrow> (\<exists>h. me_handle e' = Some h \<and> e_dlsym E h n \<noteq> 0)))"
proof -
  from fn_cache_prewarm_ok [OF assms] obtain e' where
    e': "fn_cache_prewarm E Q (Some m) s = Some (0, s\<lparr>mods := (mods s)(m \<mapsto> e')\<rparr>)"
    "warmed E (xy_hook_id_counter s) (hook_pairs Q s) (hook_pairs Q s) e e'" by blast
  have "warm E n i e' \<and> hook_ok E n i e'" if "hook_num Q s n = Some i" for n i
    using e'(2) that by (auto simp: warmed_def hook_pairs_def)
  moreover have "module_has_hook_implemented e' i \<longleftrightarrow> (\<exists>h. me_handle e' = Some h \<and> e_dlsym E h n \<noteq> 0)"
    if "warm E n i e'" "hook_ok E n i e'" for n i
    using that cached_read(3) [OF assms(3)] by (fastforce simp: warm_def hook_ok_def has_hook_iff)
  moreover have "e' = e\<lparr>fn_cache := fn_cache e', hook_impl_bits := hook_impl_bits e'\<rparr>"
    using e'(2) by (simp add: warmed_def)
  ultimately show ?thesis using e'(1) by blast
qed

text \<open>The example state with the hook \<open>h\<close> registered under id 0, by the adapter at 21.\<close>

definition demo_h :: "demo_q xy_state" where
  "demo_h = demo\<lparr>hook_id_hd := Some [(KStr ''h'', VInt 0)], sica_hd := Some [(KStr ''h'', VPtr 21)],
     xy_hook_id_counter := 1, xy_adapter_by_id := [Some 21],
     adapters := [21 \<mapsto> \<lparr>ad_name = ''h'', arg_size = 0, ret_size = 1, ad_call = 50, ad_hook_id = 0\<rparr>,
                  22 \<mapsto> \<lparr>ad_name = ''g'', arg_size = 0, ret_size = 4, ad_call = 51, ad_hook_id = - 1\<rparr>]\<rparr>"

lemma demo_h_keeps: "keeps demo demo_h"
  by (simp add: demo_h_def keeps_def same_shapeI) (simp add: demo_def)

lemma demo_h_wf_lib: "wf_lib alist_qmap demo_h"
  using keeps_wf_lib [OF demo_h_keeps demo_wf_lib] .

lemma demo_h_sel [simp]: "mods demo_h = mods demo" "regions demo_h = regions demo" "ctxs demo_h = ctxs demo"
  "hook_id_hd demo_h = Some [(KStr ''h'', VInt 0)]" "xy_hook_id_counter demo_h = 1"
  "sica_hd demo_h = Some [(KStr ''h'', VPtr 21)]" "next_addr demo_h = next_addr demo" "xy_adapter_by_id demo_h = [Some 21]"
  "adapters demo_h 21 = Some \<lparr>ad_name = ''h'', arg_size = 0, ret_size = 1, ad_call = 50, ad_hook_id = 0\<rparr>"
  "adapters demo_h 22 = Some \<lparr>ad_name = ''g'', arg_size = 0, ret_size = 4, ad_call = 51, ad_hook_id = - 1\<rparr>"
  by (simp_all add: demo_h_def)

lemma demo_h_hooks: "wf_hooks alist_qmap demo_h"
  by (auto simp: wf_hooks_def split: if_splits)

lemma demo_h_mods: "mods demo_h m = Some e \<Longrightarrow> mod_hooks_ok demo_env alist_qmap demo_h e"
proof -
  assume m: "mods demo_h m = Some e"
  have "mod_hooks_ok demo_env alist_qmap demo_h (demo_mod r rid ctx nxt prv)" for r rid ctx nxt prv
  proof -
    have "nth_opt ([] :: code list) i = None" for i by (simp add: nth_opt_def)
    then have "blank 1 (demo_mod r rid ctx nxt prv)" by (simp add: blank_def demo_mod_def hook_bit_def)
    moreover have "me_handle (demo_mod r rid ctx nxt prv) \<noteq> None" by (simp add: demo_mod_def)
    ultimately show ?thesis using demo_hook_ok by (simp add: mod_hooks_ok_def del: One_nat_def)
  qed
  then show ?thesis using demo_mods_cases [of m e] m by auto
qed

text \<open>(C21) Registering an adapter under a new name returns 0 and hands out the next hook id: the
  name maps to it, no other name does, every other name keeps its id, the adapter stands
  in the table under its id, and the hook is resolved in every loaded module, as are all
  hooks before it.  The invariants of the library and of its caches survive.\<close>

theorem areg_mints_next_id:
  assumes "qmap_laws Q" and "alloc_ok E" "dl_ok E" and "wf_lib Q s" and "wf_hooks Q s"
    and "\<forall>m e. mods s m = Some e \<longrightarrow> mod_hooks_ok E Q s e"
    and "adapters s a = Some ad" and "ret_size ad \<le> XY_MAX_RET_SIZE" and "hook_num Q s name = None"
    and "\<forall>h. sica_hd s = Some h \<longrightarrow> qmap_get Q h (KStr name) = None"
  shows "\<exists>s'. xy_areg E Q name a s = Some (0, s') \<and> wf_lib Q s' \<and> wf_hooks Q s'
    \<and> xy_hook_id_counter s' = xy_hook_id_counter s + 1
    \<and> (\<forall>n. hook_num Q s' n = (if n = name then Some (xy_hook_id_counter s) else hook_num Q s n))
    \<and> (\<forall>n. n \<noteq> name \<longrightarrow> hook_num Q s' n \<noteq> Some (xy_hook_id_counter s))
    \<and> nth_opt (xy_adapter_by_id s') (xy_hook_id_counter s) = Some (Some a)
    \<and> map_option ad_hook_id (adapters s' a) = Some (xy_hook_id_counter s)
    \<and> (\<forall>h k m e. mod_hd s = Some h \<longrightarrow> qmap_get Q h k = Some (VPtr m) \<longrightarrow> mods s' m = Some e
          \<longrightarrow> (\<forall>n i. hook_num Q s' n = Some i \<longrightarrow> warm E n i e))"
proof -
  let ?t = "minted Q name a ad s" and ?i = "xy_hook_id_counter s"
  note w = wf_libD [OF assms(4)]
  from xy_areg_ok [OF assms] obtain s1 where
    s1: "xy_areg E Q name a s = Some (0, xy_set_err XY_OK s1)"
    "all_warmed E Q {m. \<exists>h k. mod_hd s = Some h \<and> qmap_get Q h k = Some (VPtr m)} ?t s1" by blast
  let ?s' = "xy_set_err XY_OK s1"
  have "keeps s ?t" by (rule minted_keeps [OF w(8,9)])
  then have k: "keeps s ?s'"
    using keeps_trans all_warmed_keeps [OF s1(2)] keeps_globals(8) by blast
  from s1(2) obtain ms where ms: "s1 = ?t\<lparr>mods := ms\<rparr>" unfolding all_warmed_def by blast
  note mh = minted_hooks [OF assms(1,5,9), of a ad]
  have num: "hook_num Q ?s' n = hook_num Q ?t n" for n by (simp add: ms xy_set_err_def hook_num_def)
  have hooks: "wf_hooks Q ?s'" using mh(1) by (simp add: ms xy_set_err_def wf_hooks_def)
  have i0: "0 \<le> ?i" using assms(5) by (simp add: wf_hooks_def)
  have old: "hook_num Q s n \<noteq> Some ?i" for n
    using assms(5) unfolding wf_hooks_def hook_num_def by (fastforce split: option.splits qval.splits)
  have tab: "nth_opt (xy_adapter_by_id ?s') ?i = Some (Some a)" "xy_hook_id_counter ?s' = ?i + 1"
    "map_option ad_hook_id (adapters ?s' a) = Some ?i"
    using i0 by (auto simp: ms xy_set_err_def minted_def Let_def nth_opt_def nat_less_iff)
  have wm: "warm E n i e" if "mod_hd s = Some h" "qmap_get Q h k = Some (VPtr m)" "mods ?s' m = Some e"
      "hook_num Q ?s' n = Some i" for h k m e n i
  proof -
    have m1: "mods s1 m = Some e" using that(3) by (simp add: xy_set_err_def)
    have "mods s1 m = None \<longleftrightarrow> mods ?t m = None" using s1(2) unfolding all_warmed_def by blast
    with m1 obtain e0 where "mods ?t m = Some e0" by (cases "mods ?t m") auto
    with s1(2) m1 that(1,2) have "warmed E (xy_hook_id_counter ?t) (hook_pairs Q ?t) (hook_pairs Q ?t) e0 e"
      unfolding all_warmed_def by blast
    with that(4) show ?thesis by (auto simp: warmed_def hook_pairs_def num)
  qed
  show ?thesis
    using s1(1) keeps_wf_lib [OF k assms(4)] hooks tab wm mh(2) old num
    by (intro exI [of _ ?s']) auto
qed

theorem areg_mints_next_id_witness:
  "\<exists>s'. xy_areg demo_env alist_qmap ''g'' 22 demo_h = Some (0, s') \<and> hook_num alist_qmap s' ''g'' = Some 1
    \<and> hook_num alist_qmap s' ''h'' = Some 0"
proof -
  have E: "alloc_ok demo_env" by (simp add: alloc_ok_def)
  have n: "hook_num alist_qmap demo_h ''g'' = None" "hook_num alist_qmap demo_h ''h'' = Some 0"
    by (simp_all add: hook_num_def)
  have "\<exists>s'. xy_areg demo_env alist_qmap ''g'' 22 demo_h = Some (0, s') \<and>
      (\<forall>n. hook_num alist_qmap s' n = (if n = ''g'' then Some (xy_hook_id_counter demo_h) else hook_num alist_qmap demo_h n))"
  proof -
    have m: "\<forall>m e. mods demo_h m = Some e \<longrightarrow> mod_hooks_ok demo_env alist_qmap demo_h e" using demo_h_mods by blast
    have r: "ret_size \<lparr>ad_name = ''g'', arg_size = 0, ret_size = 4, ad_call = 51, ad_hook_id = - 1\<rparr> \<le> XY_MAX_RET_SIZE"
      by (simp add: XY_MAX_RET_SIZE_def)
    have g: "\<forall>h. sica_hd demo_h = Some h \<longrightarrow> qmap_get alist_qmap h (KStr ''g'') = None" by simp
    from areg_mints_next_id [OF alist_qmap_laws E demo_dl_ok demo_h_wf_lib demo_h_hooks m demo_h_sel(10) r n(1) g]
    show ?thesis by blast
  qed
  with n show ?thesis by auto
qed

end
