(* ===== verification/Xy_Dispatch.thy ===== *)
theory Xy_Dispatch
  imports Xy_Warm
begin

text \<open>
  Dispatch (src/libxylem-dispatch.c, lines 3-22 and 107-362): \<open>xy_call\<close> resolves the hook
  of an adapter, checks the denies on the caller's ancestor chain, brings the caller
  region's dispatch vector for the hook up to date, and calls the listeners in order,
  each in its module's region; \<open>xy_last\<close> reads the result of the last call.

  The vector is read through the pointer taken before the first call: a slot is
  readable as long as that array is still the one of the cache, so a callback that makes
  the library reallocate or free it leaves the rest of the loop undefined.
\<close>

section \<open>The dispatch vectors\<close>

definition empty_cache :: xy_hook_dispatch_cache where
  "empty_cache = \<lparr>slots_buf = 0, slots = [], hd_count = 0, region_gen = 0\<rparr>"

definition region_ensure_hook_dispatch_cap :: "'q env \<Rightarrow> rptr option \<Rightarrow> int \<Rightarrow> 'q xy_state
    \<Rightarrow> (int \<times> 'q xy_state) option" where
  "region_ensure_hook_dispatch_cap E re hook_id s = (case re of None \<Rightarrow> Some (XY_ERR_INVALID, s)
     | Some r \<Rightarrow>
       if hook_id < 0 then Some (XY_ERR_INVALID, s)
       else do {
         e \<leftarrow> regions s r;
         if hook_id < int (length (hook_dispatch e)) then Some (XY_OK, s)
         else let new_cap = nat (hook_id + 16) in
           if \<not> e_malloc E s (AllocCaches new_cap) then Some (XY_ERR_INVALID, s)
           else do { s1 \<leftarrow> upd_region r (\<lambda>e. e\<lparr>hook_dispatch := grow new_cap empty_cache (hook_dispatch e)\<rparr>) s;
                     Some (XY_OK, s1) } })"

definition get_cache :: "rptr \<Rightarrow> int \<Rightarrow> 'q xy_state \<Rightarrow> xy_hook_dispatch_cache option" where
  "get_cache r hook_id s = (do { e \<leftarrow> regions s r; nth_opt (hook_dispatch e) hook_id })"

definition set_cache :: "rptr \<Rightarrow> int \<Rightarrow> xy_hook_dispatch_cache \<Rightarrow> 'q xy_state \<Rightarrow> 'q xy_state option" where
  "set_cache r hook_id c s = (do {
     e \<leftarrow> regions s r;
     cs \<leftarrow> upd_opt (hook_dispatch e) hook_id c;
     upd_region r (\<lambda>e. e\<lparr>hook_dispatch := cs\<rparr>) s })"

text \<open>The loop over the ancestor chain in \<open>region_rebuild_hook_dispatch\<close>.\<close>

primrec denied_by :: "'q qmap_ops \<Rightarrow> 'q xy_state \<Rightarrow> rptr list \<Rightarrow> sptr option \<Rightarrow> bool option" where
  "denied_by Q s [] path = Some False"
| "denied_by Q s (a # as) path = (do {
     d \<leftarrow> module_is_denied Q s (Some a) path;
     if d then Some True else denied_by Q s as path })"

definition free_slot :: xy_dispatch_slot where
  "free_slot = \<lparr>slot_me = None, slot_cb = 0\<rparr>"

text \<open>Appending a slot to the vector, which is reallocated when it is full.\<close>

definition slot_push :: "'q env \<Rightarrow> rptr \<Rightarrow> int \<Rightarrow> mptr \<Rightarrow> code \<Rightarrow> 'q xy_state
    \<Rightarrow> (int \<times> 'q xy_state) option" where
  "slot_push E r hook_id m cb s = (do {
     c \<leftarrow> get_cache r hook_id s;
     let new_cap = (if slots c = [] then 8 else length (slots c) * 2);
     if hd_count c \<ge> length (slots c) \<and> \<not> e_malloc E s (AllocSlots new_cap)
     then Some (XY_ERR_INVALID, s)
     else do {
       let (c1, s1) = (if hd_count c \<ge> length (slots c)
           then (c\<lparr>slots_buf := next_addr s, slots := grow new_cap free_slot (slots c)\<rparr>,
                 s\<lparr>next_addr := next_addr s + 1\<rparr>)
           else (c, s));
       s2 \<leftarrow> set_cache r hook_id (c1\<lparr>slots := (slots c1)[hd_count c1 := \<lparr>slot_me = Some m, slot_cb = cb\<rparr>],
                                      hd_count := hd_count c1 + 1\<rparr>) s1;
       Some (0, s2) } })"

definition rebuild_step :: "'q env \<Rightarrow> 'q qmap_ops \<Rightarrow> rptr \<Rightarrow> int \<Rightarrow> string \<Rightarrow> rptr list \<Rightarrow> mptr
    \<Rightarrow> 'q xy_state \<Rightarrow> (int \<times> 'q xy_state) option" where
  "rebuild_step E Q r hook_id hook_name anc_chain m s = (do {
     e \<leftarrow> mods s m;
     if me_ctx e = None then Some (0, s)
     else do {
       denied \<leftarrow> (if anc_chain \<noteq> [] \<and> load_path e \<noteq> None then denied_by Q s anc_chain (load_path e)
                 else Some False);
       if denied then Some (0, s)
       else do {
         (cb, s1) \<leftarrow> (if module_has_hook_implemented e hook_id then Some (1, s)
                      else fn_cache_resolve E m hook_id hook_name s);
         if cb = XY_FN_RESOLVE_OOM then Some (XY_ERR_INVALID, s1)
         else if cb = 0 then Some (0, s1)
         else do {
           e1 \<leftarrow> mods s1 m;
           if \<not> module_has_hook_implemented e1 hook_id then Some (0, s1)
           else do {
             fp \<leftarrow> nth_opt (fn_cache e1) hook_id;
             slot_push E r hook_id m fp s1 } } } } })"

definition region_rebuild_hook_dispatch :: "'q env \<Rightarrow> 'q qmap_ops \<Rightarrow> rptr option \<Rightarrow> int \<Rightarrow> string
    \<Rightarrow> rptr list \<Rightarrow> 'q xy_state \<Rightarrow> (int \<times> 'q xy_state) option" where
  "region_rebuild_hook_dispatch E Q re hook_id hook_name anc_chain s = (case re of
       None \<Rightarrow> Some (XY_ERR_INVALID, s)
     | Some r \<Rightarrow>
       if hook_id < 0 then Some (XY_ERR_INVALID, s)
       else do {
         e \<leftarrow> regions s r;
         (x, s1) \<leftarrow> (if subtree_mods_dirty e then region_rebuild_subtree_mods E re s else Some (0, s));
         if x < 0 then Some (XY_ERR_INVALID, s1)
         else do {
           (y, s2) \<leftarrow> region_ensure_hook_dispatch_cap E re hook_id s1;
           if y \<noteq> XY_OK then Some (XY_ERR_INVALID, s2)
           else do {
             e2 \<leftarrow> regions s2 r;
             c \<leftarrow> get_cache r hook_id s2;
             if region_gen c = dispatch_gen e2 then Some (XY_OK, s2)
             else do {
               s3 \<leftarrow> set_cache r hook_id (c\<lparr>hd_count := 0\<rparr>) s2;
               (z, s4) \<leftarrow> for_each (rebuild_step E Q r hook_id hook_name anc_chain) (subtree_mods e2) s3;
               if z < 0 then Some (XY_ERR_INVALID, s4)
               else do {
                 c4 \<leftarrow> get_cache r hook_id s4;
                 e4 \<leftarrow> regions s4 r;
                 s5 \<leftarrow> set_cache r hook_id (c4\<lparr>region_gen := dispatch_gen e4\<rparr>) s4;
                 Some (XY_OK, s5) } } } } })"

section \<open>Results\<close>

text \<open>\<open>memset(retp, 0, n)\<close> on the caller's buffer.\<close>

definition zero_bytes :: "nat \<Rightarrow> byte list \<Rightarrow> byte list option" where
  "zero_bytes n bs = (if n \<le> length bs then Some (replicate n 0 @ drop n bs) else None)"

definition xy_zero_ret :: "byte list option \<Rightarrow> aptr option \<Rightarrow> 'q xy_state \<Rightarrow> byte list option option" where
  "xy_zero_ret retp reg s = (case (retp, reg) of
       (Some bs, Some a) \<Rightarrow> do { ad \<leftarrow> adapters s a; map_option Some (zero_bytes (ret_size ad) bs) }
     | _ \<Rightarrow> Some retp)"

definition xy_set_last_ret :: "byte list option \<Rightarrow> nat \<Rightarrow> 'q xy_state \<Rightarrow> 'q xy_state option" where
  "xy_set_last_ret retp n s = (case retp of
       None \<Rightarrow> Some (s\<lparr>xy_last_retp := RNull\<rparr>)
     | Some bs \<Rightarrow>
         if n = 0 then Some (s\<lparr>xy_last_retp := RNull\<rparr>)
         else if n > length bs \<or> n > length (xy_last_retbuf s) then None
         else if n \<le> 8
         then Some (s\<lparr>xy_last_retbuf := take n bs @ replicate (8 - n) 0 @ drop 8 (xy_last_retbuf s),
                      xy_last_retp := RBuf\<rparr>)
         else Some (s\<lparr>xy_last_retbuf := take n bs @ drop n (xy_last_retbuf s), xy_last_retp := RBuf\<rparr>))"

definition xy_last :: "'q env \<Rightarrow> 'q qmap_ops \<Rightarrow> byte list option \<Rightarrow> 'q xy_state
    \<Rightarrow> (int \<times> byte list option \<times> 'q xy_state) option" where
  "xy_last E Q ret s0 = (do {
     (retc, s) \<leftarrow> xy_runtime_ensure E Q s0;
     if retc \<noteq> XY_OK then Some (retc, ret, xy_set_err retc s)
     else (case cur_adapter s of
         None \<Rightarrow> Some (XY_ERR_INVALID, ret, xy_set_err XY_ERR_INVALID s)
       | Some a \<Rightarrow>
           if xy_last_ran s = 0 then Some (XY_ERR_NOTFOUND, ret, xy_set_err XY_ERR_NOTFOUND s)
           else do {
             ad \<leftarrow> adapters s a;
             ret' \<leftarrow> (case (ret, xy_last_retp s) of
                 (Some bs, RBuf) \<Rightarrow>
                   if ret_size ad \<le> length bs \<and> ret_size ad \<le> length (xy_last_retbuf s)
                   then Some (Some (take (ret_size ad) (xy_last_retbuf s) @ drop (ret_size ad) bs))
                   else None
               | (Some bs, RCaller) \<Rightarrow> None
               | _ \<Rightarrow> Some ret);
             Some (XY_OK, ret', xy_set_err XY_OK s) }) })"

section \<open>The call\<close>

text \<open>The hook id and the function of an adapter (\<open>Inl\<close> an error code): an adapter without
  an id gets it by name, and an adapter without a function gets the one registered for
  the id.\<close>

definition canonical :: "int \<Rightarrow> 'q xy_state \<Rightarrow> aptr option" where
  "canonical hook_id s = (case nth_opt (xy_adapter_by_id s) hook_id of Some a \<Rightarrow> a | None \<Rightarrow> None)"

definition adapter_by_name :: "'q qmap_ops \<Rightarrow> aptr \<Rightarrow> 'q xy_state \<Rightarrow> ((int + int \<times> code) \<times> 'q xy_state) option" where
  "adapter_by_name Q reg s = (do {
     ad \<leftarrow> adapters s reg;
     h \<leftarrow> hook_id_hd s;
     (case qmap_get Q h (KStr (ad_name ad)) of
        None \<Rightarrow> Some (Inl XY_ERR_NOTFOUND, s)
      | Some (VPtr p) \<Rightarrow> None
      | Some (VInt hook_id) \<Rightarrow> do {
          s1 \<leftarrow> upd_adapter reg (\<lambda>a. a\<lparr>ad_hook_id := hook_id\<rparr>) s;
          (case canonical hook_id s1 of
             None \<Rightarrow> Some (Inr (hook_id, ad_call ad), s1)
           | Some ca \<Rightarrow>
               if ad_call ad \<noteq> 0 then Some (Inr (hook_id, ad_call ad), s1)
               else do {
                 cad \<leftarrow> adapters s1 ca;
                 s2 \<leftarrow> upd_adapter reg (\<lambda>a. a\<lparr>ad_call := ad_call cad, ret_size := ret_size cad,
                                            arg_size := arg_size cad\<rparr>) s1;
                 Some (Inr (hook_id, ad_call cad), s2) }) }) })"

definition call_resolve :: "'q qmap_ops \<Rightarrow> aptr \<Rightarrow> 'q xy_state \<Rightarrow> ((int + int \<times> code) \<times> 'q xy_state) option" where
  "call_resolve Q reg s = (do {
     ad \<leftarrow> adapters s reg;
     (r, s1) \<leftarrow> (if ad_hook_id ad < 0 then adapter_by_name Q reg s
                 else Some (Inr (ad_hook_id ad, ad_call ad), s));
     (case r of
        Inl err \<Rightarrow> Some (Inl err, s1)
      | Inr (hook_id, dispatch_call) \<Rightarrow> do {
          ad1 \<leftarrow> adapters s1 reg;
          if ret_size ad1 > XY_MAX_RET_SIZE then Some (Inl XY_ERR_TOOBIG, s1)
          else do {
            dispatch_call \<leftarrow> (if dispatch_call = 0
              then (case canonical hook_id s1 of None \<Rightarrow> Some 0
                    | Some ca \<Rightarrow> do { cad \<leftarrow> adapters s1 ca; Some (ad_call cad) })
              else Some dispatch_call);
            if dispatch_call = 0 then Some (Inl XY_ERR_NOTFOUND, s1)
            else Some (Inr (hook_id, dispatch_call), s1) } }) })"

text \<open>The deny check: the caller's ancestors, when its flag is raised, and whether one of them
  denies the hook.\<close>

definition call_chain :: "rptr option \<Rightarrow> 'q xy_state \<Rightarrow> rptr list option" where
  "call_chain caller s = (case caller of None \<Rightarrow> Some []
     | Some r \<Rightarrow> do {
         e \<leftarrow> regions s r;
         if subtree_flags e AND XY_SUBTREE_HAS_DENY \<noteq> 0 then region_ancestor_chain s caller 65
         else Some [] })"

primrec hook_denied_by :: "'q qmap_ops \<Rightarrow> 'q xy_state \<Rightarrow> rptr list \<Rightarrow> string \<Rightarrow> bool option" where
  "hook_denied_by Q s [] name = Some False"
| "hook_denied_by Q s (a # as) name = (do {
     e \<leftarrow> regions s a;
     if set_has Q (denied_hooks_set e) (KStr name) then Some True else hook_denied_by Q s as name })"

text \<open>Bringing the caller's vector up to date.\<close>

definition refresh_vector :: "'q env \<Rightarrow> 'q qmap_ops \<Rightarrow> rptr \<Rightarrow> int \<Rightarrow> string \<Rightarrow> rptr list \<Rightarrow> 'q xy_state
    \<Rightarrow> (int \<times> 'q xy_state) option" where
  "refresh_vector E Q r hook_id name anc_chain s = (do {
     e \<leftarrow> regions s r;
     (x, s1) \<leftarrow> (if subtree_mods_dirty e then region_rebuild_subtree_mods E (Some r) s else Some (0, s));
     if x < 0 then Some (XY_ERR_INVALID, s1)
     else do {
       e1 \<leftarrow> regions s1 r;
       (y, s2) \<leftarrow> (if hook_id \<ge> int (length (hook_dispatch e1))
                   then region_ensure_hook_dispatch_cap E (Some r) hook_id s1 else Some (XY_OK, s1));
       if y \<noteq> XY_OK then Some (XY_ERR_INVALID, s2)
       else do {
         c \<leftarrow> get_cache r hook_id s2;
         e2 \<leftarrow> regions s2 r;
         if region_gen c \<noteq> dispatch_gen e2
         then region_rebuild_hook_dispatch E Q (Some r) hook_id name anc_chain s2
         else Some (XY_OK, s2) } } })"

definition read_slot :: "rptr \<Rightarrow> int \<Rightarrow> addr \<Rightarrow> nat \<Rightarrow> 'q xy_state \<Rightarrow> xy_dispatch_slot option" where
  "read_slot r hook_id buf i s = (do {
     c \<leftarrow> get_cache r hook_id s;
     if slots_buf c = buf then nth_opt (slots c) (int i) else None })"

text \<open>One slot: skipped when module, context or callback is missing; otherwise the callback
  runs with its module's region as the current one.\<close>

definition call_slot :: "'q env \<Rightarrow> aptr \<Rightarrow> code \<Rightarrow> addr \<Rightarrow> u64 \<Rightarrow> xy_dispatch_slot \<Rightarrow> byte list option
    \<Rightarrow> 'q xy_state \<Rightarrow> (nat \<times> byte list option \<times> 'q xy_state) option" where
  "call_slot E reg dispatch_call arg region_id slot retp s = (case slot_me slot of
       None \<Rightarrow> Some (0, retp, s)
     | Some m \<Rightarrow> do {
         e \<leftarrow> mods s m;
         (case me_ctx e of
            None \<Rightarrow> Some (0, retp, s)
          | Some c \<Rightarrow>
              if slot_cb slot = 0 then Some (0, retp, s)
              else do {
                s1 \<leftarrow> upd_ctx c (\<lambda>x. x\<lparr>ctx_adapter := Some reg, ctx_region_state := region_state e\<rparr>) s;
                x \<leftarrow> ctxs s1 c;
                let prev_rentry = xy_current_region_entry s1;
                let region_changed = (ctx_region_id x \<noteq> region_id);
                let s2 = (if region_changed then set_current_region (ctx_region_id x) (region_entry e) s1 else s1);
                (retp', s3) \<leftarrow> e_call E dispatch_call retp (slot_cb slot) arg s2;
                let s4 = (if region_changed then set_current_region region_id prev_rentry s3 else s3);
                Some (1, retp', s4) }) })"

primrec call_loop :: "'q env \<Rightarrow> aptr \<Rightarrow> code \<Rightarrow> addr \<Rightarrow> u64 \<Rightarrow> rptr \<Rightarrow> int \<Rightarrow> addr \<Rightarrow> nat list
    \<Rightarrow> nat \<Rightarrow> byte list option \<Rightarrow> 'q xy_state \<Rightarrow> (nat \<times> byte list option \<times> 'q xy_state) option" where
  "call_loop E reg dispatch_call arg region_id r hook_id buf [] cnt retp s = Some (cnt, retp, s)"
| "call_loop E reg dispatch_call arg region_id r hook_id buf (i # is) cnt retp s = (do {
     slot \<leftarrow> read_slot r hook_id buf i s;
     (k, retp', s') \<leftarrow> call_slot E reg dispatch_call arg region_id slot retp s;
     call_loop E reg dispatch_call arg region_id r hook_id buf is (cnt + k) retp' s' })"

definition call_fail :: "aptr \<Rightarrow> int \<Rightarrow> byte list option \<Rightarrow> 'q xy_state
    \<Rightarrow> (int \<times> byte list option \<times> 'q xy_state) option" where
  "call_fail reg err retp s = (do {
     retp' \<leftarrow> xy_zero_ret retp (Some reg) s;
     Some (err, retp', s\<lparr>xy_last_ran := 0, xy_last_retp := RNull, cur_adapter := Some reg, xy_err_val := err\<rparr>) })"

definition call_finish :: "aptr \<Rightarrow> nat \<Rightarrow> byte list option \<Rightarrow> 'q xy_state
    \<Rightarrow> (int \<times> byte list option \<times> 'q xy_state) option" where
  "call_finish reg cnt retp s = (do {
     let s1 = s\<lparr>xy_last_ran := cnt\<rparr>;
     ad \<leftarrow> adapters s1 reg;
     if cnt = 0 then do {
       s2 \<leftarrow> xy_set_last_ret None (ret_size ad) s1;
       retp' \<leftarrow> (case retp of None \<Rightarrow> Some None | Some bs \<Rightarrow> map_option Some (zero_bytes (ret_size ad) bs));
       Some (XY_ERR_NOTFOUND, retp', xy_set_err XY_ERR_NOTFOUND s2) }
     else do {
       s2 \<leftarrow> xy_set_last_ret retp (ret_size ad) s1;
       Some (XY_OK, retp, xy_set_err XY_OK s2) } })"

text \<open>The calls through a fresh vector: one slot directly, otherwise the loop.\<close>

definition call_vector :: "'q env \<Rightarrow> aptr \<Rightarrow> code \<Rightarrow> addr \<Rightarrow> u64 \<Rightarrow> rptr \<Rightarrow> int \<Rightarrow> byte list option
    \<Rightarrow> 'q xy_state \<Rightarrow> (nat \<times> byte list option \<times> 'q xy_state) option" where
  "call_vector E reg dispatch_call arg region_id r hook_id retp s = (do {
     c \<leftarrow> get_cache r hook_id s;
     if hd_count c = 1 then do {
       slot \<leftarrow> read_slot r hook_id (slots_buf c) 0 s;
       call_slot E reg dispatch_call arg region_id slot retp s }
     else call_loop E reg dispatch_call arg region_id r hook_id (slots_buf c) [0..<hd_count c] 0 retp s })"

definition call_body :: "'q env \<Rightarrow> 'q qmap_ops \<Rightarrow> byte list option \<Rightarrow> aptr \<Rightarrow> addr \<Rightarrow> 'q xy_state
    \<Rightarrow> (int \<times> byte list option \<times> 'q xy_state) option" where
  "call_body E Q retp reg arg s = (do {
     let region_id = xy_current_region_id s;
     (res, s1) \<leftarrow> call_resolve Q reg s;
     (case res of
        Inl err \<Rightarrow> call_fail reg err retp s1
      | Inr (hook_id, dispatch_call) \<Rightarrow> do {
          ad \<leftarrow> adapters s1 reg;
          let caller = (case xy_current_region_entry s1 of Some r \<Rightarrow> Some r
                        | None \<Rightarrow> region_lookup Q region_id s1);
          anc_chain \<leftarrow> call_chain caller s1;
          denied \<leftarrow> hook_denied_by Q s1 anc_chain (ad_name ad);
          if denied then call_fail reg XY_ERR_EPERM retp s1
          else do {
            let s2 = s1\<lparr>xy_last_ran := 0, xy_last_retp := (if retp = None then RNull else RCaller),
                        cur_adapter := Some reg\<rparr>;
            (case caller of
               None \<Rightarrow> call_finish reg 0 retp s2
             | Some r \<Rightarrow> do {
                 (x, s3) \<leftarrow> refresh_vector E Q r hook_id (ad_name ad) anc_chain s2;
                 if x \<noteq> XY_OK then call_fail reg XY_ERR_INVALID retp s3
                 else do {
                   (cnt, retp', s4) \<leftarrow> call_vector E reg dispatch_call arg region_id r hook_id retp s3;
                   call_finish reg cnt retp' s4 } }) } }) })"

definition xy_call :: "'q env \<Rightarrow> 'q qmap_ops \<Rightarrow> byte list option \<Rightarrow> aptr option \<Rightarrow> addr \<Rightarrow> 'q xy_state
    \<Rightarrow> (int \<times> byte list option \<times> 'q xy_state) option" where
  "xy_call E Q retp reg arg s0 = (do {
     (ret, s) \<leftarrow> xy_runtime_ensure E Q s0;
     if ret \<noteq> XY_OK then do {
       retp' \<leftarrow> xy_zero_ret retp reg s;
       Some (ret, retp', xy_set_err ret s) }
     else (case reg of
         None \<Rightarrow> Some (XY_ERR_NOTFOUND, retp, xy_set_err XY_ERR_NOTFOUND s)
       | Some a \<Rightarrow> call_body E Q retp a arg s) })"

end
