(* ===== verification/Xy_Vector.thy ===== *)
theory Xy_Vector
  imports Xy_Dispatch
begin

text \<open>
  What the dispatch vectors hold.  The specification is a list comprehension over the
  modules of the caller's subtree: the listeners of a hook are the modules, in subtree
  order, that have a context, export the hook and are not denied by the caller's
  ancestors.  Rebuilding a vector computes exactly this list.
\<close>

section \<open>The listeners\<close>

definition chain_denies :: "'q qmap_ops \<Rightarrow> 'q xy_state \<Rightarrow> rptr list \<Rightarrow> sptr option \<Rightarrow> bool" where
  "chain_denies Q s chain path \<longleftrightarrow>
     (\<exists>a p e. a \<in> set chain \<and> path = Some p \<and> regions s a = Some e \<and> denied_in Q e p)"

definition listens :: "'q env \<Rightarrow> 'q qmap_ops \<Rightarrow> 'q xy_state \<Rightarrow> rptr list \<Rightarrow> string \<Rightarrow> mptr \<Rightarrow> bool" where
  "listens E Q s chain name m = (case mods s m of None \<Rightarrow> False
     | Some e \<Rightarrow> me_ctx e \<noteq> None \<and> \<not> chain_denies Q s chain (load_path e)
         \<and> (case me_handle e of None \<Rightarrow> False | Some h \<Rightarrow> e_dlsym E h name \<noteq> 0))"

definition slot_for :: "'q env \<Rightarrow> 'q xy_state \<Rightarrow> string \<Rightarrow> mptr \<Rightarrow> xy_dispatch_slot" where
  "slot_for E s name m = \<lparr>slot_me = Some m,
     slot_cb = (case mods s m of None \<Rightarrow> 0 | Some e \<Rightarrow> (case me_handle e of None \<Rightarrow> 0 | Some h \<Rightarrow> e_dlsym E h name))\<rparr>"

definition listener_slots :: "'q env \<Rightarrow> 'q qmap_ops \<Rightarrow> 'q xy_state \<Rightarrow> rptr list \<Rightarrow> string \<Rightarrow> mptr list
    \<Rightarrow> xy_dispatch_slot list" where
  "listener_slots E Q s chain name ms = map (slot_for E s name) (filter (listens E Q s chain name) ms)"

lemma denied_by_iff:
  assumes "\<forall>a \<in> set chain. regions s a \<noteq> None"
  shows "denied_by Q s chain path = Some (chain_denies Q s chain path)"
  using assms
proof (induction chain)
  case (Cons a as)
  then obtain e where e: "regions s a = Some e" by auto
  show ?case
  proof (cases path)
    case None
    with Cons show ?thesis by (simp add: module_is_denied_def chain_denies_def)
  next
    case (Some p)
    with e have d: "module_is_denied Q s (Some a) path = Some (denied_in Q e p)"
      by (simp add: module_is_denied_def)
    with Cons Some e show ?thesis by (auto simp: chain_denies_def)
  qed
qed (simp add: chain_denies_def)

text \<open>A hook that is known to be implemented has its symbol in the cache (this is lost when
  another instance of the same object is unloaded, see \<open>module_clear_fn_cache_for_handle\<close>).\<close>

definition hook_live :: "'q env \<Rightarrow> string \<Rightarrow> int \<Rightarrow> xy_mod_entry \<Rightarrow> bool" where
  "hook_live E name i e \<longleftrightarrow> hook_ok E name i e
     \<and> (hook_bit (hook_impl_bits e) i \<longrightarrow> nth_opt (fn_cache e) i \<noteq> Some 0)"

lemma hook_live_resolved:
  assumes "resolved (e_dlsym E h n) i e e'" and "me_handle e = Some h"
  shows "hook_live E n i e'" and "j \<noteq> i \<Longrightarrow> hook_live E n' j e \<Longrightarrow> hook_live E n' j e'"
proof -
  note r = assms(1) [unfolded resolved_def]
  show "hook_live E n i e'"
    using hook_ok_resolved(1) [OF assms] r by (auto simp: hook_live_def cached_def XY_FN_NOT_FOUND_def)
  assume "j \<noteq> i" "hook_live E n' j e"
  moreover have "nth_opt (fn_cache e') j \<noteq> Some 0" if b: "hook_bit (hook_impl_bits e') j"
  proof -
    from b r \<open>j \<noteq> i\<close> have "hook_bit (hook_impl_bits e) j" by blast
    with \<open>hook_live E n' j e\<close> obtain v where "nth_opt (fn_cache e) j = Some v" "v \<noteq> 0"
      by (auto simp: hook_live_def hook_ok_def)
    with r \<open>j \<noteq> i\<close> show ?thesis by auto
  qed
  ultimately show "hook_live E n' j e'"
    using hook_ok_resolved(3) [OF assms] by (simp add: hook_live_def)
qed

section \<open>Building a vector\<close>

text \<open>\<open>fills s t l\<close>: from \<open>s\<close> to \<open>t\<close> only symbol caches have been filled and the vector for
  hook \<open>i\<close> of region \<open>r\<close> has been written; it holds \<open>l\<close>.\<close>

definition only_resolved :: "'q env \<Rightarrow> string \<Rightarrow> int \<Rightarrow> xy_mod_entry \<Rightarrow> xy_mod_entry \<Rightarrow> bool" where
  "only_resolved E name i e e' \<longleftrightarrow> e' = e\<lparr>fn_cache := fn_cache e', hook_impl_bits := hook_impl_bits e'\<rparr>
     \<and> (\<forall>n j. (n = name \<longleftrightarrow> j = i) \<longrightarrow> hook_live E n j e \<longrightarrow> hook_live E n j e')
     \<and> (\<forall>j. j \<noteq> i \<longrightarrow> hook_bit (hook_impl_bits e') j = hook_bit (hook_impl_bits e) j
          \<and> (\<forall>v. nth_opt (fn_cache e') j = Some v \<longrightarrow> nth_opt (fn_cache e) j = Some v \<or> v = 0))"

definition fills :: "'q env \<Rightarrow> rptr \<Rightarrow> int \<Rightarrow> string \<Rightarrow> u64 \<Rightarrow> 'q xy_state \<Rightarrow> 'q xy_state
    \<Rightarrow> xy_dispatch_slot list \<Rightarrow> bool" where
  "fills E r i name g s t l \<longleftrightarrow> (\<exists>e c. regions s r = Some e \<and> 0 \<le> i \<and> nat i < length (hook_dispatch e)
     \<and> regions t = (regions s)(r \<mapsto> e\<lparr>hook_dispatch := (hook_dispatch e)[nat i := c]\<rparr>)
     \<and> t = s\<lparr>regions := regions t, mods := mods t, next_addr := next_addr t\<rparr>
     \<and> next_addr s \<le> next_addr t
     \<and> (\<forall>m. mods t m = None \<longleftrightarrow> mods s m = None)
     \<and> (\<forall>m e e'. mods s m = Some e \<longrightarrow> mods t m = Some e' \<longrightarrow> only_resolved E name i e e')
     \<and> hd_count c = length l \<and> length l \<le> length (slots c) \<and> take (length l) (slots c) = l
     \<and> region_gen c = g)"

lemma only_resolved_trans:
  assumes "only_resolved E n i e e1" and "only_resolved E n i e1 e2"
  shows "only_resolved E n i e e2"
proof -
  from assms(1) obtain a b where "e1 = e\<lparr>fn_cache := a, hook_impl_bits := b\<rparr>" unfolding only_resolved_def by blast
  moreover from assms(2) obtain a' b' where "e2 = e1\<lparr>fn_cache := a', hook_impl_bits := b'\<rparr>" unfolding only_resolved_def by blast
  ultimately have "e2 = e\<lparr>fn_cache := fn_cache e2, hook_impl_bits := hook_impl_bits e2\<rparr>" by simp
  moreover have "hook_bit (hook_impl_bits e2) j = hook_bit (hook_impl_bits e) j
      \<and> (\<forall>v. nth_opt (fn_cache e2) j = Some v \<longrightarrow> nth_opt (fn_cache e) j = Some v \<or> v = 0)" if "j \<noteq> i" for j
    using assms that unfolding only_resolved_def by metis
  ultimately show ?thesis using assms unfolding only_resolved_def by blast
qed

lemma only_resolved_refl [simp]: "only_resolved E n i e e"
  by (simp add: only_resolved_def)

lemma only_resolved_fields:
  assumes "only_resolved E n i e e'"
  shows "me_ctx e' = me_ctx e" "load_path e' = load_path e" "me_handle e' = me_handle e"
    "mlinks e' = mlinks e" "mident e' = mident e" "region_entry e' = region_entry e" "region_state e' = region_state e"
proof -
  from assms obtain a b where "e' = e\<lparr>fn_cache := a, hook_impl_bits := b\<rparr>" unfolding only_resolved_def by blast
  then show "me_ctx e' = me_ctx e" "load_path e' = load_path e" "me_handle e' = me_handle e"
    "mlinks e' = mlinks e" "mident e' = mident e" "region_entry e' = region_entry e" "region_state e' = region_state e"
    by (simp_all add: mlinks_def mident_def)
qed

lemma resolved_only:
  assumes "resolved (e_dlsym E h n) i e e'" and "me_handle e = Some h"
  shows "only_resolved E n i e e'"
proof -
  have "hook_live E n' j e'" if "(n' = n \<longleftrightarrow> j = i)" "hook_live E n' j e" for n' j
    using that hook_live_resolved [OF assms] by (cases "j = i") auto
  moreover have "nth_opt (fn_cache e) j = Some v \<or> v = 0" if "j \<noteq> i" "nth_opt (fn_cache e') j = Some v" for j v
    using assms(1) that unfolding resolved_def by (metis not_None_eq option.inject)
  ultimately show ?thesis using assms(1) by (simp add: only_resolved_def resolved_def)
qed

lemma slot_push_ok:
  assumes "alloc_ok E" and f: "fills E r i name g s t l"
  shows "\<exists>t'. slot_push E r i m cb t = Some (0, t') \<and> fills E r i name g s t' (l @ [\<lparr>slot_me = Some m, slot_cb = cb\<rparr>])"
proof -
  from f obtain e c where e: "regions s r = Some e" "0 \<le> i" "nat i < length (hook_dispatch e)"
    "regions t = (regions s)(r \<mapsto> e\<lparr>hook_dispatch := (hook_dispatch e)[nat i := c]\<rparr>)"
    and t: "t = s\<lparr>regions := regions t, mods := mods t, next_addr := next_addr t\<rparr>" "next_addr s \<le> next_addr t"
      "\<forall>m. mods t m = None \<longleftrightarrow> mods s m = None"
      "\<forall>m e e'. mods s m = Some e \<longrightarrow> mods t m = Some e' \<longrightarrow> only_resolved E name i e e'"
    and c: "hd_count c = length l" "length l \<le> length (slots c)" "take (length l) (slots c) = l" "region_gen c = g"
    unfolding fills_def by blast
  let ?slot = "\<lparr>slot_me = Some m, slot_cb = cb\<rparr>"
  have gc: "get_cache r i t = Some c"
    using e by (simp add: get_cache_def nth_opt_def nat_less_iff)
  have sc: "set_cache r i c' u = Some (u\<lparr>regions := (regions s)(r \<mapsto> e\<lparr>hook_dispatch := (hook_dispatch e)[nat i := c']\<rparr>)\<rparr>)"
    if "regions u = regions t" for u c'
    using e that by (simp add: set_cache_def upd_opt_def nat_less_iff upd_region_def)
  let ?full = "hd_count c \<ge> length (slots c)"
  let ?c1 = "if ?full then c\<lparr>slots_buf := next_addr t,
      slots := grow (if slots c = [] then 8 else length (slots c) * 2) free_slot (slots c)\<rparr> else c"
  let ?n1 = "if ?full then next_addr t + 1 else next_addr t"
  let ?c2 = "?c1\<lparr>slots := (slots ?c1)[length l := ?slot], hd_count := length l + 1\<rparr>"
  let ?t' = "t\<lparr>next_addr := ?n1, regions := (regions s)(r \<mapsto> e\<lparr>hook_dispatch := (hook_dispatch e)[nat i := ?c2]\<rparr>)\<rparr>"
  have big: "length l < length (slots ?c1)" "take (length l) (slots ?c1) = l"
    using c by (auto simp: grow_def)
  have h1: "hd_count ?c1 = length l" using c(1) by simp
  have "slot_push E r i m cb t = Some (0, ?t')"
  proof (cases ?full)
    case True
    then show ?thesis using assms(1) h1 by (simp add: slot_push_def gc alloc_ok_def Let_def sc c(1))
  next
    case False
    moreover have "t\<lparr>next_addr := next_addr t\<rparr> = t" by simp
    ultimately show ?thesis by (simp add: slot_push_def gc Let_def sc c(1))
  qed
  moreover have "fills E r i name g s ?t' (l @ [?slot])"
    unfolding fills_def
  proof (intro exI [of _ e] exI [of _ ?c2] conjI)
    show "regions s r = Some e" "0 \<le> i" "nat i < length (hook_dispatch e)" by (rule e)+
    show "regions ?t' = (regions s)(r \<mapsto> e\<lparr>hook_dispatch := (hook_dispatch e)[nat i := ?c2]\<rparr>)" by simp
    from t(1) obtain a b n where "t = s\<lparr>regions := a, mods := b, next_addr := n\<rparr>" by blast
    then show "?t' = s\<lparr>regions := regions ?t', mods := mods ?t', next_addr := next_addr ?t'\<rparr>" by simp
    show "next_addr s \<le> next_addr ?t'" using t(2) by simp
    show "\<forall>m. mods ?t' m = None \<longleftrightarrow> mods s m = None" using t(3) by simp
    show "\<forall>m e e'. mods s m = Some e \<longrightarrow> mods ?t' m = Some e' \<longrightarrow> only_resolved E name i e e'" using t(4) by simp
    show "hd_count ?c2 = length (l @ [?slot])" by simp
    show "length (l @ [?slot]) \<le> length (slots ?c2)" using big by simp
    show "take (length (l @ [?slot])) (slots ?c2) = l @ [?slot]" using big by (simp add: take_Suc_conv_app_nth)
    show "region_gen ?c2 = g" using c(4) by simp
  qed
  ultimately show ?thesis by blast
qed

lemma fills_resolved:
  assumes "fills E r i name g s t l" and "mods t m = Some e" and "me_handle e = Some h"
    and "resolved (e_dlsym E h name) i e e'"
  shows "fills E r i name g s (t\<lparr>mods := (mods t)(m \<mapsto> e')\<rparr>) l"
proof -
  let ?t = "t\<lparr>mods := (mods t)(m \<mapsto> e')\<rparr>"
  from assms(1) obtain e0 c where f: "regions s r = Some e0" "0 \<le> i" "nat i < length (hook_dispatch e0)"
    "regions t = (regions s)(r \<mapsto> e0\<lparr>hook_dispatch := (hook_dispatch e0)[nat i := c]\<rparr>)"
    "t = s\<lparr>regions := regions t, mods := mods t, next_addr := next_addr t\<rparr>" "next_addr s \<le> next_addr t"
    "\<forall>m. mods t m = None \<longleftrightarrow> mods s m = None"
    "\<forall>m e e'. mods s m = Some e \<longrightarrow> mods t m = Some e' \<longrightarrow> only_resolved E name i e e'"
    "hd_count c = length l" "length l \<le> length (slots c)" "take (length l) (slots c) = l" "region_gen c = g"
    unfolding fills_def by blast
  from f(5) obtain a b n where t: "t = s\<lparr>regions := a, mods := b, next_addr := n\<rparr>" by blast
  have live: "mods ?t n = None \<longleftrightarrow> mods s n = None" for n using f(7) [rule_format, of n] assms(2) by auto
  have "only_resolved E name i en en'" if "mods s n = Some en" "mods ?t n = Some en'" for n en en'
  proof (cases "n = m")
    case True
    with that f(8) assms(2) have "only_resolved E name i en e" by blast
    with only_resolved_trans resolved_only [OF assms(4,3)] True that(2) show ?thesis by simp
  qed (use that f(8) in simp)
  with f live show ?thesis
    unfolding fills_def
    by (intro exI [of _ e0] exI [of _ c]) (simp add: t)
qed

lemma rebuild_step_ok:
  assumes E: "alloc_ok E" "dl_ok E" and f: "fills E r i name g s t l" and i: "0 \<le> i"
    and m: "mods s m = Some e0" and h: "me_handle e0 = Some h" and live: "hook_live E name i e0"
    and chain: "\<forall>a \<in> set chain. regions s a \<noteq> None"
  shows "\<exists>t'. rebuild_step E Q r i name chain m t = Some (0, t')
    \<and> fills E r i name g s t' (l @ (if listens E Q s chain name m then [slot_for E s name m] else []))"
proof -
  let ?cb = "e_dlsym E h name"
  from f have tm: "mods t m = None \<longleftrightarrow> mods s m = None"
    and rel: "\<And>e'. mods t m = Some e' \<Longrightarrow> only_resolved E name i e0 e'"
    and regs: "\<exists>e c. regions s r = Some e \<and> regions t = (regions s)(r \<mapsto> e\<lparr>hook_dispatch := c\<rparr>)"
    using m unfolding fills_def by blast+
  from tm m obtain e where e: "mods t m = Some e" by auto
  note of = only_resolved_fields [OF rel [OF e]]
  have he: "me_handle e = Some h" using of h by simp
  have live': "hook_live E name i e" using rel [OF e] live unfolding only_resolved_def by blast
  have den: "denied_in Q x p = denied_in Q x' p" if "x' = x\<lparr>hook_dispatch := c\<rparr>" for x x' c p
    using that by (simp add: denied_in_def)
  have chain_t: "chain_denies Q t chain p = chain_denies Q s chain p" "\<forall>a \<in> set chain. regions t a \<noteq> None" for p
  proof -
    from regs obtain er c where er: "regions s r = Some er" "regions t = (regions s)(r \<mapsto> er\<lparr>hook_dispatch := c\<rparr>)" by blast
    have "(\<exists>e. regions t a = Some e \<and> denied_in Q e p) = (\<exists>e. regions s a = Some e \<and> denied_in Q e p)" for a p
      using er by (cases "a = r") (simp_all add: denied_in_def)
    then have "(\<exists>p' e. a \<in> set chain \<and> p = Some p' \<and> regions t a = Some e \<and> denied_in Q e p')
        = (\<exists>p' e. a \<in> set chain \<and> p = Some p' \<and> regions s a = Some e \<and> denied_in Q e p')" for a
      by (simp only: ex_simps)
    then show "chain_denies Q t chain p = chain_denies Q s chain p"
      unfolding chain_denies_def by (simp only:)
    show "\<forall>a \<in> set chain. regions t a \<noteq> None" using chain er by simp
  qed
  have slot: "slot_for E s name m = \<lparr>slot_me = Some m, slot_cb = ?cb\<rparr>" using m h by (simp add: slot_for_def)
  have lis: "listens E Q s chain name m \<longleftrightarrow> me_ctx e \<noteq> None \<and> \<not> chain_denies Q s chain (load_path e) \<and> ?cb \<noteq> 0"
    using m h of by (simp add: listens_def)
  have dn: "(if chain \<noteq> [] \<and> load_path e \<noteq> None then denied_by Q t chain (load_path e) else Some False)
      = Some (chain_denies Q s chain (load_path e))"
    using denied_by_iff [OF chain_t(2), of Q "load_path e"] chain_t(1)
    by (auto simp: chain_denies_def)
  show ?thesis
  proof (cases "me_ctx e = None \<or> chain_denies Q s chain (load_path e)")
    case True
    then have "rebuild_step E Q r i name chain m t = Some (0, t)"
      using e dn by (auto simp: rebuild_step_def)
    with True f lis show ?thesis by auto
  next
    case False
    then obtain cx where ctx: "me_ctx e = Some cx" and nd: "\<not> chain_denies Q s chain (load_path e)" by auto
    show ?thesis
    proof (cases "hook_bit (hook_impl_bits e) i")
      case True
      from live' True he obtain v where v: "nth_opt (fn_cache e) i = Some v" "v \<noteq> 0" "?cb \<noteq> 0" "v = cached ?cb"
        by (auto simp: hook_live_def hook_ok_def)
      then have "v = ?cb" by (simp add: cached_def)
      have "rebuild_step E Q r i name chain m t = slot_push E r i m ?cb t"
        using ctx nd e dn True v(1) \<open>v = ?cb\<close>
        by (simp add: rebuild_step_def has_hook_iff XY_FN_RESOLVE_OOM_def)
      with slot_push_ok [OF E(1) f, of m ?cb] lis ctx nd v(3) slot show ?thesis by simp
    next
      case False
      have ho: "hook_ok E name i e" using live' by (simp add: hook_live_def)
      from fn_cache_resolve_ok [OF E e he i ho] obtain e1 where
        e1: "fn_cache_resolve E m i name t = Some (?cb, t\<lparr>mods := (mods t)(m \<mapsto> e1)\<rparr>)" "resolved ?cb i e e1" by blast
      let ?t1 = "t\<lparr>mods := (mods t)(m \<mapsto> e1)\<rparr>"
      have f1: "fills E r i name g s ?t1 l" by (rule fills_resolved [OF f e he e1(2)])
      have oom: "?cb \<noteq> XY_FN_RESOLVE_OOM" using E(2) by (simp add: dl_ok_def)
      show ?thesis
      proof (cases "?cb = 0")
        case True
        have "rebuild_step E Q r i name chain m t = Some (0, ?t1)"
          using ctx nd e dn False e1(1) True oom by (simp add: rebuild_step_def has_hook_iff)
        with f1 lis True show ?thesis by auto
      next
        case nz: False
        have b: "hook_bit (hook_impl_bits e1) i" "nth_opt (fn_cache e1) i = Some ?cb"
          using e1(2) nz by (simp_all add: resolved_def cached_def)
        have "rebuild_step E Q r i name chain m t = slot_push E r i m ?cb ?t1"
          using ctx nd e dn False e1(1) nz oom b by (simp add: rebuild_step_def has_hook_iff)
        with slot_push_ok [OF E(1) f1, of m ?cb] lis ctx nd nz slot show ?thesis by simp
      qed
    qed
  qed
qed

lemma rebuild_loop_ok:
  assumes E: "alloc_ok E" "dl_ok E" and i: "0 \<le> i" and chain: "\<forall>a \<in> set chain. regions s a \<noteq> None"
    and ms: "\<forall>m \<in> set ms. \<exists>e. mods s m = Some e \<and> me_handle e \<noteq> None \<and> hook_live E name i e"
    and f: "fills E r i name g s t l"
  shows "\<exists>t'. for_each (rebuild_step E Q r i name chain) ms t = Some (0, t')
    \<and> fills E r i name g s t' (l @ listener_slots E Q s chain name ms)"
  using ms f
proof (induction ms arbitrary: t l)
  case Nil
  then show ?case by (simp add: listener_slots_def)
next
  case (Cons m ms)
  from Cons.prems(1) obtain e h where e: "mods s m = Some e" "me_handle e = Some h" "hook_live E name i e" by auto
  from rebuild_step_ok [OF E Cons.prems(2) i e chain, of Q] obtain t1 where
    t1: "rebuild_step E Q r i name chain m t = Some (0, t1)"
    "fills E r i name g s t1 (l @ (if listens E Q s chain name m then [slot_for E s name m] else []))" by blast
  have "\<forall>m \<in> set ms. \<exists>e. mods s m = Some e \<and> me_handle e \<noteq> None \<and> hook_live E name i e" using Cons.prems(1) by simp
  from Cons.IH [OF this t1(2)] t1(1) show ?case by (auto simp: listener_slots_def)
qed

section \<open>Refreshing a vector\<close>

text \<open>\<open>vector_is s r i l\<close>: the vector for hook \<open>i\<close> of region \<open>r\<close> is up to date and holds \<open>l\<close>.\<close>

definition vector_is :: "'q xy_state \<Rightarrow> rptr \<Rightarrow> int \<Rightarrow> xy_dispatch_slot list \<Rightarrow> bool" where
  "vector_is s r i l \<longleftrightarrow> (\<exists>e c. regions s r = Some e \<and> get_cache r i s = Some c \<and> region_gen c = dispatch_gen e
     \<and> hd_count c = length l \<and> length l \<le> length (slots c) \<and> take (length l) (slots c) = l)"

text \<open>\<open>refreshes r s s'\<close>: between \<open>s\<close> and \<open>s'\<close> only the caches of region \<open>r\<close> and the symbol
  caches of modules have changed.\<close>

definition rcore :: "'q xy_region_entry \<Rightarrow> 'q xy_region_entry" where
  "rcore e = e\<lparr>subtree_mods := [], subtree_mods_cap := 0, subtree_mods_dirty := False, hook_dispatch := []\<rparr>"

text \<open>What happens to the region itself: the subtree cache may have been rebuilt, and of the vectors
  only the one of hook \<open>i\<close> has been written (new ones are empty).\<close>

definition recached :: "'q xy_state \<Rightarrow> rptr \<Rightarrow> int \<Rightarrow> 'q xy_region_entry \<Rightarrow> 'q xy_region_entry \<Rightarrow> bool" where
  "recached s r i e e' \<longleftrightarrow> rcore e' = rcore e
     \<and> (subtree_mods_dirty e' = subtree_mods_dirty e \<and> subtree_mods e' = subtree_mods e
        \<or> \<not> subtree_mods_dirty e' \<and> subtree_mods e' = subtree_list s r)
     \<and> (\<forall>j c. j \<noteq> i \<longrightarrow> nth_opt (hook_dispatch e') j = Some c \<longrightarrow> nth_opt (hook_dispatch e) j = Some c \<or> region_gen c = 0)"

lemma recached_refl [simp]: "recached s r i e e"
  by (simp add: recached_def)

lemma recached_core: "recached s r i e e' \<Longrightarrow> rcore e' = rcore e"
  by (simp add: recached_def)

lemma recached_trans: "recached s r i e e1 \<Longrightarrow> recached s r i e1 e2 \<Longrightarrow> recached s r i e e2"
  unfolding recached_def by metis

definition refreshes :: "'q env \<Rightarrow> string \<Rightarrow> int \<Rightarrow> rptr \<Rightarrow> 'q xy_state \<Rightarrow> 'q xy_state \<Rightarrow> bool" where
  "refreshes E name i r s s' \<longleftrightarrow> (\<exists>e e'. regions s r = Some e \<and> regions s' = (regions s)(r \<mapsto> e') \<and> recached s r i e e')
     \<and> s' = s\<lparr>regions := regions s', mods := mods s', next_addr := next_addr s'\<rparr> \<and> next_addr s \<le> next_addr s'
     \<and> (\<forall>m. mods s' m = None \<longleftrightarrow> mods s m = None)
     \<and> (\<forall>m e e'. mods s m = Some e \<longrightarrow> mods s' m = Some e' \<longrightarrow> only_resolved E name i e e')"

lemma rcore_fields:
  assumes "rcore e' = rcore e"
  shows "rlinks e' = rlinks e" "re_id e' = re_id e" "dispatch_gen e' = dispatch_gen e"
    "denied_modules e' = denied_modules e" "denied_modules_set e' = denied_modules_set e"
    "denied_hooks_set e' = denied_hooks_set e" "subtree_flags e' = subtree_flags e"
proof -
  have f: "rlinks (rcore x) = rlinks x" "re_id (rcore x) = re_id x" "dispatch_gen (rcore x) = dispatch_gen x"
    "denied_modules (rcore x) = denied_modules x" "denied_modules_set (rcore x) = denied_modules_set x"
    "denied_hooks_set (rcore x) = denied_hooks_set x" "subtree_flags (rcore x) = subtree_flags x" for x :: "'a xy_region_entry"
    by (simp_all add: rcore_def rlinks_def)
  show "rlinks e' = rlinks e" "re_id e' = re_id e" "dispatch_gen e' = dispatch_gen e"
    "denied_modules e' = denied_modules e" "denied_modules_set e' = denied_modules_set e"
    "denied_hooks_set e' = denied_hooks_set e" "subtree_flags e' = subtree_flags e"
    using f [of e] f [of e'] assms by metis+
qed

lemma refreshes_keeps:
  assumes "refreshes E name i r s s'"
  shows "keeps s s'"
proof -
  from assms obtain e e' where e: "regions s r = Some e" "regions s' = (regions s)(r \<mapsto> e')" "recached s r i e e'"
    and s': "s' = s\<lparr>regions := regions s', mods := mods s', next_addr := next_addr s'\<rparr>" "next_addr s \<le> next_addr s'"
      "\<forall>m. mods s' m = None \<longleftrightarrow> mods s m = None"
      "\<forall>m e e'. mods s m = Some e \<longrightarrow> mods s' m = Some e' \<longrightarrow> only_resolved E name i e e'"
    unfolding refreshes_def by blast
  have m: "map_option mlinks (mods s' m) = map_option mlinks (mods s m)
      \<and> map_option mident (mods s' m) = map_option mident (mods s m)" for m
  proof (cases "mods s m")
    case None
    with s'(3) show ?thesis by simp
  next
    case (Some x)
    with s'(3) obtain x' where x': "mods s' m = Some x'" by (cases "mods s' m") auto
    with s'(4) Some have "only_resolved E name i x x'" by blast
    from only_resolved_fields(4,5) [OF this] Some x' show ?thesis by simp
  qed
  from s'(1) obtain a b n where t: "s' = s\<lparr>regions := a, mods := b, next_addr := n\<rparr>" by blast
  have "map_option rlinks (regions s' p) = map_option rlinks (regions s p)"
    "map_option re_id (regions s' p) = map_option re_id (regions s p)" for p
    using e rcore_fields [OF recached_core [OF e(3)]] by auto
  with m s'(2) t show ?thesis by (simp add: keeps_def same_shape_def)
qed

lemma chain_denies_cong:
  assumes "\<And>a. map_option (\<lambda>e. (denied_modules e, denied_modules_set e)) (regions s' a)
      = map_option (\<lambda>e. (denied_modules e, denied_modules_set e)) (regions s a)"
  shows "chain_denies Q s' chain p = chain_denies Q s chain p"
proof -
  have "(\<exists>e. regions s' a = Some e \<and> denied_in Q e p) = (\<exists>e. regions s a = Some e \<and> denied_in Q e p)" for a p
    using assms [of a] by (cases "regions s' a"; cases "regions s a") (auto simp: denied_in_def)
  then have "(\<exists>p' e. a \<in> set chain \<and> p = Some p' \<and> regions s' a = Some e \<and> denied_in Q e p')
      = (\<exists>p' e. a \<in> set chain \<and> p = Some p' \<and> regions s a = Some e \<and> denied_in Q e p')" for a
    by (simp only: ex_simps)
  then show ?thesis unfolding chain_denies_def by (simp only:)
qed

lemma listener_slots_cong:
  assumes "mods s' = mods s" and "\<And>p. chain_denies Q s' chain p = chain_denies Q s chain p"
  shows "listener_slots E Q s' chain name ms = listener_slots E Q s chain name ms"
proof -
  have "slot_for E s' name = slot_for E s name" "listens E Q s' chain name = listens E Q s chain name"
    by (simp_all add: fun_eq_iff slot_for_def listens_def assms split: option.split)
  then show ?thesis by (simp add: listener_slots_def)
qed

text \<open>Rebuilding the vector of a region whose subtree cache is clean and whose array of caches
  is long enough.\<close>

lemma rebuild_clean_ok:
  assumes E: "alloc_ok E" "dl_ok E" and i: "0 \<le> i" and chain: "\<forall>a \<in> set chain. regions s a \<noteq> None"
    and e: "regions s r = Some e" and clean: "\<not> subtree_mods_dirty e" and len: "nat i < length (hook_dispatch e)"
    and stale: "region_gen (hook_dispatch e ! nat i) \<noteq> dispatch_gen e"
    and ms: "\<forall>m \<in> set (subtree_mods e). \<exists>x. mods s m = Some x \<and> me_handle x \<noteq> None \<and> hook_live E name i x"
  shows "\<exists>s'. region_rebuild_hook_dispatch E Q (Some r) i name chain s = Some (XY_OK, s')
    \<and> vector_is s' r i (listener_slots E Q s chain name (subtree_mods e)) \<and> refreshes E name i r s s'"
proof -
  let ?c = "hook_dispatch e ! nat i" and ?l = "listener_slots E Q s chain name (subtree_mods e)"
  let ?s3 = "s\<lparr>regions := (regions s)(r \<mapsto> e\<lparr>hook_dispatch := (hook_dispatch e)[nat i := ?c\<lparr>hd_count := 0\<rparr>]\<rparr>)\<rparr>"
  have gc: "get_cache r i s = Some ?c" using e i len by (simp add: get_cache_def nth_opt_def nat_less_iff)
  have sc: "set_cache r i (?c\<lparr>hd_count := 0\<rparr>) s = Some ?s3"
    using e i len by (simp add: set_cache_def upd_opt_def nat_less_iff upd_region_def)
  have "fills E r i name (region_gen ?c) s ?s3 []"
    unfolding fills_def using e i len
    by (intro exI [of _ e] exI [of _ "?c\<lparr>hd_count := 0\<rparr>"]) simp
  from rebuild_loop_ok [OF E i chain ms this] obtain s4 where
    s4: "for_each (rebuild_step E Q r i name chain) (subtree_mods e) ?s3 = Some (0, s4)"
    "fills E r i name (region_gen ?c) s s4 ?l" by auto
  from s4(2) e obtain c where f:
    "regions s4 = (regions s)(r \<mapsto> e\<lparr>hook_dispatch := (hook_dispatch e)[nat i := c]\<rparr>)"
    "s4 = s\<lparr>regions := regions s4, mods := mods s4, next_addr := next_addr s4\<rparr>" "next_addr s \<le> next_addr s4"
    "\<forall>m. mods s4 m = None \<longleftrightarrow> mods s m = None"
    "\<forall>m e e'. mods s m = Some e \<longrightarrow> mods s4 m = Some e' \<longrightarrow> only_resolved E name i e e'"
    "hd_count c = length ?l" "length ?l \<le> length (slots c)" "take (length ?l) (slots c) = ?l"
    unfolding fills_def by auto
  let ?e4 = "e\<lparr>hook_dispatch := (hook_dispatch e)[nat i := c]\<rparr>"
  let ?c5 = "c\<lparr>region_gen := dispatch_gen e\<rparr>"
  let ?e5 = "e\<lparr>hook_dispatch := (hook_dispatch e)[nat i := ?c5]\<rparr>"
  let ?s5 = "s4\<lparr>regions := (regions s)(r \<mapsto> ?e5)\<rparr>"
  have r4: "regions s4 r = Some ?e4" by (simp add: f(1))
  have gc4: "get_cache r i s4 = Some c" using i len by (simp add: get_cache_def r4 nth_opt_def nat_less_iff)
  have sc5: "set_cache r i ?c5 s4 = Some ?s5"
    using i len by (simp add: set_cache_def r4 upd_opt_def nat_less_iff upd_region_def f(1))
  have "region_rebuild_hook_dispatch E Q (Some r) i name chain s = Some (XY_OK, ?s5)"
    using i e clean len gc stale sc s4(1) gc4 r4 sc5
    by (simp add: region_rebuild_hook_dispatch_def region_ensure_hook_dispatch_cap_def nat_less_iff)
  moreover have "vector_is ?s5 r i ?l"
  proof -
    have "get_cache r i ?s5 = Some ?c5" using i len by (simp add: get_cache_def nth_opt_def nat_less_iff)
    with f(6-8) show ?thesis unfolding vector_is_def by (intro exI [of _ ?e5] exI [of _ ?c5]) simp
  qed
  moreover have "refreshes E name i r s ?s5"
    unfolding refreshes_def
  proof (intro conjI)
    have "nth_opt ((hook_dispatch e)[nat i := ?c5]) j = nth_opt (hook_dispatch e) j" if "j \<noteq> i" for j
      using i that by (auto simp: nth_opt_def nth_list_update)
    then show "\<exists>x x'. regions s r = Some x \<and> regions ?s5 = (regions s)(r \<mapsto> x') \<and> recached s r i x x'"
      using e by (intro exI [of _ e] exI [of _ ?e5]) (simp add: recached_def rcore_def)
    from f(2) obtain a b n where "s4 = s\<lparr>regions := a, mods := b, next_addr := n\<rparr>" by blast
    then show "?s5 = s\<lparr>regions := regions ?s5, mods := mods ?s5, next_addr := next_addr ?s5\<rparr>" by simp
  qed (use f in simp_all)
  ultimately show ?thesis by blast
qed

lemma refreshes_trans_region:
  assumes "regions s r = Some e" and "recached s r i e e1" and sub: "subtree_list (s\<lparr>regions := (regions s)(r \<mapsto> e1)\<rparr>) = subtree_list s"
    and "refreshes E name i r (s\<lparr>regions := (regions s)(r \<mapsto> e1)\<rparr>) s'"
  shows "refreshes E name i r s s'"
proof -
  let ?t = "s\<lparr>regions := (regions s)(r \<mapsto> e1)\<rparr>"
  from assms(4) obtain e2 where "regions s' = (regions ?t)(r \<mapsto> e2)" "recached ?t r i e1 e2"
    unfolding refreshes_def by fastforce
  then have r: "regions s' = (regions s)(r \<mapsto> e2)" "recached s r i e1 e2" using sub by (simp_all add: recached_def)
  from recached_trans [OF assms(2) r(2)] have r2: "recached s r i e e2" .
  from assms(4) have "s' = ?t\<lparr>regions := regions s', mods := mods s', next_addr := next_addr s'\<rparr>"
    unfolding refreshes_def by blast
  then obtain a b n where "s' = ?t\<lparr>regions := a, mods := b, next_addr := n\<rparr>" by blast
  then have "s' = s\<lparr>regions := regions s', mods := mods s', next_addr := next_addr s'\<rparr>" by simp
  then show ?thesis using assms(1,4) r r2 unfolding refreshes_def by auto
qed

lemma refreshes_region:
  assumes "regions s r = Some e" and "recached s r i e e1"
  shows "refreshes E name i r s (s\<lparr>regions := (regions s)(r \<mapsto> e1)\<rparr>)"
  using assms unfolding refreshes_def by auto

lemma refresh_vector_ok:
  assumes E: "alloc_ok E" "dl_ok E" and i: "0 \<le> i" and wf: "wf_tree s" and e: "regions s r = Some e"
    and chain: "\<forall>a \<in> set chain. regions s a \<noteq> None"
    and clean: "\<not> subtree_mods_dirty e \<longrightarrow> subtree_mods e = subtree_list s r"
    and gen: "dispatch_gen e \<noteq> 0"
    and fresh: "\<forall>c. get_cache r i s = Some c \<longrightarrow> region_gen c = dispatch_gen e
        \<longrightarrow> vector_is s r i (listener_slots E Q s chain name (subtree_list s r))"
    and ms: "\<forall>m \<in> set (subtree_list s r). \<exists>x. mods s m = Some x \<and> me_handle x \<noteq> None \<and> hook_live E name i x"
  shows "\<exists>s'. refresh_vector E Q r i name chain s = Some (XY_OK, s')
    \<and> vector_is s' r i (listener_slots E Q s chain name (subtree_list s r)) \<and> refreshes E name i r s s'"
proof -
  let ?l = "listener_slots E Q s chain name (subtree_list s r)"
  obtain e1 where e1: "(if subtree_mods_dirty e then region_rebuild_subtree_mods E (Some r) s else Some (0, s))
      = Some (0, s\<lparr>regions := (regions s)(r \<mapsto> e1)\<rparr>)"
    "rcore e1 = rcore e" "hook_dispatch e1 = hook_dispatch e" "subtree_mods e1 = subtree_list s r" "\<not> subtree_mods_dirty e1"
  proof (cases "subtree_mods_dirty e")
    case True
    from region_rebuild_ok [OF wf e, of E] E(1) obtain s1 l cap where
      "region_rebuild_subtree_mods E (Some r) s = Some (0, s1)"
      "s1 = s\<lparr>regions := (regions s)(r \<mapsto> e\<lparr>subtree_mods := l, subtree_mods_cap := cap, subtree_mods_dirty := False\<rparr>)\<rparr>"
      "l = subtree_list s r" by auto
    with True that show ?thesis by (simp add: rcore_def)
  next
    case False
    moreover have "s\<lparr>regions := (regions s)(r \<mapsto> e)\<rparr> = s" using e by (simp add: fun_upd_idem)
    ultimately show ?thesis using that [of e] clean by simp
  qed
  let ?s1 = "s\<lparr>regions := (regions s)(r \<mapsto> e1)\<rparr>"
  let ?e2 = "if i \<ge> int (length (hook_dispatch e1))
      then e1\<lparr>hook_dispatch := grow (nat (i + 16)) empty_cache (hook_dispatch e1)\<rparr> else e1"
  let ?s2 = "s\<lparr>regions := (regions s)(r \<mapsto> ?e2)\<rparr>"
  have cap: "(if i \<ge> int (length (hook_dispatch e1)) then region_ensure_hook_dispatch_cap E (Some r) i ?s1 else Some (XY_OK, ?s1))
      = Some (XY_OK, ?s2)"
    using i E(1) by (simp add: region_ensure_hook_dispatch_cap_def alloc_ok_def upd_region_def)
  have core2: "rcore ?e2 = rcore e" using e1(2) by (simp add: rcore_def)
  have re2: "recached s r i e ?e2"
    unfolding recached_def
  proof (intro conjI allI impI)
    show "subtree_mods_dirty ?e2 = subtree_mods_dirty e \<and> subtree_mods ?e2 = subtree_mods e
        \<or> \<not> subtree_mods_dirty ?e2 \<and> subtree_mods ?e2 = subtree_list s r" using e1(4,5) by simp
    fix j c assume "j \<noteq> i" "nth_opt (hook_dispatch ?e2) j = Some c"
    then show "nth_opt (hook_dispatch e) j = Some c \<or> region_gen c = 0"
      using e1(3) i by (cases "i \<ge> int (length (hook_dispatch e1))")
        (auto simp: nth_opt_def nth_grow empty_cache_def split: if_splits)
  qed (rule core2)
  have sub2: "subtree_list ?s2 = subtree_list s"
  proof (rule subtree_list_same_tree)
    have "same_tree s (s\<lparr>regions := (regions s)(r \<mapsto> x)\<rparr>)" if "rlinks x = rlinks e" for x
      using e that by (simp add: same_tree_def)
    then show "same_tree s ?s2" using rcore_fields(1) [OF core2] by blast
  qed
  have gen2: "dispatch_gen ?e2 = dispatch_gen e" using rcore_fields(3) [OF core2] .
  have len2: "nat i < length (hook_dispatch ?e2)" using i by auto
  have nth2: "hook_dispatch ?e2 ! nat i = (if i \<ge> int (length (hook_dispatch e)) then empty_cache else hook_dispatch e ! nat i)"
    using i e1(3) by (auto simp: nth_grow)
  have gc2: "get_cache r i ?s2 = Some (hook_dispatch ?e2 ! nat i)"
    using i len2 by (simp add: get_cache_def nth_opt_def nat_less_iff)
  have lis: "listener_slots E Q ?s2 chain name ms = ?l" if "ms = subtree_list s r" for ms
  proof -
    have "map_option (\<lambda>e. (denied_modules e, denied_modules_set e)) (regions ?s2 a)
        = map_option (\<lambda>e. (denied_modules e, denied_modules_set e)) (regions s a)" for a
      using e rcore_fields [OF core2] by simp
    then have "chain_denies Q ?s2 chain p = chain_denies Q s chain p" for p by (rule chain_denies_cong)
    with listener_slots_cong [of ?s2 s Q chain E name ms] that show ?thesis by simp
  qed
  have step: "refresh_vector E Q r i name chain s
      = (if region_gen (hook_dispatch ?e2 ! nat i) \<noteq> dispatch_gen e
         then region_rebuild_hook_dispatch E Q (Some r) i name chain ?s2 else Some (XY_OK, ?s2))"
  proof -
    have "refresh_vector E Q r i name chain s = (do {
        (y, s2) \<leftarrow> (if i \<ge> int (length (hook_dispatch e1)) then region_ensure_hook_dispatch_cap E (Some r) i ?s1 else Some (XY_OK, ?s1));
        if y \<noteq> XY_OK then Some (XY_ERR_INVALID, s2)
        else do {
          c \<leftarrow> get_cache r i s2;
          e2 \<leftarrow> regions s2 r;
          if region_gen c \<noteq> dispatch_gen e2 then region_rebuild_hook_dispatch E Q (Some r) i name chain s2
          else Some (XY_OK, s2) } })"
      by (simp only: refresh_vector_def e bind.bind_lunit e1(1) prod.case) simp
    also have "\<dots> = (if region_gen (hook_dispatch ?e2 ! nat i) \<noteq> dispatch_gen e
         then region_rebuild_hook_dispatch E Q (Some r) i name chain ?s2 else Some (XY_OK, ?s2))"
      unfolding cap using gc2 gen2 by simp
    finally show ?thesis .
  qed
  show ?thesis
  proof (cases "region_gen (hook_dispatch ?e2 ! nat i) = dispatch_gen e")
    case True
    have lt: "i < int (length (hook_dispatch e))"
      using True gen nth2 by (auto simp: empty_cache_def split: if_splits)
    then have c: "get_cache r i s = Some (hook_dispatch e ! nat i)" "hook_dispatch ?e2 = hook_dispatch e"
      using i e e1(3) by (simp_all add: get_cache_def nth_opt_def)
    from fresh c(1) True nth2 lt have v: "vector_is s r i ?l" by (auto split: if_splits)
    have "get_cache r i ?s2 = get_cache r i s" using gc2 c by simp
    with v have "vector_is ?s2 r i ?l" unfolding vector_is_def using gen2 e by auto
    with step True refreshes_region [OF e re2] show ?thesis by auto
  next
    case False
    have e2: "regions ?s2 r = Some ?e2" by simp
    have d2: "\<not> subtree_mods_dirty ?e2" "subtree_mods ?e2 = subtree_list s r" using e1(4,5) by simp_all
    have chain2: "\<forall>a \<in> set chain. regions ?s2 a \<noteq> None" using chain by simp
    have ms2: "\<forall>m \<in> set (subtree_mods ?e2). \<exists>x. mods ?s2 m = Some x \<and> me_handle x \<noteq> None \<and> hook_live E name i x"
      using ms d2(2) by simp
    from rebuild_clean_ok [OF E i chain2 e2 d2(1) len2 False [folded gen2] ms2, of Q] obtain s' where
      s': "region_rebuild_hook_dispatch E Q (Some r) i name chain ?s2 = Some (XY_OK, s')"
      "vector_is s' r i (listener_slots E Q ?s2 chain name (subtree_mods ?e2))" "refreshes E name i r ?s2 s'" by blast
    with step False lis [OF d2(2)] refreshes_trans_region [OF e re2 sub2 s'(3)] show ?thesis by auto
  qed
qed

end
