(* ===== verification/Xy_Call.thy ===== *)
theory Xy_Call
  imports Xy_Vector
begin

text \<open>
  What a call does: every listener once, in order, in its own region; nothing at all
  when an ancestor denies the hook; and the result stays readable by \<open>xy_last\<close>.
\<close>

section \<open>The calls of a vector\<close>

text \<open>The specification of the loop: the slots one after the other.\<close>

primrec run_slots :: "'q env \<Rightarrow> aptr \<Rightarrow> code \<Rightarrow> addr \<Rightarrow> u64 \<Rightarrow> xy_dispatch_slot list \<Rightarrow> nat
    \<Rightarrow> byte list option \<Rightarrow> 'q xy_state \<Rightarrow> (nat \<times> byte list option \<times> 'q xy_state) option" where
  "run_slots E reg dc arg rid [] n retp s = Some (n, retp, s)"
| "run_slots E reg dc arg rid (slot # l) n retp s = (do {
     (k, retp', s') \<leftarrow> call_slot E reg dc arg rid slot retp s;
     run_slots E reg dc arg rid l (n + k) retp' s' })"

text \<open>A calm step leaves regions, modules, adapters and the tables alone and returns to the region
  it started in; it may write variables, region state and the data fields of contexts, and so
  may call other hooks whose vectors are up to date.\<close>

definition calm :: "'q xy_state \<Rightarrow> 'q xy_state \<Rightarrow> bool" where
  "calm s s' \<longleftrightarrow> regions s' = regions s \<and> mods s' = mods s \<and> adapters s' = adapters s
     \<and> xy_current_region_id s' = xy_current_region_id s
     \<and> xy_current_region_entry s' = xy_current_region_entry s
     \<and> (\<forall>c. map_option ctx_region_id (ctxs s' c) = map_option ctx_region_id (ctxs s c))
     \<and> length (xy_last_retbuf s') = length (xy_last_retbuf s)
     \<and> keeps s s' \<and> hook_id_hd s' = hook_id_hd s \<and> xy_hook_id_counter s' = xy_hook_id_counter s"

definition buffer_ok :: "nat \<Rightarrow> byte list option \<Rightarrow> bool" where
  "buffer_ok n retp \<longleftrightarrow> (case retp of None \<Rightarrow> True | Some bs \<Rightarrow> n \<le> length bs)"

lemma buffer_ok_length: "map_option length retp' = map_option length retp \<Longrightarrow> buffer_ok n retp' = buffer_ok n retp"
  by (cases retp; cases retp') (auto simp: buffer_ok_def)

text \<open>The adapter's function, given a callback and a buffer of \<open>n\<close> bytes, returns and is calm.\<close>

definition calm_call :: "'q env \<Rightarrow> code \<Rightarrow> nat \<Rightarrow> bool" where
  "calm_call E dc n \<longleftrightarrow> (\<forall>retp cb arg s. buffer_ok n retp \<longrightarrow> cb \<noteq> 0 \<longrightarrow> (\<exists>retp' s'. e_call E dc retp cb arg s = Some (retp', s')
     \<and> map_option length retp' = map_option length retp \<and> calm s s'))"

lemma calm_refl [simp]: "calm s s"
  by (simp add: calm_def)

lemma calm_trans: "calm s t \<Longrightarrow> calm t u \<Longrightarrow> calm s u"
  unfolding calm_def by (auto elim: keeps_trans)

text \<open>A calm step taken in another region, entered and left around it, is calm.\<close>

lemma calm_round_trip:
  assumes "calm (set_current_region i p s) t" and "xy_current_region_id s = j" and "xy_current_region_entry s = q"
  shows "calm s (set_current_region j q t)"
proof -
  have "keeps s (set_current_region j q t)"
    using assms unfolding calm_def keeps_def set_current_region_def same_shape_def by simp
  with assms show ?thesis by (simp add: calm_def set_current_region_def)
qed

lemma calm_slot:
  assumes "ctxs s c = Some x" and "ctx_region_id x' = ctx_region_id x" and "xy_current_region_id s = rid"
    and "calm (if b then set_current_region i p (s\<lparr>ctxs := (ctxs s)(c \<mapsto> x')\<rparr>) else s\<lparr>ctxs := (ctxs s)(c \<mapsto> x')\<rparr>) t"
  shows "calm s (if b then set_current_region rid (xy_current_region_entry s) t else t)"
proof -
  let ?s1 = "s\<lparr>ctxs := (ctxs s)(c \<mapsto> x')\<rparr>"
  have "calm ?s1 (if b then set_current_region rid (xy_current_region_entry s) t else t)"
    using assms(3,4) calm_round_trip [of i p ?s1 t rid "xy_current_region_entry s"] by (cases b) simp_all
  moreover have "calm s ?s1" using assms(1,2) by (simp add: calm_def)
  ultimately show ?thesis using calm_trans by blast
qed

definition callable :: "'q xy_state \<Rightarrow> xy_dispatch_slot \<Rightarrow> bool" where
  "callable s slot \<longleftrightarrow> slot_cb slot \<noteq> 0 \<and> (\<exists>m e c. slot_me slot = Some m \<and> mods s m = Some e
     \<and> me_ctx e = Some c \<and> ctxs s c \<noteq> None)"

lemma callable_calm: "calm s s' \<Longrightarrow> callable s slot \<Longrightarrow> callable s' slot"
  unfolding calm_def callable_def by (metis option.map_disc_iff)

text \<open>One callable slot: the callback is entered exactly once, with the module's context
  naming the adapter and the module's region state, and with the module's region as the
  current region; on return the caller's region is current again.\<close>

lemma call_slot_ok:
  assumes E: "calm_call E dc n" and b: "buffer_ok n retp" and c: "callable s slot" and rid: "xy_current_region_id s = rid"
  shows "\<exists>retp' s' m e c x s2 s3. call_slot E reg dc arg rid slot retp s = Some (1, retp', s') \<and> calm s s'
    \<and> map_option length retp' = map_option length retp
    \<and> slot_me slot = Some m \<and> mods s m = Some e \<and> me_ctx e = Some c
    \<and> e_call E dc retp (slot_cb slot) arg s2 = Some (retp', s3)
    \<and> ctxs s2 c = Some x \<and> ctx_adapter x = Some reg \<and> ctx_region_state x = region_state e
    \<and> xy_current_region_id s2 = ctx_region_id x"
proof -
  from c obtain m e cp x where m: "slot_me slot = Some m" "mods s m = Some e" "me_ctx e = Some cp" "ctxs s cp = Some x"
    and cb: "slot_cb slot \<noteq> 0" by (auto simp: callable_def)
  let ?x = "x\<lparr>ctx_adapter := Some reg, ctx_region_state := region_state e\<rparr>"
  let ?s1 = "s\<lparr>ctxs := (ctxs s)(cp \<mapsto> ?x)\<rparr>"
  let ?s2 = "if ctx_region_id x \<noteq> rid then set_current_region (ctx_region_id x) (region_entry e) ?s1 else ?s1"
  from E b cb obtain retp' s3 where call: "e_call E dc retp (slot_cb slot) arg ?s2 = Some (retp', s3)"
    "map_option length retp' = map_option length retp" "calm ?s2 s3" unfolding calm_call_def by blast
  let ?s4 = "if ctx_region_id x \<noteq> rid then set_current_region rid (xy_current_region_entry s) s3 else s3"
  have "call_slot E reg dc arg rid slot retp s = Some (1, retp', ?s4)"
    using m cb call(1)
    by (cases "ctx_region_id x = rid") (simp_all add: call_slot_def upd_ctx_def Let_def)
  moreover have "calm s ?s4"
    by (rule calm_slot [OF m(4) _ rid call(3)]) simp
  moreover have "ctxs ?s2 cp = Some ?x" "xy_current_region_id ?s2 = ctx_region_id ?x"
    using rid by (auto simp: set_current_region_def)
  ultimately show ?thesis using m call
    by (intro exI [of _ retp'] exI [of _ ?s4] exI [of _ m] exI [of _ e] exI [of _ cp] exI [of _ ?x]
        exI [of _ ?s2] exI [of _ s3]) simp
qed

lemma run_slots_ok:
  assumes "calm_call E dc sz" and "buffer_ok sz retp" and "\<forall>slot \<in> set l. callable s slot" and "xy_current_region_id s = rid"
  shows "\<exists>retp' s'. run_slots E reg dc arg rid l n retp s = Some (n + length l, retp', s') \<and> calm s s'
    \<and> map_option length retp' = map_option length retp"
  using assms(2-4)
proof (induction l arbitrary: n retp s)
  case Nil
  then show ?case by simp
next
  case (Cons slot l)
  from call_slot_ok [OF assms(1) Cons.prems(1) _ Cons.prems(3), of slot reg arg] Cons.prems(2) obtain retp1 s1 where
    1: "call_slot E reg dc arg rid slot retp s = Some (1, retp1, s1)" "calm s s1"
    "map_option length retp1 = map_option length retp" by auto
  have "buffer_ok sz retp1" "\<forall>slot \<in> set l. callable s1 slot" "xy_current_region_id s1 = rid"
    using Cons.prems callable_calm [OF 1(2)] 1(2) buffer_ok_length [OF 1(3)] by (auto simp: calm_def)
  from Cons.IH [OF this, of "n + 1"] 1 calm_trans show ?case by fastforce
qed

text \<open>With calm callbacks the loop over the array is the loop over the list it holds.\<close>

lemma vector_is_read:
  assumes "vector_is s r i l" and "j < length l" and "regions s' = regions s" and "0 \<le> i"
    and "get_cache r i s = Some c"
  shows "read_slot r i (slots_buf c) j s' = Some (l ! j)"
proof -
  have gc: "get_cache r i s' = Some c" using assms(3,5) by (simp add: get_cache_def)
  from assms(1,5) have l: "length l \<le> length (slots c)" "take (length l) (slots c) = l"
    unfolding vector_is_def by auto
  have "slots c ! j = l ! j" using l assms(2) by (metis nth_take)
  with gc l assms(2) show ?thesis by (simp add: read_slot_def nth_opt_def)
qed

lemma call_loop_run:
  assumes E: "calm_call E dc sz" and v: "vector_is s0 r i l" and gc: "get_cache r i s0 = Some c" and i: "0 \<le> i"
    and "calm s0 s" and "xy_current_region_id s0 = rid" and "\<forall>slot \<in> set l. callable s0 slot" and "k \<le> length l"
    and "buffer_ok sz retp"
  shows "call_loop E reg dc arg rid r i (slots_buf c) [k..<length l] n retp s
    = run_slots E reg dc arg rid (drop k l) n retp s"
  using assms(5,8,9)
proof (induction "length l - k" arbitrary: k n retp s)
  case 0
  then show ?case by simp
next
  case (Suc d)
  then have k: "k < length l" by simp
  have cs: "callable s (l ! k)" using callable_calm [OF Suc.prems(1)] assms(7) k by simp
  have rid: "xy_current_region_id s = rid" using Suc.prems(1) assms(6) by (simp add: calm_def)
  from call_slot_ok [OF E Suc.prems(3) cs rid, of reg arg] obtain retp1 s1 where
    1: "call_slot E reg dc arg rid (l ! k) retp s = Some (1, retp1, s1)" "calm s s1"
    "map_option length retp1 = map_option length retp" by blast
  have "regions s = regions s0" using Suc.prems(1) by (simp add: calm_def)
  from vector_is_read [OF v k this i gc] have rd: "read_slot r i (slots_buf c) k s = Some (l ! k)" .
  have "[k..<length l] = k # [Suc k..<length l]" using k by (rule upt_conv_Cons)
  moreover have "drop k l = l ! k # drop (Suc k) l" using k by (simp add: Cons_nth_drop_Suc)
  moreover have "call_loop E reg dc arg rid r i (slots_buf c) [Suc k..<length l] (n + 1) retp1 s1
      = run_slots E reg dc arg rid (drop (Suc k) l) (n + 1) retp1 s1"
    by (rule Suc.hyps(1)) (use Suc.hyps(2) Suc.prems(3) k calm_trans [OF Suc.prems(1) 1(2)] buffer_ok_length [OF 1(3)] in auto)
  ultimately show ?case using rd 1(1) by simp
qed

lemma call_vector_run:
  assumes "calm_call E dc sz" and v: "vector_is s r i l" and "0 \<le> i" and "\<forall>slot \<in> set l. callable s slot"
    and "xy_current_region_id s = rid" and b: "buffer_ok sz retp"
  shows "call_vector E reg dc arg rid r i retp s = run_slots E reg dc arg rid l 0 retp s"
proof -
  from v obtain c where c: "get_cache r i s = Some c" "hd_count c = length l" unfolding vector_is_def by blast
  show ?thesis
  proof (cases "length l = 1")
    case True
    then obtain slot where l: "l = [slot]" by (metis One_nat_def length_0_conv length_Suc_conv)
    from vector_is_read [OF v _ refl assms(3) c(1), of 0] l
    have rd: "read_slot r i (slots_buf c) 0 s = Some slot" by simp
    from call_slot_ok [OF assms(1) b _ assms(5), of slot reg arg] assms(4) l obtain retp1 s1 where
      "call_slot E reg dc arg rid slot retp s = Some (1, retp1, s1)" by auto
    with c rd l show ?thesis by (simp add: call_vector_def)
  next
    case False
    with c call_loop_run [OF assms(1) v c(1) assms(3) calm_refl assms(5,4) _ b, of 0] show ?thesis
      by (simp add: call_vector_def)
  qed
qed

section \<open>The whole call\<close>

text \<open>The caches of a region are coherent for a hook: a clean subtree cache lists the subtree,
  a vector of the current generation holds the listeners, and what the modules of the
  subtree know about the hook is right.\<close>

definition dispatch_ok :: "'q env \<Rightarrow> 'q qmap_ops \<Rightarrow> 'q xy_state \<Rightarrow> rptr \<Rightarrow> int \<Rightarrow> string \<Rightarrow> rptr list \<Rightarrow> bool" where
  "dispatch_ok E Q s r i name chain \<longleftrightarrow> (\<exists>e. regions s r = Some e
     \<and> (\<not> subtree_mods_dirty e \<longrightarrow> subtree_mods e = subtree_list s r) \<and> dispatch_gen e \<noteq> 0
     \<and> (\<forall>c. get_cache r i s = Some c \<longrightarrow> region_gen c = dispatch_gen e
          \<longrightarrow> vector_is s r i (listener_slots E Q s chain name (subtree_list s r)))
     \<and> (\<forall>m \<in> set (subtree_list s r). \<exists>x. mods s m = Some x \<and> me_handle x \<noteq> None \<and> hook_live E name i x))"

definition called :: "nat \<Rightarrow> retref \<Rightarrow> aptr \<Rightarrow> 'q xy_state \<Rightarrow> 'q xy_state" where
  "called n ref reg s = s\<lparr>xy_last_ran := n, xy_last_retp := ref, cur_adapter := Some reg\<rparr>"

lemma called_frame:
  "regions (called n ref reg s) = regions s" "mods (called n ref reg s) = mods s"
  "ctxs (called n ref reg s) = ctxs s" "adapters (called n ref reg s) = adapters s"
  "get_cache r i (called n ref reg s) = get_cache r i s"
  "vector_is (called n ref reg s) r i l = vector_is s r i l"
  "subtree_list (called n ref reg s) = subtree_list s"
  "listener_slots E Q (called n ref reg s) chain name ms = listener_slots E Q s chain name ms"
  "keeps s (called n ref reg s)"
proof -
  show f: "regions (called n ref reg s) = regions s" "mods (called n ref reg s) = mods s"
    "ctxs (called n ref reg s) = ctxs s" "adapters (called n ref reg s) = adapters s"
    by (simp_all add: called_def)
  show g: "get_cache r i (called n ref reg s) = get_cache r i s" for r i by (simp add: get_cache_def f)
  show "vector_is (called n ref reg s) r i l = vector_is s r i l" by (simp add: vector_is_def f g)
  show "subtree_list (called n ref reg s) = subtree_list s"
    by (rule subtree_list_same_tree) (simp add: same_tree_def called_def)
  show "listener_slots E Q (called n ref reg s) chain name ms = listener_slots E Q s chain name ms"
    by (rule listener_slots_cong) (simp_all add: f chain_denies_def)
  show "keeps s (called n ref reg s)" by (simp add: called_def keeps_def same_shapeI)
qed

lemma dispatch_ok_called: "dispatch_ok E Q (called n ref reg s) r i name chain = dispatch_ok E Q s r i name chain"
  by (simp add: dispatch_ok_def called_frame(1-8))

lemma call_chain_live:
  assumes "wf_parents s" and "call_chain (Some r) s = Some chain"
  shows "\<forall>a \<in> set chain. regions s a \<noteq> None"
proof -
  from assms(2) obtain e where e: "regions s r = Some e"
    "(if subtree_flags e AND XY_SUBTREE_HAS_DENY \<noteq> 0 then region_ancestor_chain s (Some r) 65 else Some []) = Some chain"
    by (auto simp: call_chain_def bind_eq_Some_conv)
  from up_chain_total [OF assms(1), of r] e(1) obtain ps where ps: "linked (region_parent s) (Some r) ps" by auto
  have "length ps \<le> 65" using region_forest.chain_short [OF assms(1) ps] by simp
  from region_ancestor_chain_linked [OF ps this] e(2) have "chain = [] \<or> chain = rev ps"
    by (auto split: if_splits)
  with linked_live [OF ps] show ?thesis by auto
qed

lemma listener_slots_callable:
  assumes "wf_modtab Q s" and "slot \<in> set (listener_slots E Q s chain name ms)"
  shows "callable s slot"
proof -
  from assms(2) obtain m where m: "listens E Q s chain name m" "slot = slot_for E s name m"
    by (auto simp: listener_slots_def)
  from m(1) obtain e c h where e: "mods s m = Some e" "me_ctx e = Some c" "me_handle e = Some h" "e_dlsym E h name \<noteq> 0"
    by (auto simp: listens_def split: option.splits)
  from assms(1) e(1,2) have "ctxs s c \<noteq> None" unfolding wf_modtab_def by blast
  then show ?thesis using m(2) e by (simp add: callable_def slot_for_def)
qed

lemma callable_refreshes:
  assumes "refreshes E name i r s s'" and "callable s slot"
  shows "callable s' slot"
proof -
  from assms(2) obtain m e c where m: "slot_cb slot \<noteq> 0" "slot_me slot = Some m" "mods s m = Some e"
    "me_ctx e = Some c" "ctxs s c \<noteq> None" by (auto simp: callable_def)
  from assms(1) m(3) obtain e' where e': "mods s' m = Some e'" "only_resolved E name i e e'"
    unfolding refreshes_def by (metis not_None_eq)
  from assms(1) have "s' = s\<lparr>regions := regions s', mods := mods s', next_addr := next_addr s'\<rparr>"
    unfolding refreshes_def by blast
  then obtain a b n where "s' = s\<lparr>regions := a, mods := b, next_addr := n\<rparr>" by blast
  with m e' only_resolved_fields(1) [OF e'(2)] show ?thesis by (auto simp: callable_def)
qed

lemma refreshes_vars:
  assumes "refreshes E name i r s s'"
  shows "xy_current_region_id s' = xy_current_region_id s" "xy_current_region_entry s' = xy_current_region_entry s"
    "adapters s' = adapters s" "xy_last_retbuf s' = xy_last_retbuf s" "ctxs s' = ctxs s"
proof -
  from assms have "s' = s\<lparr>regions := regions s', mods := mods s', next_addr := next_addr s'\<rparr>"
    unfolding refreshes_def by blast
  then obtain a b n where "s' = s\<lparr>regions := a, mods := b, next_addr := n\<rparr>" by blast
  then show "xy_current_region_id s' = xy_current_region_id s" "xy_current_region_entry s' = xy_current_region_entry s"
    "adapters s' = adapters s" "xy_last_retbuf s' = xy_last_retbuf s" "ctxs s' = ctxs s" by simp_all
qed

definition zeroed :: "nat \<Rightarrow> byte list \<Rightarrow> byte list" where
  "zeroed n bs = replicate n 0 @ drop n bs"

lemma call_finish_ok:
  assumes "adapters s reg = Some ad" and "buffer_ok (ret_size ad) retp" and "ret_size ad \<le> length (xy_last_retbuf s)"
  shows "\<exists>retp' s'. call_finish reg n retp s = Some (if n = 0 then XY_ERR_NOTFOUND else XY_OK, retp', s')
    \<and> (n \<noteq> 0 \<longrightarrow> retp' = retp) \<and> (n = 0 \<longrightarrow> retp' = map_option (zeroed (ret_size ad)) retp) \<and> xy_last_ran s' = n
    \<and> (8 \<le> length (xy_last_retbuf s) \<longrightarrow> length (xy_last_retbuf s') = length (xy_last_retbuf s))
    \<and> xy_err_val s' = (if n = 0 then XY_ERR_NOTFOUND else XY_OK)
    \<and> s' = s\<lparr>xy_last_ran := n, xy_last_retp := xy_last_retp s', xy_last_retbuf := xy_last_retbuf s', xy_err_val := xy_err_val s'\<rparr>"
  using assms
  by (auto simp: call_finish_def Let_def xy_set_last_ret_def zero_bytes_def zeroed_def buffer_ok_def xy_set_err_def split: option.split)

lemma xy_call_ok:
  assumes E: "alloc_ok E" "dl_ok E" "calm_call E (ad_call ad) (ret_size ad)" and lib: "wf_lib Q s" and cur: "xy_current_region_entry s = Some r"
    and ad: "adapters s reg = Some ad" "0 \<le> ad_hook_id ad" "ad_call ad \<noteq> 0" "ret_size ad \<le> XY_MAX_RET_SIZE"
    and chain: "call_chain (Some r) s = Some chain" "hook_denied_by Q s chain (ad_name ad) = Some False"
    and ok: "dispatch_ok E Q s r (ad_hook_id ad) (ad_name ad) chain"
    and buf: "buffer_ok (ret_size ad) retp" "length (xy_last_retbuf s) = XY_MAX_RET_SIZE"
    and l: "l = listener_slots E Q s chain (ad_name ad) (subtree_list s r)"
  shows "\<exists>ref s1 retp1 s2 retp2 s'.
      refreshes E (ad_name ad) (ad_hook_id ad) r (called 0 ref reg s) s1 \<and> vector_is s1 r (ad_hook_id ad) l
    \<and> run_slots E reg (ad_call ad) arg (xy_current_region_id s) l 0 retp s1 = Some (length l, retp1, s2) \<and> calm s1 s2
    \<and> (\<forall>slot \<in> set l. callable s1 slot)
    \<and> xy_call E Q retp (Some reg) arg s = Some (if l = [] then XY_ERR_NOTFOUND else XY_OK, retp2, s')
    \<and> (l \<noteq> [] \<longrightarrow> retp2 = retp1) \<and> (l = [] \<longrightarrow> retp2 = map_option (zeroed (ret_size ad)) retp) \<and> xy_last_ran s' = length l
    \<and> xy_err_val s' = (if l = [] then XY_ERR_NOTFOUND else XY_OK) \<and> length (xy_last_retbuf s') = XY_MAX_RET_SIZE
    \<and> s' = s2\<lparr>xy_last_ran := length l, xy_last_retp := xy_last_retp s', xy_last_retbuf := xy_last_retbuf s', xy_err_val := xy_err_val s'\<rparr>"
proof -
  note w = wf_libD [OF lib]
  let ?i = "ad_hook_id ad" and ?name = "ad_name ad" and ?rid = "xy_current_region_id s"
  let ?ref = "if retp = None then RNull else RCaller"
  let ?t = "called 0 ?ref reg s"
  have res: "call_resolve Q reg s = Some (Inr (?i, ad_call ad), s)"
    using ad by (simp add: call_resolve_def)
  have wft: "wf_tree ?t" using same_shape_wf' w(2) called_frame(9) unfolding keeps_def by blast
  have chain_live: "\<forall>a \<in> set chain. regions ?t a \<noteq> None"
    using call_chain_live [OF wf_tree_parts(1) [OF w(2)] chain(1)] by (simp only: called_frame(1))
  have "dispatch_ok E Q ?t r ?i ?name chain" using ok by (simp only: dispatch_ok_called)
  then obtain e where e: "regions ?t r = Some e"
    "\<not> subtree_mods_dirty e \<longrightarrow> subtree_mods e = subtree_list ?t r" "dispatch_gen e \<noteq> 0"
    "\<forall>c. get_cache r ?i ?t = Some c \<longrightarrow> region_gen c = dispatch_gen e
          \<longrightarrow> vector_is ?t r ?i (listener_slots E Q ?t chain ?name (subtree_list ?t r))"
    "\<forall>m \<in> set (subtree_list ?t r). \<exists>x. mods ?t m = Some x \<and> me_handle x \<noteq> None \<and> hook_live E ?name ?i x"
    unfolding dispatch_ok_def by blast
  have lt: "listener_slots E Q ?t chain ?name (subtree_list ?t r) = l" by (simp only: called_frame(7,8) l)
  from refresh_vector_ok [OF E(1,2) ad(2) wft e(1) chain_live e(2-5)] obtain s1 where
    s1: "refresh_vector E Q r ?i ?name chain ?t = Some (XY_OK, s1)" "vector_is s1 r ?i l" "refreshes E ?name ?i r ?t s1"
    unfolding lt by blast
  note rv = refreshes_vars [OF s1(3)]
  have rid: "xy_current_region_id s1 = ?rid" "adapters s1 = adapters s" "xy_last_retbuf s1 = xy_last_retbuf s"
    using rv by (simp_all add: called_def)
  have call: "\<forall>slot \<in> set l. callable s1 slot"
  proof
    fix slot assume "slot \<in> set l"
    then have "callable s slot" using listener_slots_callable [OF w(10)] l by blast
    then have "callable ?t slot" by (simp add: callable_def called_frame(2,3))
    with callable_refreshes [OF s1(3)] show "callable s1 slot" .
  qed
  from run_slots_ok [OF E(3) buf(1) call rid(1), of reg arg 0] obtain retp1 s2 where
    s2: "run_slots E reg (ad_call ad) arg ?rid l 0 retp s1 = Some (length l, retp1, s2)" "calm s1 s2"
    "map_option length retp1 = map_option length retp" by auto
  have vec: "call_vector E reg (ad_call ad) arg ?rid r ?i retp s1 = Some (length l, retp1, s2)"
    using call_vector_run [OF E(3) s1(2) ad(2) call rid(1) buf(1)] s2(1) by simp
  have fin: "adapters s2 reg = Some ad" "buffer_ok (ret_size ad) retp1" "ret_size ad \<le> length (xy_last_retbuf s2)"
    using s2(2,3) rid ad buf buffer_ok_length [OF s2(3)] by (simp_all add: calm_def)
  from call_finish_ok [OF fin, of "length l"] obtain retp2 s' where
    f: "call_finish reg (length l) retp1 s2 = Some (if l = [] then XY_ERR_NOTFOUND else XY_OK, retp2, s')"
    "l \<noteq> [] \<longrightarrow> retp2 = retp1" "l = [] \<longrightarrow> retp2 = map_option (zeroed (ret_size ad)) retp1" "xy_last_ran s' = length l"
    "8 \<le> length (xy_last_retbuf s2) \<longrightarrow> length (xy_last_retbuf s') = length (xy_last_retbuf s2)"
    "xy_err_val s' = (if l = [] then XY_ERR_NOTFOUND else XY_OK)"
    "s' = s2\<lparr>xy_last_ran := length l, xy_last_retp := xy_last_retp s', xy_last_retbuf := xy_last_retbuf s', xy_err_val := xy_err_val s'\<rparr>"
    unfolding length_0_conv by blast
  have "xy_call E Q retp (Some reg) arg s = call_body E Q retp reg arg s"
    using w(1) by (simp add: xy_call_def xy_runtime_ensure_def)
  also have "\<dots> = call_finish reg (length l) retp1 s2"
    using s1(1) vec
    by (simp add: call_body_def res ad(1) cur chain called_def)
  finally have "xy_call E Q retp (Some reg) arg s
    = Some (if l = [] then XY_ERR_NOTFOUND else XY_OK, retp2, s')" using f(1) by simp
  moreover have "l = [] \<longrightarrow> retp2 = map_option (zeroed (ret_size ad)) retp" using f(3) s2(1) by auto
  moreover have "length (xy_last_retbuf s2) = XY_MAX_RET_SIZE" using s2(2) rid(3) buf(2) by (simp add: calm_def)
  then have "length (xy_last_retbuf s') = XY_MAX_RET_SIZE" using f(5) by (simp add: XY_MAX_RET_SIZE_def)
  ultimately show ?thesis using s1(2,3) s2 call f(2,4,6,7)
    by (intro exI [of _ ?ref] exI [of _ s1] exI [of _ retp1] exI [of _ s2] exI [of _ retp2] exI [of _ s']) simp
qed

end
