(* ===== verification/Xy_Calls.thy ===== *)
theory Xy_Calls
  imports Xy_Call Xy_Warm Xy_Order
begin

text \<open>
  The theorems about a call: what the vector holds, what runs, in which region and in
  which order, what happens when an ancestor denies the hook, and what \<open>xy_last\<close>
  gives back.
\<close>

section \<open>The vector\<close>

text \<open>(C6) Bringing a dispatch vector up to date succeeds, and the vector then holds exactly the
  listeners of the hook: one slot for every module of the caller's subtree that has a
  context, exports the hook and is not denied by the caller's ancestors, in depth-first
  order, with the address the dynamic loader gives for the symbol.  Only this region's caches and
  the modules' symbol caches change.\<close>

theorem vector_holds_listeners:
  assumes "alloc_ok E" "dl_ok E" and "0 \<le> i" and "wf_tree s" and "\<forall>a \<in> set chain. regions s a \<noteq> None"
    and "dispatch_ok E Q s r i name chain"
  shows "\<exists>s' e c. refresh_vector E Q r i name chain s = Some (XY_OK, s')
    \<and> regions s' r = Some e \<and> get_cache r i s' = Some c \<and> region_gen c = dispatch_gen e
    \<and> take (hd_count c) (slots c) = listener_slots E Q s chain name (subtree_list s r)
    \<and> refreshes E name i r s s'"
proof -
  from assms(6) obtain e where e: "regions s r = Some e"
    "\<not> subtree_mods_dirty e \<longrightarrow> subtree_mods e = subtree_list s r" "dispatch_gen e \<noteq> 0"
    "\<forall>c. get_cache r i s = Some c \<longrightarrow> region_gen c = dispatch_gen e
          \<longrightarrow> vector_is s r i (listener_slots E Q s chain name (subtree_list s r))"
    "\<forall>m \<in> set (subtree_list s r). \<exists>x. mods s m = Some x \<and> me_handle x \<noteq> None \<and> hook_live E name i x"
    unfolding dispatch_ok_def by blast
  from refresh_vector_ok [OF assms(1-4) e(1) assms(5) e(2-5)] show ?thesis
    unfolding vector_is_def by metis
qed

text \<open>The demo state is ready for a call of the hook \<open>h\<close> from every region.\<close>

lemma demo_h_dispatch_ok: "regions demo_h r \<noteq> None \<Longrightarrow> dispatch_ok demo_env alist_qmap demo_h r 0 ''h'' []"
proof -
  assume "regions demo_h r \<noteq> None"
  then obtain e where e: "regions demo_h r = Some e" by auto
  have clean: "subtree_mods_dirty e" "dispatch_gen e \<noteq> 0" "hook_dispatch e = []"
    using demo_regions_cases [of r e] e by (auto simp: demo_region_def)
  have "\<exists>x. mods demo_h m = Some x \<and> me_handle x \<noteq> None \<and> hook_live demo_env ''h'' 0 x"
    if "m \<in> set (subtree_list demo_h r)" for m
  proof -
    have wf: "wf_tree demo_h" using demo_h_wf_lib wf_libD(2) by blast
    from subtree_list_set(1) [OF wf, of r] that e obtain q where "m \<in> set (region_mods demo_h q)" by auto
    from region_mods_owner [OF wf_tree_parts(3) [OF wf] this] have "mods demo_h m \<noteq> None"
      by (auto simp: mod_region_def)
    then obtain x where x: "mods demo_h m = Some x" by auto
    moreover from x have "\<exists>r rid ctx nxt prv. x = demo_mod r rid ctx nxt prv"
      using demo_mods_cases [of m x] by (auto, blast+)
    ultimately show ?thesis using demo_hook_ok [of "''h''" 0] by (auto simp: hook_live_def demo_mod_def hook_bit_def)
  qed
  then show ?thesis using e clean by (auto simp: dispatch_ok_def get_cache_def nth_opt_def)
qed

lemma walk_numeral: "walk (numeral k) nx p = (case p of None \<Rightarrow> Some []
     | Some a \<Rightarrow> (case nx a of None \<Rightarrow> None
         | Some q \<Rightarrow> map_option ((#) a) (walk (pred_numeral k) nx q)))"
  by (simp add: numeral_eq_Suc)

lemma demo_subtree: "subtree_list demo 1 = [5, 6, 7, 8]"
proof -
  have kids: "region_children demo 1 = [3, 2]" "region_children demo 2 = [4]" "region_children demo 3 = []"
    "region_children demo 4 = []"
    by (simp_all add: region_children_def region_sibling_def demo_region_def walk_numeral
        del: One_nat_def walk.simps(2))
  note ms = demo_region_mods
  note l = subtree_list_order [OF demo_wf]
  have "subtree_list demo 4 = [8]" "subtree_list demo 3 = []" using l [of 4] l [of 3] kids ms by simp_all
  moreover from this have "subtree_list demo 2 = [7, 8]" using l [of 2] kids ms by simp
  ultimately show ?thesis using l [of 1] kids ms by (simp del: One_nat_def)
qed

lemma demo_calm_call: "calm_call demo_env dc n"
  by (simp add: calm_call_def option.map_comp comp_def)

lemma demo_listeners: "listener_slots demo_env alist_qmap demo_h [] ''h'' [5, 6, 7, 8]
  = [\<lparr>slot_me = Some 5, slot_cb = 100\<rparr>, \<lparr>slot_me = Some 6, slot_cb = 100\<rparr>,
     \<lparr>slot_me = Some 7, slot_cb = 100\<rparr>, \<lparr>slot_me = Some 8, slot_cb = 100\<rparr>]"
  by (simp add: listener_slots_def listens_def slot_for_def demo_mod_def chain_denies_def)

lemma demo_h_subtree: "subtree_list demo_h 1 = [5, 6, 7, 8]"
  using subtree_list_same_tree [of demo demo_h] demo_subtree by (simp add: same_tree_def)

theorem vector_holds_listeners_witness:
  "\<exists>s' c. refresh_vector demo_env alist_qmap 1 0 ''h'' [] demo_h = Some (XY_OK, s')
    \<and> get_cache 1 0 s' = Some c \<and> map slot_me (take (hd_count c) (slots c)) = [Some 5, Some 6, Some 7, Some 8]"
proof -
  have E: "alloc_ok demo_env" by (simp add: alloc_ok_def)
  have wf: "wf_tree demo_h" using demo_h_wf_lib wf_libD(2) by blast
  have ok: "dispatch_ok demo_env alist_qmap demo_h 1 0 ''h'' []" by (rule demo_h_dispatch_ok) simp
  have c: "\<forall>a \<in> set []. regions demo_h a \<noteq> None" by simp
  show ?thesis
    using vector_holds_listeners [OF E demo_dl_ok order.refl wf c ok]
    unfolding demo_h_subtree demo_listeners by fastforce
qed

section \<open>Denied calls\<close>

lemma call_chain_set:
  assumes "wf_parents s" and "regions s r = Some e"
  shows "\<exists>chain. call_chain (Some r) s = Some chain
    \<and> set chain = (if subtree_flags e AND XY_SUBTREE_HAS_DENY \<noteq> 0 then {a. ancestor s a r} else {})"
proof -
  from up_chain_total [OF assms(1), of r] assms(2) obtain ps where ps: "linked (region_parent s) (Some r) ps" by auto
  have "length ps \<le> 65" using region_forest.chain_short [OF assms(1) ps] by simp
  from region_ancestor_chain_linked [OF ps this] ancestor_iff [OF assms(1) ps] assms(2) show ?thesis
    by (auto simp: call_chain_def)
qed

lemma hook_denied_by_iff:
  assumes "\<forall>a \<in> set chain. regions s a \<noteq> None"
  shows "hook_denied_by Q s chain name
    = Some (\<exists>a \<in> set chain. \<exists>e. regions s a = Some e \<and> set_has Q (denied_hooks_set e) (KStr name))"
  using assms by (induction chain) auto

lemma denied_call_result:
  assumes "wf_lib Q s" and "xy_current_region_entry s = Some r" and "call_chain (Some r) s = Some chain"
    and "hook_denied_by Q s chain (ad_name ad) = Some True"
    and "adapters s reg = Some ad" and "0 \<le> ad_hook_id ad" "ad_call ad \<noteq> 0" "ret_size ad \<le> XY_MAX_RET_SIZE"
    and "buffer_ok (ret_size ad) retp"
  shows "xy_call E Q retp (Some reg) arg s = Some (XY_ERR_EPERM, map_option (zeroed (ret_size ad)) retp,
      s\<lparr>xy_last_ran := 0, xy_last_retp := RNull, cur_adapter := Some reg, xy_err_val := XY_ERR_EPERM\<rparr>)"
  using wf_libD(1) [OF assms(1)] assms(2-)
  by (cases retp) (simp_all add: xy_call_def xy_runtime_ensure_def call_body_def call_resolve_def call_fail_def
      xy_zero_ret_def zero_bytes_def zeroed_def buffer_ok_def)

text \<open>(C7) A call from a region that carries the deny flag, one of whose ancestors (itself included)
  denies the hook, returns \<open>XY_ERR_EPERM\<close> and runs nothing: the result buffer is
  zeroed, the variables of the last call and errno are set, and nothing else changes,
  whatever the environment.\<close>

theorem denied_call_runs_nothing:
  assumes "wf_lib Q s" and "xy_current_region_entry s = Some r" and "regions s r = Some e"
    and "subtree_flags e AND XY_SUBTREE_HAS_DENY \<noteq> 0"
    and "ancestor s a r" and "regions s a = Some x" and "set_has Q (denied_hooks_set x) (KStr (ad_name ad))"
    and "adapters s reg = Some ad" and "0 \<le> ad_hook_id ad" "ad_call ad \<noteq> 0" "ret_size ad \<le> XY_MAX_RET_SIZE"
    and "ret_size ad \<le> length bs"
  shows "xy_call E Q (Some bs) (Some reg) arg s
    = Some (XY_ERR_EPERM, Some (replicate (ret_size ad) 0 @ drop (ret_size ad) bs),
        s\<lparr>xy_last_ran := 0, xy_last_retp := RNull, cur_adapter := Some reg, xy_err_val := XY_ERR_EPERM\<rparr>)"
proof -
  note w = wf_libD [OF assms(1)]
  from call_chain_set [OF wf_tree_parts(1) [OF w(2)] assms(3)] assms(4) obtain chain where
    c: "call_chain (Some r) s = Some chain" "set chain = {a. ancestor s a r}" by auto
  have live: "\<forall>a \<in> set chain. regions s a \<noteq> None"
    by (rule call_chain_live [OF wf_tree_parts(1) [OF w(2)] c(1)])
  have "hook_denied_by Q s chain (ad_name ad) = Some True"
    using hook_denied_by_iff [OF live] c(2) assms(5-7) by auto
  from denied_call_result [OF assms(1,2) c(1) this assms(8-11), of "Some bs" E arg] assms(12)
  show ?thesis by (simp add: buffer_ok_def zeroed_def)
qed

text \<open>The demo state after region 1 has denied the hook \<open>h\<close>.\<close>

definition demo_denied :: "demo_q xy_region_entry \<Rightarrow> demo_q xy_region_entry" where
  "demo_denied e = (add_hook_deny alist_qmap ''h'' e)\<lparr>subtree_flags := XY_SUBTREE_HAS_DENY\<rparr>"

definition demo_d :: "demo_q xy_state" where
  "demo_d = demo_h\<lparr>regions := (regions demo_h)(1 \<mapsto> demo_denied (demo_region 0 0 0 None (Some 3) None (Some 5) (Some 6)))\<rparr>"

lemma demo_d_wf_lib: "wf_lib alist_qmap demo_d"
proof -
  have "keeps demo_h demo_d" unfolding demo_d_def
    by (rule keeps_region_upd) (simp_all add: demo_denied_def add_hook_deny_def rlinks_def del: One_nat_def)
  then show ?thesis using keeps_wf_lib demo_h_wf_lib by blast
qed

theorem denied_call_runs_nothing_witness:
  "xy_call demo_env alist_qmap (Some [9, 9]) (Some 21) 0 demo_d
    = Some (XY_ERR_EPERM, Some [0, 9],
        demo_d\<lparr>xy_last_ran := 0, xy_last_retp := RNull, cur_adapter := Some 21, xy_err_val := XY_ERR_EPERM\<rparr>)"
proof -
  let ?e = "demo_denied (demo_region 0 0 0 None (Some 3) None (Some 5) (Some 6))"
  have e: "regions demo_d 1 = Some ?e" by (simp add: demo_d_def)
  have cur: "xy_current_region_entry demo_d = Some 1" by (simp add: demo_d_def demo_h_def demo_def)
  have fl: "subtree_flags ?e AND XY_SUBTREE_HAS_DENY \<noteq> 0"
    by (simp add: demo_denied_def XY_SUBTREE_HAS_DENY_def)
  have wf: "wf_parents demo_d" using wf_tree_parts(1) wf_libD(2) demo_d_wf_lib by blast
  have anc: "ancestor demo_d 1 1" using ancestor_refl [OF wf, of 1] e by simp
  let ?ad = "\<lparr>ad_name = ''h'', arg_size = 0, ret_size = 1, ad_call = 50, ad_hook_id = 0\<rparr>"
  have deny: "set_has alist_qmap (denied_hooks_set ?e) (KStr (ad_name ?ad))"
    by (simp add: demo_denied_def add_hook_deny_def set_has_put alist_qmap_laws)
  have ad: "adapters demo_d 21 = Some ?ad" by (simp add: demo_d_def)
  show ?thesis
    using denied_call_runs_nothing [OF demo_d_wf_lib cur e fl anc e deny ad, of "[9, 9]" demo_env 0]
    by (simp add: XY_MAX_RET_SIZE_def)
qed

text \<open>(C10) After a region has denied a hook, a call from that region is denied; a call from a region
  below it that does not carry the deny flag already is not: its ancestors are not asked.\<close>

theorem denial_misses_descendants:
  assumes "qmap_laws Q" and "alloc_ok E" and "wf_lib Q s" and "xy_current_region_entry s = Some reg"
    and "ancestor s reg c" "c \<noteq> reg" and "regions s c = Some ce" and "subtree_flags ce AND XY_SUBTREE_HAS_DENY = 0"
  shows "\<exists>s' own below. xy_deny E Q what XY_DENY_HOOK s = Some (XY_OK, s') \<and> ancestor s' reg c
    \<and> call_chain (Some reg) s' = Some own \<and> hook_denied_by Q s' own what = Some True
    \<and> call_chain (Some c) s' = Some below \<and> hook_denied_by Q s' below what = Some False"
proof -
  note wp = wf_tree_parts(1) [OF wf_libD(2) [OF assms(3)]]
  from xy_deny_hook_ok [OF assms(2-4), of what] obtain s' where s': "xy_deny E Q what XY_DENY_HOOK s = Some (XY_OK, s')"
    "wf_lib Q s'" "keeps s s'" "\<forall>p. regions s' p = map_option (deny_effect (add_hook_deny Q what) reg s p) (regions s p)"
    by blast
  note wp' = wf_tree_parts(1) [OF wf_libD(2) [OF s'(2)]]
  have anc: "ancestor s' a b = ancestor s a b" for a b
    by (rule same_shape_ancestor [OF _ wf_libD(2) [OF assms(3)]]) (use s'(3) in \<open>simp add: keeps_def\<close>)
  from wf_libD(5) [OF assms(3)] assms(4) obtain e where e: "regions s reg = Some e" by (auto simp: wf_current_def)
  have self: "ancestor s reg reg" using ancestor_refl [OF wp] e by simp
  let ?e = "flag_and_bump (add_hook_deny Q what e)"
  have e': "regions s' reg = Some ?e" using s'(4) e self by (simp add: deny_effect_def)
  have "subtree_flags ?e AND XY_SUBTREE_HAS_DENY = XY_SUBTREE_HAS_DENY"
    unfolding deny_sel by (rule bit_eqI) (auto simp: bit_simps)
  then have fl: "subtree_flags ?e AND XY_SUBTREE_HAS_DENY \<noteq> 0" by (simp add: XY_SUBTREE_HAS_DENY_def)
  from call_chain_set [OF wp' e'] fl obtain own where own: "call_chain (Some reg) s' = Some own" "set own = {a. ancestor s' a reg}" by auto
  have "set_has Q (denied_hooks_set ?e) (KStr what)" by (simp add: deny_sel set_has_put [OF assms(1)])
  moreover have "reg \<in> set own" using own(2) self anc by simp
  ultimately have "\<exists>a \<in> set own. \<exists>e. regions s' a = Some e \<and> set_has Q (denied_hooks_set e) (KStr what)" using e' by blast
  then have "hook_denied_by Q s' own what = Some True"
    unfolding hook_denied_by_iff [OF call_chain_live [OF wp' own(1)]] by simp
  moreover have "regions s' c = Some ce"
    using s'(4) assms(5-7) ancestor_antisym [OF wp assms(5)] by (auto simp: deny_effect_def)
  then have "call_chain (Some c) s' = Some []" using assms(8) by (simp add: call_chain_def)
  ultimately show ?thesis using s'(1) own(1) anc assms(5) by (intro exI [of _ s'] exI [of _ own] exI [of _ "[]"]) simp
qed

theorem denial_misses_descendants_witness:
  "\<exists>s' own below. xy_deny demo_env alist_qmap ''h'' XY_DENY_HOOK demo = Some (XY_OK, s')
    \<and> call_chain (Some 1) s' = Some own \<and> hook_denied_by alist_qmap s' own ''h'' = Some True
    \<and> call_chain (Some 4) s' = Some below \<and> hook_denied_by alist_qmap s' below ''h'' = Some False"
proof -
  have E: "alloc_ok demo_env" by (simp add: alloc_ok_def)
  have c: "xy_current_region_entry demo = Some 1" by (simp add: demo_def)
  note wp = wf_tree_parts(1) [OF wf_libD(2) [OF demo_wf_lib]]
  have "region_parent demo 4 = Some (Some 2)" "region_parent demo 2 = Some (Some 1)"
    by (simp_all add: region_parent_def demo_region_def)
  then have a: "ancestor demo 1 4" using ancestor_step [OF wp] ancestor_refl [OF wp, of 1] by simp
  have f: "subtree_flags (demo_region 0x5000000000000000 2 4 (Some 2) None None (Some 8) (Some 8)) AND XY_SUBTREE_HAS_DENY = 0"
    by (simp add: demo_region_def)
  have "(4 :: rptr) \<noteq> 1" by simp
  from denial_misses_descendants [OF alist_qmap_laws E demo_wf_lib c a this demo_sel(5) f, of "''h''"] show ?thesis by blast
qed

section \<open>Calls that run\<close>

text \<open>The call of \<open>h\<close> in the demo state.\<close>

definition demo_ad :: xy_adapter where
  "demo_ad = \<lparr>ad_name = ''h'', arg_size = 0, ret_size = 1, ad_call = 50, ad_hook_id = 0\<rparr>"

definition demo_slots :: "xy_dispatch_slot list" where
  "demo_slots = [\<lparr>slot_me = Some 5, slot_cb = 100\<rparr>, \<lparr>slot_me = Some 6, slot_cb = 100\<rparr>,
     \<lparr>slot_me = Some 7, slot_cb = 100\<rparr>, \<lparr>slot_me = Some 8, slot_cb = 100\<rparr>]"

lemma demo_call_facts:
  "alloc_ok demo_env" "xy_current_region_entry demo_h = Some 1" "adapters demo_h 21 = Some demo_ad"
  "0 \<le> ad_hook_id demo_ad" "ad_call demo_ad \<noteq> 0" "ret_size demo_ad \<le> XY_MAX_RET_SIZE"
  "call_chain (Some 1) demo_h = Some []" "hook_denied_by alist_qmap demo_h [] (ad_name demo_ad) = Some False"
  "dispatch_ok demo_env alist_qmap demo_h 1 (ad_hook_id demo_ad) (ad_name demo_ad) []"
  "buffer_ok (ret_size demo_ad) (Some [0])" "length (xy_last_retbuf demo_h) = XY_MAX_RET_SIZE"
  "demo_slots = listener_slots demo_env alist_qmap demo_h [] (ad_name demo_ad) (subtree_list demo_h 1)"
  using demo_h_dispatch_ok [of 1] demo_listeners demo_h_subtree
  by (simp_all add: alloc_ok_def demo_h_def demo_def demo_ad_def XY_MAX_RET_SIZE_def call_chain_def demo_region_def
      buffer_ok_def xy_boot_def demo_slots_def)

lemma demo_slots_length: "demo_slots \<noteq> []" "length demo_slots = 4"
  by (simp_all add: demo_slots_def)

text \<open>(C5) A call of a hook that nobody denies runs every listener of the caller's subtree exactly
  once, in depth-first order, through the adapter's function, and returns \<open>XY_OK\<close> (\<open>XY_ERR_NOTFOUND\<close>
  when there is none): the buffer is what the last callback left, \<open>xy_last_ran\<close> is
  the number of callbacks, and the caller's region is current again.\<close>

theorem call_runs_listeners_in_order:
  assumes "alloc_ok E" "dl_ok E" "calm_call E (ad_call ad) (ret_size ad)" and "wf_lib Q s" and "xy_current_region_entry s = Some r"
    and "adapters s reg = Some ad" "0 \<le> ad_hook_id ad" "ad_call ad \<noteq> 0" "ret_size ad \<le> XY_MAX_RET_SIZE"
    and "call_chain (Some r) s = Some chain" "hook_denied_by Q s chain (ad_name ad) = Some False"
    and "dispatch_ok E Q s r (ad_hook_id ad) (ad_name ad) chain"
    and "buffer_ok (ret_size ad) retp" "length (xy_last_retbuf s) = XY_MAX_RET_SIZE"
    and "l = listener_slots E Q s chain (ad_name ad) (subtree_list s r)"
  shows "\<exists>s1 retp1 s2 retp2 s'.
      run_slots E reg (ad_call ad) arg (xy_current_region_id s) l 0 retp s1 = Some (length l, retp1, s2)
    \<and> xy_call E Q retp (Some reg) arg s = Some (if l = [] then XY_ERR_NOTFOUND else XY_OK, retp2, s')
    \<and> (l \<noteq> [] \<longrightarrow> retp2 = retp1) \<and> xy_last_ran s' = length l
    \<and> xy_errno s' = (if l = [] then XY_ERR_NOTFOUND else XY_OK)
    \<and> xy_current_region_id s' = xy_current_region_id s \<and> xy_current_region_entry s' = Some r"
proof -
  from xy_call_ok [OF assms, of arg] obtain ref s1 retp1 s2 retp2 s' where
    f: "refreshes E (ad_name ad) (ad_hook_id ad) r (called 0 ref reg s) s1"
    "run_slots E reg (ad_call ad) arg (xy_current_region_id s) l 0 retp s1 = Some (length l, retp1, s2)" "calm s1 s2"
    "xy_call E Q retp (Some reg) arg s = Some (if l = [] then XY_ERR_NOTFOUND else XY_OK, retp2, s')"
    "l \<noteq> [] \<longrightarrow> retp2 = retp1" "xy_last_ran s' = length l"
    "xy_err_val s' = (if l = [] then XY_ERR_NOTFOUND else XY_OK)"
    "s' = s2\<lparr>xy_last_ran := length l, xy_last_retp := xy_last_retp s', xy_last_retbuf := xy_last_retbuf s', xy_err_val := xy_err_val s'\<rparr>"
    by (elim exE conjE) (rule that, assumption+)
  obtain a b c d where s': "s' = s2\<lparr>xy_last_ran := a, xy_last_retp := b, xy_last_retbuf := c, xy_err_val := d\<rparr>"
    by (rule that) (rule f(8))
  have "xy_current_region_id s' = xy_current_region_id s" "xy_current_region_entry s' = Some r"
    using f(3) refreshes_vars(1,2) [OF f(1)] assms(5) by (simp_all add: s' calm_def called_def)
  with f(2,4-7) show ?thesis unfolding xy_errno_def by blast
qed

theorem call_runs_listeners_in_order_witness:
  "\<exists>retp s'. xy_call demo_env alist_qmap (Some [0]) (Some 21) 0 demo_h = Some (XY_OK, retp, s')
    \<and> xy_last_ran s' = 4 \<and> xy_current_region_entry s' = Some 1"
proof -
  note d = demo_call_facts
  from call_runs_listeners_in_order [OF d(1) demo_dl_ok demo_calm_call demo_h_wf_lib d(2-12), of 0] demo_slots_length
  obtain retp s' where
    "xy_call demo_env alist_qmap (Some [0]) (Some 21) 0 demo_h = Some (if demo_slots = [] then XY_ERR_NOTFOUND else XY_OK, retp, s')"
    "xy_last_ran s' = length demo_slots" "xy_current_region_entry s' = Some 1"
    by (elim exE conjE) (rule that, assumption+)
  with demo_slots_length show ?thesis by auto
qed

text \<open>A listener runs with its own region as the current one: when the adapter's function is
  entered, the module's context names the adapter and carries the module's region state, and the
  current region is the one recorded in that context; on return the caller's region id
  and region entry are current again.\<close>

lemma listener_runs_in_own_region:
  assumes "calm_call E dc n" and "buffer_ok n retp" and "mods s m = Some e" and "me_ctx e = Some c" and "ctxs s c = Some x"
    and "cb \<noteq> 0" and "xy_current_region_id s = rid"
  shows "\<exists>s2 s3 retp' s'. e_call E dc retp cb arg s2 = Some (retp', s3)
    \<and> xy_current_region_id s2 = ctx_region_id x
    \<and> xy_current_region_entry s2 = (if ctx_region_id x = rid then xy_current_region_entry s else region_entry e)
    \<and> ctxs s2 c = Some (x\<lparr>ctx_adapter := Some reg, ctx_region_state := region_state e\<rparr>)
    \<and> call_slot E reg dc arg rid \<lparr>slot_me = Some m, slot_cb = cb\<rparr> retp s = Some (1, retp', s')
    \<and> xy_current_region_id s' = rid \<and> xy_current_region_entry s' = xy_current_region_entry s"
proof -
  let ?s1 = "s\<lparr>ctxs := (ctxs s)(c \<mapsto> x\<lparr>ctx_adapter := Some reg, ctx_region_state := region_state e\<rparr>)\<rparr>"
  let ?s2 = "if ctx_region_id x \<noteq> rid then set_current_region (ctx_region_id x) (region_entry e) ?s1 else ?s1"
  from assms(1,2,6) obtain retp' s3 where call: "e_call E dc retp cb arg ?s2 = Some (retp', s3)" "calm ?s2 s3"
    unfolding calm_call_def by blast
  let ?s4 = "if ctx_region_id x \<noteq> rid then set_current_region rid (xy_current_region_entry s) s3 else s3"
  have step: "call_slot E reg dc arg rid \<lparr>slot_me = Some m, slot_cb = cb\<rparr> retp s = Some (1, retp', ?s4)"
    using assms(3-6) call(1) by (cases "ctx_region_id x = rid") (simp_all add: call_slot_def upd_ctx_Some Let_def)
  show ?thesis
    by (intro exI [of _ ?s2] exI [of _ s3] exI [of _ retp'] exI [of _ ?s4])
      (use call step assms(7) in \<open>auto simp: set_current_region_def calm_def\<close>)
qed

section \<open>The last result\<close>

lemma call_finish_last:
  assumes "call_finish reg n (Some bs) s = Some (XY_OK, Some bs', s')"
  shows "bs' = bs \<and> n \<noteq> 0 \<and> xy_last_ran s' = n \<and> adapters s' = adapters s \<and> cur_adapter s' = cur_adapter s
    \<and> xy_inited s' = xy_inited s
    \<and> (\<exists>ad. adapters s reg = Some ad \<and> (if ret_size ad = 0 then xy_last_retp s' = RNull
        else xy_last_retp s' = RBuf \<and> ret_size ad \<le> length (xy_last_retbuf s')
          \<and> ret_size ad \<le> length bs \<and> take (ret_size ad) (xy_last_retbuf s') = take (ret_size ad) bs))"
  using assms
  by (auto simp: call_finish_def Let_def bind_eq_Some_conv xy_set_last_ret_def xy_set_err_def xy_codes
      split: if_splits)

text \<open>Only a finished call with at least one callback returns \<open>XY_OK\<close>.\<close>

lemma adapter_by_name_err: "adapter_by_name Q reg s = Some (Inl err, s') \<Longrightarrow> err = XY_ERR_NOTFOUND"
proof -
  assume a: "adapter_by_name Q reg s = Some (Inl err, s')"
  then obtain ad h where d: "adapters s reg = Some ad" "hook_id_hd s = Some h"
    by (cases "adapters s reg"; cases "hook_id_hd s") (auto simp: adapter_by_name_def)
  show ?thesis
  proof (cases "qmap_get Q h (KStr (ad_name ad))")
    case None
    with a d show ?thesis by (simp add: adapter_by_name_def)
  next
    case (Some v)
    with a d show ?thesis
      by (cases v) (auto simp: adapter_by_name_def bind_eq_Some_conv split: option.split_asm if_split_asm)
  qed
qed

lemma call_resolve_err:
  assumes "call_resolve Q reg s = Some (Inl err, s')"
  shows "err \<noteq> XY_OK"
proof -
  from assms obtain ad where ad: "adapters s reg = Some ad" by (cases "adapters s reg") (auto simp: call_resolve_def)
  let ?r = "if ad_hook_id ad < 0 then adapter_by_name Q reg s else Some (Inr (ad_hook_id ad, ad_call ad), s)"
  from assms ad obtain res t where t: "?r = Some (res, t)" by (cases ?r) (auto simp: call_resolve_def)
  show ?thesis
  proof (cases res)
    case (Inl e)
    with assms ad t adapter_by_name_err [of Q reg s e t] show ?thesis
      by (auto simp: call_resolve_def xy_codes split: if_splits)
  next
    case (Inr p)
    with assms ad t show ?thesis
      by (cases p) (auto simp: call_resolve_def bind_eq_Some_conv Let_def xy_codes split: if_split_asm)
  qed
qed

lemma call_fail_code: "call_fail reg err retp s = Some (c, retp', s') \<Longrightarrow> c = err"
  by (auto simp: call_fail_def bind_eq_Some_conv)

lemma call_body_ok_finish:
  assumes "call_body E Q retp reg arg s = Some (XY_OK, retp', s')"
  shows "\<exists>n rp t. call_finish reg n rp t = Some (XY_OK, retp', s')"
proof -
  have c: "XY_ERR_EPERM \<noteq> XY_OK" "XY_ERR_INVALID \<noteq> XY_OK" by (simp_all add: xy_codes)
  from assms obtain res s1 where res: "call_resolve Q reg s = Some (res, s1)"
    by (cases "call_resolve Q reg s") (auto simp: call_body_def)
  show ?thesis
  proof (cases res)
    case (Inl err)
    with assms res have "call_fail reg err retp s1 = Some (XY_OK, retp', s')" by (simp add: call_body_def)
    with call_fail_code call_resolve_err res Inl show ?thesis by blast
  next
    case (Inr p)
    obtain i dc where p: "p = (i, dc)" by (cases p)
    define caller where "caller = (case xy_current_region_entry s1 of Some r \<Rightarrow> Some r
                        | None \<Rightarrow> region_lookup Q (xy_current_region_id s) s1)"
    define s2 where "s2 = s1\<lparr>xy_last_ran := 0, xy_last_retp := (if retp = None then RNull else RCaller), cur_adapter := Some reg\<rparr>"
    define rest where "rest (ad :: xy_adapter) ch d = (if d then call_fail reg XY_ERR_EPERM retp s1
        else (case caller of None \<Rightarrow> call_finish reg 0 retp s2
             | Some r \<Rightarrow> do {
                 (x, s3) \<leftarrow> refresh_vector E Q r i (ad_name ad) ch s2;
                 if x \<noteq> XY_OK then call_fail reg XY_ERR_INVALID retp s3
                 else do {
                   (cnt, retp', s4) \<leftarrow> call_vector E reg dc arg (xy_current_region_id s) r i retp s3;
                   call_finish reg cnt retp' s4 } }))" for ad ch d
    have "call_body E Q retp reg arg s = (do {
        ad \<leftarrow> adapters s1 reg;
        ch \<leftarrow> call_chain caller s1;
        d \<leftarrow> hook_denied_by Q s1 ch (ad_name ad);
        rest ad ch d })"
      unfolding call_body_def rest_def caller_def s2_def by (simp add: res Inr p Let_def cong: if_cong option.case_cong)
    with assms obtain ad ch d where b: "rest ad ch d = Some (XY_OK, retp', s')"
      by (auto simp: bind_eq_Some_conv)
    show ?thesis
      using b c unfolding rest_def
      by (cases d; cases caller) (auto simp: bind_eq_Some_conv split: if_splits dest!: call_fail_code)
  qed
qed

text \<open>(C30) After a call that returned \<open>XY_OK\<close> into a buffer, \<open>xy_last\<close> gives the same bytes back, as
  many as the adapter's result has, and changes nothing but errno -- provided the last adapter
  is still this one (a nested call of another hook leaves its adapter behind).\<close>

theorem last_returns_result:
  assumes "xy_call E Q (Some bs0) (Some reg) arg s = Some (XY_OK, Some bs, s')"
    and "xy_inited s'" and "cur_adapter s' = Some reg" and "adapters s' reg = Some ad"
    and "ret_size ad \<le> length buf"
  shows "xy_last E' Q (Some buf) s'
    = Some (XY_OK, Some (take (ret_size ad) bs @ drop (ret_size ad) buf), xy_set_err XY_OK s')"
proof -
  from assms(1) obtain t where "call_body E Q (Some bs0) reg arg t = Some (XY_OK, Some bs, s')"
    by (auto simp: xy_call_def bind_eq_Some_conv split: if_splits)
  from call_body_ok_finish [OF this] obtain n rp u where f: "call_finish reg n rp u = Some (XY_OK, Some bs, s')" by blast
  have "\<exists>bs1. rp = Some bs1"
    using f by (cases rp) (auto simp: call_finish_def Let_def bind_eq_Some_conv xy_codes split: if_splits)
  then obtain bs1 where "rp = Some bs1" ..
  from call_finish_last [OF f [unfolded this]] assms(4) have "bs1 = bs" "xy_last_ran s' \<noteq> 0"
    "ret_size ad \<noteq> 0 \<longrightarrow> xy_last_retp s' = RBuf \<and> ret_size ad \<le> length (xy_last_retbuf s')
       \<and> take (ret_size ad) (xy_last_retbuf s') = take (ret_size ad) bs"
    "ret_size ad = 0 \<longrightarrow> xy_last_retp s' = RNull"
    by (auto split: if_splits)
  then show ?thesis
    using assms(2-5) by (cases "ret_size ad = 0") (simp_all add: xy_last_def xy_runtime_ensure_def)
qed

lemma demo_call_slot:
  assumes "call_slot demo_env reg dc arg rid slot (Some bs) s = Some (k, r, s')"
  shows "xy_inited s' = xy_inited s \<and> cur_adapter s' = cur_adapter s \<and> r \<noteq> None"
proof (cases "slot_me slot")
  case None
  with assms show ?thesis by (auto simp: call_slot_def)
next
  case (Some m)
  with assms obtain e where e: "mods s m = Some e" by (cases "mods s m") (auto simp: call_slot_def)
  show ?thesis
  proof (cases "me_ctx e = None \<or> slot_cb slot = 0")
    case True
    with assms Some e show ?thesis by (auto simp: call_slot_def split: option.split_asm)
  next
    case False
    then obtain c where c: "me_ctx e = Some c" "slot_cb slot \<noteq> 0" by auto
    with assms Some e obtain x where "ctxs s c = Some x"
      by (cases "ctxs s c") (auto simp: call_slot_def upd_ctx_def)
    with assms Some e c show ?thesis
      by (auto simp: call_slot_def upd_ctx_def set_current_region_def Let_def split: if_split_asm)
  qed
qed

lemma demo_run_slots:
  "run_slots demo_env reg dc arg rid l n (Some bs) s = Some (m, r, s') \<Longrightarrow>
    xy_inited s' = xy_inited s \<and> cur_adapter s' = cur_adapter s \<and> r \<noteq> None"
proof (induction l arbitrary: n bs s)
  case (Cons slot l)
  from Cons.prems obtain k r1 s1 where a: "call_slot demo_env reg dc arg rid slot (Some bs) s = Some (k, r1, s1)"
    "run_slots demo_env reg dc arg rid l (n + k) r1 s1 = Some (m, r, s')"
    by (auto simp: bind_eq_Some_conv)
  from demo_call_slot [OF a(1)]
  have "xy_inited s1 = xy_inited s \<and> cur_adapter s1 = cur_adapter s \<and> r1 \<noteq> None" .
  with a(2) Cons.IH show ?case by fastforce
qed auto

theorem last_returns_result_witness:
  "\<exists>bs s'. xy_call demo_env alist_qmap (Some [0]) (Some 21) 0 demo_h = Some (XY_OK, Some bs, s')
    \<and> xy_last demo_env alist_qmap (Some [9, 9]) s' = Some (XY_OK, Some (take 1 bs @ [9]), xy_set_err XY_OK s')"
proof -
  note d = demo_call_facts
  from xy_call_ok [OF d(1) demo_dl_ok demo_calm_call demo_h_wf_lib d(2-12), of 0] obtain ref s1 retp1 s2 retp2 s' where
    f: "refreshes demo_env (ad_name demo_ad) (ad_hook_id demo_ad) 1 (called 0 ref 21 demo_h) s1"
    "run_slots demo_env 21 (ad_call demo_ad) 0 (xy_current_region_id demo_h) demo_slots 0 (Some [0]) s1
      = Some (length demo_slots, retp1, s2)" "calm s1 s2"
    "xy_call demo_env alist_qmap (Some [0]) (Some 21) 0 demo_h
      = Some (if demo_slots = [] then XY_ERR_NOTFOUND else XY_OK, retp2, s')"
    "demo_slots \<noteq> [] \<longrightarrow> retp2 = retp1" "xy_last_ran s' = length demo_slots"
    "xy_err_val s' = (if demo_slots = [] then XY_ERR_NOTFOUND else XY_OK)"
    "s' = s2\<lparr>xy_last_ran := length demo_slots, xy_last_retp := xy_last_retp s', xy_last_retbuf := xy_last_retbuf s',
       xy_err_val := xy_err_val s'\<rparr>"
    by (elim exE conjE) (rule that, assumption+)
  obtain a b c e where s': "s' = s2\<lparr>xy_last_ran := a, xy_last_retp := b, xy_last_retbuf := c, xy_err_val := e\<rparr>"
    by (rule that) (rule f(8))
  from f(1) have "s1 = (called 0 ref 21 demo_h)\<lparr>regions := regions s1, mods := mods s1, next_addr := next_addr s1\<rparr>"
    unfolding refreshes_def by (elim conjE)
  then obtain x y z where s1: "s1 = (called 0 ref 21 demo_h)\<lparr>regions := x, mods := y, next_addr := z\<rparr>" by (rule that)
  have "xy_inited s1" "cur_adapter s1 = Some 21" "adapters s1 21 = Some demo_ad"
    using d(3) by (simp_all add: s1 called_def demo_h_def demo_def)
  with demo_run_slots [OF f(2)] f(3) have st: "xy_inited s'" "cur_adapter s' = Some 21" "adapters s' 21 = Some demo_ad"
    "retp1 \<noteq> None"
    by (simp_all add: s' calm_def)
  then obtain bs where "retp1 = Some bs" by blast
  with f(4,5) demo_slots_length have c: "xy_call demo_env alist_qmap (Some [0]) (Some 21) 0 demo_h = Some (XY_OK, Some bs, s')"
    by simp
  from last_returns_result [OF c st(1-3), of "[9, 9]" demo_env] c show ?thesis by (auto simp: demo_ad_def)
qed

end
