(* ===== verification/Xy_Adapter.thy ===== *)
theory Xy_Adapter
  imports Xy_Calls
begin

text \<open>
  The code that the macros of include/ttypt/xy.h generate: the adapter of a hook
  (\<open>XY_IMPL\<close>), which copies a listener's result into the caller's buffer, its
  registration by a constructor, and the function that a call site declares
  (\<open>XY_DECL\<close>).  With well-behaved listeners the loop over the vector is a plain loop over
  the listeners, and the declared function returns the result of the last one.
\<close>

section \<open>The generated code\<close>

text \<open>A listener, called with the fields of the argument struct at an address; its result as
  bytes.  \<open>None\<close>: it does not return.\<close>

type_synonym 'q listener = "code \<Rightarrow> addr \<Rightarrow> 'q xy_state \<Rightarrow> (byte list \<times> 'q xy_state) option"

text \<open>\<open>fname##_adapter_call\<close>.  Writing past the end of the buffer has no defined result.\<close>

definition store_result :: "nat \<Rightarrow> byte list \<Rightarrow> byte list \<Rightarrow> byte list option" where
  "store_result sz result bs = (if sz \<le> length bs then Some (result @ drop sz bs) else None)"

definition adapter_call :: "nat \<Rightarrow> 'q listener \<Rightarrow> byte list option \<Rightarrow> code \<Rightarrow> addr \<Rightarrow> 'q xy_state
    \<Rightarrow> (byte list option \<times> 'q xy_state) option" where
  "adapter_call sz run res fn arg s = (if fn = 0
     then (case res of
         None \<Rightarrow> Some (None, s)
       | Some bs \<Rightarrow> do { bs' \<leftarrow> zero_bytes sz bs; Some (Some bs', s) })
     else do {
       (result, s') \<leftarrow> run fn arg s;
       (case res of
          None \<Rightarrow> Some (None, s')
        | Some bs \<Rightarrow> do { bs' \<leftarrow> store_result sz result bs; Some (Some bs', s') }) })"

text \<open>The static initialisers: the adapter of a listener has the function above, the one at a
  call site has none.  Both start without a hook id.\<close>

definition impl_adapter :: "string \<Rightarrow> nat \<Rightarrow> nat \<Rightarrow> code \<Rightarrow> xy_adapter" where
  "impl_adapter fname asz rsz call = \<lparr>ad_name = fname, arg_size = asz, ret_size = rsz, ad_call = call, ad_hook_id = - 1\<rparr>"

definition decl_adapter :: "string \<Rightarrow> nat \<Rightarrow> nat \<Rightarrow> xy_adapter" where
  "decl_adapter fname asz rsz = \<lparr>ad_name = fname, arg_size = asz, ret_size = rsz, ad_call = 0, ad_hook_id = - 1\<rparr>"

text \<open>\<open>fname##_adapter_reg\<close>: the id that \<open>xy_areg\<close> returns is dropped.\<close>

definition adapter_reg :: "'q env \<Rightarrow> 'q qmap_ops \<Rightarrow> string \<Rightarrow> aptr \<Rightarrow> 'q xy_state \<Rightarrow> 'q xy_state option" where
  "adapter_reg E Q fname a s = do { (r, s') \<leftarrow> xy_areg E Q fname a s; Some s' }"

text \<open>The declared function: \<open>ret\<close> is what the local variable holds before the call; the return
  code of \<open>xy_call\<close> is dropped.\<close>

definition decl_call :: "'q env \<Rightarrow> 'q qmap_ops \<Rightarrow> byte list \<Rightarrow> aptr \<Rightarrow> addr \<Rightarrow> 'q xy_state
    \<Rightarrow> (byte list \<times> 'q xy_state) option" where
  "decl_call E Q ret adapter arg s = (do {
     (err, retp, s') \<leftarrow> xy_call E Q (Some ret) (Some adapter) arg s;
     ret' \<leftarrow> retp;
     Some (ret', s') })"

section \<open>Listeners without buffers\<close>

text \<open>The specification: a listener is a function of its arguments that runs in its module's
  region, and a call runs a list of them and collects their results.\<close>

definition enter_listener :: "aptr \<Rightarrow> u64 \<Rightarrow> xy_dispatch_slot \<Rightarrow> 'q xy_state \<Rightarrow> 'q xy_state option" where
  "enter_listener reg rid slot s = (do {
     m \<leftarrow> slot_me slot;
     e \<leftarrow> mods s m;
     c \<leftarrow> me_ctx e;
     x \<leftarrow> ctxs s c;
     let s1 = s\<lparr>ctxs := (ctxs s)(c \<mapsto> x\<lparr>ctx_adapter := Some reg, ctx_region_state := region_state e\<rparr>)\<rparr>;
     Some (if ctx_region_id x \<noteq> rid then set_current_region (ctx_region_id x) (region_entry e) s1 else s1) })"

definition one_listener :: "'q listener \<Rightarrow> aptr \<Rightarrow> addr \<Rightarrow> u64 \<Rightarrow> xy_dispatch_slot \<Rightarrow> 'q xy_state
    \<Rightarrow> (byte list \<times> 'q xy_state) option" where
  "one_listener run reg arg rid slot s = (do {
     s2 \<leftarrow> enter_listener reg rid slot s;
     (result, s3) \<leftarrow> run (slot_cb slot) arg s2;
     Some (result, set_current_region rid (xy_current_region_entry s) s3) })"

primrec listeners_run :: "'q listener \<Rightarrow> aptr \<Rightarrow> addr \<Rightarrow> u64 \<Rightarrow> xy_dispatch_slot list \<Rightarrow> 'q xy_state
    \<Rightarrow> (byte list list \<times> 'q xy_state) option" where
  "listeners_run run reg arg rid [] s = Some ([], s)"
| "listeners_run run reg arg rid (slot # l) s = (do {
     (result, s1) \<leftarrow> one_listener run reg arg rid slot s;
     (results, s2) \<leftarrow> listeners_run run reg arg rid l s1;
     Some (result # results, s2) })"

text \<open>Well-behaved listeners return, with a result of the declared size, and are calm.\<close>

definition listener_ok :: "'q listener \<Rightarrow> nat \<Rightarrow> bool" where
  "listener_ok run sz \<longleftrightarrow> (\<forall>fn arg s. fn \<noteq> 0 \<longrightarrow> (\<exists>result s'. run fn arg s = Some (result, s')
     \<and> length result = sz \<and> calm s s'))"

lemma adapter_call_calm:
  assumes "e_call E dc = adapter_call sz run" and "listener_ok run sz"
  shows "calm_call E dc sz"
  unfolding calm_call_def
proof (intro allI impI)
  fix retp :: "byte list option" and cb :: code and arg :: addr and s
  assume b: "buffer_ok sz retp" and cb: "cb \<noteq> 0"
  from assms(2) cb obtain result s' where "run cb arg s = Some (result, s')" "length result = sz" "calm s s'"
    unfolding listener_ok_def by blast
  with b cb show "\<exists>retp' s'. e_call E dc retp cb arg s = Some (retp', s')
      \<and> map_option length retp' = map_option length retp \<and> calm s s'"
    by (cases retp) (auto simp: assms(1) adapter_call_def store_result_def buffer_ok_def)
qed

text \<open>A slot called through the adapter is the listener called, its result in the buffer.\<close>

lemma call_slot_listener:
  assumes "e_call E dc = adapter_call sz run" and "listener_ok run sz" and "callable s slot"
    and "xy_current_region_id s = rid" and "length bs = sz"
  shows "\<exists>result s'. one_listener run reg arg rid slot s = Some (result, s') \<and> length result = sz \<and> calm s s'
    \<and> call_slot E reg dc arg rid slot (Some bs) s = Some (1, Some result, s')"
proof -
  from assms(3) obtain m e c x where m: "slot_me slot = Some m" "mods s m = Some e" "me_ctx e = Some c" "ctxs s c = Some x"
    and cb: "slot_cb slot \<noteq> 0" by (auto simp: callable_def)
  let ?s1 = "s\<lparr>ctxs := (ctxs s)(c \<mapsto> x\<lparr>ctx_adapter := Some reg, ctx_region_state := region_state e\<rparr>)\<rparr>"
  let ?s2 = "if ctx_region_id x \<noteq> rid then set_current_region (ctx_region_id x) (region_entry e) ?s1 else ?s1"
  have en: "enter_listener reg rid slot s = Some ?s2" by (simp add: enter_listener_def m Let_def)
  from assms(2) cb obtain result s3 where r: "run (slot_cb slot) arg ?s2 = Some (result, s3)" "length result = sz" "calm ?s2 s3"
    unfolding listener_ok_def by blast
  let ?s4 = "set_current_region rid (xy_current_region_entry s) s3"
  have call: "e_call E dc (Some bs) (slot_cb slot) arg ?s2 = Some (Some result, s3)"
    using cb r(1,2) by (simp add: assms(1,5) adapter_call_def store_result_def)
  have same: "?s4 = s3" if "ctx_region_id x = rid"
    using r(3) that assms(4) by (simp add: calm_def set_current_region_def)
  have "call_slot E reg dc arg rid slot (Some bs) s = Some (1, Some result, ?s4)"
    using m cb call same by (cases "ctx_region_id x = rid") (simp_all add: call_slot_def upd_ctx_def Let_def)
  moreover have "calm s ?s4"
    using calm_slot [OF m(4) _ assms(4) r(3)] same by (cases "ctx_region_id x = rid") simp_all
  ultimately show ?thesis using en r(1,2) by (simp add: one_listener_def)
qed

lemma run_slots_listeners:
  assumes "e_call E dc = adapter_call sz run" and "listener_ok run sz" and "\<forall>slot \<in> set l. callable s slot"
    and "xy_current_region_id s = rid" and "length bs = sz"
  shows "\<exists>results s'. listeners_run run reg arg rid l s = Some (results, s') \<and> length results = length l
    \<and> run_slots E reg dc arg rid l n (Some bs) s = Some (n + length l, Some (last (bs # results)), s')"
  using assms(3-5)
proof (induction l arbitrary: n bs s)
  case (Cons slot l)
  from call_slot_listener [OF assms(1,2) _ Cons.prems(2,3), of slot reg arg] Cons.prems(1) obtain r1 s1 where
    1: "one_listener run reg arg rid slot s = Some (r1, s1)" "length r1 = sz" "calm s s1"
    "call_slot E reg dc arg rid slot (Some bs) s = Some (1, Some r1, s1)" by auto
  have "\<forall>slot \<in> set l. callable s1 slot" "xy_current_region_id s1 = rid"
    using callable_calm [OF 1(3)] Cons.prems 1(3) by (auto simp: calm_def)
  from Cons.IH [OF this 1(2), of "n + 1"] 1 show ?case by fastforce
qed simp

section \<open>Resolving a declared adapter\<close>

text \<open>What \<open>xy_call\<close> makes of an adapter without id and function: it takes both, and the sizes,
  from the adapter registered under the name.\<close>

definition bound_to :: "int \<Rightarrow> xy_adapter \<Rightarrow> xy_adapter \<Rightarrow> xy_adapter" where
  "bound_to i cad d = d\<lparr>ad_hook_id := i, ad_call := ad_call cad, ret_size := ret_size cad, arg_size := arg_size cad\<rparr>"

definition bind_adapter :: "aptr \<Rightarrow> int \<Rightarrow> xy_adapter \<Rightarrow> xy_adapter \<Rightarrow> 'q xy_state \<Rightarrow> 'q xy_state" where
  "bind_adapter reg i cad d s = s\<lparr>adapters := (adapters s)(reg \<mapsto> bound_to i cad d)\<rparr>"

text \<open>\<open>registered\<close>: the hook has an id, and an adapter with a function stands under it.\<close>

definition registered :: "'q qmap_ops \<Rightarrow> 'q xy_state \<Rightarrow> string \<Rightarrow> int \<Rightarrow> aptr \<Rightarrow> xy_adapter \<Rightarrow> bool" where
  "registered Q s name i ca cad \<longleftrightarrow> hook_num Q s name = Some i \<and> 0 \<le> i \<and> canonical i s = Some ca
     \<and> adapters s ca = Some cad \<and> ad_call cad \<noteq> 0 \<and> ret_size cad \<le> XY_MAX_RET_SIZE"

lemma hook_num_get:
  "hook_num Q s name = Some i \<longleftrightarrow> (\<exists>h. hook_id_hd s = Some h \<and> qmap_get Q h (KStr name) = Some (VInt i))"
  by (auto simp: hook_num_def split: option.splits qval.splits)

lemma call_resolve_decl:
  assumes "registered Q s (ad_name d) i ca cad" and "adapters s reg = Some d" and "ad_hook_id d < 0" "ad_call d = 0" and "reg \<noteq> ca"
  shows "call_resolve Q reg s = Some (Inr (i, ad_call cad), bind_adapter reg i cad d s)"
    and "call_resolve Q reg (bind_adapter reg i cad d s) = Some (Inr (i, ad_call cad), bind_adapter reg i cad d s)"
proof -
  from assms(1) obtain h where h: "hook_id_hd s = Some h" "qmap_get Q h (KStr (ad_name d)) = Some (VInt i)"
    and r: "0 \<le> i" "canonical i s = Some ca" "adapters s ca = Some cad" "ad_call cad \<noteq> 0" "ret_size cad \<le> XY_MAX_RET_SIZE"
    unfolding registered_def hook_num_get by blast
  have can: "canonical i (s\<lparr>adapters := x\<rparr>) = Some ca" for x using r(2) by (simp add: canonical_def)
  show "call_resolve Q reg s = Some (Inr (i, ad_call cad), bind_adapter reg i cad d s)"
    using assms(2-5) h r can
    by (simp add: call_resolve_def adapter_by_name_def upd_adapter_def bind_adapter_def bound_to_def)
  show "call_resolve Q reg (bind_adapter reg i cad d s) = Some (Inr (i, ad_call cad), bind_adapter reg i cad d s)"
    using r by (simp add: call_resolve_def bind_adapter_def bound_to_def)
qed

lemma bind_adapter_frame:
  "regions (bind_adapter reg i cad d s) = regions s" "mods (bind_adapter reg i cad d s) = mods s"
  "ctxs (bind_adapter reg i cad d s) = ctxs s" "keeps s (bind_adapter reg i cad d s)"
  "xy_current_region_entry (bind_adapter reg i cad d s) = xy_current_region_entry s"
  "xy_current_region_id (bind_adapter reg i cad d s) = xy_current_region_id s"
  "xy_last_retbuf (bind_adapter reg i cad d s) = xy_last_retbuf s"
  "xy_inited (bind_adapter reg i cad d s) = xy_inited s"
  by (simp_all add: bind_adapter_def)

text \<open>The facts a call depends on do not mention the adapters.\<close>

lemma dispatch_frame:
  assumes "regions s' = regions s" "mods s' = mods s" "ctxs s' = ctxs s" "next_addr s' = next_addr s"
  shows "subtree_list s' = subtree_list s"
    and "listener_slots E Q s' chain name ms = listener_slots E Q s chain name ms"
    and "call_chain r s' = call_chain r s" and "hook_denied_by Q s' chain name = hook_denied_by Q s chain name"
    and "dispatch_ok E Q s' r' i name chain = dispatch_ok E Q s r' i name chain"
proof -
  show sub: "subtree_list s' = subtree_list s"
    by (rule subtree_list_same_tree) (simp add: same_tree_def assms)
  show lis: "listener_slots E Q s' chain name ms = listener_slots E Q s chain name ms" for ms
    by (rule listener_slots_cong) (simp_all add: assms chain_denies_def)
  have "region_parent s' = region_parent s" by (intro ext) (simp add: region_parent_def assms(1))
  then have "region_ancestor_chain s' = region_ancestor_chain s" by (intro ext) (simp add: region_ancestor_chain_def)
  then show "call_chain r s' = call_chain r s" by (simp only: call_chain_def assms(1))
  show "hook_denied_by Q s' chain name = hook_denied_by Q s chain name"
    by (induction chain) (simp_all add: assms(1) cong: if_cong)
  have "get_cache r' i s' = get_cache r' i s" for r' i by (simp add: get_cache_def assms(1))
  then show "dispatch_ok E Q s' r' i name chain = dispatch_ok E Q s r' i name chain"
    by (simp add: dispatch_ok_def vector_is_def assms sub lis)
qed

text \<open>So the call is the call of the resolved adapter in the resolved state.\<close>

lemma xy_call_resolved:
  assumes "xy_inited s" and "call_resolve Q reg s = Some (Inr p, s1)" "call_resolve Q reg s1 = Some (Inr p, s1)"
    and "xy_current_region_id s1 = xy_current_region_id s" "xy_inited s1"
  shows "xy_call E Q retp (Some reg) arg s = xy_call E Q retp (Some reg) arg s1"
  using assms by (simp add: xy_call_def xy_runtime_ensure_def call_body_def cong: if_cong option.case_cong)

section \<open>The declared function\<close>

text \<open>What the declared function does, whatever state its adapter is in: \<open>Q\<close>, \<open>run\<close> and \<open>l\<close> as below.\<close>

definition returns_last :: "'q env \<Rightarrow> 'q qmap_ops \<Rightarrow> 'q listener \<Rightarrow> string \<Rightarrow> int \<Rightarrow> rptr \<Rightarrow> nat \<Rightarrow> byte list \<Rightarrow> aptr \<Rightarrow> addr
    \<Rightarrow> xy_dispatch_slot list \<Rightarrow> 'q xy_state \<Rightarrow> bool" where
  "returns_last E Q run name i r sz ret reg arg l s \<longleftrightarrow> (\<exists>ref s1 results s2 s'.
       refreshes E name i r (called 0 ref reg s) s1
     \<and> listeners_run run reg arg (xy_current_region_id s) l s1 = Some (results, s2) \<and> length results = length l
     \<and> decl_call E Q ret reg arg s = Some (if l = [] then replicate sz 0 else last results, s')
     \<and> xy_last_ran s' = length l \<and> xy_err_val s' = (if l = [] then XY_ERR_NOTFOUND else XY_OK)
     \<and> adapters s' = adapters s)"

lemma decl_call_ok:
  assumes E: "alloc_ok E" "dl_ok E" and lib: "wf_lib Q s" and cur: "xy_current_region_entry s = Some r"
    and ad: "adapters s reg = Some ad" "0 \<le> ad_hook_id ad" "ad_call ad \<noteq> 0" "ret_size ad \<le> XY_MAX_RET_SIZE"
    and run: "e_call E (ad_call ad) = adapter_call (ret_size ad) run" "listener_ok run (ret_size ad)"
    and chain: "call_chain (Some r) s = Some chain" "hook_denied_by Q s chain (ad_name ad) = Some False"
    and ok: "dispatch_ok E Q s r (ad_hook_id ad) (ad_name ad) chain"
    and buf: "length ret = ret_size ad" "length (xy_last_retbuf s) = XY_MAX_RET_SIZE"
    and l: "l = listener_slots E Q s chain (ad_name ad) (subtree_list s r)"
  shows "returns_last E Q run (ad_name ad) (ad_hook_id ad) r (ret_size ad) ret reg arg l s"
proof -
  note w = wf_libD [OF lib]
  let ?rid = "xy_current_region_id s"
  have b: "buffer_ok (ret_size ad) (Some ret)" using buf(1) by (simp add: buffer_ok_def)
  from xy_call_ok [OF E adapter_call_calm [OF run] lib cur ad chain ok b buf(2) l, of arg] obtain ref s1 retp1 s2 retp2 s' where
    c: "refreshes E (ad_name ad) (ad_hook_id ad) r (called 0 ref reg s) s1"
    "run_slots E reg (ad_call ad) arg ?rid l 0 (Some ret) s1 = Some (length l, retp1, s2)" "calm s1 s2"
    "\<forall>slot \<in> set l. callable s1 slot"
    "xy_call E Q (Some ret) (Some reg) arg s = Some (if l = [] then XY_ERR_NOTFOUND else XY_OK, retp2, s')"
    "l \<noteq> [] \<longrightarrow> retp2 = retp1" "l = [] \<longrightarrow> retp2 = map_option (zeroed (ret_size ad)) (Some ret)"
    "xy_last_ran s' = length l" "xy_err_val s' = (if l = [] then XY_ERR_NOTFOUND else XY_OK)"
    "s' = s2\<lparr>xy_last_ran := length l, xy_last_retp := xy_last_retp s', xy_last_retbuf := xy_last_retbuf s', xy_err_val := xy_err_val s'\<rparr>"
    by (elim exE conjE) (rule that, assumption+)
  have rid: "xy_current_region_id s1 = ?rid" "adapters s1 = adapters s"
    using refreshes_vars [OF c(1)] by (simp_all add: called_def)
  from run_slots_listeners [OF run c(4) rid(1) buf(1), of reg arg 0] c(2) obtain results where
    ls: "listeners_run run reg arg ?rid l s1 = Some (results, s2)" "length results = length l" "retp1 = Some (last (ret # results))"
    by auto
  obtain x y z v where "s' = s2\<lparr>xy_last_ran := x, xy_last_retp := y, xy_last_retbuf := z, xy_err_val := v\<rparr>"
    by (rule that) (rule c(10))
  then have "adapters s' = adapters s" using c(3) rid(2) by (simp add: calm_def)
  moreover have "retp2 = Some (if l = [] then replicate (ret_size ad) 0 else last results)"
  proof (cases "l = []")
    case True
    then show ?thesis using c(7) buf(1) by (simp add: zeroed_def)
  next
    case False
    then have "results \<noteq> []" using ls(2) by auto
    then show ?thesis using False c(6) ls(3) by simp
  qed
  then have "decl_call E Q ret reg arg s = Some (if l = [] then replicate (ret_size ad) 0 else last results, s')"
    using c(5) by (simp add: decl_call_def)
  ultimately show ?thesis using c(1,8,9) ls(1,2) unfolding returns_last_def by blast
qed

text \<open>(C25) A function declared with \<open>XY_DECL\<close>, called for the first time, takes id, function and sizes from
  the adapter registered under its name, and returns the result of the last listener of
  the caller's subtree in depth-first order, or zeros when there is no listener; every
  listener is called once, as a plain function of its arguments.\<close>

theorem declared_call_returns_last:
  assumes "alloc_ok E" "dl_ok E" and "wf_lib Q s" and "xy_current_region_entry s = Some r"
    and "registered Q s name i ca cad" and "adapters s reg = Some (decl_adapter name asz sz)" and "reg \<noteq> ca"
    and "e_call E (ad_call cad) = adapter_call (ret_size cad) run" "listener_ok run (ret_size cad)"
    and "call_chain (Some r) s = Some chain" "hook_denied_by Q s chain name = Some False"
    and "dispatch_ok E Q s r i name chain"
    and "length ret = ret_size cad" "length (xy_last_retbuf s) = XY_MAX_RET_SIZE"
    and "l = listener_slots E Q s chain name (subtree_list s r)"
  shows "\<exists>ref s1 results s2 s'.
      refreshes E name i r (called 0 ref reg (bind_adapter reg i cad (decl_adapter name asz sz) s)) s1
    \<and> listeners_run run reg arg (xy_current_region_id s) l s1 = Some (results, s2) \<and> length results = length l
    \<and> decl_call E Q ret reg arg s = Some (if l = [] then replicate (ret_size cad) 0 else last results, s')
    \<and> adapters s' reg = Some (bound_to i cad (decl_adapter name asz sz)) \<and> xy_last_ran s' = length l"
proof -
  let ?d = "decl_adapter name asz sz"
  let ?t = "bind_adapter reg i cad ?d s" and ?ad = "bound_to i cad ?d"
  note fr = bind_adapter_frame [where reg = reg and i = i and cad = cad and d = ?d and s = s]
  have na: "next_addr ?t = next_addr s" by (simp add: bind_adapter_def)
  note df = dispatch_frame [OF fr(1-3) na]
  have d: "ad_name ?d = name" "ad_hook_id ?d < 0" "ad_call ?d = 0" by (simp_all add: decl_adapter_def)
  have b: "ad_name ?ad = name" "ad_hook_id ?ad = i" "ad_call ?ad = ad_call cad" "ret_size ?ad = ret_size cad" "adapters ?t reg = Some ?ad"
    by (simp_all add: bound_to_def d(1) bind_adapter_def)
  from assms(5) have i: "0 \<le> i" "ad_call cad \<noteq> 0" "ret_size cad \<le> XY_MAX_RET_SIZE" by (simp_all add: registered_def)
  have rs: "registered Q s (ad_name ?d) i ca cad" using assms(5) d(1) by simp
  note res = call_resolve_decl [OF rs assms(6) d(2,3) assms(7)]
  have ini: "xy_inited s" using wf_libD(1) [OF assms(3)] .
  have same: "decl_call E Q ret reg arg s = decl_call E Q ret reg arg ?t"
    unfolding decl_call_def using xy_call_resolved [OF ini res fr(6)] ini fr(8) by simp
  have "returns_last E Q run name i r (ret_size cad) ret reg arg l ?t"
    using decl_call_ok [OF assms(1,2) keeps_wf_lib [OF fr(4) assms(3)], of r reg ?ad run chain ret l arg] assms(4,8-15) b i fr(5,7) df
    by simp
  then show ?thesis using same b(5) fr(6) unfolding returns_last_def by force
qed

text \<open>The demo library with the adapter of a call site at address 23; the listeners return 42.\<close>

definition demo_listener :: "demo_q listener" where
  "demo_listener fn arg s = Some ([42], s)"

definition demo_lenv :: "demo_q env" where
  "demo_lenv = demo_env\<lparr>e_call := (\<lambda>_. adapter_call 1 demo_listener)\<rparr>"

definition demo_l :: "demo_q xy_state" where
  "demo_l = demo_h\<lparr>adapters := (adapters demo_h)(23 \<mapsto> decl_adapter ''h'' 0 1)\<rparr>"

lemma listener_slots_env: "e_dlsym E' = e_dlsym E \<Longrightarrow> listener_slots E' Q s chain name ms = listener_slots E Q s chain name ms"
proof -
  assume e: "e_dlsym E' = e_dlsym E"
  have "slot_for E' s name = slot_for E s name" "listens E' Q s chain name = listens E Q s chain name"
    by (simp_all add: fun_eq_iff slot_for_def listens_def e split: option.split)
  then show ?thesis by (simp add: listener_slots_def)
qed

lemma dispatch_ok_env: "e_dlsym E' = e_dlsym E \<Longrightarrow> dispatch_ok E' Q s r i name chain = dispatch_ok E Q s r i name chain"
  by (simp add: dispatch_ok_def hook_live_def hook_ok_def listener_slots_env [of E' E])

lemma demo_lenv_facts:
  "alloc_ok demo_lenv" "dl_ok demo_lenv" "e_dlsym demo_lenv = e_dlsym demo_env"
  "e_call demo_lenv dc = adapter_call 1 demo_listener" "listener_ok demo_listener 1"
  using demo_dl_ok by (simp_all add: demo_lenv_def alloc_ok_def dl_ok_def listener_ok_def demo_listener_def)

lemma demo_l_frame: "regions demo_l = regions demo_h" "mods demo_l = mods demo_h" "ctxs demo_l = ctxs demo_h"
  "next_addr demo_l = next_addr demo_h" "keeps demo_h demo_l"
  by (simp_all add: demo_l_def)

theorem declared_call_returns_last_witness:
  "\<exists>s'. decl_call demo_lenv alist_qmap [0] 23 0 demo_l = Some ([42], s') \<and> xy_last_ran s' = 4"
proof -
  let ?cad = "\<lparr>ad_name = ''h'', arg_size = 0, ret_size = 1, ad_call = 50, ad_hook_id = 0\<rparr>"
  note d = demo_call_facts and f = demo_l_frame and df = dispatch_frame [OF demo_l_frame(1-4)]
  have lib: "wf_lib alist_qmap demo_l" by (rule keeps_wf_lib [OF f(5) demo_h_wf_lib])
  have cur: "xy_current_region_entry demo_l = Some 1" "length (xy_last_retbuf demo_l) = XY_MAX_RET_SIZE"
    using d(2,11) by (simp_all add: demo_l_def)
  have reg: "registered alist_qmap demo_l ''h'' 0 21 ?cad"
    by (simp add: registered_def hook_num_def demo_l_def canonical_def nth_opt_def XY_MAX_RET_SIZE_def)
  have ad: "adapters demo_l 23 = Some (decl_adapter ''h'' 0 1)" by (simp add: demo_l_def)
  have chain: "call_chain (Some 1) demo_l = Some []" "hook_denied_by alist_qmap demo_l [] ''h'' = Some False"
    using d(7) df(3) by simp_all
  have ok: "dispatch_ok demo_lenv alist_qmap demo_l 1 0 ''h'' []"
    using df(5) dispatch_ok_env [OF demo_lenv_facts(3)] demo_h_dispatch_ok [of 1] by simp
  have run: "e_call demo_lenv (ad_call ?cad) = adapter_call (ret_size ?cad) demo_listener" "listener_ok demo_listener (ret_size ?cad)"
    using demo_lenv_facts by simp_all
  have l: "demo_slots = listener_slots demo_lenv alist_qmap demo_l [] ''h'' (subtree_list demo_l 1)"
    using df(1,2) listener_slots_env [OF demo_lenv_facts(3)] demo_h_subtree demo_listeners by (simp add: demo_slots_def)
  have n: "(23 :: aptr) \<noteq> 21" "length [0 :: byte] = ret_size ?cad" by simp_all
  from declared_call_returns_last [OF demo_lenv_facts(1,2) lib cur(1) reg ad n(1) run chain ok n(2) cur(2) l, of 0] obtain results s' s1 s2 where
    r: "listeners_run demo_listener 23 0 (xy_current_region_id demo_l) demo_slots s1 = Some (results, s2)" "length results = 4"
    "decl_call demo_lenv alist_qmap [0] 23 0 demo_l = Some (last results, s')" "xy_last_ran s' = 4"
    using demo_slots_length by auto
  have all: "\<forall>x \<in> set rs. x = [42]" if "listeners_run demo_listener reg arg rid k s = Some (rs, t)" for reg arg rid k s rs t
    using that by (induction k arbitrary: s rs) (auto simp: one_listener_def demo_listener_def bind_eq_Some_conv)
  have "results \<noteq> []" using r(2) by auto
  then have "last results = [42]" using all [OF r(1)] by simp
  with r(3,4) show ?thesis by simp
qed

end
