(* ===== verification/Xy_Params.thy ===== *)
theory Xy_Params
  imports Xy_Adapter
begin

text \<open>
  The parameter lists of hooks: the macros of include/ttypt/xy-pp.h, which turn the arguments
  \<open>type, name, type, name, ...\<close> of \<open>XY_DECL\<close>, \<open>XY_DEF\<close> and \<open>XY_IMPL\<close> into the parameters of the
  function, the members of the argument struct, its initialiser and the arguments of the
  listener.  A list of one to sixteen pairs with different names is accepted and nothing else is,
  two names are reserved at call sites, and what a caller passes is what each listener gets.
\<close>

section \<open>The macros\<close>

text \<open>A macro argument is a piece of source text.  \<open>None\<close> is a program that does not compile because of
  the shape of the list or because a name is declared twice.  Taken for granted: the types
  are complete object types, and the names are identifiers that are not keywords, macros or
  names of the types in use.\<close>

definition PAIR_RSEQ_N :: "nat list" where
  "PAIR_RSEQ_N = [31,31,30,30,29,29,28,28,27,27,26,26,25,25,
     24,24,23,23,22,22,21,21,20,20,19,19,18,18,
     17,17,16,16,15,15,14,14,13,13,12,12,11,11,
     10,10, 9, 9, 8, 8, 7, 7, 6, 6, 5, 5, 4, 4,
      3, 3, 2, 2, 1, 1, 0, 0]"

text \<open>\<open>PP_ARG_N\<close> expands to its 64th argument: a number of the sequence, or, behind more than 63
  macro arguments, one of these.  An empty list counts as one empty argument.\<close>

definition PP_ARG_N :: "(string + nat) list \<Rightarrow> string + nat" where
  "PP_ARG_N xs = xs ! 63"

definition XY_PC :: "string list \<Rightarrow> string + nat" where
  "XY_PC args = PP_ARG_N (map Inl (if args = [] then [''''] else args) @ map Inr PAIR_RSEQ_N)"

text \<open>The family of macros \<open>M_1(a, b)\<close>, \<open>M_2(a, b, ...)\<close> to \<open>M_16(a, b, ...)\<close>: the first takes exactly two arguments,
  each of the others gives the text of its first two and hands the rest to the one before.  The
  name is pasted together from the count; there is no macro for other counts.\<close>

fun numbered :: "(string \<Rightarrow> string \<Rightarrow> 'a) \<Rightarrow> nat \<Rightarrow> string list \<Rightarrow> 'a list option" where
  "numbered f n (a # b # rest) = (if n = 0 \<or> 16 < n then None
     else if n = 1 then (if rest = [] then Some [f a b] else None)
     else map_option ((#) (f a b)) (numbered f (n - 1) rest))"
| "numbered f n [] = None"
| "numbered f n [a] = None"

definition CAT :: "(nat \<Rightarrow> string list \<Rightarrow> 'a list option) \<Rightarrow> string + nat \<Rightarrow> string list \<Rightarrow> 'a list option" where
  "CAT M c args = (case c of Inl t \<Rightarrow> None | Inr n \<Rightarrow> M n args)"

text \<open>The four families: parameters \<open>a b\<close>, members \<open>a b;\<close>, member accesses \<open>__xy_a->b\<close> and names \<open>b\<close>.\<close>

definition XY_FA :: "string list \<Rightarrow> (string \<times> string) list option" where
  "XY_FA args = CAT (numbered (\<lambda>a b. (a, b))) (XY_PC args) args"

definition XY_PG :: "string list \<Rightarrow> (string \<times> string) list option" where
  "XY_PG args = CAT (numbered (\<lambda>a b. (a, b))) (XY_PC args) args"

definition XY_NP :: "string list \<Rightarrow> string list option" where
  "XY_NP args = CAT (numbered (\<lambda>a b. b)) (XY_PC args) args"

definition XY_DA :: "string list \<Rightarrow> string list option" where
  "XY_DA args = CAT (numbered (\<lambda>a b. b)) (XY_PC args) args"

section \<open>What the generated code does with them\<close>

text \<open>A struct as a map from member names.  An initialiser list sets the first members; the others
  become zero, and more initialisers than members are refused.\<close>

type_synonym 'v cstruct = "string \<rightharpoonup> 'v"

definition init_struct :: "(string \<Rightarrow> 'v) \<Rightarrow> (string \<times> string) list \<Rightarrow> 'v list \<Rightarrow> 'v cstruct option" where
  "init_struct zero members vs = (if length members < length vs then None
     else Some (map_of (zip (map snd members) (vs @ map (zero \<circ> fst) (drop (length vs) members)))))"

text \<open>Two parameters or members of the same name are refused.\<close>

definition declared_names_ok :: "(string \<times> string) list \<Rightarrow> bool" where
  "declared_names_ok ps \<longleftrightarrow> distinct (map snd ps)"

text \<open>The function that \<open>XY_DECL\<close> and \<open>XY_DEF\<close> generate declares \<open>ret\<close> and \<open>args\<close> in its body, in the scope of its
  parameters; a parameter of one of these names would be declared again.  \<open>XY_IMPL\<close> leaves the
  body to the programmer, and has no such names.\<close>

definition body_names_ok :: "(string \<times> string) list \<Rightarrow> bool" where
  "body_names_ok ps \<longleftrightarrow> declared_names_ok ps \<and> ''ret'' \<notin> set (map snd ps) \<and> ''args'' \<notin> set (map snd ps)"

text \<open>The body also uses \<open>xy_call\<close> and the adapter of the declaration.  A parameter of one of these names
  hides what the body means; whether that compiles depends on its type.\<close>

definition hides_nothing :: "string \<Rightarrow> string list \<Rightarrow> bool" where
  "hides_nothing fname args \<longleftrightarrow> ''xy_call'' \<notin> set args \<and> ''__xy_decl_'' @ fname @ ''_adapter'' \<notin> set args"

text \<open>The declared function: its parameters get the values of the call, and the struct is initialised
  with the parameters.\<close>

definition decl_args :: "(string \<Rightarrow> 'v) \<Rightarrow> string list \<Rightarrow> 'v list \<Rightarrow> 'v cstruct option" where
  "decl_args zero args vs = (do {
     params \<leftarrow> XY_FA args;
     members \<leftarrow> XY_PG args;
     inits \<leftarrow> XY_DA args;
     if length vs \<noteq> length params \<or> \<not> body_names_ok params \<or> \<not> declared_names_ok members then None
     else do {
       xs \<leftarrow> those (map (map_of (zip (map snd params) vs)) inits);
       init_struct zero members xs } })"

text \<open>\<open>XY_CALL\<close> initialises the struct with the values themselves; the argument expressions must not
  mention a variable \<open>args\<close> of the caller, which the struct of that name hides.\<close>

definition call_args :: "(string \<Rightarrow> 'v) \<Rightarrow> string list \<Rightarrow> 'v list \<Rightarrow> 'v cstruct option" where
  "call_args zero args vs = (do {
     members \<leftarrow> XY_PG args;
     if \<not> declared_names_ok members then None else init_struct zero members vs })"

text \<open>\<open>cast_fn(XY_NP(...))\<close> in the adapter: the struct is read through the pointer it was given.\<close>

definition cast_call :: "string list \<Rightarrow> (addr \<Rightarrow> 'v cstruct option) \<Rightarrow> (code \<Rightarrow> 'v list \<Rightarrow> 'q xy_state \<Rightarrow> (byte list \<times> 'q xy_state) option)
    \<Rightarrow> 'q listener" where
  "cast_call args mem body fn arg s = (do {
     names \<leftarrow> XY_NP args;
     st \<leftarrow> mem arg;
     vs \<leftarrow> those (map st names);
     body fn vs s })"

section \<open>Which lists are accepted\<close>

definition flat :: "(string \<times> string) list \<Rightarrow> string list" where
  "flat ps = concat (map (\<lambda>(t, n). [t, n]) ps)"

lemma flat_simps [simp]: "flat [] = []" "flat (p # ps) = fst p # snd p # flat ps" "length (flat ps) = 2 * length ps"
  by (induction ps) (auto simp: flat_def split: prod.split)

lemma flat_inj: "flat ps = flat qs \<Longrightarrow> ps = qs"
proof (induction ps arbitrary: qs)
  case Nil
  then show ?case by (cases qs) simp_all
next
  case (Cons p ps)
  then show ?case by (cases qs) (auto simp: prod_eq_iff)
qed

lemma flat_Cons_iff:
  "(\<exists>ps. length ps = Suc n \<and> a # b # rest = flat ps \<and> xs = map (\<lambda>(a, b). f a b) ps)
    \<longleftrightarrow> (\<exists>ps ys. length ps = n \<and> rest = flat ps \<and> ys = map (\<lambda>(a, b). f a b) ps \<and> xs = f a b # ys)" (is "?l \<longleftrightarrow> ?r")
proof
  assume ?l
  then obtain ps where "length ps = Suc n" "a # b # rest = flat ps" "xs = map (\<lambda>(a, b). f a b) ps" by blast
  then show ?r by (cases ps) (auto simp: case_prod_unfold)
next
  assume ?r
  then obtain ps where "length ps = n" "rest = flat ps" "xs = f a b # map (\<lambda>(a, b). f a b) ps" by blast
  then show ?l by (intro exI [of _ "(a, b) # ps"]) simp
qed

lemma numbered_iff:
  "numbered f n args = Some xs \<longleftrightarrow> 1 \<le> n \<and> n \<le> 16 \<and> (\<exists>ps. length ps = n \<and> args = flat ps \<and> xs = map (\<lambda>(a, b). f a b) ps)"
proof (induction f n args arbitrary: xs rule: numbered.induct)
  case (1 f n a b rest)
  show ?case
  proof (cases "2 \<le> n \<and> n \<le> 16")
    case True
    then obtain k where k: "n = Suc k" "1 \<le> k" "k \<le> 16" by (cases n) auto
    then have "numbered f n (a # b # rest) = Some xs \<longleftrightarrow> (\<exists>ys. numbered f k rest = Some ys \<and> xs = f a b # ys)"
      using True by (auto simp: map_option_case split: option.splits)
    moreover have "numbered f k rest = Some ys \<longleftrightarrow> (\<exists>ps. length ps = k \<and> rest = flat ps \<and> ys = map (\<lambda>(a, b). f a b) ps)" for ys
      using 1 [of ys] True k by simp
    ultimately show ?thesis using True unfolding k(1) flat_Cons_iff by auto
  next
    case False
    have "(\<exists>ps. length ps = Suc 0 \<and> a # b # rest = flat ps \<and> xs = map (\<lambda>(a, b). f a b) ps) \<longleftrightarrow> rest = [] \<and> xs = [f a b]"
      unfolding flat_Cons_iff by auto
    with False show ?thesis by (cases "n = 1") auto
  qed
next
  case (2 f n)
  have "[] = flat ps \<longleftrightarrow> ps = []" for ps by (cases ps) simp_all
  then show ?case by auto
next
  case (3 f n v)
  have "[v] \<noteq> flat ps" for ps by (cases ps) simp_all
  then show ?case by simp
qed

lemma PAIR_RSEQ_N_nth:
  assumes "i \<le> 63"
  shows "PAIR_RSEQ_N ! i = (63 - i) div 2"
proof -
  have "PAIR_RSEQ_N = map (\<lambda>i. (63 - i) div 2) [0..<64]" unfolding PAIR_RSEQ_N_def by code_simp
  then have "PAIR_RSEQ_N ! i = map (\<lambda>i. (63 - i) div 2) [0..<64] ! i" by (rule arg_cong)
  also have "\<dots> = (63 - [0..<64] ! i) div 2" using assms by (intro nth_map) simp
  also have "[0..<64] ! i = i" using assms nth_upt [of 0 i 64] by simp
  finally show ?thesis .
qed

text \<open>The count is half the number of arguments, up to 63 arguments.\<close>

lemma XY_PC_count:
  assumes "length args \<le> 63"
  shows "XY_PC args = Inr (length args div 2)"
proof -
  let ?as = "if args = [] then [''''] else args"
  have "(map Inl ?as @ map Inr PAIR_RSEQ_N) ! 63 = map Inr PAIR_RSEQ_N ! (63 - length ?as)"
    using assms by (simp add: nth_append)
  moreover have "length PAIR_RSEQ_N = 64" by (simp add: PAIR_RSEQ_N_def)
  moreover have "(63 - (63 - length ?as)) div 2 = length args div 2" using assms by (cases args) simp_all
  ultimately show ?thesis using PAIR_RSEQ_N_nth [of "63 - length ?as"] by (simp add: XY_PC_def PP_ARG_N_def)
qed

lemma expansion_iff:
  "CAT (numbered f) (XY_PC args) args = Some xs
    \<longleftrightarrow> (\<exists>ps. 1 \<le> length ps \<and> length ps \<le> 16 \<and> args = flat ps \<and> xs = map (\<lambda>(a, b). f a b) ps)"
proof (cases "length args \<le> 63")
  case True
  have "(\<exists>ps. length ps = length args div 2 \<and> args = flat ps \<and> xs = map (\<lambda>(a, b). f a b) ps)
      \<longleftrightarrow> (\<exists>ps. args = flat ps \<and> xs = map (\<lambda>(a, b). f a b) ps)" by (intro ex_cong1) auto
  with True show ?thesis by (simp add: CAT_def XY_PC_count numbered_iff) (intro iffI; elim conjE exE; force)
next
  case False
  then have "XY_PC args = Inl (args ! 63)" by (cases args) (simp_all add: XY_PC_def PP_ARG_N_def nth_append)
  with False show ?thesis by (auto simp: CAT_def)
qed

lemma expansion_flat:
  assumes "1 \<le> length ps" and "length ps \<le> 16"
  shows "XY_FA (flat ps) = Some ps" "XY_PG (flat ps) = Some ps" "XY_NP (flat ps) = Some (map snd ps)" "XY_DA (flat ps) = Some (map snd ps)"
  unfolding XY_FA_def XY_PG_def XY_NP_def XY_DA_def expansion_iff using assms by (intro exI [of _ ps]; auto simp: case_prod_unfold)+

section \<open>The declarations\<close>

text \<open>What a macro defines: the function type and the struct, the adapter of the call sites and the
  adapter that is exported and registered.  \<open>asz\<close> and \<open>rsz\<close> are the sizes of the struct and of the result.\<close>

record hook_unit =
  u_params :: "(string \<times> string) list"
  u_members :: "(string \<times> string) list"
  u_decl :: "xy_adapter option"
  u_impl :: "xy_adapter option"

definition XY_DECL :: "string \<Rightarrow> nat \<Rightarrow> nat \<Rightarrow> string list \<Rightarrow> hook_unit option" where
  "XY_DECL fname asz rsz args = (do {
     params \<leftarrow> XY_FA args;
     members \<leftarrow> XY_PG args;
     inits \<leftarrow> XY_DA args;
     if body_names_ok params \<and> declared_names_ok members
     then Some \<lparr>u_params = params, u_members = members, u_decl = Some (decl_adapter fname asz rsz), u_impl = None\<rparr>
     else None })"

definition XY_IMPL :: "string \<Rightarrow> nat \<Rightarrow> nat \<Rightarrow> code \<Rightarrow> string list \<Rightarrow> hook_unit option" where
  "XY_IMPL fname asz rsz call args = (do {
     params \<leftarrow> XY_FA args;
     members \<leftarrow> XY_PG args;
     accesses \<leftarrow> XY_NP args;
     if declared_names_ok params \<and> declared_names_ok members \<and> rsz \<le> XY_MAX_RET_SIZE
     then Some \<lparr>u_params = params, u_members = members, u_decl = None, u_impl = Some (impl_adapter fname asz rsz call)\<rparr>
     else None })"

definition XY_DEF :: "string \<Rightarrow> nat \<Rightarrow> nat \<Rightarrow> code \<Rightarrow> string list \<Rightarrow> hook_unit option" where
  "XY_DEF fname asz rsz call args = (do {
     params \<leftarrow> XY_FA args;
     members \<leftarrow> XY_PG args;
     inits \<leftarrow> XY_DA args;
     accesses \<leftarrow> XY_NP args;
     if body_names_ok params \<and> declared_names_ok members \<and> rsz \<le> XY_MAX_RET_SIZE
     then Some \<lparr>u_params = params, u_members = members, u_decl = Some (decl_adapter fname asz rsz),
                u_impl = Some (impl_adapter fname asz rsz call)\<rparr>
     else None })"

lemma expansions_agree:
  "XY_PG = XY_FA" "XY_DA args = map_option (map snd) (XY_FA args)" "XY_NP args = XY_DA args"
proof -
  show "XY_PG = XY_FA" by (simp add: XY_PG_def XY_FA_def fun_eq_iff)
  show "XY_NP args = XY_DA args" by (simp add: XY_NP_def XY_DA_def)
  show "XY_DA args = map_option (map snd) (XY_FA args)"
  proof (cases "\<exists>ps. 1 \<le> length ps \<and> length ps \<le> 16 \<and> args = flat ps")
    case True
    then show ?thesis by (auto simp: expansion_flat)
  next
    case False
    then have "XY_FA args = None"
      by (cases "XY_FA args") (auto simp: XY_FA_def expansion_iff)
    moreover from False have "XY_DA args = None"
      by (cases "XY_DA args") (auto simp: XY_DA_def expansion_iff)
    ultimately show ?thesis by simp
  qed
qed

lemma XY_FA_iff: "XY_FA args = Some ps \<longleftrightarrow> 1 \<le> length ps \<and> length ps \<le> 16 \<and> args = flat ps"
  unfolding XY_FA_def expansion_iff by auto

text \<open>(C27) Which declarations compile.  A parameter list is accepted exactly when it consists of one to
  sixteen pairs of a type and a name, with different names: the empty list, an odd number of
  arguments and more than sixteen pairs expand to no macro or to one with the wrong number of
  arguments.  For \<open>XY_DECL\<close> and \<open>XY_DEF\<close>, no parameter may be called \<open>ret\<close> or \<open>args\<close>, which the generated
  body declares, while a listener of the same hook may use these names.  Lists with a
  parameter that hides what the body uses are left out, as their fate depends on its type.  A
  listener and a definition must also have a result that fits the buffer of the
  library; a declaration at a call site is not checked for that.  The members of the struct
  are the parameters, in their order.\<close>

theorem parameter_lists_accepted:
  assumes "hides_nothing fname args"
  shows "(XY_DECL fname asz rsz args = Some u \<longleftrightarrow> (\<exists>ps. 1 \<le> length ps \<and> length ps \<le> 16 \<and> args = flat ps \<and> distinct (map snd ps)
      \<and> set (map snd ps) \<inter> {''ret'', ''args''} = {}
      \<and> u = \<lparr>u_params = ps, u_members = ps, u_decl = Some (decl_adapter fname asz rsz), u_impl = None\<rparr>))
   \<and> (XY_IMPL fname asz rsz call args = Some u \<longleftrightarrow> rsz \<le> XY_MAX_RET_SIZE \<and> (\<exists>ps. 1 \<le> length ps \<and> length ps \<le> 16 \<and> args = flat ps
      \<and> distinct (map snd ps)
      \<and> u = \<lparr>u_params = ps, u_members = ps, u_decl = None, u_impl = Some (impl_adapter fname asz rsz call)\<rparr>))
   \<and> (XY_DEF fname asz rsz call args = Some u \<longleftrightarrow> rsz \<le> XY_MAX_RET_SIZE \<and> (\<exists>ps. 1 \<le> length ps \<and> length ps \<le> 16 \<and> args = flat ps
      \<and> distinct (map snd ps) \<and> set (map snd ps) \<inter> {''ret'', ''args''} = {}
      \<and> u = \<lparr>u_params = ps, u_members = ps, u_decl = Some (decl_adapter fname asz rsz),
          u_impl = Some (impl_adapter fname asz rsz call)\<rparr>))"
proof -
  have "(\<exists>ps. 1 \<le> length ps \<and> length ps \<le> 16 \<and> args = flat ps \<and> P ps) \<longleftrightarrow> (\<exists>ps. XY_FA args = Some ps \<and> P ps)" for P
    unfolding XY_FA_iff by blast
  then show ?thesis
    by (cases "XY_FA args") (auto simp: XY_DECL_def XY_IMPL_def XY_DEF_def expansions_agree declared_names_ok_def body_names_ok_def)
qed

text \<open>At a call site, \<open>int on_damage(int player_id, int args)\<close> is refused; its listener is not.\<close>

theorem parameter_lists_accepted_witness:
  "XY_DECL ''on_damage'' 8 4 [''int'', ''player_id'', ''int'', ''args''] = None
    \<and> (\<exists>u. XY_IMPL ''on_damage'' 8 4 100 [''int'', ''player_id'', ''int'', ''args''] = Some u)
    \<and> (\<exists>u. XY_DECL ''on_damage'' 8 4 [''int'', ''player_id'', ''int'', ''amount''] = Some u)"
proof -
  let ?as = "[''int'', ''player_id'', ''int'', ''args'']" and ?ps = "[(''int'', ''player_id''), (''int'', ''args'')]"
  let ?as' = "[''int'', ''player_id'', ''int'', ''amount'']" and ?ps' = "[(''int'', ''player_id''), (''int'', ''amount'')]"
  have h: "hides_nothing ''on_damage'' ?as" "hides_nothing ''on_damage'' ?as'" by (simp_all add: hides_nothing_def)
  note a = parameter_lists_accepted [OF h(1), of 8 4 _ 100] and b = parameter_lists_accepted [OF h(2), of 8 4 _ 100]
  have f: "?as = flat ?ps" "?as' = flat ?ps'" by simp_all
  have "XY_DECL ''on_damage'' 8 4 ?as \<noteq> Some u" for u
  proof
    assume "XY_DECL ''on_damage'' 8 4 ?as = Some u"
    then obtain ps where "flat ?ps = flat ps" "set (map snd ps) \<inter> {''ret'', ''args''} = {}" using a f(1) by metis
    then show False using flat_inj [of ?ps ps] by auto
  qed
  moreover have "\<exists>u. XY_IMPL ''on_damage'' 8 4 100 ?as = Some u"
    by (intro exI, rule iffD2 [OF conjunct1 [OF conjunct2 [OF a]]], intro conjI exI [of _ ?ps]) (auto simp: XY_MAX_RET_SIZE_def)
  moreover have "\<exists>u. XY_DECL ''on_damage'' 8 4 ?as' = Some u"
    by (intro exI, rule iffD2 [OF conjunct1 [OF b]], intro exI [of _ ?ps'] conjI) auto
  ultimately show ?thesis by (metis not_None_eq)
qed

section \<open>Passing arguments\<close>

lemma those_lookup:
  assumes "distinct names" and "length vs = length names"
  shows "those (map (map_of (zip names vs)) names) = Some vs"
proof -
  have "those (map (map_of (zip names vs)) names) = Some (map (the \<circ> map_of (zip names vs)) names)"
  proof (rule those_map_Some)
    fix x assume "x \<in> set names"
    then obtain y where "map_of (zip names vs) x = Some y" using map_of_zip_is_Some [of names vs x] assms(2) by auto
    then show "map_of (zip names vs) x = Some ((the \<circ> map_of (zip names vs)) x)" by simp
  qed
  also have "map (the \<circ> map_of (zip names vs)) names = vs"
    using assms by (intro nth_equalityI) (simp_all add: map_of_zip_nth)
  finally show ?thesis .
qed

text \<open>(C26) What a caller passes is what every listener gets.  The declared function puts the values of its
  parameters into the struct in the order of the declaration, \<open>XY_CALL\<close> does the same with its
  arguments, and the adapter of any listener of the hook, given the address of the struct, calls
  the listener with exactly these values in this order.\<close>

theorem arguments_reach_listener:
  assumes "XY_DECL fname asz rsz args = Some u" and "length vs = length (u_params u)"
  shows "\<exists>st. decl_args zero args vs = Some st \<and> call_args zero args vs = Some st
    \<and> (\<forall>mem body fn arg s. cast_call args (mem(arg := Some st)) body fn arg s = body fn vs s)"
proof -
  from assms(1) obtain ps where fa: "XY_FA args = Some ps" and b: "body_names_ok ps" and ps5: "u_params u = ps"
    unfolding XY_DECL_def expansions_agree by (auto simp: bind_eq_Some_conv split: if_splits)
  from fa b ps5 have ps: "1 \<le> length ps" "length ps \<le> 16" "args = flat ps" "distinct (map snd ps)" "u_params u = ps"
    by (simp_all add: XY_FA_iff body_names_ok_def declared_names_ok_def)
  let ?st = "map_of (zip (map snd ps) vs)"
  have n: "length vs = length (map snd ps)" using assms(2) ps(5) by simp
  note lk = those_lookup [OF ps(4) n]
  have i: "init_struct zero ps vs = Some ?st" using n by (simp add: init_struct_def)
  note e = expansion_flat [OF ps(1,2)]
  have "decl_args zero args vs = Some ?st" using n lk i ps(4) b by (simp add: decl_args_def ps(3) e declared_names_ok_def)
  moreover have "call_args zero args vs = Some ?st" using i ps(4) by (simp add: call_args_def ps(3) e declared_names_ok_def)
  moreover have "cast_call args (mem(arg := Some ?st)) body fn arg s = body fn vs s" for mem body fn arg s
    using lk by (simp add: cast_call_def ps(3) e)
  ultimately show ?thesis by blast
qed

theorem arguments_reach_listener_witness:
  "\<exists>st. decl_args (\<lambda>_. 0) [''int'', ''player_id'', ''int'', ''amount''] [3, 7 :: nat] = Some st
    \<and> call_args (\<lambda>_. 0) [''int'', ''player_id'', ''int'', ''amount''] [3, 7 :: nat] = Some st
    \<and> cast_call [''int'', ''player_id'', ''int'', ''amount''] ((\<lambda>_. None)(40 := Some st)) (\<lambda>fn vs s. Some (map of_nat vs, s)) 100 40 (xy_boot :: nat xy_state)
      = Some ([3, 7], xy_boot)"
proof -
  let ?ps = "[(''int'', ''player_id''), (''int'', ''amount'')]"
  let ?args = "[''int'', ''player_id'', ''int'', ''amount'']"
  let ?u = "\<lparr>u_params = ?ps, u_members = ?ps, u_decl = Some (decl_adapter ''on_damage'' 8 4), u_impl = None\<rparr>"
  have "?args = flat ?ps" by simp
  then have "XY_DECL ''on_damage'' 8 4 ?args = Some ?u"
    using expansion_flat [of ?ps] by (simp add: XY_DECL_def declared_names_ok_def body_names_ok_def)
  note h = arguments_reach_listener [OF this, of "[3, 7 :: nat]" "\<lambda>_. 0"]
  have "length [3, 7 :: nat] = length (u_params ?u)" by simp
  from h [OF this] obtain st where st: "decl_args (\<lambda>_. 0) ?args [3, 7 :: nat] = Some st" "call_args (\<lambda>_. 0) ?args [3, 7 :: nat] = Some st"
    and c: "cast_call ?args ((\<lambda>_. None)(40 := Some st)) (\<lambda>fn vs s. Some (map of_nat vs, s)) 100 40 (xy_boot :: nat xy_state)
      = Some (map of_nat [3, 7], (xy_boot :: nat xy_state))" by blast
  from c have "cast_call ?args ((\<lambda>_. None)(40 := Some st)) (\<lambda>fn vs s. Some (map of_nat vs, s)) 100 40 (xy_boot :: nat xy_state)
      = Some ([3, 7], xy_boot)" by (simp only: list.map of_nat_numeral)
  with st show ?thesis by blast
qed

end
