(* ===== verification/Xy_Copy.thy ===== *)
theory Xy_Copy
  imports Xy_Prelude "HOL-Library.Sublist"
begin

text \<open>
  \<open>copy_one\<close> and \<open>copy_to_tmp\<close> of libxylem.c: the copy of an object to a temporary file, from which
  a reloaded module is opened.  Reads and writes may be short, and every call to the
  system may fail, the removal of a failed copy included; a copy that is reported is complete.
\<close>

section \<open>Files and the system\<close>

text \<open>A file system of regular files, and what the kernel answers next (\<open>kern\<close>).\<close>

record tmp_file =
  f_data :: "byte list"
  f_mode :: nat

record 'k io =
  files :: "string \<Rightarrow> tmp_file option"
  kern :: 'k

text \<open>The answers: the name \<open>mkstemps\<close> makes of a template, whether an existing file can be opened
  for reading, how many of at most \<open>n\<close> bytes a read or write transfers (negative: an error), the
  results of \<open>fchmod\<close>, \<open>fsync\<close> and \<open>unlink\<close>, and whether \<open>strdup\<close> gets its memory.\<close>

record 'k io_ops =
  io_temp :: "string \<Rightarrow> 'k \<Rightarrow> string option"
  io_open :: "string \<Rightarrow> 'k \<Rightarrow> bool"
  io_read :: "nat \<Rightarrow> 'k \<Rightarrow> int \<times> 'k"
  io_write :: "nat \<Rightarrow> 'k \<Rightarrow> int \<times> 'k"
  io_chmod :: "'k \<Rightarrow> int"
  io_fsync :: "'k \<Rightarrow> int"
  io_unlink :: "string \<Rightarrow> 'k \<Rightarrow> int \<times> 'k"
  io_strdup :: "'k \<Rightarrow> bool"

text \<open>\<open>mkstemps\<close> creates a file that did not exist.\<close>

definition mkstemps :: "'k io_ops \<Rightarrow> string \<Rightarrow> 'k io \<Rightarrow> (string \<times> 'k io) option" where
  "mkstemps W tmpl s = (case io_temp W tmpl (kern s) of
       None \<Rightarrow> None
     | Some f \<Rightarrow> if files s f \<noteq> None then None
         else Some (f, s\<lparr>files := (files s)(f \<mapsto> \<lparr>f_data = [], f_mode = 384\<rparr>)\<rparr>))"

text \<open>An \<open>unlink\<close> that fails leaves the file.\<close>

definition unlink_file :: "'k io_ops \<Rightarrow> string \<Rightarrow> 'k io \<Rightarrow> int \<times> 'k io" where
  "unlink_file W f s = (let (r, k) = io_unlink W f (kern s); s1 = s\<lparr>kern := k\<rparr> in
     (r, if r = 0 then s1\<lparr>files := (files s1)(f := None)\<rparr> else s1))"

definition append_file :: "string \<Rightarrow> byte list \<Rightarrow> 'k io \<Rightarrow> 'k io" where
  "append_file f bs s = s\<lparr>files := (files s)(f := map_option (\<lambda>x. x\<lparr>f_data := f_data x @ bs\<rparr>) (files s f))\<rparr>"

section \<open>The loops\<close>

text \<open>\<open>while (n > 0) { w = write(out_fd, p, n); if (w <= 0) goto out; ... }\<close>; a write transfers at most what
  it is given.\<close>

function write_all :: "'k io_ops \<Rightarrow> string \<Rightarrow> byte list \<Rightarrow> 'k io \<Rightarrow> bool \<times> 'k io" where
  "write_all W out p s = (if p = [] then (True, s)
     else (let (r, k) = io_write W (length p) (kern s); w = min (nat r) (length p); s1 = s\<lparr>kern := k\<rparr>
       in if r \<le> 0 then (False, s1)
          else write_all W out (drop w p) (append_file out (take w p) s1)))"
  by pat_completeness auto
termination
  by (relation "measure (\<lambda>(W, out, p, s). length p)") auto

text \<open>\<open>while ((n = read(in_fd, buf, sizeof(buf))) > 0) ...\<close>; \<open>rest\<close> is what the open file still holds.
  A read transfers at least one byte unless the file is at its end or the read fails.\<close>

function copy_loop :: "'k io_ops \<Rightarrow> string \<Rightarrow> byte list \<Rightarrow> 'k io \<Rightarrow> bool \<times> 'k io" where
  "copy_loop W out rest s = (let m = min 8192 (length rest); (r, k) = io_read W m (kern s); s1 = s\<lparr>kern := k\<rparr>
     in if r < 0 then (False, s1)
        else if rest = [] then (True, s1)
        else (let n = max 1 (min (nat r) m); (ok, s2) = write_all W out (take n rest) s1
          in if ok then copy_loop W out (drop n rest) s2 else (False, s2)))"
  by pat_completeness auto
termination
  by (relation "measure (\<lambda>(W, out, rest, s). length rest)") (auto simp: max_def)

declare write_all.simps [simp del] copy_loop.simps [simp del]

section \<open>One copy\<close>

text \<open>Between \<open>mkstemps\<close> and the label \<open>out\<close>; false for a jump to it.  The \<open>fsync\<close> of the directory at the
  end changes no file and its result is not used.\<close>

definition fill_copy :: "'k io_ops \<Rightarrow> string \<Rightarrow> string \<Rightarrow> 'k io \<Rightarrow> bool \<times> 'k io" where
  "fill_copy W src tmpl s = (case files s src of
       None \<Rightarrow> (False, s)
     | Some x \<Rightarrow>
         if \<not> io_open W src (kern s) then (False, s)
         else (let (ok, s1) = copy_loop W tmpl (f_data x) s in
           if \<not> ok then (False, s1)
           else if io_chmod W (kern s1) \<noteq> 0 then (False, s1)
           else (let s2 = s1\<lparr>files := (files s1)(tmpl := map_option (\<lambda>x. x\<lparr>f_mode := 493\<rparr>) (files s1 tmpl))\<rparr> in
             (io_fsync W (kern s2) = 0, s2))))"

text \<open>At the label \<open>out\<close> a failed copy is unlinked; the result of \<open>unlink\<close> is not looked at.\<close>

definition copy_one :: "'k io_ops \<Rightarrow> string \<Rightarrow> string \<Rightarrow> 'k io \<Rightarrow> int \<times> string option \<times> 'k io" where
  "copy_one W src tmpl_in s = (if length tmpl_in \<ge> 512 then (- 1, None, s)
     else (case mkstemps W tmpl_in s of
         None \<Rightarrow> (- 1, None, s)
       | Some (tmpl, s1) \<Rightarrow> (let (ok, s2) = fill_copy W src tmpl s1 in
           if ok then (0, if io_strdup W (kern s2) then Some tmpl else None, s2)
           else (- 1, None, snd (unlink_file W tmpl s2)))))"

text \<open>\<open>strrchr(src, '/') - src\<close>.\<close>

definition dir_length :: "string \<Rightarrow> nat option" where
  "dir_length src = (if CHR ''/'' \<in> set src
     then Some (length src - 1 - length (takeWhile (\<lambda>c. c \<noteq> CHR ''/'') (rev src))) else None)"

text \<open>The places that are tried: beside the object, in \<open>/tmp\<close>, in \<open>./tmp\<close>.\<close>

definition copy_places :: "string \<Rightarrow> string list" where
  "copy_places src = (case dir_length src of
       Some n \<Rightarrow> if n + 32 < 512 then [take n src @ ''/.xylem-XXXXXX.so''] else []
     | None \<Rightarrow> []) @ [''/tmp/xylem-XXXXXX.so'', ''./tmp/xylem-XXXXXX.so'']"

primrec copy_first :: "'k io_ops \<Rightarrow> string \<Rightarrow> string list \<Rightarrow> 'k io \<Rightarrow> int \<times> string option \<times> 'k io" where
  "copy_first W src [] s = (- 1, None, s)"
| "copy_first W src (tmpl # ts) s = (let (rc, out, s1) = copy_one W src tmpl s in
     if rc = 0 then (0, out, s1) else copy_first W src ts s1)"

definition copy_to_tmp :: "'k io_ops \<Rightarrow> string \<Rightarrow> 'k io \<Rightarrow> int \<times> string option \<times> 'k io" where
  "copy_to_tmp W src s = copy_first W src (copy_places src) s"

section \<open>What the loops do\<close>

text \<open>\<open>grown out bs s t\<close>: of the files only \<open>out\<close> differs, and it has grown by \<open>bs\<close>.\<close>

definition grown :: "string \<Rightarrow> byte list \<Rightarrow> 'k io \<Rightarrow> 'k io \<Rightarrow> bool" where
  "grown out bs s t \<longleftrightarrow> files t = files (append_file out bs s)"

lemma grown_nil: "grown out [] s (s\<lparr>kern := k\<rparr>)"
  by (cases "files s out") (auto simp: grown_def append_file_def fun_eq_iff)

lemma grown_trans: "grown out as s t \<Longrightarrow> grown out bs t u \<Longrightarrow> grown out (as @ bs) s u"
  by (cases "files s out") (auto simp: grown_def append_file_def fun_eq_iff)

lemma grown_append: "grown out bs s (append_file out bs (s\<lparr>kern := k\<rparr>))"
  by (simp add: grown_def append_file_def)

text \<open>Whatever has been written is a beginning of what there was to write.\<close>

lemma write_all_grown: "write_all W out p s = (ok, t) \<Longrightarrow> \<exists>q. grown out q s t \<and> prefix q p \<and> (ok \<longrightarrow> q = p)"
proof (induction W out p s arbitrary: ok t rule: write_all.induct)
  case (1 W out p s)
  obtain r k where r: "io_write W (length p) (kern s) = (r, k)" by fastforce
  show ?case
  proof (cases "p = [] \<or> r \<le> 0")
    case True
    with "1.prems" r show ?thesis
      using grown_nil [of out s k] grown_nil [of out s "kern s"] by (subst (asm) write_all.simps) (auto split: if_splits)
  next
    case False
    let ?w = "min (nat r) (length p)" and ?s1 = "s\<lparr>kern := k\<rparr>"
    let ?s2 = "append_file out (take ?w p) ?s1"
    have rec: "write_all W out (drop ?w p) ?s2 = (ok, t)"
      using "1.prems" r False by (subst (asm) write_all.simps) (simp add: Let_def)
    from "1.IH" [OF _ r [symmetric] refl refl refl _ rec] False obtain q where
      q: "grown out q ?s2 t" "prefix q (drop ?w p)" "ok \<longrightarrow> q = drop ?w p" by auto
    from grown_trans [OF grown_append q(1)] have "grown out (take ?w p @ q) s t" .
    moreover have "prefix (take ?w p @ q) p" using q(2) same_prefix_prefix [of "take ?w p" q "drop ?w p"] by simp
    ultimately show ?thesis using q(3) by (metis append_take_drop_id)
  qed
qed

lemma copy_loop_grown: "copy_loop W out rest s = (ok, t) \<Longrightarrow> \<exists>q. grown out q s t \<and> prefix q rest \<and> (ok \<longrightarrow> q = rest)"
proof (induction W out rest s arbitrary: ok t rule: copy_loop.induct)
  case (1 W out rest s)
  let ?m = "min 8192 (length rest)"
  obtain r k where r: "io_read W ?m (kern s) = (r, k)" by fastforce
  let ?s1 = "s\<lparr>kern := k\<rparr>" and ?n = "max 1 (min (nat r) ?m)"
  show ?case
  proof (cases "r < 0 \<or> rest = []")
    case True
    with "1.prems" r grown_nil [of out s k] show ?thesis by (subst (asm) copy_loop.simps) (auto simp: Let_def split: if_splits)
  next
    case False
    obtain ok1 s2 where w: "write_all W out (take ?n rest) ?s1 = (ok1, s2)" by fastforce
    from write_all_grown [OF w] obtain q where q: "grown out q ?s1 s2" "prefix q (take ?n rest)" "ok1 \<longrightarrow> q = take ?n rest" by blast
    have q1: "grown out q s s2" using grown_trans [OF grown_nil q(1)] by simp
    have q2: "prefix q rest" using q(2) take_is_prefix prefix_order.trans by blast
    show ?thesis
    proof (cases ok1)
      case False
      with "1.prems" r w \<open>\<not> (r < 0 \<or> rest = [])\<close> have "ok = False \<and> t = s2"
        by (subst (asm) copy_loop.simps) (simp add: Let_def)
      with q1 q2 show ?thesis by blast
    next
      case True
      have rec: "copy_loop W out (drop ?n rest) s2 = (ok, t)"
        using "1.prems" r w \<open>\<not> (r < 0 \<or> rest = [])\<close> True by (subst (asm) copy_loop.simps) (simp add: Let_def)
      from "1.IH" [OF refl r [symmetric] refl refl _ _ refl w [symmetric] refl True rec] False obtain q' where
        q': "grown out q' s2 t" "prefix q' (drop ?n rest)" "ok \<longrightarrow> q' = drop ?n rest" by auto
      have "prefix (q @ q') rest" using q(3) True q'(2) same_prefix_prefix [of "take ?n rest" q' "drop ?n rest"] by simp
      with grown_trans [OF q1 q'(1)] q(3) q'(3) True show ?thesis by (metis append_take_drop_id)
    qed
  qed
qed

definition created :: "string \<Rightarrow> nat \<Rightarrow> byte list \<Rightarrow> 'k io \<Rightarrow> 'k io \<Rightarrow> bool" where
  "created f mode bs s t \<longleftrightarrow> files s f = None \<and> files t = (files s)(f \<mapsto> \<lparr>f_data = bs, f_mode = mode\<rparr>)"

lemma created_grown: "created f m as s t \<Longrightarrow> grown f bs t u \<Longrightarrow> created f m (as @ bs) s u"
  by (auto simp: created_def grown_def append_file_def fun_eq_iff)

text \<open>\<open>leftover W src bs s t f\<close>: between \<open>s\<close> and \<open>t\<close> a failed copy of the bytes \<open>bs\<close> has been left under the name
  \<open>f\<close>, because the \<open>unlink\<close> at the end of the attempt that made it failed too.\<close>

definition unlink_failed :: "'k io_ops \<Rightarrow> string \<Rightarrow> string \<Rightarrow> bool" where
  "unlink_failed W src f \<longleftrightarrow> (\<exists>tmpl \<in> set (copy_places src). \<exists>v v1 v2. mkstemps W tmpl v = Some (f, v1)
     \<and> fill_copy W src f v1 = (False, v2) \<and> fst (unlink_file W f v2) \<noteq> 0)"

definition leftover :: "'k io_ops \<Rightarrow> string \<Rightarrow> byte list \<Rightarrow> 'k io \<Rightarrow> 'k io \<Rightarrow> string \<Rightarrow> bool" where
  "leftover W src bs s t f \<longleftrightarrow> files s f = None \<and> (\<exists>y. files t f = Some y \<and> prefix (f_data y) bs) \<and> unlink_failed W src f"

definition cleaned :: "'k io_ops \<Rightarrow> string \<Rightarrow> byte list \<Rightarrow> 'k io \<Rightarrow> 'k io \<Rightarrow> bool" where
  "cleaned W src bs s t \<longleftrightarrow> (\<forall>f. files t f = files s f \<or> leftover W src bs s t f)"

lemma cleaned_same: "files t = files s \<Longrightarrow> cleaned W src bs s t"
  by (simp add: cleaned_def)

lemma cleaned_trans:
  assumes "cleaned W src bs s t" and "cleaned W src bs t u"
  shows "cleaned W src bs s u"
  unfolding cleaned_def
proof
  fix f show "files u f = files s f \<or> leftover W src bs s u f"
    using assms(1) [unfolded cleaned_def, rule_format, of f] assms(2) [unfolded cleaned_def, rule_format, of f]
    by (auto simp: leftover_def)
qed

lemma cleaned_keeps: "cleaned W src bs s t \<Longrightarrow> files s f = Some x \<Longrightarrow> files t f = Some x"
  unfolding cleaned_def leftover_def by (metis option.distinct(1))

lemma unlink_cleans:
  assumes "created f m q s t" and "prefix q bs" and "fst (unlink_file W f t) \<noteq> 0 \<Longrightarrow> unlink_failed W src f"
  shows "cleaned W src bs s (snd (unlink_file W f t))"
proof -
  obtain r k where r: "io_unlink W f (kern t) = (r, k)" by fastforce
  with assms show ?thesis by (auto simp: unlink_file_def Let_def cleaned_def leftover_def created_def)
qed

lemma mkstemps_created: "mkstemps W tmpl s = Some (f, t) \<Longrightarrow> created f 384 [] s t"
  by (auto simp: mkstemps_def created_def split: option.splits if_splits)

lemma fill_copy_created:
  assumes "created f 384 [] s t" and "files s src = Some x" and "fill_copy W src f t = (ok, u)"
  shows "\<exists>m q. created f m q s u \<and> prefix q (f_data x) \<and> (ok \<longrightarrow> m = 493 \<and> q = f_data x)"
proof -
  from assms(1,2) have x: "files t src = Some x" by (auto simp: created_def)
  show ?thesis
  proof (cases "io_open W src (kern t)")
    case False
    then show ?thesis using assms(1,3) x by (auto simp: fill_copy_def intro!: exI [of _ 384] exI [of _ "[]"])
  next
    case True
    obtain ok1 v where l: "copy_loop W f (f_data x) t = (ok1, v)" by fastforce
    from copy_loop_grown [OF l] obtain q where q: "grown f q t v" "prefix q (f_data x)" "ok1 \<longrightarrow> q = f_data x" by blast
    have c: "created f 384 q s v" using created_grown [OF assms(1) q(1)] by simp
    let ?v = "v\<lparr>files := (files v)(f := map_option (\<lambda>x. x\<lparr>f_mode := 493\<rparr>) (files v f))\<rparr>"
    have "created f 493 q s ?v" using c by (auto simp: created_def fun_eq_iff)
    moreover have "u = v \<and> \<not> ok \<or> ok1 \<and> u = ?v"
      using assms(3) x True l by (auto simp: fill_copy_def Let_def split: if_splits)
    ultimately show ?thesis using c q(2,3) by blast
  qed
qed

lemma copy_one_cases:
  assumes "copy_one W src tmpl s = (rc, out, t)" and "files s src = Some x" and "tmpl \<in> set (copy_places src)"
  shows "rc = 0 \<and> (\<exists>f. created f 493 (f_data x) s t \<and> (out = Some f \<or> out = None))
    \<or> rc = - 1 \<and> out = None \<and> cleaned W src (f_data x) s t"
proof (cases "length tmpl \<ge> 512 \<or> mkstemps W tmpl s = None")
  case True
  with assms(1) show ?thesis by (auto simp: copy_one_def cleaned_same split: if_splits)
next
  case False
  then obtain f s1 where f: "mkstemps W tmpl s = Some (f, s1)" by auto
  obtain ok u where u: "fill_copy W src f s1 = (ok, u)" by fastforce
  from fill_copy_created [OF mkstemps_created [OF f] assms(2) u] obtain m q where
    m: "created f m q s u" "prefix q (f_data x)" "ok \<longrightarrow> m = 493 \<and> q = f_data x" by blast
  have fl: "unlink_failed W src f" if "\<not> ok" "fst (unlink_file W f u) \<noteq> 0"
    unfolding unlink_failed_def using assms(3) f u that by (intro bexI [of _ tmpl] exI conjI) auto
  have "\<not> ok \<Longrightarrow> cleaned W src (f_data x) s (snd (unlink_file W f u))" by (rule unlink_cleans [OF m(1,2)]) (rule fl)
  with assms(1) False f u m show ?thesis by (auto simp: copy_one_def split: if_splits)
qed

lemma copy_first_cases:
  assumes "files s src = Some x"
  shows "copy_first W src ts s = (rc, out, t) \<Longrightarrow> set ts \<subseteq> set (copy_places src) \<Longrightarrow>
      rc = 0 \<and> (\<exists>v f. cleaned W src (f_data x) s v \<and> created f 493 (f_data x) v t \<and> (out = Some f \<or> out = None))
    \<or> rc = - 1 \<and> out = None \<and> cleaned W src (f_data x) s t"
  using assms
proof (induction ts arbitrary: s)
  case (Cons tmpl ts)
  obtain rc1 out1 s1 where c: "copy_one W src tmpl s = (rc1, out1, s1)" by (metis prod_cases3)
  from copy_one_cases [OF c Cons.prems(3)] Cons.prems(2) have "rc1 = 0 \<and> (\<exists>f. created f 493 (f_data x) s s1 \<and> (out1 = Some f \<or> out1 = None))
      \<or> rc1 = - 1 \<and> out1 = None \<and> cleaned W src (f_data x) s s1" by simp
  then show ?case
  proof
    assume "rc1 = 0 \<and> (\<exists>f. created f 493 (f_data x) s s1 \<and> (out1 = Some f \<or> out1 = None))"
    with Cons.prems(1) c show ?thesis using cleaned_same [OF refl, of W src "f_data x" s] by auto
  next
    assume a: "rc1 = - 1 \<and> out1 = None \<and> cleaned W src (f_data x) s s1"
    with Cons.prems c cleaned_keeps have "copy_first W src ts s1 = (rc, out, t)" "set ts \<subseteq> set (copy_places src)"
      "files s1 src = Some x" by fastforce+
    from Cons.IH [OF this] a show ?thesis using cleaned_trans by blast
  qed
qed (simp add: cleaned_same)

section \<open>When nothing fails\<close>

text \<open>The calls on open files succeed, however short their transfers.\<close>

definition willing :: "'k io_ops \<Rightarrow> bool" where
  "willing W \<longleftrightarrow> (\<forall>f k. io_open W f k) \<and> (\<forall>n k. 0 \<le> fst (io_read W n k)) \<and> (\<forall>n k. 0 < n \<longrightarrow> 0 < fst (io_write W n k))
     \<and> (\<forall>k. io_chmod W k = 0) \<and> (\<forall>k. io_fsync W k = 0) \<and> (\<forall>k. io_strdup W k)"

lemma write_all_willing: "willing W \<Longrightarrow> fst (write_all W out p s)"
proof (induction W out p s rule: write_all.induct)
  case (1 W out p s)
  obtain r k where r: "io_write W (length p) (kern s) = (r, k)" by fastforce
  show ?case
  proof (cases "p = []")
    case False
    with "1.prems" have "\<not> r \<le> 0" using r unfolding willing_def by (metis fst_conv length_greater_0_conv not_le)
    with "1.IH" [OF False r [symmetric] refl refl refl this "1.prems"] False r show ?thesis
      by (subst write_all.simps) (simp add: Let_def)
  qed (simp add: write_all.simps)
qed

lemma copy_loop_willing: "willing W \<Longrightarrow> fst (copy_loop W out rest s)"
proof (induction W out rest s rule: copy_loop.induct)
  case (1 W out rest s)
  let ?m = "min 8192 (length rest)"
  obtain r k where r: "io_read W ?m (kern s) = (r, k)" by fastforce
  let ?n = "max 1 (min (nat r) ?m)"
  have r0: "\<not> r < 0" using "1.prems" r unfolding willing_def by (metis fst_conv not_less)
  show ?case
  proof (cases "rest = []")
    case True
    with r r0 show ?thesis by (subst copy_loop.simps) (simp add: Let_def)
  next
    case False
    obtain ok s2 where w: "write_all W out (take ?n rest) (s\<lparr>kern := k\<rparr>) = (ok, s2)" by fastforce
    with write_all_willing [OF "1.prems"] have ok: ok by (metis fst_conv)
    with "1.IH" [OF refl r [symmetric] refl refl r0 False refl w [symmetric] refl ok "1.prems"] False r r0 w show ?thesis
      by (subst copy_loop.simps) (simp add: Let_def)
  qed
qed

lemma copy_places_short: "u \<in> set (copy_places src) \<Longrightarrow> length u < 512"
  by (auto simp: copy_places_def split: option.splits if_splits)

lemma copy_one_willing:
  assumes "willing W" and "files s src = Some x" and "length tmpl < 512" and "mkstemps W tmpl s = Some (f, s1)"
  shows "\<exists>t. copy_one W src tmpl s = (0, Some f, t)"
proof -
  from mkstemps_created [OF assms(4)] assms(2) have x: "files s1 src = Some x" by (auto simp: created_def)
  from copy_loop_willing [OF assms(1)] obtain s2 where l: "copy_loop W f (f_data x) s1 = (True, s2)" by (metis prod.collapse)
  show ?thesis using assms(1,3,4) x l by (simp add: copy_one_def fill_copy_def willing_def Let_def)
qed

text \<open>A template from which a name can be made at any time.\<close>

definition usable :: "'k io_ops \<Rightarrow> (string \<Rightarrow> tmp_file option) \<Rightarrow> string \<Rightarrow> bool" where
  "usable W fs tmpl \<longleftrightarrow> (\<forall>k. \<exists>f. io_temp W tmpl k = Some f \<and> fs f = None)"

lemma copy_first_willing:
  assumes W: "willing W"
  shows "files s src = Some x \<Longrightarrow> tmpl \<in> set ts \<Longrightarrow> set ts \<subseteq> set (copy_places src) \<Longrightarrow> usable W (files s) tmpl
    \<Longrightarrow> \<exists>f t. copy_first W src ts s = (0, Some f, t) \<and> created f 493 (f_data x) s t"
proof (induction ts arbitrary: s)
  case (Cons u ts)
  show ?case
  proof (cases "mkstemps W u s")
    case (Some p)
    then obtain f s1 where "mkstemps W u s = Some (f, s1)" by (cases p) auto
    from copy_one_willing [OF W Cons.prems(1) copy_places_short this] Cons.prems(3) obtain t where t: "copy_one W src u s = (0, Some f, t)" by auto
    from copy_one_cases [OF t Cons.prems(1)] Cons.prems(3) t show ?thesis by simp
  next
    case None
    from Cons.prems(4) obtain f where "io_temp W tmpl (kern s) = Some f" "files s f = None" unfolding usable_def by blast
    then have "mkstemps W tmpl s \<noteq> None" by (simp add: mkstemps_def)
    with None have "u \<noteq> tmpl" by auto
    moreover have "copy_one W src u s = (- 1, None, s)" using None Cons.prems(3) copy_places_short [of u src] by (simp add: copy_one_def)
    ultimately show ?thesis using Cons.IH [OF Cons.prems(1) _ _ Cons.prems(4)] Cons.prems(2,3) by simp
  qed
qed simp

section \<open>Theorems\<close>

text \<open>(C28) What the copy for a reload leaves in the file system, whichever system calls fail and however short
  the reads and writes are.  Either \<open>copy_to_tmp\<close> returns 0, and under a name that was free there is a
  file with exactly the contents of the object and mode 0755, or it returns -1.  No file that
  existed is removed or changed.  Any other new file is a beginning of the object, left by a
  failed attempt whose \<open>unlink\<close> failed as well, which the code does not notice; so where
  \<open>unlink\<close> works, the copy is complete or leaves no trace.\<close>

theorem copy_complete_or_no_trace:
  assumes "files s src = Some x"
  shows "\<exists>rc out t. copy_to_tmp W src s = (rc, out, t)
    \<and> (rc = 0 \<and> (\<exists>f. files s f = None \<and> files t f = Some \<lparr>f_data = f_data x, f_mode = 493\<rparr>
           \<and> (\<forall>g. g \<noteq> f \<longrightarrow> files t g = files s g \<or> leftover W src (f_data x) s t g)
           \<and> ((\<forall>g k. fst (io_unlink W g k) = 0) \<longrightarrow> files t = (files s)(f \<mapsto> \<lparr>f_data = f_data x, f_mode = 493\<rparr>))
           \<and> (out = Some f \<or> out = None))
       \<or> rc = - 1 \<and> out = None \<and> (\<forall>g. files t g = files s g \<or> leftover W src (f_data x) s t g)
           \<and> ((\<forall>g k. fst (io_unlink W g k) = 0) \<longrightarrow> files t = files s))"
proof -
  obtain rc out t where c: "copy_to_tmp W src s = (rc, out, t)" by (metis prod_cases3)
  have all: "files v = files s" if "cleaned W src (f_data x) s v" "\<forall>g k. fst (io_unlink W g k) = 0" for v
    using that by (auto simp: cleaned_def leftover_def unlink_failed_def unlink_file_def Let_def case_prod_unfold)
  from c copy_first_cases [OF assms, of W "copy_places src" rc out t] consider
      v f where "rc = 0" "out = Some f \<or> out = None" "cleaned W src (f_data x) s v" "created f 493 (f_data x) v t"
    | "rc = - 1" "out = None" "cleaned W src (f_data x) s t" by (auto simp: copy_to_tmp_def)
  then show ?thesis
  proof cases
    case 1
    from 1(4) have f: "files v f = None" "files t = (files v)(f \<mapsto> \<lparr>f_data = f_data x, f_mode = 493\<rparr>)" by (simp_all add: created_def)
    have "files s f = None" using cleaned_keeps [OF 1(3), of f] f(1) by (cases "files s f") auto
    moreover have "files t g = files s g \<or> leftover W src (f_data x) s t g" if "g \<noteq> f" for g
      using 1(3) that f(2) by (auto simp: cleaned_def leftover_def)
    ultimately show ?thesis using c 1(1,2) f(2) all [OF 1(3)] by auto
  next
    case 2
    with c all show ?thesis by (auto simp: cleaned_def)
  qed
qed

text \<open>(C29) When the calls on open files succeed, however short their transfers, and one of the three places
  can hold a new file, \<open>copy_to_tmp\<close> returns with a complete copy: the loops end and no failed
  attempt at an earlier place prevents it.\<close>

theorem copy_succeeds_with_short_transfers:
  assumes "willing W" and "files s src = Some x" and "tmpl \<in> set (copy_places src)" and "usable W (files s) tmpl"
  shows "\<exists>f t. copy_to_tmp W src s = (0, Some f, t) \<and> files s f = None
    \<and> files t = (files s)(f \<mapsto> \<lparr>f_data = f_data x, f_mode = 493\<rparr>)"
proof -
  from copy_first_willing [OF assms(1-3) subset_refl assms(4)] obtain f t where
    "copy_first W src (copy_places src) s = (0, Some f, t)" "created f 493 (f_data x) s t" by blast
  then show ?thesis by (auto simp: copy_to_tmp_def created_def)
qed

text \<open>A system that transfers one byte at a time, can make names in \<open>./tmp\<close> only, and removes nothing.\<close>

definition demo_io :: "unit io_ops" where
  "demo_io = \<lparr>io_temp = (\<lambda>tmpl _. if take 1 tmpl = ''.'' then Some ''t'' else None), io_open = (\<lambda>_ _. True),
     io_read = (\<lambda>_ k. (1, k)), io_write = (\<lambda>_ k. (1, k)), io_chmod = (\<lambda>_. 0), io_fsync = (\<lambda>_. 0), io_unlink = (\<lambda>_ k. (- 1, k)), io_strdup = (\<lambda>_. True)\<rparr>"

definition demo_files :: "unit io" where
  "demo_files = \<lparr>files = [''d/m.so'' \<mapsto> \<lparr>f_data = [1, 2, 3], f_mode = 420\<rparr>], kern = ()\<rparr>"

theorem copy_complete_or_no_trace_witness:
  "\<exists>rc out t. copy_to_tmp demo_io ''d/m.so'' demo_files = (rc, out, t)
    \<and> (rc = 0 \<and> (\<exists>f. files t f = Some \<lparr>f_data = [1, 2, 3], f_mode = 493\<rparr>)
       \<or> rc = - 1 \<and> (\<forall>g. files t g = files demo_files g \<or> leftover demo_io ''d/m.so'' [1, 2, 3] demo_files t g))"
proof -
  have "files demo_files ''d/m.so'' = Some \<lparr>f_data = [1, 2, 3], f_mode = 420\<rparr>" by (simp add: demo_files_def)
  from copy_complete_or_no_trace [OF this, of demo_io] show ?thesis by fastforce
qed

theorem copy_succeeds_with_short_transfers_witness:
  "\<exists>f t. copy_to_tmp demo_io ''d/m.so'' demo_files = (0, Some f, t)
    \<and> files t f = Some \<lparr>f_data = [1, 2, 3], f_mode = 493\<rparr>"
proof -
  have a: "willing demo_io" by (simp add: willing_def demo_io_def)
  have b: "files demo_files ''d/m.so'' = Some \<lparr>f_data = [1, 2, 3], f_mode = 420\<rparr>" by (simp add: demo_files_def)
  have c: "''./tmp/xylem-XXXXXX.so'' \<in> set (copy_places ''d/m.so'')" by (simp add: copy_places_def)
  have d: "usable demo_io (files demo_files) ''./tmp/xylem-XXXXXX.so''" by (simp add: usable_def demo_io_def demo_files_def)
  from copy_succeeds_with_short_transfers [OF a b c d] show ?thesis by fastforce
qed

end
