(* ===== verification/Xy_Loader.thy ===== *)
theory Xy_Loader
  imports Xy_Claim Xy_Hooks
begin

text \<open>
  Loading a module (src/libxylem.c and src/libxylem-module.c).  A load is a transaction:
  the steps \<open>mod_load_*\<close> fill in an \<open>xy_load_txn\<close>, and when one of them fails
  \<open>mod_load_abort\<close> takes everything back that the transaction has recorded.

  \<open>dlopen\<close> runs the constructors of the object; objects are opened with RTLD_NODELETE, so
  that \<open>dlclose\<close> changes nothing the library can see, and it is left out, as are the
  removal of temporary copies and the release of strings.
\<close>

section \<open>The transaction\<close>

record xy_load_txn =
  tx_lookup :: xy_lookup_result
  tx_handle :: "dlhandle option"
  stable_fname :: "string option"
  stable_key :: "string option"
  interned_load_path :: "sptr option"
  tx_tmp_load_path :: "string option"
  tx_mod_entry :: "mptr option"
  inherited_reg :: "rptr option"
  inherited_region_id :: u64
  prev_region_id :: u64
  prev_region_entry :: "rptr option"
  published_entry :: bool
  context_active :: bool

definition tx_zero :: "u64 \<Rightarrow> xy_load_txn" where
  "tx_zero rid = \<lparr>tx_lookup = \<lparr>lk_load_path = None, lk_key = None, lk_entry = None, lk_err = XY_OK\<rparr>,
     tx_handle = None, stable_fname = None, stable_key = None, interned_load_path = None,
     tx_tmp_load_path = None, tx_mod_entry = None, inherited_reg = None, inherited_region_id = rid,
     prev_region_id = 0, prev_region_entry = None, published_entry = False, context_active = False\<rparr>"

definition module_lookup_result_free :: "xy_lookup_result \<Rightarrow> xy_lookup_result" where
  "module_lookup_result_free l = l\<lparr>lk_key := None, lk_load_path := None\<rparr>"

text \<open>A step gives a code, the transaction and the state; the next step runs after \<open>XY_OK\<close>.\<close>

type_synonym 'q tx_step = "xy_load_txn \<Rightarrow> 'q xy_state \<Rightarrow> (int \<times> xy_load_txn \<times> 'q xy_state) option"

definition tx_then :: "'q tx_step \<Rightarrow> 'q tx_step \<Rightarrow> 'q tx_step" where
  "tx_then f g tx s = (do {
     (ret, tx1, s1) \<leftarrow> f tx s;
     if ret \<noteq> XY_OK then Some (ret, tx1, s1) else g tx1 s1 })"

section \<open>Opening\<close>

text \<open>\<open>dlopen\<close> of the file, or of a copy during a reload.\<close>

definition open_file :: "'q env \<Rightarrow> string \<Rightarrow> string option \<Rightarrow> 'q tx_step" where
  "open_file E file tmp tx s = (do {
     (h, s1) \<leftarrow> e_dlopen E file s;
     (case h of
        None \<Rightarrow> Some (XY_ERR_NOTFOUND, tx\<lparr>tx_lookup := module_lookup_result_free (tx_lookup tx)\<rparr>, s1)
      | Some _ \<Rightarrow> Some (XY_OK, tx\<lparr>tx_handle := h, tx_tmp_load_path := tmp\<rparr>, s1)) })"

definition mod_load_open_handle :: "'q env \<Rightarrow> 'q qmap_ops \<Rightarrow> string \<Rightarrow> 'q tx_step" where
  "mod_load_open_handle E Q fname tx0 s =
     (let lk = module_lookup_from_fname E Q fname (inherited_region_id tx0) s;
          tx = tx0\<lparr>tx_lookup := lk\<rparr>
      in if lk_err lk \<noteq> XY_OK then Some (lk_err lk, tx, s)
         else case lk_load_path lk of
             None \<Rightarrow> Some (XY_ERR_INVALID, tx, s)
           | Some path \<Rightarrow>
               (case (if xy_reloading s then e_copy_tmp E path s else None) of
                  Some tmp \<Rightarrow> open_file E tmp (Some tmp) tx s
                | None \<Rightarrow> open_file E path (tx_tmp_load_path tx) tx s))"

definition mod_load_try_reuse_existing :: "xy_load_txn \<Rightarrow> 'q xy_state
    \<Rightarrow> (bool \<times> xy_load_txn \<times> 'q xy_state) option" where
  "mod_load_try_reuse_existing tx s = (case lk_entry (tx_lookup tx) of
       None \<Rightarrow> Some (False, tx, s)
     | Some existing \<Rightarrow> do {
         s1 \<leftarrow> upd_mod existing (\<lambda>e. e\<lparr>refcount := refcount e + 1\<rparr>) s;
         Some (True, tx\<lparr>tx_handle := None, tx_tmp_load_path := None,
           tx_lookup := module_lookup_result_free (tx_lookup tx)\<rparr>, s1) })"

section \<open>The steps of the transaction\<close>

definition mod_zero :: xy_mod_entry where
  "mod_zero = \<lparr>me_ctx = None, region_next = None, fn_cache = [], region_state = None, load_path = None,
     me_handle = None, region_entry = None, me_region_id = 0, region_prev = None, refcount = 0,
     parent_entry = None, hook_impl_bits = [], me_mod_key = [], tmp_load_path = None\<rparr>"

definition alloc_mod :: "xy_mod_entry \<Rightarrow> 'q xy_state \<Rightarrow> mptr \<times> 'q xy_state" where
  "alloc_mod e s = (next_addr s, s\<lparr>mods := (mods s)(next_addr s \<mapsto> e), next_addr := next_addr s + 1\<rparr>)"

definition mod_load_alloc_entry :: "'q env \<Rightarrow> 'q qmap_ops \<Rightarrow> string \<Rightarrow> 'q tx_step" where
  "mod_load_alloc_entry E Q fname tx0 s =
     (let tx = tx0\<lparr>stable_fname := (if e_malloc E s (AllocStr (length fname + 1)) then Some fname else None)\<rparr> in
      if stable_fname tx = None \<or> lk_key (tx_lookup tx) = None then Some (XY_ERR_INVALID, tx, s)
      else
        let (path, s1) = module_path_intern Q (lk_load_path (tx_lookup tx)) s;
            tx1 = tx\<lparr>stable_key := lk_key (tx_lookup tx), interned_load_path := path,
                     tx_lookup := module_lookup_result_free (tx_lookup tx)\<rparr>
        in if path = None then Some (XY_ERR_INVALID, tx1, s1)
           else if \<not> e_malloc E s1 AllocMod then Some (XY_ERR_INVALID, tx1, s1)
           else do {
             key \<leftarrow> stable_key tx1;
             let (m, s2) = alloc_mod (mod_zero\<lparr>me_handle := tx_handle tx1, me_region_id := inherited_region_id tx1,
                 refcount := 1, parent_entry := xy_loading_mod s1, me_mod_key := key, load_path := path,
                 tmp_load_path := tx_tmp_load_path tx1\<rparr>) s1;
             Some (XY_OK, tx1\<lparr>tx_mod_entry := Some m, tx_tmp_load_path := None\<rparr>, s2) })"

definition mod_load_publish_entry :: "'q qmap_ops \<Rightarrow> 'q tx_step" where
  "mod_load_publish_entry Q tx s = (do {
     m \<leftarrow> tx_mod_entry tx;
     key \<leftarrow> stable_key tx;
     e \<leftarrow> mods s m;
     h \<leftarrow> mod_hd s;
     rh \<leftarrow> mod_by_region_hd s;
     Some (XY_OK, tx\<lparr>published_entry := True\<rparr>,
       s\<lparr>mod_hd := Some (qmap_put Q h (KBlob key) (VPtr m)),
         mod_by_region_hd := Some (mmap_put Q rh (KId (me_region_id e)) (VPtr m))\<rparr>) })"

text \<open>The data a module's \<open>xy_t\<close> has in a freshly mapped object.\<close>

definition ctx_zero :: xy_ctx where
  "ctx_zero = \<lparr>ctx_api = (\<lambda>_. None), ctx_adapter = None, ctx_module_path = None, ctx_region_id = 0, ctx_region_state = None\<rparr>"

text \<open>The assignments of \<open>_xy_init\<close> to the function pointers, in their order; \<open>err\<close> and \<open>strerror\<close> are not
  among them.\<close>

definition xy_init_fns :: "(ctx_field \<times> host_fn) list" where
  "xy_init_fns = [(FCall, H_xy_call), (FAreg, H_xy_areg), (FLoad, H_xy_load), (FLast, H_xy_last),
     (FShutdown, H_xy_shutdown), (FDeny, H_xy_deny), (FRequireClaim, H_xy_require_claim),
     (FRegionEach, H_xy_region_each), (FWithRegion, H_xy_with_region), (FCurrentRegion, H_xy_current_region),
     (FUnload, H_xy_unload), (FReload, H_xy_reload)]"

definition xy_init_ctx :: "string option \<Rightarrow> u64 \<Rightarrow> xy_ctx \<Rightarrow> xy_ctx" where
  "xy_init_ctx fname rid x = x\<lparr>ctx_api := fold (\<lambda>(f, h) a. a(f \<mapsto> h)) xy_init_fns (ctx_api x), ctx_module_path := fname, ctx_region_id := rid\<rparr>"

definition run_xy_init :: "cptr \<Rightarrow> string option \<Rightarrow> u64 \<Rightarrow> 'q xy_state \<Rightarrow> 'q xy_state" where
  "run_xy_init c fname rid s = s\<lparr>ctxs := (ctxs s)(c \<mapsto>
     xy_init_ctx fname rid (case ctxs s c of None \<Rightarrow> ctx_zero | Some x \<Rightarrow> x))\<rparr>"

definition mod_load_bind_xy :: "'q env \<Rightarrow> 'q tx_step" where
  "mod_load_bind_xy E tx s = (do {
     h \<leftarrow> tx_handle tx;
     m \<leftarrow> tx_mod_entry tx;
     let get_xy = e_dlsym E h ''get_xy_ptr'';
     let own = (if get_xy \<noteq> 0 then e_ctx E get_xy else None);
     let ctx = (if own = None then xy_pending_ctx s else own);
     let s1 = s\<lparr>xy_pending_ctx := None\<rparr>;
     (case ctx of
        None \<Rightarrow> Some (XY_OK, tx, s1)
      | Some c \<Rightarrow> do {
          s2 \<leftarrow> upd_mod m (\<lambda>e. e\<lparr>me_ctx := Some c\<rparr>) (run_xy_init c (stable_fname tx) (inherited_region_id tx) s1);
          Some (XY_OK, tx, s2) }) })"

definition mod_load_enter_context :: "'q qmap_ops \<Rightarrow> 'q tx_step" where
  "mod_load_enter_context Q tx s =
     (let reg = region_lookup Q (inherited_region_id tx) s in
      Some (XY_OK, tx\<lparr>inherited_reg := reg, prev_region_id := xy_current_region_id s,
                      prev_region_entry := xy_current_region_entry s, context_active := True\<rparr>,
            set_current_region (inherited_region_id tx) reg s))"

definition mod_load_restore_context :: "xy_load_txn \<Rightarrow> 'q xy_state \<Rightarrow> xy_load_txn \<times> 'q xy_state" where
  "mod_load_restore_context tx s = (if \<not> context_active tx then (tx, s)
     else (tx\<lparr>context_active := False\<rparr>, set_current_region (prev_region_id tx) (prev_region_entry tx) s))"

definition mod_load_claim_if_needed :: "'q env \<Rightarrow> 'q qmap_ops \<Rightarrow> 'q tx_step" where
  "mod_load_claim_if_needed E Q tx s = (do {
     h \<leftarrow> tx_handle tx;
     let claim_sym = e_dlsym E h ''xy_claim'';
     (case inherited_reg tx of
        None \<Rightarrow> Some (XY_OK, tx, s)
      | Some r \<Rightarrow> do {
          e \<leftarrow> regions s r;
          if require_claim e \<and> claim_sym = 0 then Some (XY_ERR_EPERM, tx, s)
          else if claim_sym = 0 then Some (XY_OK, tx, s)
          else if claim_handler e = 0 \<and> \<not> require_claim e then Some (XY_OK, tx, s)
          else do {
            (ret, s1) \<leftarrow> xy_claim_for_load E Q (stable_fname tx) (inherited_region_id tx) (e_claim_sym E claim_sym) s;
            Some (ret, tx, s1) } }) })"

text \<open>The block of \<open>_mod_load\<close> that counts the module and allocates its region state.\<close>

definition mod_load_region_state :: "'q env \<Rightarrow> 'q tx_step" where
  "mod_load_region_state E tx s0 = (do {
     h \<leftarrow> tx_handle tx;
     m \<leftarrow> tx_mod_entry tx;
     let s = s0\<lparr>xy_mod_count := xy_mod_count s0 + 1\<rparr>;
     let sz_fn = e_dlsym E h ''xy_region_state_size'';
     if sz_fn = 0 \<or> e_size E sz_fn = 0 then Some (XY_OK, tx, s)
     else if \<not> e_malloc E s (AllocBytes (e_size E sz_fn)) then do {
       s1 \<leftarrow> upd_mod m (\<lambda>e. e\<lparr>region_state := None\<rparr>) s;
       Some (XY_OK, tx, s1) }
     else do {
       s1 \<leftarrow> upd_mod m (\<lambda>e. e\<lparr>region_state := Some (next_addr s)\<rparr>) s;
       Some (XY_OK, tx, s1\<lparr>states := (states s)(next_addr s \<mapsto> replicate (e_size E sz_fn) 0),
                            next_addr := next_addr s + 1\<rparr>) } })"

text \<open>The block that appends the module to its region and resolves the known hooks.\<close>

definition mod_load_append :: "'q env \<Rightarrow> 'q qmap_ops \<Rightarrow> 'q tx_step" where
  "mod_load_append E Q tx s = (do {
     m \<leftarrow> tx_mod_entry tx;
     e \<leftarrow> mods s m;
     s1 \<leftarrow> (case region_lookup Q (me_region_id e) s of
         None \<Rightarrow> Some s
       | Some r \<Rightarrow> module_region_append (Some r) (Some m) s);
     (r, s2) \<leftarrow> fn_cache_prewarm E Q (Some m) s1;
     Some (XY_OK, tx, s2) })"

definition mod_run :: "'q env \<Rightarrow> dlhandle \<Rightarrow> string \<Rightarrow> 'q xy_state \<Rightarrow> (int \<times> 'q xy_state) option" where
  "mod_run E sl symbol s = (let cb = e_dlsym E sl symbol in
     if cb = 0 then Some (XY_ERR_NOTFOUND, s)
     else do { s1 \<leftarrow> e_void E cb s; Some (XY_OK, s1) })"

definition mod_load_run_install :: "'q env \<Rightarrow> 'q tx_step" where
  "mod_load_run_install E tx s = (do {
     h \<leftarrow> tx_handle tx;
     let prev_loading_mod = xy_loading_mod s;
     (ret, s1) \<leftarrow> mod_run E h ''xy_install'' (s\<lparr>xy_loading_mod := tx_mod_entry tx\<rparr>);
     Some (ret, tx, s1\<lparr>xy_loading_mod := prev_loading_mod\<rparr>) })"

section \<open>Taking back\<close>

definition module_cleanup_region_state :: "'q env \<Rightarrow> mptr \<Rightarrow> 'q xy_state \<Rightarrow> 'q xy_state option" where
  "module_cleanup_region_state E m s = (do {
     e \<leftarrow> mods s m;
     (case region_state e of
        None \<Rightarrow> Some s
      | Some st \<Rightarrow> do {
          h \<leftarrow> me_handle e;
          let cleanup_fn = e_dlsym E h ''xy_region_cleanup'';
          s1 \<leftarrow> (if cleanup_fn \<noteq> 0 then e_cleanup E cleanup_fn st s else Some s);
          upd_mod m (\<lambda>e. e\<lparr>region_state := None\<rparr>) (s1\<lparr>states := (states s1)(st := None)\<rparr>) }) })"

definition free_mod :: "mptr \<Rightarrow> 'q xy_state \<Rightarrow> 'q xy_state" where
  "free_mod m s = s\<lparr>mods := (mods s)(m := None)\<rparr>"

definition module_free_entry :: "'q env \<Rightarrow> mptr option \<Rightarrow> 'q xy_state \<Rightarrow> 'q xy_state option" where
  "module_free_entry E entry s = (case entry of None \<Rightarrow> Some s
     | Some m \<Rightarrow> do { s1 \<leftarrow> module_cleanup_region_state E m s; Some (free_mod m s1) })"

text \<open>Taking the entry out of its region, in \<open>mod_load_abort\<close>.\<close>

definition abort_detach :: "mptr \<Rightarrow> 'q xy_state \<Rightarrow> 'q xy_state option" where
  "abort_detach m s = (do {
     e \<leftarrow> mods s m;
     (case region_entry e of
        None \<Rightarrow> Some s
      | Some r \<Rightarrow> do {
          s1 \<leftarrow> module_unlink m r s;
          s2 \<leftarrow> region_mark_subtree_dirty (Some r) s1;
          upd_mod m (\<lambda>e. e\<lparr>region_entry := None\<rparr>) s2 }) })"

definition mod_load_unpublish :: "'q qmap_ops \<Rightarrow> mptr \<Rightarrow> 'q xy_state \<Rightarrow> 'q xy_state option" where
  "mod_load_unpublish Q m s = (do {
     e \<leftarrow> mods s m;
     h \<leftarrow> mod_hd s;
     rh \<leftarrow> mod_by_region_hd s;
     Some (s\<lparr>mod_by_region_hd := Some (mmap_del Q rh (KId (me_region_id e))),
             mod_hd := Some (qmap_del Q h (KBlob (me_mod_key e)))\<rparr>) })"

definition mod_load_abort :: "'q env \<Rightarrow> 'q qmap_ops \<Rightarrow> xy_load_txn \<Rightarrow> int \<Rightarrow> 'q xy_state
    \<Rightarrow> (int \<times> 'q xy_state) option" where
  "mod_load_abort E Q tx err s = (let (tx1, s0) = mod_load_restore_context tx s in
     (case tx_mod_entry tx1 of
        None \<Rightarrow> Some (err, s0)
      | Some m \<Rightarrow> do {
          s1 \<leftarrow> module_cleanup_region_state E m s0;
          s2 \<leftarrow> abort_detach m s1;
          s3 \<leftarrow> (if published_entry tx1 then mod_load_unpublish Q m s2 else Some s2);
          Some (err, free_mod m s3) }))"

section \<open>The load\<close>

definition mod_load_steps :: "'q env \<Rightarrow> 'q qmap_ops \<Rightarrow> string \<Rightarrow> 'q tx_step" where
  "mod_load_steps E Q fname =
     tx_then (mod_load_alloc_entry E Q fname)
    (tx_then (mod_load_publish_entry Q)
    (tx_then (mod_load_bind_xy E)
    (tx_then (mod_load_enter_context Q)
    (tx_then (mod_load_claim_if_needed E Q)
    (tx_then (mod_load_region_state E)
    (tx_then (mod_load_append E Q)
             (mod_load_run_install E)))))))"

definition mod_load :: "'q env \<Rightarrow> 'q qmap_ops \<Rightarrow> string \<Rightarrow> 'q xy_state \<Rightarrow> (int \<times> 'q xy_state) option" where
  "mod_load E Q fname s = (do {
     (ret, tx, s1) \<leftarrow> mod_load_open_handle E Q fname (tx_zero (xy_current_region_id s)) s;
     if ret \<noteq> XY_OK then Some (fail_with ret s1)
     else do {
       (reused, tx1, s2) \<leftarrow> mod_load_try_reuse_existing tx s1;
       if reused then Some (XY_OK, s2)
       else do {
         (ret, tx2, s3) \<leftarrow> mod_load_steps E Q fname tx1 s2;
         if ret \<noteq> XY_OK then mod_load_abort E Q tx2 ret s3
         else Some (XY_OK, snd (mod_load_restore_context tx2 s3)) } } })"

definition xy_load :: "'q env \<Rightarrow> 'q qmap_ops \<Rightarrow> string \<Rightarrow> 'q xy_state \<Rightarrow> (int \<times> 'q xy_state) option" where
  "xy_load E Q fname = ensured E Q (\<lambda>s. do {
     (ret, s1) \<leftarrow> mod_load E Q fname s;
     Some (fail_with ret s1) })"

definition xy_self_init_ctx :: "cptr option \<Rightarrow> 'q xy_state \<Rightarrow> 'q xy_state" where
  "xy_self_init_ctx ctx s = s\<lparr>xy_pending_ctx := ctx\<rparr>"

end
