(* ===== verification/Xy_Unload.thy ===== *)
theory Xy_Unload
  imports Xy_Loader Xy_Deny
begin

text \<open>
  Unloading and reloading (src/libxylem-module.c).  \<open>_mod_unload\<close> calls itself for the
  modules that the unloaded one had loaded; the recursion is bounded by fuel, and
  Xy_Cascade shows that the number of allocated addresses is enough.
\<close>

section \<open>Unload\<close>

text \<open>The modules with \<open>parent_entry == entry\<close>, in the order of the table.\<close>

definition is_child_of :: "'q xy_state \<Rightarrow> mptr \<Rightarrow> mptr \<Rightarrow> bool" where
  "is_child_of s entry m \<longleftrightarrow> m \<noteq> entry \<and> (\<exists>e. mods s m = Some e \<and> parent_entry e = Some entry)"

definition children_of :: "'q qmap_ops \<Rightarrow> mptr \<Rightarrow> 'q xy_state \<Rightarrow> mptr list option" where
  "children_of Q entry s = (do {
     h \<leftarrow> mod_hd s;
     let ms = List.map_filter (\<lambda>kv. qmap_ptr (Some (snd kv))) (qmap_iter Q h);
     if (\<forall>m \<in> set ms. mods s m \<noteq> None) then Some (filter (is_child_of s entry) ms) else None })"

text \<open>The loop over the collected children: a child is unloaded by the path in its context.\<close>

primrec unload_children :: "(string \<Rightarrow> u64 \<Rightarrow> 'q xy_state \<Rightarrow> (int \<times> 'q xy_state) option) \<Rightarrow> mptr list
    \<Rightarrow> 'q xy_state \<Rightarrow> 'q xy_state option" where
  "unload_children unload [] s = Some s"
| "unload_children unload (c # cs) s = (do {
     e \<leftarrow> mods s c;
     path \<leftarrow> (case me_ctx e of None \<Rightarrow> Some None
             | Some x \<Rightarrow> map_option ctx_module_path (ctxs s x));
     s1 \<leftarrow> (case path of None \<Rightarrow> Some s
           | Some p \<Rightarrow> do { (ret, s1) \<leftarrow> unload p (me_region_id e) s; Some s1 });
     unload_children unload cs s1 })"

text \<open>Everything after the children: caches, denials, the region's list, the tables, the entry.\<close>

definition unload_tables :: "'q qmap_ops \<Rightarrow> mptr \<Rightarrow> 'q xy_state \<Rightarrow> 'q xy_state option" where
  "unload_tables Q m s = (do {
     e \<leftarrow> mods s m;
     rh \<leftarrow> mod_by_region_hd s;
     h \<leftarrow> mod_hd s;
     Some (s\<lparr>mod_by_region_hd := Some (mmap_del Q rh (KId (me_region_id e))),
             mod_hd := Some (qmap_del Q h (KBlob (me_mod_key e))),
             xy_mod_count := xy_mod_count s - 1\<rparr>) })"

definition unload_entry :: "'q env \<Rightarrow> 'q qmap_ops \<Rightarrow> mptr \<Rightarrow> 'q xy_state \<Rightarrow> 'q xy_state option" where
  "unload_entry E Q m s = (do {
     s1 \<leftarrow> module_clear_fn_cache_for_handle E Q (Some m) s;
     e \<leftarrow> mods s1 m;
     s2 \<leftarrow> module_remove_path_owned_entries Q (region_entry e) (load_path e) s1;
     s3 \<leftarrow> module_region_detach (Some m) s2;
     s4 \<leftarrow> unload_tables Q m s3;
     module_free_entry E (Some m) s4 })"

primrec mod_unload :: "nat \<Rightarrow> 'q env \<Rightarrow> 'q qmap_ops \<Rightarrow> string \<Rightarrow> u64 \<Rightarrow> 'q xy_state
    \<Rightarrow> (int \<times> 'q xy_state) option" where
  "mod_unload 0 E Q fname rid s = None"
| "mod_unload (Suc n) E Q fname rid s =
     (let lookup = module_lookup_from_fname E Q fname rid s in
      if lk_err lookup \<noteq> XY_OK then Some (fail_with (lk_err lookup) s)
      else case lk_entry lookup of
        None \<Rightarrow> Some (fail_with XY_ERR_NOTFOUND s)
      | Some m \<Rightarrow> do {
          s1 \<leftarrow> upd_mod m (\<lambda>e. e\<lparr>refcount := refcount e - 1\<rparr>) s;
          e \<leftarrow> mods s1 m;
          if refcount e > 0 then Some (XY_OK, s1)
          else do {
            cs \<leftarrow> children_of Q m s1;
            s2 \<leftarrow> unload_children (mod_unload n E Q) cs s1;
            s3 \<leftarrow> unload_entry E Q m s2;
            Some (XY_OK, s3) } })"

text \<open>The fuel of a call: more than the number of entries that can exist.\<close>

definition unload_fuel :: "'q xy_state \<Rightarrow> nat" where
  "unload_fuel s = next_addr s + 1"

definition xy_unload :: "'q env \<Rightarrow> 'q qmap_ops \<Rightarrow> string \<Rightarrow> 'q xy_state \<Rightarrow> (int \<times> 'q xy_state) option" where
  "xy_unload E Q fname = ensured E Q (\<lambda>s. do {
     (ret, s1) \<leftarrow> mod_unload (unload_fuel s) E Q fname (xy_current_region_id s) s;
     Some (fail_with ret s1) })"

section \<open>Reload\<close>

text \<open>After the new load: the new entry is found again and moved to the old position.\<close>

definition reload_place :: "'q env \<Rightarrow> 'q qmap_ops \<Rightarrow> string \<Rightarrow> u64 \<Rightarrow> rptr option \<Rightarrow> mptr option \<Rightarrow> 'q xy_state
    \<Rightarrow> (int \<times> 'q xy_state) option" where
  "reload_place E Q fname rid re after s =
     (let lookup = module_lookup_from_fname E Q fname rid s in
      if lk_err lookup \<noteq> XY_OK then Some (fail_with (lk_err lookup) s)
      else if lk_entry lookup = None \<or> re = None then Some (fail_with XY_OK s)
      else do {
        s1 \<leftarrow> module_region_detach (lk_entry lookup) s;
        s2 \<leftarrow> module_region_insert_after re (lk_entry lookup) after s1;
        Some (fail_with XY_OK s2) })"

definition reload_found :: "'q env \<Rightarrow> 'q qmap_ops \<Rightarrow> string \<Rightarrow> u64 \<Rightarrow> mptr \<Rightarrow> 'q xy_state
    \<Rightarrow> (int \<times> 'q xy_state) option" where
  "reload_found E Q fname rid existing s = (do {
     e \<leftarrow> mods s existing;
     (uret, s1) \<leftarrow> mod_unload (unload_fuel s) E Q fname rid s;
     if uret \<noteq> XY_OK then Some (fail_with uret s1)
     else do {
       (lret, s2) \<leftarrow> mod_load E Q fname (s1\<lparr>xy_reloading := True\<rparr>);
       let s3 = s2\<lparr>xy_reloading := False\<rparr>;
       if lret \<noteq> XY_OK then Some (fail_with lret s3)
       else reload_place E Q fname rid (region_entry e) (region_prev e) s3 } })"

definition xy_reload :: "'q env \<Rightarrow> 'q qmap_ops \<Rightarrow> string \<Rightarrow> 'q xy_state \<Rightarrow> (int \<times> 'q xy_state) option" where
  "xy_reload E Q fname = ensured E Q (\<lambda>s.
     (let rid = xy_current_region_id s; lookup = module_lookup_from_fname E Q fname rid s in
      if lk_err lookup \<noteq> XY_OK then Some (fail_with (lk_err lookup) s)
      else case lk_entry lookup of
        None \<Rightarrow> Some (fail_with XY_ERR_NOTFOUND s)
      | Some existing \<Rightarrow> reload_found E Q fname rid existing s))"

end
