(* ===== verification/Xy_Entries.thy ===== *)
theory Xy_Entries
  imports Xy_Frame Xy_Hooks Xy_Loader
begin

text \<open>
  Module entries that come and go: allocating, publishing, linking, unpublishing and
  freeing an entry, one lemma each, with what it does to the invariant of the library,
  to the module lists and to the table of modules.
\<close>

section \<open>The table of modules\<close>

definition key_get :: "'q qmap_ops \<Rightarrow> 'q xy_state \<Rightarrow> string \<Rightarrow> mptr option" where
  "key_get Q s key = mod_hd_get Q key s"

lemma key_get_cong: "mod_hd s' = mod_hd s \<Longrightarrow> key_get Q s' = key_get Q s"
  by (simp add: key_get_def mod_hd_get_def fun_eq_iff)

lemma key_get_put:
  "qmap_laws Q \<Longrightarrow> mod_hd s = Some h \<Longrightarrow>
    key_get Q (s\<lparr>mod_hd := Some (qmap_put Q h (KBlob key) (VPtr m))\<rparr>) = (key_get Q s)(key \<mapsto> m)"
  by (auto simp: key_get_def mod_hd_get_def qmap_simps fun_eq_iff)

lemma key_get_del:
  "qmap_laws Q \<Longrightarrow> mod_hd s = Some h \<Longrightarrow>
    key_get Q (s\<lparr>mod_hd := Some (qmap_del Q h (KBlob key))\<rparr>) = (key_get Q s)(key := None)"
  by (auto simp: key_get_def mod_hd_get_def qmap_simps fun_eq_iff)

lemma wf_modtab_put:
  assumes "qmap_laws Q" and "wf_modtab Q s" and "mod_hd s = Some h" and "mods s m = Some e" and "me_mod_key e = key"
  shows "wf_modtab Q (s\<lparr>mod_hd := Some (qmap_put Q h (KBlob key) (VPtr m)), mod_by_region_hd := rh\<rparr>)"
  using assms unfolding wf_modtab_def by (auto simp: qmap_simps split: if_splits)

lemma wf_modtab_del:
  assumes "qmap_laws Q" and "wf_modtab Q s" and "mod_hd s = Some h"
  shows "wf_modtab Q (s\<lparr>mod_hd := Some (qmap_del Q h (KBlob key)), mod_by_region_hd := rh\<rparr>)"
  using assms unfolding wf_modtab_def by (auto simp: qmap_simps split: if_splits)

lemma wf_lib_table:
  assumes "wf_lib Q s" and "wf_modtab Q (s\<lparr>mod_hd := Some h, mod_by_region_hd := Some rh\<rparr>)"
  shows "wf_lib Q (s\<lparr>mod_hd := Some h, mod_by_region_hd := Some rh\<rparr>)"
proof -
  let ?t = "s\<lparr>mod_hd := Some h, mod_by_region_hd := Some rh\<rparr>"
  note w = wf_libD [OF assms(1)]
  have sh: "same_shape s ?t" by (rule same_shapeI) simp_all
  show ?thesis
    using w assms(2) same_shape_wf' [OF sh w(2)] wf_index_frame [OF w(3), of ?t] wf_intern_frame [OF w(4), of ?t]
      wf_current_frame [OF w(5), of ?t]
    by (simp add: wf_lib_def)
qed

section \<open>Allocating and freeing\<close>

text \<open>Two states whose module lists differ only in entries outside all lists.\<close>

lemma mod_list_others:
  assumes "mod_list s p ms" and "regions s' = regions s" and "\<And>a. a \<in> set ms \<Longrightarrow> mods s' a = mods s a"
  shows "mod_list s' p ms"
proof -
  have n: "\<And>a. a \<in> set ms \<Longrightarrow> mod_next s' a = mod_next s a" "\<And>a. a \<in> set ms \<Longrightarrow> mod_prev s' a = mod_prev s a"
    "\<And>a. a \<in> set ms \<Longrightarrow> mod_region s' a = mod_region s a"
    using assms(3) by (simp_all add: link_defs)
  from assms(1) obtain e where e: "regions s p = Some e" "linked (mod_next s) (mods_head e) ms"
    "linked (mod_prev s) (mods_tail e) (rev ms)" "\<forall>m \<in> set ms. mod_region s m = Some (Some p)"
    unfolding mod_list_def by blast
  have "linked (mod_next s') (mods_head e) ms" using e(2) linked_cong [of ms "mod_next s" "mod_next s'"] n(1) by metis
  moreover have "linked (mod_prev s') (mods_tail e) (rev ms)"
    using e(3) linked_cong [of "rev ms" "mod_prev s" "mod_prev s'"] n(2) by (metis set_rev)
  ultimately show ?thesis using e assms(2) n(3) unfolding mod_list_def by auto
qed

lemma wf_tree_entry:
  assumes wf: "wf_tree s" and reg: "regions s' = regions s" and out: "\<forall>p. m \<notin> set (region_mods s p)"
    and oth: "\<And>a. a \<noteq> m \<Longrightarrow> mods s' a = mods s a" and n: "next_addr s \<le> next_addr s'"
    and m: "mods s' m \<noteq> None \<Longrightarrow> m < next_addr s'"
  shows "wf_tree s'" and "region_mods s' p = region_mods s p" and "ancestor s' = ancestor s"
proof -
  note w = wf_tree_parts [OF wf]
  have links: "region_parent s' = region_parent s" "region_sibling s' = region_sibling s" "region_rank s' = region_rank s"
    using reg by (simp_all add: link_defs region_rank_def fun_eq_iff)
  have ml: "mod_list s' p ms" if "mod_list s p ms" for p ms
  proof (rule mod_list_others [OF that reg])
    fix a assume "a \<in> set ms"
    then have "a \<in> set (region_mods s p)" using mod_list_walk(1) [OF w(3) that] by simp
    with out have "a \<noteq> m" by blast
    then show "mods s' a = mods s a" by (rule oth)
  qed
  have parents: "wf_parents s'"
    using w(1) n unfolding wf_parents_def reg links by (meson order_less_le_trans)
  have children: "wf_children s'" using w(2) unfolding wf_children_def reg links .
  have modsw: "wf_mods s'" unfolding wf_mods_def
  proof (intro conjI allI impI)
    fix a assume "mods s' a \<noteq> None"
    then show "a < next_addr s'"
      using m oth [of a] w(3) n unfolding wf_mods_def by (cases "a = m") (auto intro: order_less_le_trans)
  next
    fix p assume "regions s' p \<noteq> None"
    then show "\<exists>ms. mod_list s' p ms" using ml region_mods_list [OF w(3), of p] reg by auto
  qed
  from parents children modsw show wf': "wf_tree s'" by (simp add: wf_tree_def)
  show "region_mods s' p = region_mods s p"
    by (rule region_mods_eq_transfer [OF w(3) modsw]) (use ml reg in auto)
  have "ancestor s' a r = ancestor s a r" for a r
  proof (cases "regions s r = None")
    case True
    then show ?thesis using ancestor_live reg by metis
  next
    case False
    then obtain ps where "linked (region_parent s) (Some r) ps" using up_chain_total [OF w(1), of r] by auto
    then show ?thesis using ancestor_iff [OF w(1)] ancestor_iff [OF parents] links(1) by metis
  qed
  then show "ancestor s' = ancestor s" by (simp add: fun_eq_iff)
qed

text \<open>Rewriting an entry that is in no list, new ones included, keeps every invariant when its
  key and context are in order.\<close>

lemma entry_upd_ok:
  assumes lib: "wf_lib Q s" and out: "\<forall>p. m \<notin> set (region_mods s p)"
    and s': "s' = s\<lparr>mods := (mods s)(m \<mapsto> e), next_addr := n\<rparr>" and n: "next_addr s \<le> n" "m < n"
    and key: "\<And>k. key_get Q s k = Some m \<Longrightarrow> k = me_mod_key e"
    and ctx: "\<And>c. me_ctx e = Some c \<Longrightarrow> ctxs s c \<noteq> None"
  shows "wf_lib Q s'" and "region_mods s' p = region_mods s p" and "unlisted s' m"
proof -
  note w = wf_libD [OF lib]
  have fr: "regions s' = regions s" "\<And>a. a \<noteq> m \<Longrightarrow> mods s' a = mods s a" "next_addr s \<le> next_addr s'"
    "mods s' m \<noteq> None \<Longrightarrow> m < next_addr s'" using n by (simp_all add: s')
  note t = wf_tree_entry [OF w(2) fr(1) out fr(2-4)]
  show rm: "region_mods s' p = region_mods s p" for p by (rule t(2))
  have "wf_modtab Q s'"
    unfolding wf_modtab_def
  proof (intro conjI allI impI)
    fix h k v assume h: "mod_hd s' = Some h" "qmap_get Q h k = Some v"
    then have "mod_hd s = Some h" by (simp add: s')
    with w(10) h(2) obtain m' e' where e': "v = VPtr m'" "mods s m' = Some e'" "k = KBlob (me_mod_key e')"
      unfolding wf_modtab_def by blast
    show "\<exists>m e. v = VPtr m \<and> mods s' m = Some e \<and> k = KBlob (me_mod_key e)"
    proof (cases "m' = m")
      case True
      have "key_get Q s (me_mod_key e') = Some m"
        using h e' True by (simp add: key_get_def mod_hd_get_def s')
      with key e' True show ?thesis by (auto simp: s')
    qed (use e' in \<open>auto simp: s'\<close>)
  next
    fix m' e' c assume "mods s' m' = Some e'" "me_ctx e' = Some c"
    then show "ctxs s' c \<noteq> None"
      using ctx w(10) unfolding wf_modtab_def by (auto simp: s' split: if_splits)
  qed
  then show "wf_lib Q s'"
    using w t(1) wf_index_frame [OF w(3), of s'] wf_intern_frame [OF w(4), of s'] wf_current_frame [OF w(5), of s'] n
    by (simp add: wf_lib_def s')
  show "unlisted s' m" using out rm by (simp add: unlisted_def s')
qed

lemma fresh_entry_out:
  assumes "wf_lib Q s" and "mods s m = None"
  shows "\<forall>p. m \<notin> set (region_mods s p)" and "key_get Q s k \<noteq> Some m"
proof -
  note w = wf_libD [OF assms(1)]
  show "\<forall>p. m \<notin> set (region_mods s p)"
    using region_mods_owner [OF wf_tree_parts(3) [OF w(2)], of m] assms(2) by (auto simp: mod_region_def)
  show "key_get Q s k \<noteq> Some m"
    using mod_hd_get_live [OF w(10), of k m] assms(2) by (auto simp: key_get_def)
qed

lemma next_addr_fresh: "wf_lib Q s \<Longrightarrow> mods s (next_addr s) = None"
  using wf_tree_parts(3) [OF wf_libD(2)] unfolding wf_mods_def by blast

lemma alloc_mod_ok:
  assumes lib: "wf_lib Q s" and ctx: "me_ctx e = None"
  shows "mods s (next_addr s) = None" and "wf_lib Q (snd (alloc_mod e s))"
    and "region_mods (snd (alloc_mod e s)) p = region_mods s p" and "unlisted (snd (alloc_mod e s)) (next_addr s)"
proof -
  show new: "mods s (next_addr s) = None" by (rule next_addr_fresh [OF lib])
  note out = fresh_entry_out [OF lib new]
  have s': "snd (alloc_mod e s) = s\<lparr>mods := (mods s)(next_addr s \<mapsto> e), next_addr := next_addr s + 1\<rparr>"
    by (simp add: alloc_mod_def)
  note u = entry_upd_ok [OF lib out(1) s' _ _ _]
  show "wf_lib Q (snd (alloc_mod e s))" "region_mods (snd (alloc_mod e s)) p = region_mods s p"
    "unlisted (snd (alloc_mod e s)) (next_addr s)"
    using u out(2) ctx by auto
qed

lemma free_mod_ok:
  assumes lib: "wf_lib Q s" and out: "\<forall>p. m \<notin> set (region_mods s p)" and key: "\<And>k. key_get Q s k \<noteq> Some m"
  shows "wf_lib Q (free_mod m s)" and "region_mods (free_mod m s) p = region_mods s p"
proof -
  let ?s' = "free_mod m s"
  note w = wf_libD [OF lib]
  have fr: "regions ?s' = regions s" "\<And>a. a \<noteq> m \<Longrightarrow> mods ?s' a = mods s a" "next_addr s \<le> next_addr ?s'"
    "mods ?s' m \<noteq> None \<Longrightarrow> m < next_addr ?s'" by (simp_all add: free_mod_def)
  note t = wf_tree_entry [OF w(2) fr(1) out fr(2-4)]
  show "region_mods ?s' p = region_mods s p" by (rule t(2))
  have "wf_modtab Q ?s'"
    unfolding wf_modtab_def
  proof (intro conjI allI impI)
    fix h k v assume h: "mod_hd ?s' = Some h" "qmap_get Q h k = Some v"
    then have hd: "mod_hd s = Some h" by (simp add: free_mod_def)
    with w(10) h(2) obtain m' e' where e': "v = VPtr m'" "mods s m' = Some e'" "k = KBlob (me_mod_key e')"
      unfolding wf_modtab_def by blast
    have "m' \<noteq> m" using key [of "me_mod_key e'"] hd h(2) e' by (auto simp: key_get_def mod_hd_get_def)
    with e' show "\<exists>m e. v = VPtr m \<and> mods ?s' m = Some e \<and> k = KBlob (me_mod_key e)"
      by (auto simp: free_mod_def)
  next
    fix m' e' c assume "mods ?s' m' = Some e'" "me_ctx e' = Some c"
    then show "ctxs ?s' c \<noteq> None"
      using w(10) unfolding wf_modtab_def by (auto simp: free_mod_def split: if_splits)
  qed
  then show "wf_lib Q ?s'"
    using w t(1) wf_index_frame [OF w(3), of ?s'] wf_intern_frame [OF w(4), of ?s'] wf_current_frame [OF w(5), of ?s']
    by (simp add: wf_lib_def free_mod_def)
qed

text \<open>Relinking keeps the tables.\<close>

lemma touched_lib:
  assumes lib: "wf_lib Q s" and t: "touched r s s'" and wf: "wf_tree s'"
  shows "wf_lib Q s'" and "key_get Q s' = key_get Q s"
    and "map_option mdata (mods s' a) = map_option mdata (mods s a)"
proof -
  note w = wf_libD [OF lib]
  from t have md: "\<And>m. map_option mdata (mods s' m) = map_option mdata (mods s m)"
    and rd: "\<And>p. map_option rdata (regions s' p)
        = map_option (\<lambda>e. rdata (if ancestor s p r then dirty_and_bump e else e)) (regions s p)"
    and sh: "s' = s\<lparr>regions := regions s', mods := mods s'\<rparr>" unfolding touched_def by blast+
  obtain R M where s': "s' = s\<lparr>regions := R, mods := M\<rparr>" by (rule that) (rule sh)
  show "map_option mdata (mods s' a) = map_option mdata (mods s a)" by (rule md)
  show "key_get Q s' = key_get Q s" by (rule key_get_cong) (simp add: s')
  have rid: "rdata x = rdata y \<Longrightarrow> re_id x = re_id y" for x y :: "'a xy_region_entry"
    by (drule arg_cong [of _ _ re_id]) (simp add: rdata_def)
  have db: "re_id (dirty_and_bump e) = re_id e" for e :: "'a xy_region_entry"
    by (simp add: dirty_and_bump_def set_dirty_def bump_gen_def)
  have re: "map_option re_id (regions s' p) = map_option re_id (regions s p)" for p
    using rd [of p] by (cases "regions s p"; cases "regions s' p") (auto dest!: rid simp: db split: if_splits)
  have mid: "mdata x = mdata y \<Longrightarrow> mident x = mident y" for x y
    by (drule arg_cong [of _ _ mident]) (simp add: mdata_def mident_def)
  have id: "map_option mident (mods s' m) = map_option mident (mods s m)" for m
    by (rule map_option_factor [OF md mid])
  have "wf_modtab Q s'" using wf_modtab_frame [OF w(10), of s'] id by (simp add: s')
  then show "wf_lib Q s'"
    using w wf re wf_index_frame [OF w(3), of s'] wf_intern_frame [OF w(4), of s'] wf_current_frame [OF w(5), of s']
    by (simp add: wf_lib_def s')
qed

end
