(* ===== verification/Xy_Taken.thy ===== *)
theory Xy_Taken
  imports Xy_Unload Xy_Entries
begin

text \<open>
  Taking one module out: what \<open>unload_entry\<close>, the part of \<open>_mod_unload\<close> after the
  cascade, does to the tables, the module lists and the entries.
\<close>

section \<open>What an unload relies on\<close>

text \<open>Cleanup functions write their state block and nothing else of the library; every entry
  has a handle and is in the list of the region it names.\<close>

definition cleanup_ok :: "'q env \<Rightarrow> bool" where
  "cleanup_ok E \<longleftrightarrow> (\<forall>f a s. \<exists>v. e_cleanup E f a s = Some (s\<lparr>states := v\<rparr>))"

definition wf_entries :: "'q xy_state \<Rightarrow> bool" where
  "wf_entries s \<longleftrightarrow> (\<forall>m e. mods s m = Some e \<longrightarrow> me_handle e \<noteq> None
     \<and> (\<forall>r. region_entry e = Some r \<longrightarrow> m \<in> set (region_mods s r)))"

text \<open>The part of an entry that the unloading of another module leaves alone.\<close>

definition mstat :: "xy_mod_entry \<Rightarrow> xy_mod_entry" where
  "mstat e = e\<lparr>region_next := None, region_prev := None, fn_cache := []\<rparr>"

lemma mstat_fields:
  assumes "mstat x = mstat y"
  shows "me_mod_key x = me_mod_key y" "me_ctx x = me_ctx y" "refcount x = refcount y" "me_handle x = me_handle y"
    "parent_entry x = parent_entry y" "region_entry x = region_entry y" "me_region_id x = me_region_id y"
  using assms by (auto simp: mstat_def dest: arg_cong [of _ _ me_mod_key] arg_cong [of _ _ me_ctx] arg_cong [of _ _ refcount]
      arg_cong [of _ _ me_handle] arg_cong [of _ _ parent_entry] arg_cong [of _ _ region_entry] arg_cong [of _ _ me_region_id])

text \<open>The name and place of the regions, their claim settings, and the hook ids.\<close>

definition claims :: "'q xy_region_entry \<Rightarrow> u64 \<times> rptr option \<times> bool \<times> code" where
  "claims e = (re_id e, re_parent e, require_claim e, claim_handler e)"

definition stays :: "'q xy_state \<Rightarrow> 'q xy_state \<Rightarrow> bool" where
  "stays s s' \<longleftrightarrow> (\<forall>p. map_option claims (regions s' p) = map_option claims (regions s p))
     \<and> hook_id_hd s' = hook_id_hd s \<and> xy_hook_id_counter s' = xy_hook_id_counter s"

lemma stays_refl [simp]: "stays s s"
  by (simp add: stays_def)

lemma stays_trans: "stays s t \<Longrightarrow> stays t u \<Longrightarrow> stays s u"
  by (simp add: stays_def)

lemma stays_touched:
  assumes "touched r s s'"
  shows "stays s s'"
proof -
  have rd: "map_option rdata (regions s' p) = map_option (\<lambda>e. rdata (if ancestor s p r then dirty_and_bump e else e)) (regions s p)" for p
    using assms by (simp add: touched_def)
  have c: "rdata x = rdata y \<Longrightarrow> claims x = claims y" for x y :: "'a xy_region_entry"
    by (drule arg_cong [of _ _ claims]) (simp add: rdata_def claims_def)
  have db: "claims (dirty_and_bump e) = claims e" for e :: "'a xy_region_entry"
    by (simp add: dirty_and_bump_def set_dirty_def bump_gen_def claims_def)
  have "map_option claims (regions s' p) = map_option claims (regions s p)" for p
    using rd [of p] by (cases "regions s p"; cases "regions s' p") (auto dest!: c simp: db split: if_splits)
  moreover obtain R M where "s' = s\<lparr>regions := R, mods := M\<rparr>"
  proof -
    have "s' = s\<lparr>regions := regions s', mods := mods s'\<rparr>" using assms by (simp add: touched_def)
    then show ?thesis by (rule that)
  qed
  ultimately show ?thesis by (simp add: stays_def)
qed

definition taken_out :: "'q qmap_ops \<Rightarrow> mptr \<Rightarrow> 'q xy_state \<Rightarrow> 'q xy_state \<Rightarrow> bool" where
  "taken_out Q m s s' \<longleftrightarrow> mods s' m = None
     \<and> (\<forall>a. a \<noteq> m \<longrightarrow> map_option mstat (mods s' a) = map_option mstat (mods s a))
     \<and> (\<forall>p. region_mods s' p = filter (\<lambda>a. a \<noteq> m) (region_mods s p))
     \<and> (\<forall>k. key_get Q s' k = (if key_get Q s k = Some m then None else key_get Q s k))
     \<and> ctxs s' = ctxs s \<and> next_addr s' = next_addr s \<and> xy_mod_count s' = xy_mod_count s - 1
     \<and> xy_current_region_id s' = xy_current_region_id s \<and> xy_current_region_entry s' = xy_current_region_entry s
     \<and> stays s s'"

section \<open>The steps\<close>

definition cleared :: "mptr \<Rightarrow> 'q xy_state \<Rightarrow> 'q xy_state \<Rightarrow> bool" where
  "cleared m s s' \<longleftrightarrow> s' = s\<lparr>mods := mods s'\<rparr> \<and> mods s' m = mods s m
     \<and> (\<forall>a. map_option (fn_cache_update (\<lambda>_. [])) (mods s' a) = map_option (fn_cache_update (\<lambda>_. [])) (mods s a))"

lemma clear_loop_ok:
  "(\<And>k v. (k, v) \<in> set kvs \<Longrightarrow> \<exists>a. v = VPtr a \<and> mods s a \<noteq> None) \<Longrightarrow>
    \<exists>s'. clear_loop E base m kvs s = Some s' \<and> cleared m s s'"
proof (induction kvs arbitrary: s)
  case Nil
  then show ?case by (simp add: cleared_def)
next
  case (Cons kv kvs)
  obtain k a where kv: "kv = (k, VPtr a)" "mods s a \<noteq> None"
    using Cons.prems [of "fst kv" "snd kv"] by (cases kv) auto
  then obtain e where e: "mods s a = Some e" by auto
  show ?case
  proof (cases "a = m")
    case True
    have "\<exists>s'. clear_loop E base m kvs s = Some s' \<and> cleared m s s'"
      by (rule Cons.IH) (erule Cons.prems [OF list.set_intros(2)])
    with True kv(1) show ?thesis by auto
  next
    case False
    let ?t = "s\<lparr>mods := (mods s)(a \<mapsto> e\<lparr>fn_cache := clear_in_base E base (fn_cache e)\<rparr>)\<rparr>"
    have "\<exists>s'. clear_loop E base m kvs ?t = Some s' \<and> cleared m ?t s'"
    proof (rule Cons.IH)
      fix k' v assume "(k', v) \<in> set kvs"
      with Cons.prems [of k' v] show "\<exists>b. v = VPtr b \<and> mods ?t b \<noteq> None" by auto
    qed
    then obtain s' where s': "clear_loop E base m kvs ?t = Some s'" "cleared m ?t s'" by blast
    obtain M where M: "s' = ?t\<lparr>mods := M\<rparr>" using s'(2) unfolding cleared_def by blast
    have "cleared m s s'" using s'(2) False e unfolding M by (auto simp: cleared_def split: if_splits)
    with s'(1) False e kv(1) show ?thesis by (auto simp: upd_mod_def)
  qed
qed

lemma cleared_keeps:
  assumes "cleared m s s'"
  shows "keeps s s'" and "map_option mstat (mods s' a) = map_option mstat (mods s a)"
proof -
  from assms have c: "\<And>a. map_option (fn_cache_update (\<lambda>_. [])) (mods s' a) = map_option (fn_cache_update (\<lambda>_. [])) (mods s a)"
    by (simp add: cleared_def)
  obtain M where M: "s' = s\<lparr>mods := M\<rparr>" using assms unfolding cleared_def by blast
  have f: "map_option g (mods s' a) = map_option g (mods s a)" if "\<And>e. g (fn_cache_update (\<lambda>_. []) e) = g e" for g a
  proof (rule map_option_factor [OF c])
    fix x y :: xy_mod_entry assume "fn_cache_update (\<lambda>_. []) x = fn_cache_update (\<lambda>_. []) y"
    from arg_cong [OF this, of g] show "g x = g y" by (simp add: that)
  qed
  show "map_option mstat (mods s' a) = map_option mstat (mods s a)" by (rule f) (simp add: mstat_def)
  have "map_option mlinks (mods s' a) = map_option mlinks (mods s a)" for a by (rule f) (simp add: mlinks_def)
  moreover have "map_option mident (mods s' a) = map_option mident (mods s a)" for a by (rule f) (simp add: mident_def)
  ultimately show "keeps s s'" unfolding M by (simp add: keeps_def same_shape_def)
qed

lemma clear_ok:
  assumes Q: "qmap_laws Q" and lib: "wf_lib Q s" and e: "mods s m = Some e"
  shows "\<exists>s'. module_clear_fn_cache_for_handle E Q (Some m) s = Some s' \<and> cleared m s s'"
proof -
  note w = wf_libD [OF lib]
  from w(6) obtain h where h: "mod_hd s = Some h" by auto
  have refl: "cleared m s s" by (simp add: cleared_def)
  have live: "\<exists>a. v = VPtr a \<and> mods s a \<noteq> None" if "(k, v) \<in> set (qmap_iter Q h)" for k v
    using that h w(10) qmap_iter_get [OF Q] unfolding wf_modtab_def by blast
  show ?thesis
    using clear_loop_ok [of "qmap_iter Q h" s E _ m, OF live] refl h e
    by (simp add: module_clear_fn_cache_for_handle_def split: option.split)
qed

lemma keeps_region_mods: "keeps s s' \<Longrightarrow> wf_tree s \<Longrightarrow> region_mods s' p = region_mods s p"
  using same_shape_region_mods by (auto simp: keeps_def)

lemma remove_denies_keeps:
  assumes "\<And>r. region_entry e = Some r \<Longrightarrow> regions s r \<noteq> None"
  shows "\<exists>s'. module_remove_path_owned_entries Q (region_entry e) path s = Some s' \<and> keeps s s'
    \<and> s' = s\<lparr>regions := regions s'\<rparr> \<and> stays s s'"
proof (cases "region_entry e = None \<or> path = None")
  case True
  then show ?thesis by (intro exI [of _ s]) (auto simp: module_remove_path_owned_entries_def)
next
  case False
  then obtain r a where ra: "region_entry e = Some r" "path = Some a" by auto
  from assms [OF ra(1)] obtain re where "regions s r = Some re" by blast
  moreover have "claims (drop_denies Q a re) = claims re"
    by (simp add: claims_def drop_denies_def split: prod.split)
  ultimately show ?thesis using ra
    by (simp add: module_remove_path_owned_entries_def module_remove_denies_def upd_region_def keeps_region_upd stays_def)
qed

text \<open>The last steps: out of the tables, cleaned up and freed.\<close>

lemma untable_free:
  assumes Q: "qmap_laws Q" and lib: "wf_lib Q s" and e: "mods s m = Some e" and out: "\<forall>p. m \<notin> set (region_mods s p)"
    and stored: "key_get Q s (me_mod_key e) = Some m" and h: "mod_hd s = Some h"
    and t: "t = s\<lparr>mod_hd := Some (qmap_del Q h (KBlob (me_mod_key e))), mod_by_region_hd := Some rh, xy_mod_count := cnt\<rparr>"
  shows "wf_lib Q (free_mod m t)" and "region_mods (free_mod m t) p = region_mods s p"
    and "key_get Q (free_mod m t) k = (if key_get Q s k = Some m then None else key_get Q s k)"
proof -
  note w = wf_libD [OF lib]
  let ?h = "qmap_del Q h (KBlob (me_mod_key e))"
  let ?u = "s\<lparr>mod_hd := Some ?h, mod_by_region_hd := Some rh\<rparr>"
  have libu: "wf_lib Q ?u" by (rule wf_lib_table [OF lib wf_modtab_del [OF Q w(10) h]])
  have ku: "keeps ?u t" by (simp add: t keeps_def same_shapeI)
  have libt: "wf_lib Q t" by (rule keeps_wf_lib [OF ku libu])
  have key: "key_get Q s k = Some m \<longleftrightarrow> k = me_mod_key e" for k
    using mod_hd_get_live [OF w(10), of k m] e stored by (auto simp: key_get_def)
  have gt: "key_get Q t = (key_get Q s)(me_mod_key e := None)"
    using key_get_del [OF Q h] key_get_cong [of t "s\<lparr>mod_hd := Some ?h\<rparr>" Q] by (simp add: t)
  have st: "same_shape s t" by (rule same_shapeI) (simp_all add: t)
  have rt: "region_mods t p = region_mods s p" for p by (rule same_shape_region_mods [OF st w(2)])
  have outt: "\<forall>p. m \<notin> set (region_mods t p)" using out rt by simp
  have nk: "key_get Q t k \<noteq> Some m" for k using key [of k] by (auto simp: gt)
  note f = free_mod_ok [OF libt outt nk]
  show "wf_lib Q (free_mod m t)" by (rule f(1))
  show "region_mods (free_mod m t) p = region_mods s p" using f(2) rt by simp
  have "key_get Q (free_mod m t) = key_get Q t" by (rule key_get_cong) (simp add: free_mod_def)
  then show "key_get Q (free_mod m t) k = (if key_get Q s k = Some m then None else key_get Q s k)"
    using key [of k] by (simp add: gt)
qed

lemma cleanup_state_ok:
  assumes C: "cleanup_ok E" and e: "mods s m = Some e" "me_handle e \<noteq> None"
  obtains v where "module_cleanup_region_state E m s
    = Some (s\<lparr>mods := (mods s)(m \<mapsto> e\<lparr>region_state := None\<rparr>), states := v\<rparr>)"
proof (cases "region_state e")
  case None
  then have "s\<lparr>mods := (mods s)(m \<mapsto> e\<lparr>region_state := None\<rparr>), states := states s\<rparr> = s"
    using e(1) by (simp add: fun_upd_idem)
  with None e(1) have "module_cleanup_region_state E m s
      = Some (s\<lparr>mods := (mods s)(m \<mapsto> e\<lparr>region_state := None\<rparr>), states := states s\<rparr>)"
    by (simp add: module_cleanup_region_state_def)
  then show ?thesis by (rule that)
next
  case (Some st)
  from C obtain u where u: "e_cleanup E (e_dlsym E (the (me_handle e)) ''xy_region_cleanup'') st s
      = Some (s\<lparr>states := u\<rparr>)" unfolding cleanup_ok_def by blast
  let ?u = "if e_dlsym E (the (me_handle e)) ''xy_region_cleanup'' = 0 then states s else u"
  have "module_cleanup_region_state E m s
      = Some (s\<lparr>mods := (mods s)(m \<mapsto> e\<lparr>region_state := None\<rparr>), states := ?u(st := None)\<rparr>)"
    using e Some u by (auto simp: module_cleanup_region_state_def upd_mod_def Let_def)
  then show ?thesis by (rule that)
qed

lemma free_one_ok:
  assumes C: "cleanup_ok E" and e: "mods s m = Some e" "me_handle e \<noteq> None"
  obtains v where "module_free_entry E (Some m) s = Some ((free_mod m s)\<lparr>states := v\<rparr>)"
proof -
  from cleanup_state_ok [OF C e] obtain v where "module_cleanup_region_state E m s
    = Some (s\<lparr>mods := (mods s)(m \<mapsto> e\<lparr>region_state := None\<rparr>), states := v\<rparr>)" .
  then have "module_free_entry E (Some m) s = Some ((free_mod m s)\<lparr>states := v\<rparr>)"
    by (simp add: module_free_entry_def free_mod_def)
  then show ?thesis by (rule that)
qed

text \<open>The variables of the last call.\<close>

definition same_vars :: "'q xy_state \<Rightarrow> 'q xy_state \<Rightarrow> bool" where
  "same_vars s s' \<longleftrightarrow> adapters s' = adapters s \<and> xy_last_retbuf s' = xy_last_retbuf s"

lemma free_tail_ok:
  assumes Q: "qmap_laws Q" and C: "cleanup_ok E" and lib: "wf_lib Q s" and e: "mods s m = Some e" "me_handle e \<noteq> None"
    and out: "\<forall>p. m \<notin> set (region_mods s p)" and stored: "key_get Q s (me_mod_key e) = Some m"
  shows "\<exists>s4 s'. unload_tables Q m s = Some s4 \<and> module_free_entry E (Some m) s4 = Some s' \<and> wf_lib Q s'
    \<and> taken_out Q m s s' \<and> regions s' = regions s \<and> mods s' = (mods s)(m := None) \<and> same_vars s s'"
proof -
  from wf_libD(6,7) [OF lib] obtain h rh where h: "mod_hd s = Some h" "mod_by_region_hd s = Some rh" by auto
  let ?s4 = "s\<lparr>mod_hd := Some (qmap_del Q h (KBlob (me_mod_key e))),
      mod_by_region_hd := Some (mmap_del Q rh (KId (me_region_id e))), xy_mod_count := xy_mod_count s - 1\<rparr>"
  have 4: "unload_tables Q m s = Some ?s4" using e h by (simp add: unload_tables_def)
  note u = untable_free [OF Q lib e(1) out stored h(1) refl]
  have "mods ?s4 m = Some e" using e by simp
  from free_one_ok [OF C this e(2)] obtain v where
    v: "module_free_entry E (Some m) ?s4 = Some ((free_mod m ?s4)\<lparr>states := v\<rparr>)" .
  let ?f = "free_mod m ?s4" and ?s' = "(free_mod m ?s4)\<lparr>states := v\<rparr>"
  have kf: "keeps ?f ?s'" by (simp add: keeps_def same_shapeI)
  have rm: "region_mods ?s' p = filter (\<lambda>a. a \<noteq> m) (region_mods s p)" for p
  proof -
    have "filter (\<lambda>a. a \<noteq> m) (region_mods s p) = region_mods s p" by (rule filter_True) (use out in auto)
    with keeps_region_mods [OF kf wf_libD(2) [OF u(1)], of p] u(2) show ?thesis by simp
  qed
  have gk: "key_get Q ?s' = key_get Q ?f" by (rule key_get_cong) simp
  have "taken_out Q m s ?s'"
    unfolding taken_out_def
  proof (intro conjI allI impI)
    show "key_get Q ?s' k = (if key_get Q s k = Some m then None else key_get Q s k)" for k
      unfolding gk by (rule u(3))
  qed (simp_all add: rm, simp_all add: free_mod_def stays_def)
  with 4 v keeps_wf_lib [OF kf u(1)] show ?thesis by (intro exI [of _ ?s4] exI [of _ ?s']) (simp add: free_mod_def same_vars_def)
qed

text \<open>Detaching, whether the module is in a list or not.\<close>

lemma detach_any_ok:
  assumes lib: "wf_lib Q s" and e: "mods s m = Some e" and pl: "\<And>r. region_entry e = Some r \<Longrightarrow> m \<in> set (region_mods s r)"
  shows "\<exists>s'. module_region_detach (Some m) s = Some s' \<and> wf_lib Q s' \<and> key_get Q s' = key_get Q s
    \<and> (\<forall>a. map_option mstat (mods s' a) = map_option mstat (mods s a))
    \<and> (\<forall>p. region_mods s' p = filter (\<lambda>a. a \<noteq> m) (region_mods s p)) \<and> (\<forall>p. m \<notin> set (region_mods s' p))
    \<and> s' = s\<lparr>regions := regions s', mods := mods s'\<rparr> \<and> stays s s'
    \<and> (case region_entry e of None \<Rightarrow> s' = s | Some r \<Rightarrow> touched r s s')"
proof (cases "region_entry e")
  case None
  have out: "m \<notin> set (region_mods s p)" for p
    using region_mods_owner [OF wf_tree_parts(3) [OF wf_libD(2) [OF lib]], of m p] e None by (auto simp: mod_region_def)
  then have "filter (\<lambda>a. a \<noteq> m) (region_mods s p) = region_mods s p" for p by (intro filter_True) auto
  with out None e lib show ?thesis by (intro exI [of _ s]) (simp add: module_region_detach_def)
next
  case (Some r)
  note wf = wf_libD(2) [OF lib]
  from module_region_detach_ok [OF wf pl [OF Some]] obtain s' where s': "module_region_detach (Some m) s = Some s'"
    "wf_tree s'" "touched r s s'" "region_mods s' r = remove1 m (region_mods s r)"
    "\<forall>p. p \<noteq> r \<longrightarrow> region_mods s' p = region_mods s p" "unlisted s' m" by blast
  note t = touched_lib [OF lib s'(3,2)]
  have out': "m \<notin> set (region_mods s' p)" for p using s'(6) by (simp add: unlisted_def)
  have rm: "region_mods s' p = filter (\<lambda>a. a \<noteq> m) (region_mods s p)" for p
  proof (cases "p = r")
    case True
    have "distinct (region_mods s r)" by (rule dispatch_order.seq_distinct [OF wf])
    with True s'(4) show ?thesis by (simp add: distinct_remove1_removeAll removeAll_filter_not_eq) (metis)
  next
    case False
    with s'(5) out' [of p] have "region_mods s' p = region_mods s p" "m \<notin> set (region_mods s p)" by auto
    moreover from this(2) have "filter (\<lambda>a. a \<noteq> m) (region_mods s p) = region_mods s p" by (intro filter_True) auto
    ultimately show ?thesis by simp
  qed
  have st: "map_option mstat (mods s' a) = map_option mstat (mods s a)" for a
  proof (rule map_option_factor [OF t(3)])
    fix x y assume "mdata x = mdata y"
    from arg_cong [OF this, of mstat] show "mstat x = mstat y" by (simp add: mdata_def mstat_def)
  qed
  have "s' = s\<lparr>regions := regions s', mods := mods s'\<rparr>" using s'(3) by (simp add: touched_def)
  moreover have "case region_entry e of None \<Rightarrow> s' = s | Some r \<Rightarrow> touched r s s'" using Some s'(3) by simp
  ultimately show ?thesis using s'(1) t(1,2) st rm out' stays_touched [OF s'(3)] by (intro exI [of _ s']) blast
qed

text \<open>Inserting an entry that is in no list.\<close>

lemma insert_lib_ok:
  assumes lib: "wf_lib Q t" and e: "mods t m = Some e" and out: "\<forall>p. m \<notin> set (region_mods t p)"
    and live: "regions t r \<noteq> None" and a: "\<And>a. after = Some a \<Longrightarrow> a \<in> set (region_mods t r)"
  shows "\<exists>t1 e1. module_region_insert_after (Some r) (Some m) after t = Some t1 \<and> wf_lib Q t1 \<and> key_get Q t1 = key_get Q t
    \<and> (\<forall>q. region_mods t1 q = (if q = r then insert_after after m (region_mods t r) else region_mods t q))
    \<and> mods t1 m = Some e1 \<and> mdata e1 = mdata (e\<lparr>region_entry := Some r\<rparr>)
    \<and> (\<forall>a. a \<noteq> m \<longrightarrow> map_option mdata (mods t1 a) = map_option mdata (mods t a))
    \<and> t1 = t\<lparr>regions := regions t1, mods := mods t1\<rparr> \<and> stays t t1 \<and> touched r (set_region_entry r m t) t1"
proof -
  note w = wf_libD [OF lib]
  let ?e = "e\<lparr>region_entry := Some r\<rparr>" and ?u = "set_region_entry r m t"
  have u: "?u = t\<lparr>mods := (mods t)(m \<mapsto> ?e), next_addr := next_addr t\<rparr>"
    using e by (simp add: set_region_entry_def heap_upd_def)
  have lt: "m < next_addr t" using wf_tree_parts(3) [OF w(2)] e unfolding wf_mods_def by auto
  have ctx: "ctxs t c \<noteq> None" if "me_ctx ?e = Some c" for c
    using w(10) e that unfolding wf_modtab_def by auto
  have ku: "k = me_mod_key ?e" if "key_get Q t k = Some m" for k
    using mod_hd_get_live [OF w(10), of k m] that e by (simp add: key_get_def)
  note eu = entry_upd_ok [OF lib out u order_refl lt ku ctx]
  have un: "unlisted t m" using e out by (simp add: unlisted_def)
  from module_region_insert_after_ok [OF w(2) live un a] obtain t1 where t1:
    "module_region_insert_after (Some r) (Some m) after t = Some t1" "wf_tree t1" "touched r ?u t1"
    "region_mods t1 r = insert_after after m (region_mods t r)" "\<forall>q. q \<noteq> r \<longrightarrow> region_mods t1 q = region_mods t q"
    by blast
  note tl = touched_lib [OF eu(1) t1(3,2)]
  from tl(3) [of m] u obtain e1 where e1: "mods t1 m = Some e1" "mdata e1 = mdata ?e" by auto
  have oth: "map_option mdata (mods t1 a) = map_option mdata (mods t a)" if "a \<noteq> m" for a using tl(3) [of a] that by (simp add: u)
  have kg: "key_get Q t1 = key_get Q t" using tl(2) key_get_cong [of ?u t Q] by (simp add: u)
  obtain R M where RM: "t1 = ?u\<lparr>regions := R, mods := M\<rparr>"
  proof -
    have "t1 = ?u\<lparr>regions := regions t1, mods := mods t1\<rparr>" using t1(3) by (simp add: touched_def)
    then show ?thesis by (rule that)
  qed
  have form: "t1 = t\<lparr>regions := regions t1, mods := mods t1\<rparr>" by (simp add: RM u)
  have "stays t ?u" by (simp add: u stays_def)
  then have st: "stays t t1" using stays_touched [OF t1(3)] by (rule stays_trans)
  show ?thesis
    using t1(1,3) tl(1) kg t1(4,5) e1 oth form st by (intro exI [of _ t1] exI [of _ e1]) simp
qed

text \<open>\<open>mod_load_abort\<close> unlinks the entry without resetting its links; up to the entry, which it
  frees, this is a detach.\<close>

lemma abort_detach_ok:
  assumes lib: "wf_lib Q s" and e: "mods s m = Some e" "region_entry e = Some r" and m: "m \<in> set (region_mods s r)"
  shows "\<exists>s' e'. abort_detach m s = Some s' \<and> wf_lib Q s' \<and> key_get Q s' = key_get Q s \<and> mods s' m = Some e'
    \<and> me_mod_key e' = me_mod_key e \<and> (\<forall>a. a \<noteq> m \<longrightarrow> map_option mstat (mods s' a) = map_option mstat (mods s a))
    \<and> (\<forall>p. region_mods s' p = filter (\<lambda>a. a \<noteq> m) (region_mods s p)) \<and> (\<forall>p. m \<notin> set (region_mods s' p))
    \<and> s' = s\<lparr>regions := regions s', mods := mods s'\<rparr>
    \<and> (\<forall>p. map_option rdata (regions s' p) = map_option (\<lambda>e. rdata (if ancestor s p r then dirty_and_bump e else e)) (regions s p))
    \<and> (\<forall>a. a \<noteq> m \<longrightarrow> map_option mdata (mods s' a) = map_option mdata (mods s a))"
proof -
  note wf = wf_libD(2) [OF lib]
  have pl: "\<And>q. region_entry e = Some q \<Longrightarrow> m \<in> set (region_mods s q)" using e(2) m by simp
  obtain s3 where s3: "module_region_detach (Some m) s = Some s3" "wf_lib Q s3" "key_get Q s3 = key_get Q s"
    "\<And>a. map_option mstat (mods s3 a) = map_option mstat (mods s a)"
    "\<And>p. region_mods s3 p = filter (\<lambda>a. a \<noteq> m) (region_mods s p)" "\<forall>p. m \<notin> set (region_mods s3 p)"
    "s3 = s\<lparr>regions := regions s3, mods := mods s3\<rparr>" "touched r s s3"
    using detach_any_ok [OF lib e(1) pl] e(2) by auto
  from m obtain as bs where "region_mods s r = as @ m # bs" by (meson split_list)
  with region_mods_list [OF wf_tree_parts(3) [OF wf], of r] region_mods_owner [OF wf_tree_parts(3) [OF wf] m]
  have "mod_list s r (as @ m # bs)" by simp
  from module_unlink_ok [OF this] obtain s1 where s1: "module_unlink m r s = Some s1" "relinked s s1" "mods s1 m = mods s m"
    by blast
  have live: "regions s1 r \<noteq> None"
    using relinked_views(7) [OF s1(2)] region_mods_owner [OF wf_tree_parts(3) [OF wf] m] by simp
  let ?s2 = "s1\<lparr>mods := (mods s1)(m \<mapsto> e\<lparr>region_prev := None, region_next := None\<rparr>)\<rparr>"
  have p1: "wf_parents s1" by (rule relinked_parents [OF s1(2) wf_tree_parts(1) [OF wf]])
  then have p2: "wf_parents ?s2" by (simp add: wf_parents_def region_rank_def)
  let ?R = "ancestor_upd dirty_and_bump (Some r) s1"
  have m1: "region_mark_subtree_dirty (Some r) s1 = Some (s1\<lparr>regions := ?R\<rparr>)"
    by (rule region_mark_subtree_dirty_eq [OF p1]) (use live in simp)
  have "region_mark_subtree_dirty (Some r) ?s2 = Some (?s2\<lparr>regions := ancestor_upd dirty_and_bump (Some r) ?s2\<rparr>)"
    by (rule region_mark_subtree_dirty_eq [OF p2]) (use live in simp)
  moreover have "ancestor_upd dirty_and_bump (Some r) ?s2 = ?R"
  proof -
    have "ancestor ?s2 = ancestor s1" by (rule ancestor_cong) (simp_all add: region_parent_def fun_eq_iff)
    then show ?thesis by (simp add: ancestor_upd_def cong: if_cong)
  qed
  ultimately have s3': "s3 = ?s2\<lparr>regions := ?R\<rparr>"
    using s3(1) s1(1,3) e by (simp add: module_region_detach_def upd_mod_def)
  let ?e' = "e\<lparr>region_entry := None\<rparr>"
  let ?s' = "s3\<lparr>mods := (mods s3)(m \<mapsto> ?e'), next_addr := next_addr s3\<rparr>"
  have ab: "abort_detach m s = Some ?s'"
    using s1(1,3) e m1 by (simp add: abort_detach_def upd_mod_def s3')
  have lt: "m < next_addr s3" using wf_tree_parts(3) [OF wf_libD(2) [OF s3(2)]] s3(4) [of m] e(1)
    unfolding wf_mods_def by (metis map_option_is_None option.distinct(1))
  have ku: "k = me_mod_key ?e'" if "key_get Q s3 k = Some m" for k
    using mod_hd_get_live [OF wf_libD(10) [OF lib], of k m] that s3(3) e(1) by (simp add: key_get_def)
  have ctxs: "ctxs s3 c \<noteq> None" if "me_ctx ?e' = Some c" for c
  proof -
    have "ctxs s c \<noteq> None" using wf_libD(10) [OF lib] e(1) that unfolding wf_modtab_def by auto
    moreover have "ctxs s3 = ctxs s" by (subst s3(7)) simp
    ultimately show ?thesis by simp
  qed
  note u = entry_upd_ok [OF s3(2,6) refl order_refl lt ku ctxs]
  have kg: "key_get Q ?s' = key_get Q s" using key_get_cong [of ?s' s3 Q] s3(3) by simp
  obtain R3 M3 where RM: "s3 = s\<lparr>regions := R3, mods := M3\<rparr>" by (rule that) (rule s3(7))
  have form: "?s' = s\<lparr>regions := regions ?s', mods := mods ?s'\<rparr>" by (simp add: RM)
  have rm: "region_mods ?s' p = filter (\<lambda>a. a \<noteq> m) (region_mods s p)" for p using u(2) s3(5) by (rule trans)
  then have out: "\<forall>p. m \<notin> set (region_mods ?s' p)" by simp
  have oth: "map_option mstat (mods ?s' a) = map_option mstat (mods s a)" if "a \<noteq> m" for a using s3(4) that by simp
  show ?thesis
  proof (intro exI conjI allI impI)
    show "abort_detach m s = Some ?s'" by (rule ab)
    show "mods ?s' m = Some ?e'" "me_mod_key ?e' = me_mod_key e" by simp_all
    show "wf_lib Q ?s'" by (rule u(1))
    show "key_get Q ?s' = key_get Q s" by (rule kg)
    show "region_mods ?s' p = filter (\<lambda>a. a \<noteq> m) (region_mods s p)" for p by (rule rm)
    show "m \<notin> set (region_mods ?s' p)" for p using out by blast
    show "?s' = s\<lparr>regions := regions ?s', mods := mods ?s'\<rparr>" by (rule form)
    show "map_option rdata (regions ?s' p) = map_option (\<lambda>e. rdata (if ancestor s p r then dirty_and_bump e else e)) (regions s p)" for p
      using s3(8) by (simp add: touched_def)
    show "map_option mdata (mods ?s' a) = map_option mdata (mods s a)" if "a \<noteq> m" for a
      using s3(8) that by (simp add: touched_def)
  qed (rule oth)
qed

lemma unload_entry_ok:
  assumes Q: "qmap_laws Q" and C: "cleanup_ok E" and lib: "wf_lib Q s" and ent: "wf_entries s"
    and e: "mods s m = Some e" and stored: "key_get Q s (me_mod_key e) = Some m"
  shows "\<exists>s'. unload_entry E Q m s = Some s' \<and> wf_lib Q s' \<and> taken_out Q m s s'"
proof -
  note w = wf_libD [OF lib]
  from ent e have pl: "me_handle e \<noteq> None" "\<And>r. region_entry e = Some r \<Longrightarrow> m \<in> set (region_mods s r)"
    unfolding wf_entries_def by blast+
  from clear_ok [OF Q lib e] obtain s1 where s1: "module_clear_fn_cache_for_handle E Q (Some m) s = Some s1" "cleared m s s1"
    by blast
  note k1 = cleared_keeps [OF s1(2)]
  have e1: "mods s1 m = Some e" using s1(2) e by (simp add: cleared_def)
  note lib1 = keeps_wf_lib [OF k1(1) lib]
  have m1: "region_mods s1 p = region_mods s p" for p by (rule keeps_region_mods [OF k1(1) w(2)])
  have live: "regions s1 r \<noteq> None" if "region_entry e = Some r" for r
    using region_mods_owner [OF wf_tree_parts(3) [OF wf_libD(2) [OF lib1]], of m r] pl(2) [OF that] m1 by simp
  from remove_denies_keeps [of e s1 Q "load_path e", OF live] obtain s2 where s2:
    "module_remove_path_owned_entries Q (region_entry e) (load_path e) s1 = Some s2" "keeps s1 s2"
    "s2 = s1\<lparr>regions := regions s2\<rparr>" "stays s1 s2" by blast
  note lib2 = keeps_wf_lib [OF s2(2) lib1]
  obtain R where R: "s2 = s1\<lparr>regions := R\<rparr>" by (rule that) (rule s2(3))
  have m2: "region_mods s2 p = region_mods s p" for p
    using keeps_region_mods [OF s2(2) wf_libD(2) [OF lib1]] m1 by simp
  have e2: "mods s2 m = Some e" using e1 R by simp
  obtain s3 where s3: "module_region_detach (Some m) s2 = Some s3" "wf_lib Q s3" "key_get Q s3 = key_get Q s2"
    "\<And>a. map_option mstat (mods s3 a) = map_option mstat (mods s2 a)"
    "\<And>p. region_mods s3 p = filter (\<lambda>a. a \<noteq> m) (region_mods s2 p)" "\<And>p. m \<notin> set (region_mods s3 p)"
    "s3 = s2\<lparr>regions := regions s3, mods := mods s3\<rparr>" "stays s2 s3"
    using detach_any_ok [OF lib2 e2] pl(2) m2 by auto
  obtain R3 M3 where R3: "s3 = s2\<lparr>regions := R3, mods := M3\<rparr>" by (rule that) (rule s3(7))
  obtain M1 where M1: "s1 = s\<lparr>mods := M1\<rparr>" using s1(2) unfolding cleared_def by blast
  from s3(4) [of m] e2 obtain e3 where e3: "mods s3 m = Some e3" "mstat e3 = mstat e" by auto
  note f3 = mstat_fields [OF e3(2)]
  have g3: "key_get Q s3 = key_get Q s"
    using s3(3) key_get_cong [of s2 s1 Q] key_get_cong [of s1 s Q] R M1 by simp
  have "\<forall>p. m \<notin> set (region_mods s3 p)" using s3(6) by blast
  from free_tail_ok [OF Q C s3(2) e3(1) _ this] f3 pl(1) stored g3 obtain s4 s' where s4: "unload_tables Q m s3 = Some s4"
    "module_free_entry E (Some m) s4 = Some s'" "wf_lib Q s'" "taken_out Q m s3 s'" by auto
  have "unload_entry E Q m s = Some s'" using s1(1) e1 s2(1) s3(1) s4(1,2) by (simp add: unload_entry_def)
  moreover have "stays s s3"
  proof (rule stays_trans [OF _ stays_trans [OF s2(4) s3(8)]])
    show "stays s s1" by (simp add: M1 stays_def)
  qed
  with s4(4) have "stays s s'" by (auto simp: taken_out_def intro: stays_trans)
  then have "taken_out Q m s s'"
    using s4(4) s3(4) s3(5) k1(2) m2 g3 unfolding taken_out_def by (simp add: R3 R M1)
  ultimately show ?thesis using s4(3) by blast
qed

lemma demo_cleanup_ok: "cleanup_ok demo_env"
proof -
  have "e_cleanup demo_env f a s = Some (s\<lparr>states := states s\<rparr>)" for f a s by (simp add: demo_env_def)
  then show ?thesis unfolding cleanup_ok_def by blast
qed

end
