(* ===== verification/Xy_Cascade.thy ===== *)
theory Xy_Cascade
  imports Xy_Taken
begin

text \<open>
  The cascade of \<open>_mod_unload\<close>: unloading the last reference of a module takes one reference
  from each module it had loaded, and so on.  The recursion ends because a module is
  allocated after the one that loads it, and it reaches only modules that descend from the
  unloaded one.
\<close>

section \<open>Names\<close>

text \<open>The key a name stands for in a region, and the key a module is unloaded by.\<close>

definition inst_key :: "'q env \<Rightarrow> string \<Rightarrow> u64 \<Rightarrow> string" where
  "inst_key E fname rid = key_of (case e_realpath E (fname @ ''.so'') of Some p \<Rightarrow> p | None \<Rightarrow> fname @ ''.so'') rid"

lemma lookup_eq:
  assumes "alloc_ok E"
  shows "lk_err (module_lookup_from_fname E Q fname rid s) = XY_OK"
    "lk_entry (module_lookup_from_fname E Q fname rid s) = key_get Q s (inst_key E fname rid)"
  using assms by (simp_all add: module_lookup_from_fname_def module_load_path_def alloc_ok_def inst_key_def
      key_of_def key_get_def Let_def)

definition own_path :: "'q xy_state \<Rightarrow> mptr \<Rightarrow> string option" where
  "own_path s m = (do { e \<leftarrow> mods s m; c \<leftarrow> me_ctx e; x \<leftarrow> ctxs s c; ctx_module_path x })"

definition own_key :: "'q env \<Rightarrow> 'q xy_state \<Rightarrow> mptr \<Rightarrow> string option" where
  "own_key E s m = (do { e \<leftarrow> mods s m; p \<leftarrow> own_path s m; Some (inst_key E p (me_region_id e)) })"

definition named :: "'q env \<Rightarrow> 'q qmap_ops \<Rightarrow> 'q xy_state \<Rightarrow> mptr \<Rightarrow> bool" where
  "named E Q s m \<longleftrightarrow> (\<exists>k. own_key E s m = Some k \<and> key_get Q s k = Some m)"

text \<open>\<open>lineage\<close>: a module is allocated after the one that loads it, and the path in its context
  finds no other module.\<close>

definition lineage :: "'q env \<Rightarrow> 'q qmap_ops \<Rightarrow> 'q xy_state \<Rightarrow> bool" where
  "lineage E Q s \<longleftrightarrow> (\<forall>m e. mods s m = Some e \<longrightarrow> (\<forall>p. parent_entry e = Some p \<longrightarrow> p < m))
     \<and> (\<forall>m k a. own_key E s m = Some k \<longrightarrow> key_get Q s k = Some a \<longrightarrow> a = m)"

definition unloadable :: "'q env \<Rightarrow> 'q qmap_ops \<Rightarrow> 'q xy_state \<Rightarrow> bool" where
  "unloadable E Q s \<longleftrightarrow> wf_lib Q s \<and> wf_entries s \<and> lineage E Q s"

inductive loaded_from :: "'q xy_state \<Rightarrow> mptr \<Rightarrow> mptr \<Rightarrow> bool" for s m where
  loaded_self: "loaded_from s m m"
| loaded_child: "loaded_from s m p \<Longrightarrow> mods s a = Some e \<Longrightarrow> parent_entry e = Some p \<Longrightarrow> loaded_from s m a"

lemma loaded_from_le: "loaded_from s m a \<Longrightarrow> lineage E Q s \<Longrightarrow> m \<le> a"
proof (induction rule: loaded_from.induct)
  case (loaded_child p a e)
  then have "p < a" unfolding lineage_def by blast
  with loaded_child show ?case by simp
qed simp

lemma loaded_from_trans: "loaded_from s c a \<Longrightarrow> loaded_from s m c \<Longrightarrow> loaded_from s m a"
  by (induction rule: loaded_from.induct) (auto intro: loaded_child)

lemma kids_apart:
  assumes "lineage E Q s" and "mods s c = Some e" "parent_entry e = Some m" and "mods s d = Some e'" "parent_entry e' = Some m"
    and "c \<noteq> d"
  shows "\<not> loaded_from s c d" and "\<not> loaded_from s c m"
proof -
  have lt: "m < c" using assms(1-3) unfolding lineage_def by blast
  show n: "\<not> loaded_from s c m" using loaded_from_le [OF _ assms(1), of c m] lt by auto
  show "\<not> loaded_from s c d"
  proof
    assume "loaded_from s c d"
    then show False by (cases rule: loaded_from.cases) (use assms n in auto)
  qed
qed

section \<open>States with fewer modules\<close>

definition mcore :: "xy_mod_entry \<Rightarrow> xy_mod_entry" where
  "mcore e = (mstat e)\<lparr>refcount := 0\<rparr>"

lemma mcore_fields:
  assumes "mcore x = mcore y"
  shows "me_mod_key x = me_mod_key y" "me_ctx x = me_ctx y" "me_handle x = me_handle y"
    "parent_entry x = parent_entry y" "region_entry x = region_entry y" "me_region_id x = me_region_id y"
  using assms by (auto simp: mcore_def mstat_def dest: arg_cong [of _ _ me_mod_key] arg_cong [of _ _ me_ctx]
      arg_cong [of _ _ me_handle] arg_cong [of _ _ parent_entry] arg_cong [of _ _ region_entry] arg_cong [of _ _ me_region_id])

definition same_entry :: "'q xy_state \<Rightarrow> 'q xy_state \<Rightarrow> mptr \<Rightarrow> bool" where
  "same_entry s s' a \<longleftrightarrow> map_option mstat (mods s' a) = map_option mstat (mods s a)"

definition shrunk :: "'q qmap_ops \<Rightarrow> 'q xy_state \<Rightarrow> 'q xy_state \<Rightarrow> bool" where
  "shrunk Q s s' \<longleftrightarrow> (\<forall>a. mods s' a = None \<or> map_option mcore (mods s' a) = map_option mcore (mods s a))
     \<and> (\<forall>p. region_mods s' p = filter (\<lambda>a. mods s' a \<noteq> None) (region_mods s p))
     \<and> (\<forall>k. key_get Q s' k = (case key_get Q s k of None \<Rightarrow> None | Some a \<Rightarrow> if mods s' a = None then None else Some a))
     \<and> ctxs s' = ctxs s \<and> next_addr s' = next_addr s
     \<and> xy_current_region_id s' = xy_current_region_id s \<and> xy_current_region_entry s' = xy_current_region_entry s
     \<and> stays s s'"

lemma key_get_live: "wf_lib Q s \<Longrightarrow> key_get Q s k = Some a \<Longrightarrow> \<exists>e. mods s a = Some e \<and> me_mod_key e = k"
  using mod_hd_get_live [OF wf_libD(10)] by (simp add: key_get_def)

lemma region_mods_live: "wf_lib Q s \<Longrightarrow> a \<in> set (region_mods s p) \<Longrightarrow> mods s a \<noteq> None"
  using region_mods_owner [OF wf_tree_parts(3) [OF wf_libD(2)]] by (fastforce simp: mod_region_def)

lemma same_entry_live: "same_entry s s' a \<Longrightarrow> mods s' a = None \<longleftrightarrow> mods s a = None"
  by (cases "mods s a"; cases "mods s' a") (auto simp: same_entry_def)

lemma same_entry_obtain:
  assumes "same_entry s s' a" and "mods s a = Some e"
  obtains e' where "mods s' a = Some e'" "mstat e' = mstat e"
  using assms by (auto simp: same_entry_def)

lemma shrunkD:
  assumes "shrunk Q s s'"
  shows "mods s' a = None \<or> map_option mcore (mods s' a) = map_option mcore (mods s a)"
    "region_mods s' p = filter (\<lambda>a. mods s' a \<noteq> None) (region_mods s p)"
    "key_get Q s' k = (case key_get Q s k of None \<Rightarrow> None | Some a \<Rightarrow> if mods s' a = None then None else Some a)"
    "ctxs s' = ctxs s" "next_addr s' = next_addr s"
    "xy_current_region_id s' = xy_current_region_id s" "xy_current_region_entry s' = xy_current_region_entry s"
    "stays s s'"
  using assms unfolding shrunk_def by blast+

lemma shrunk_gone: "shrunk Q s s' \<Longrightarrow> mods s a = None \<Longrightarrow> mods s' a = None"
  using shrunkD(1) [of Q s s' a] by auto

lemma shrunk_obtain:
  assumes "shrunk Q s s'" and "mods s' a = Some e'"
  obtains e where "mods s a = Some e" "mcore e' = mcore e"
proof -
  from shrunkD(1) [OF assms(1), of a] assms(2) have "map_option mcore (mods s' a) = map_option mcore (mods s a)" by simp
  with assms(2) that show ?thesis by (cases "mods s a") auto
qed

lemma shrunkI:
  assumes lib: "wf_lib Q s" and sub: "\<And>a. mods s' a = None \<or> map_option mcore (mods s' a) = map_option mcore (mods s a)"
    and live: "\<And>a. a \<in> D \<longleftrightarrow> mods s a \<noteq> None \<and> mods s' a = None"
    and lists: "\<And>p. region_mods s' p = filter (\<lambda>a. a \<notin> D) (region_mods s p)"
    and keys: "\<And>k. key_get Q s' k = (case key_get Q s k of None \<Rightarrow> None | Some a \<Rightarrow> if a \<in> D then None else Some a)"
    and rest: "ctxs s' = ctxs s" "next_addr s' = next_addr s"
      "xy_current_region_id s' = xy_current_region_id s" "xy_current_region_entry s' = xy_current_region_entry s" "stays s s'"
  shows "shrunk Q s s'"
  unfolding shrunk_def
proof (intro conjI allI sub rest)
  show "region_mods s' p = filter (\<lambda>a. mods s' a \<noteq> None) (region_mods s p)" for p
    unfolding lists
  proof (rule filter_cong [OF refl])
    fix x assume "x \<in> set (region_mods s p)"
    from region_mods_live [OF lib this] live [of x] show "(x \<notin> D) = (mods s' x \<noteq> None)" by simp
  qed
  fix k
  show "key_get Q s' k = (case key_get Q s k of None \<Rightarrow> None | Some a \<Rightarrow> if mods s' a = None then None else Some a)"
  proof (cases "key_get Q s k")
    case None
    with keys [of k] show ?thesis by simp
  next
    case (Some a)
    with key_get_live [OF lib, of k a] live [of a] keys [of k] show ?thesis by auto
  qed
qed

lemma shrunk_trans:
  assumes "shrunk Q s t" and "shrunk Q t u"
  shows "shrunk Q s u"
  unfolding shrunk_def
proof (intro conjI allI)
  note a = shrunkD [OF assms(1)] and b = shrunkD [OF assms(2)]
  have gone: "mods u x = None" if "mods t x = None" for x by (rule shrunk_gone [OF assms(2) that])
  show "mods u x = None \<or> map_option mcore (mods u x) = map_option mcore (mods s x)" for x
    using a(1) [of x] b(1) [of x] gone [of x] by (cases "mods u x"; cases "mods t x") simp_all
  show "region_mods u p = filter (\<lambda>a. mods u a \<noteq> None) (region_mods s p)" for p
    unfolding b(2) [of p] a(2) [of p] filter_filter
  proof (rule filter_cong [OF refl])
    show "(mods t x \<noteq> None \<and> mods u x \<noteq> None) = (mods u x \<noteq> None)" for x using gone [of x] by (cases "mods t x") simp_all
  qed
  show "key_get Q u k = (case key_get Q s k of None \<Rightarrow> None | Some a \<Rightarrow> if mods u a = None then None else Some a)" for k
    using a(3) [of k] b(3) [of k] gone by (cases "key_get Q s k") (simp_all split: if_splits)
  show "ctxs u = ctxs s" "next_addr u = next_addr s" "xy_current_region_id u = xy_current_region_id s"
    "xy_current_region_entry u = xy_current_region_entry s" using a b by simp_all
  show "stays s u" by (rule stays_trans [OF a(8) b(8)])
qed

lemma shrunk_loaded_from:
  assumes "shrunk Q s s'" and "loaded_from s' m a"
  shows "loaded_from s m a"
  using assms(2)
proof (induction rule: loaded_from.induct)
  case (loaded_child p a e)
  from shrunk_obtain [OF assms(1) loaded_child(2)] obtain e0 where "mods s a = Some e0" "mcore e = mcore e0" .
  with mcore_fields(4) loaded_child show ?case by (metis loaded_from.loaded_child)
qed (rule loaded_self)

lemma shrunk_own_key:
  assumes "shrunk Q s s'" and "mods s' a \<noteq> None"
  shows "own_key E s' a = own_key E s a" and "own_path s' a = own_path s a"
proof -
  from assms(2) obtain e' where e': "mods s' a = Some e'" by auto
  from shrunk_obtain [OF assms(1) e'] obtain e where e: "mods s a = Some e" "mcore e' = mcore e" .
  have c: "ctxs s' = ctxs s" using assms(1) by (simp add: shrunk_def)
  show p: "own_path s' a = own_path s a" using e e' c mcore_fields [OF e(2)] by (simp add: own_path_def)
  show "own_key E s' a = own_key E s a" using e e' p mcore_fields [OF e(2)] by (simp add: own_key_def)
qed

lemma shrunk_unloadable:
  assumes u: "unloadable E Q s" and sh: "shrunk Q s s'" and lib: "wf_lib Q s'"
  shows "unloadable E Q s'"
proof -
  from u have ent: "wf_entries s" and lin: "lineage E Q s" by (simp_all add: unloadable_def)
  have ent': "wf_entries s'"
    unfolding wf_entries_def
  proof (intro allI impI)
    fix m e' assume e': "mods s' m = Some e'"
    from shrunk_obtain [OF sh e'] obtain e where e: "mods s m = Some e" "mcore e' = mcore e" .
    note f = mcore_fields [OF e(2)]
    from ent e(1) have "me_handle e \<noteq> None" "\<And>r. region_entry e = Some r \<Longrightarrow> m \<in> set (region_mods s r)"
      unfolding wf_entries_def by blast+
    with f e' sh show "me_handle e' \<noteq> None \<and> (\<forall>r. region_entry e' = Some r \<longrightarrow> m \<in> set (region_mods s' r))"
      unfolding shrunk_def by auto
  qed
  have "lineage E Q s'"
    unfolding lineage_def
  proof (intro conjI allI impI)
    fix m e' p assume e': "mods s' m = Some e'" "parent_entry e' = Some p"
    from shrunk_obtain [OF sh e'(1)] obtain e where "mods s m = Some e" "mcore e' = mcore e" .
    with e' mcore_fields(4) [of e' e] lin show "p < m" unfolding lineage_def by metis
  next
    fix m k a assume k: "own_key E s' m = Some k" "key_get Q s' k = Some a"
    then have "mods s' m \<noteq> None" by (auto simp: own_key_def bind_eq_Some_conv)
    with shrunk_own_key(1) [OF sh] k(1) have "own_key E s m = Some k" by metis
    moreover have "key_get Q s k = Some a" using k(2) sh by (auto simp: shrunk_def split: option.splits if_splits)
    ultimately show "a = m" using lin unfolding lineage_def by blast
  qed
  with ent' lib show ?thesis by (simp add: unloadable_def)
qed

section \<open>The recursion\<close>

lemma taken_out_shrunk:
  assumes lib: "wf_lib Q s" and t: "taken_out Q m s s'" and m: "mods s m \<noteq> None"
  shows "shrunk Q s s'" and "a \<noteq> m \<Longrightarrow> same_entry s s' a"
proof -
  have same: "map_option mstat (mods s' a) = map_option mstat (mods s a)" if "a \<noteq> m" for a
    using t that by (simp add: taken_out_def)
  then show "a \<noteq> m \<Longrightarrow> same_entry s s' a" by (simp add: same_entry_def)
  have gone: "mods s' m = None" using t by (simp add: taken_out_def)
  have core: "map_option mcore (mods s' a) = map_option mcore (mods s a)" if "a \<noteq> m" for a
    by (rule map_option_factor [OF same [OF that]]) (simp add: mcore_def)
  show "shrunk Q s s'"
  proof (rule shrunkI [OF lib, of s' "{m}"])
    show "mods s' a = None \<or> map_option mcore (mods s' a) = map_option mcore (mods s a)" for a
      using gone core [of a] by (cases "a = m") simp_all
    show "a \<in> {m} \<longleftrightarrow> mods s a \<noteq> None \<and> mods s' a = None" for a
      using gone m same [of a] by (cases "a = m") auto
    show "key_get Q s' k = (case key_get Q s k of None \<Rightarrow> None | Some a \<Rightarrow> if a \<in> {m} then None else Some a)" for k
      using t by (simp add: taken_out_def split: option.split)
  qed (use t in \<open>simp_all add: taken_out_def\<close>)
qed

lemma shrunk_refl:
  assumes lib: "wf_lib Q s"
  shows "shrunk Q s s"
proof (rule shrunkI [OF lib, of s "{}"])
  show "key_get Q s k = (case key_get Q s k of None \<Rightarrow> None | Some a \<Rightarrow> if a \<in> {} then None else Some a)" for k
    by (simp split: option.split)
  show "mods s a = None \<or> map_option mcore (mods s a) = map_option mcore (mods s a)" for a by (rule disjI2) (rule refl)
  show "a \<in> {} \<longleftrightarrow> mods s a \<noteq> None \<and> mods s a = None" for a by (cases "mods s a") simp_all
qed simp_all

lemma same_entry_refl [simp]: "same_entry s s a"
  by (simp add: same_entry_def)

lemma same_entry_trans: "same_entry s t a \<Longrightarrow> same_entry t u a \<Longrightarrow> same_entry s u a"
  by (simp add: same_entry_def)

text \<open>Losing one reference: the count goes down, and the last one takes the entry away.\<close>

definition dereferenced :: "'q xy_state \<Rightarrow> 'q xy_state \<Rightarrow> mptr \<Rightarrow> bool" where
  "dereferenced s s' c \<longleftrightarrow> (\<exists>e. mods s c = Some e \<and> (if refcount e > 1
     then \<exists>e'. mods s' c = Some e' \<and> refcount e' = refcount e - 1 else mods s' c = None))"

lemma dereferenced_iff:
  "dereferenced s s' c \<longleftrightarrow> (\<exists>n. map_option refcount (mods s c) = Some n
     \<and> map_option refcount (mods s' c) = (if n > 1 then Some (n - 1) else None))"
  by (cases "mods s c"; cases "mods s' c") (auto simp: dereferenced_def)

lemma same_entry_refcount: "same_entry s s' a \<Longrightarrow> map_option refcount (mods s' a) = map_option refcount (mods s a)"
  unfolding same_entry_def by (erule map_option_factor) (rule mstat_fields(3))

lemma dereferenced_after: "dereferenced s t c \<Longrightarrow> same_entry t u c \<Longrightarrow> dereferenced s u c"
  by (simp add: dereferenced_iff same_entry_refcount)

lemma dereferenced_before: "same_entry s t c \<Longrightarrow> dereferenced t u c \<Longrightarrow> dereferenced s u c"
  by (simp add: dereferenced_iff same_entry_refcount)

text \<open>\<open>released E Q s m a\<close>: unloading \<open>m\<close> reaches \<open>a\<close>, which loses a reference.  The cascade goes on
  from a module to those it loaded only when the module's last reference goes, and only to
  those that their own path finds.\<close>

inductive released :: "'q env \<Rightarrow> 'q qmap_ops \<Rightarrow> 'q xy_state \<Rightarrow> mptr \<Rightarrow> mptr \<Rightarrow> bool" for E Q s m where
  released_self: "released E Q s m m"
| released_child: "released E Q s m p \<Longrightarrow> mods s p = Some ep \<Longrightarrow> refcount ep \<le> 1 \<Longrightarrow> mods s a = Some e
    \<Longrightarrow> parent_entry e = Some p \<Longrightarrow> named E Q s a \<Longrightarrow> released E Q s m a"

lemma released_loaded: "released E Q s m a \<Longrightarrow> loaded_from s m a"
  by (induction rule: released.induct) (auto intro: loaded_self loaded_child)

lemma released_trans: "released E Q s c a \<Longrightarrow> released E Q s m c \<Longrightarrow> released E Q s m a"
  by (induction rule: released.induct) (auto intro: released_child)

lemma released_unfold:
  "released E Q s m a \<longleftrightarrow> a = m \<or> (\<exists>em c ec. mods s m = Some em \<and> refcount em \<le> 1 \<and> mods s c = Some ec
     \<and> parent_entry ec = Some m \<and> named E Q s c \<and> released E Q s c a)" (is "_ \<longleftrightarrow> ?R a")
proof
  show "released E Q s m a \<Longrightarrow> ?R a"
    by (induction rule: released.induct) (simp, blast intro: released_self released_child)
  show "?R a \<Longrightarrow> released E Q s m a"
    using released_trans [OF _ released_child [OF released_self]] released_self by blast
qed

lemma loaded_from_comparable:
  "loaded_from s c a \<Longrightarrow> loaded_from s d a \<Longrightarrow> loaded_from s c d \<or> loaded_from s d c"
proof (induction rule: loaded_from.induct)
  case (loaded_child p a e)
  from loaded_child.prems show ?case
  proof (cases rule: loaded_from.cases)
    case loaded_self
    with loaded_child show ?thesis using loaded_from.loaded_child by blast
  next
    case (loaded_child q e')
    with \<open>mods s a = Some e\<close> \<open>parent_entry e = Some p\<close> \<open>loaded_from s d p \<Longrightarrow> _\<close> show ?thesis by simp
  qed
qed blast

text \<open>Losing one reference where the cascade reaches, nothing elsewhere.\<close>

definition changes_only :: "(mptr \<Rightarrow> bool) \<Rightarrow> 'q xy_state \<Rightarrow> 'q xy_state \<Rightarrow> bool" where
  "changes_only D s s' \<longleftrightarrow> (\<forall>a. if D a then dereferenced s s' a else same_entry s s' a)"

lemma changes_onlyD: "changes_only D s s' \<Longrightarrow> D a \<Longrightarrow> dereferenced s s' a" "changes_only D s s' \<Longrightarrow> \<not> D a \<Longrightarrow> same_entry s s' a"
  unfolding changes_only_def by metis+

lemma changes_only_trans:
  assumes "changes_only A s t" and "changes_only B t u" and "\<And>a. A a \<Longrightarrow> \<not> B a" and "\<And>a. D a \<longleftrightarrow> A a \<or> B a"
  shows "changes_only D s u"
  unfolding changes_only_def
proof
  note s = changes_onlyD [OF assms(1)] and t = changes_onlyD [OF assms(2)]
  fix a show "if D a then dereferenced s u a else same_entry s u a"
    using s [of a] t [of a] assms(3,4) [of a] dereferenced_after [of s t a u] dereferenced_before [of s t a u]
      same_entry_trans [of s t a u] by (cases "A a"; cases "B a") simp_all
qed

text \<open>A property that every step of an unload keeps; \<open>carries\<close>: every such property has been kept.\<close>

definition unload_stable :: "'q env \<Rightarrow> 'q qmap_ops \<Rightarrow> ('q xy_state \<Rightarrow> bool) \<Rightarrow> bool" where
  "unload_stable E Q P \<longleftrightarrow> (\<forall>s x. P s \<longrightarrow> P (xy_set_err x s))
     \<and> (\<forall>s m e x. unloadable E Q s \<longrightarrow> P s \<longrightarrow> mods s m = Some e \<longrightarrow> P (s\<lparr>mods := (mods s)(m \<mapsto> e\<lparr>refcount := x\<rparr>)\<rparr>))
     \<and> (\<forall>s m e s'. unloadable E Q s \<longrightarrow> P s \<longrightarrow> mods s m = Some e \<longrightarrow> key_get Q s (me_mod_key e) = Some m
          \<longrightarrow> unload_entry E Q m s = Some s' \<longrightarrow> P s')"

definition carries :: "'q env \<Rightarrow> 'q qmap_ops \<Rightarrow> 'q xy_state \<Rightarrow> 'q xy_state \<Rightarrow> bool" where
  "carries E Q s s' \<longleftrightarrow> (\<forall>P. unload_stable E Q P \<longrightarrow> P s \<longrightarrow> P s')"

lemma carries_refl [simp]: "carries E Q s s"
  by (simp add: carries_def)

lemma carries_trans: "carries E Q s t \<Longrightarrow> carries E Q t u \<Longrightarrow> carries E Q s u"
  unfolding carries_def by blast

lemma carries_steps:
  "carries E Q s (xy_set_err x s)"
  "unloadable E Q s \<Longrightarrow> mods s m = Some e \<Longrightarrow> carries E Q s (s\<lparr>mods := (mods s)(m \<mapsto> e\<lparr>refcount := n\<rparr>)\<rparr>)"
  "unloadable E Q s \<Longrightarrow> mods s m = Some e \<Longrightarrow> key_get Q s (me_mod_key e) = Some m \<Longrightarrow> unload_entry E Q m s = Some s'
     \<Longrightarrow> carries E Q s s'"
  unfolding carries_def unload_stable_def by blast+

text \<open>One level of the recursion: what a call with enough fuel achieves.\<close>

definition unload_post :: "'q env \<Rightarrow> 'q qmap_ops \<Rightarrow> mptr \<Rightarrow> 'q xy_state \<Rightarrow> 'q xy_state \<Rightarrow> bool" where
  "unload_post E Q m s s' \<longleftrightarrow> unloadable E Q s' \<and> shrunk Q s s' \<and> dereferenced s s' m \<and> carries E Q s s'
     \<and> (\<forall>a. \<not> loaded_from s m a \<longrightarrow> same_entry s s' a) \<and> changes_only (released E Q s m) s s'"

definition unload_works :: "'q env \<Rightarrow> 'q qmap_ops \<Rightarrow> nat \<Rightarrow> bool" where
  "unload_works E Q n \<longleftrightarrow> (\<forall>s fname rid m. unloadable E Q s \<longrightarrow> key_get Q s (inst_key E fname rid) = Some m
     \<longrightarrow> next_addr s < n + m \<longrightarrow> (\<exists>s'. mod_unload n E Q fname rid s = Some (XY_OK, s') \<and> unload_post E Q m s s'))"

text \<open>A child whose path names nothing is left alone, but for the error number.\<close>

lemma errno_frame:
  assumes u: "unloadable E Q s"
  shows "unloadable E Q (xy_set_err x s)" and "shrunk Q s (xy_set_err x s)" and "same_entry s (xy_set_err x s) a"
proof -
  have lib: "wf_lib Q s" using u by (simp add: unloadable_def)
  have k: "keeps s (xy_set_err x s)" by simp
  have rm: "region_mods (xy_set_err x s) p = region_mods s p" for p by (rule keeps_region_mods [OF k wf_libD(2) [OF lib]])
  have kg: "key_get Q (xy_set_err x s) = key_get Q s" by (rule key_get_cong) (simp add: xy_set_err_def)
  have f: "mods (xy_set_err x s) = mods s" "ctxs (xy_set_err x s) = ctxs s" "next_addr (xy_set_err x s) = next_addr s"
    "xy_current_region_id (xy_set_err x s) = xy_current_region_id s"
    "xy_current_region_entry (xy_set_err x s) = xy_current_region_entry s" by (simp_all add: xy_set_err_def)
  show "same_entry s (xy_set_err x s) a" by (simp add: same_entry_def f)
  show sh: "shrunk Q s (xy_set_err x s)"
    unfolding shrunk_def rm kg f using shrunk_refl [OF lib, unfolded shrunk_def] by (simp add: stays_def xy_set_err_def)
  show "unloadable E Q (xy_set_err x s)" by (rule shrunk_unloadable [OF u sh keeps_wf_lib [OF k lib]])
qed

text \<open>The loop over the children.\<close>

definition child_step :: "'q env \<Rightarrow> 'q qmap_ops \<Rightarrow> mptr \<Rightarrow> 'q xy_state \<Rightarrow> 'q xy_state \<Rightarrow> bool" where
  "child_step E Q c s s' \<longleftrightarrow> unloadable E Q s' \<and> shrunk Q s s' \<and> (\<forall>a. \<not> loaded_from s c a \<longrightarrow> same_entry s s' a)
     \<and> changes_only (\<lambda>a. named E Q s c \<and> released E Q s c a) s s' \<and> carries E Q s s'"

lemma unload_one_child:
  assumes A: "alloc_ok E" and W: "unload_works E Q n" and u: "unloadable E Q s" and c: "mods s c = Some e"
    and fuel: "next_addr s < n + c"
  shows "\<exists>s1. unload_children (mod_unload n E Q) (c # cs) s = unload_children (mod_unload n E Q) cs s1 \<and> child_step E Q c s s1"
proof -
  have lib: "wf_lib Q s" using u by (simp add: unloadable_def)
  note w = wf_libD [OF lib]
  have path: "(case me_ctx e of None \<Rightarrow> Some None | Some x \<Rightarrow> map_option ctx_module_path (ctxs s x)) = Some (own_path s c)"
  proof (cases "me_ctx e")
    case None
    with c show ?thesis by (simp add: own_path_def)
  next
    case (Some x)
    with w(10) c obtain y where "ctxs s x = Some y" unfolding wf_modtab_def by blast
    with Some c show ?thesis by (simp add: own_path_def)
  qed
  have idle: "child_step E Q c s s" if "\<not> named E Q s c"
    using that u shrunk_refl [OF lib] by (simp add: child_step_def changes_only_def)
  show ?thesis
  proof (cases "own_path s c")
    case None
    then have "\<not> named E Q s c" by (auto simp: named_def own_key_def bind_eq_Some_conv)
    with idle None path c show ?thesis by (intro exI [of _ s]) simp
  next
    case (Some p)
    let ?k = "inst_key E p (me_region_id e)"
    have k: "own_key E s c = Some ?k" using Some c by (simp add: own_key_def)
    show ?thesis
    proof (cases "key_get Q s ?k")
      case None
      then have "\<not> named E Q s c" using k by (simp add: named_def)
      have "c < next_addr s" using wf_tree_parts(3) [OF w(2)] c unfolding wf_mods_def by auto
      with fuel obtain n' where n': "n = Suc n'" by (cases n) auto
      have "mod_unload n E Q p (me_region_id e) s = Some (XY_ERR_NOTFOUND, xy_set_err XY_ERR_NOTFOUND s)"
        using None lookup_eq [OF A] by (simp add: n' fail_with_def)
      then have "unload_children (mod_unload n E Q) (c # cs) s
          = unload_children (mod_unload n E Q) cs (xy_set_err XY_ERR_NOTFOUND s)"
        using c path Some by simp
      moreover have "child_step E Q c s (xy_set_err XY_ERR_NOTFOUND s)"
        using errno_frame [OF u] \<open>\<not> named E Q s c\<close> carries_steps(1) by (simp add: child_step_def changes_only_def)
      ultimately show ?thesis by blast
    next
      case (Some a)
      have "a = c" using u k Some unfolding unloadable_def lineage_def by blast
      with Some k have nm: "named E Q s c" by (simp add: named_def)
      from W u Some fuel \<open>a = c\<close> obtain s1 where s1: "mod_unload n E Q p (me_region_id e) s = Some (XY_OK, s1)"
        "unload_post E Q c s s1" unfolding unload_works_def by blast
      then have "unload_children (mod_unload n E Q) (c # cs) s = unload_children (mod_unload n E Q) cs s1"
        using c path \<open>own_path s c = Some p\<close> by simp
      moreover have "child_step E Q c s s1" using s1(2) nm by (simp add: child_step_def unload_post_def)
      ultimately show ?thesis by blast
    qed
  qed
qed

lemma named_same:
  assumes "shrunk Q s s'" and "same_entry s s' a" and "mods s a \<noteq> None"
  shows "named E Q s' a \<longleftrightarrow> named E Q s a"
proof -
  have live: "mods s' a \<noteq> None" using same_entry_live [OF assms(2)] assms(3) by simp
  have "key_get Q s' k = Some a \<longleftrightarrow> key_get Q s k = Some a" for k
    using shrunkD(3) [OF assms(1), of k] live by (auto split: option.split if_splits)
  then show ?thesis using shrunk_own_key(1) [OF assms(1) live, of E] by (simp add: named_def)
qed

lemma released_same:
  assumes sh: "shrunk Q s s'" and same: "\<And>a. loaded_from s d a \<Longrightarrow> same_entry s s' a"
  shows "released E Q s' d a \<longleftrightarrow> released E Q s d a"
proof
  have nm: "named E Q s' a = named E Q s a" if "loaded_from s d a" "mods s a \<noteq> None" for a
    using named_same [OF sh same] that by blast
  assume "released E Q s d a"
  then show "released E Q s' d a"
  proof (induction rule: released.induct)
    case (released_child p ep a e)
    note l = released_loaded [OF released_child(1)]
    have la: "loaded_from s d a" by (rule loaded_child [OF l released_child(4,5)])
    from same_entry_obtain [OF same [OF l] released_child(2)] obtain ep' where ep': "mods s' p = Some ep'" "mstat ep' = mstat ep" .
    from same_entry_obtain [OF same [OF la] released_child(4)] obtain e' where e': "mods s' a = Some e'" "mstat e' = mstat e" .
    show ?case
      using released.released_child [OF released_child.IH ep'(1) _ e'(1)] mstat_fields(3) [OF ep'(2)] mstat_fields(5) [OF e'(2)]
        nm [OF la] released_child by simp
  qed (rule released_self)
next
  have nm: "named E Q s' a = named E Q s a" if "loaded_from s d a" "mods s a \<noteq> None" for a
    using named_same [OF sh same] that by blast
  assume "released E Q s' d a"
  then show "released E Q s d a"
  proof (induction rule: released.induct)
    case (released_child p ep a e)
    note l = released_loaded [OF released_child.IH]
    from shrunk_obtain [OF sh released_child(2)] obtain ep0 where p0: "mods s p = Some ep0" .
    from same_entry_obtain [OF same [OF l] p0] released_child(2) have ep: "mstat ep = mstat ep0" by auto
    from shrunk_obtain [OF sh released_child(4)] obtain e0 where e0: "mods s a = Some e0" "mcore e = mcore e0" .
    have par: "parent_entry e0 = Some p" using mcore_fields(4) [OF e0(2)] released_child(5) by simp
    have la: "loaded_from s d a" by (rule loaded_child [OF l e0(1) par])
    show ?case
      using released.released_child [OF released_child.IH p0 _ e0(1) par] mstat_fields(3) [OF ep] nm [OF la] e0(1)
        released_child(3,6) by simp
  qed (rule released_self)
qed

lemma unload_children_ok:
  assumes A: "alloc_ok E" and W: "unload_works E Q n"
  shows "unloadable E Q s \<Longrightarrow> distinct cs \<Longrightarrow> (\<And>c. c \<in> set cs \<Longrightarrow> \<exists>e. mods s c = Some e \<and> parent_entry e = Some m)
    \<Longrightarrow> (\<And>c. c \<in> set cs \<Longrightarrow> next_addr s < n + c)
    \<Longrightarrow> \<exists>s'. unload_children (mod_unload n E Q) cs s = Some s' \<and> unloadable E Q s' \<and> shrunk Q s s'
      \<and> carries E Q s s' \<and> (\<forall>a. (\<forall>c \<in> set cs. \<not> loaded_from s c a) \<longrightarrow> same_entry s s' a)
      \<and> changes_only (\<lambda>a. \<exists>c \<in> set cs. named E Q s c \<and> released E Q s c a) s s'"
proof (induction cs arbitrary: s)
  case Nil
  then have "wf_lib Q s" by (simp add: unloadable_def)
  with Nil shrunk_refl show ?case by (intro exI [of _ s]) (simp add: changes_only_def)
next
  case (Cons c cs)
  note u = Cons.prems(1)
  have lin: "lineage E Q s" using u by (simp add: unloadable_def)
  from Cons.prems(3) [of c] obtain e where e: "mods s c = Some e" "parent_entry e = Some m" by auto
  have "next_addr s < n + c" using Cons.prems(4) by simp
  from unload_one_child [OF A W u e(1) this] obtain s1 where s1:
    "unload_children (mod_unload n E Q) (c # cs) s = unload_children (mod_unload n E Q) cs s1" "child_step E Q c s s1"
    by blast
  from s1(2) have p1: "unloadable E Q s1" "shrunk Q s s1" "\<And>a. \<not> loaded_from s c a \<Longrightarrow> same_entry s s1 a"
    "changes_only (\<lambda>a. named E Q s c \<and> released E Q s c a) s s1" "carries E Q s s1" by (simp_all add: child_step_def)
  have apart: "\<not> loaded_from s c d \<and> \<not> loaded_from s d c" if d: "d \<in> set cs" for d
  proof -
    from Cons.prems(3) [of d] d obtain e' where "mods s d = Some e'" "parent_entry e' = Some m" by auto
    moreover have "c \<noteq> d" using Cons.prems(2) d by auto
    ultimately show ?thesis using kids_apart(1) [OF lin] e by metis
  qed
  have kept: "same_entry s s1 d" if "d \<in> set cs" for d using p1(3) apart that by blast
  have "\<exists>s'. unload_children (mod_unload n E Q) cs s1 = Some s' \<and> unloadable E Q s' \<and> shrunk Q s1 s'
      \<and> carries E Q s1 s' \<and> (\<forall>a. (\<forall>c \<in> set cs. \<not> loaded_from s1 c a) \<longrightarrow> same_entry s1 s' a)
      \<and> changes_only (\<lambda>a. \<exists>c \<in> set cs. named E Q s1 c \<and> released E Q s1 c a) s1 s'"
  proof (rule Cons.IH [OF p1(1)])
    show "distinct cs" using Cons.prems(2) by simp
    show "next_addr s1 < n + d" if "d \<in> set cs" for d
      using Cons.prems(4) [of d] that shrunkD(5) [OF p1(2)] by simp
    show "\<exists>e. mods s1 d = Some e \<and> parent_entry e = Some m" if d: "d \<in> set cs" for d
    proof -
      from Cons.prems(3) [of d] d obtain e' where e': "mods s d = Some e'" "parent_entry e' = Some m" by auto
      from same_entry_obtain [OF kept [OF d] e'(1)] obtain e'' where "mods s1 d = Some e''" "mstat e'' = mstat e'" .
      with mstat_fields(5) [of e'' e'] e'(2) show ?thesis by auto
    qed
  qed
  then obtain s' where s': "unload_children (mod_unload n E Q) cs s1 = Some s'" "unloadable E Q s'" "shrunk Q s1 s'"
    "carries E Q s1 s'" "\<And>a. (\<forall>c \<in> set cs. \<not> loaded_from s1 c a) \<Longrightarrow> same_entry s1 s' a"
    "changes_only (\<lambda>a. \<exists>c \<in> set cs. named E Q s1 c \<and> released E Q s1 c a) s1 s'" by blast
  have mono: "\<not> loaded_from s1 d a" if "\<not> loaded_from s d a" for d a
    using shrunk_loaded_from [OF p1(2), of d a] that by blast
  have rest: "same_entry s s' a" if "\<forall>d \<in> set (c # cs). \<not> loaded_from s d a" for a
    using same_entry_trans [OF p1(3) s'(5)] that mono by simp
  have disj: "\<not> (loaded_from s c a \<and> loaded_from s d a)" if "d \<in> set cs" for d a
    using loaded_from_comparable [of s c a d] apart [OF that] by blast
  have tail: "named E Q s1 d \<and> released E Q s1 d a \<longleftrightarrow> named E Q s d \<and> released E Q s d a" if d: "d \<in> set cs" for d a
  proof -
    have "mods s d \<noteq> None" using Cons.prems(3) [of d] d by auto
    then have n: "named E Q s1 d = named E Q s d" by (rule named_same [OF p1(2) kept [OF d]])
    have "same_entry s s1 x" if "loaded_from s d x" for x using p1(3) disj [OF d] that by blast
    from released_same [OF p1(2) this] n show ?thesis by simp
  qed
  have "changes_only (\<lambda>a. \<exists>x \<in> set (c # cs). named E Q s x \<and> released E Q s x a) s s'"
  proof (rule changes_only_trans [OF p1(4) s'(6)])
    show "\<not> (\<exists>d \<in> set cs. named E Q s1 d \<and> released E Q s1 d a)" if "named E Q s c \<and> released E Q s c a" for a
      using that tail disj released_loaded by blast
    show "(\<exists>x \<in> set (c # cs). named E Q s x \<and> released E Q s x a) \<longleftrightarrow>
        named E Q s c \<and> released E Q s c a \<or> (\<exists>d \<in> set cs. named E Q s1 d \<and> released E Q s1 d a)" for a
      using tail by auto
  qed
  then show ?case
    using s1(1) s'(1,2) shrunk_trans [OF p1(2) s'(3)] carries_trans [OF p1(5) s'(4)] rest by (intro exI [of _ s']) simp
qed

lemma children_of_ok:
  assumes Q: "qmap_laws Q" and lib: "wf_lib Q s"
  shows "\<exists>cs. children_of Q m s = Some cs \<and> distinct cs
    \<and> (\<forall>c. c \<in> set cs \<longleftrightarrow> is_child_of s m c \<and> (\<exists>k. key_get Q s k = Some c))"
proof -
  note w = wf_libD [OF lib]
  from w(6) obtain h where h: "mod_hd s = Some h" by auto
  let ?f = "\<lambda>kv. qmap_ptr (Some (snd kv))"
  let ?ms = "List.map_filter ?f (qmap_iter Q h)"
  have tab: "\<exists>a e. v = VPtr a \<and> mods s a = Some e \<and> k = KBlob (me_mod_key e)" if "(k, v) \<in> set (qmap_iter Q h)" for k v
    using that w(10) h qmap_iter_get [OF Q] unfolding wf_modtab_def by blast
  have mem: "a \<in> set ?ms \<longleftrightarrow> (\<exists>k. key_get Q s k = Some a)" for a
  proof
    assume "a \<in> set ?ms"
    then obtain k v where kv: "(k, v) \<in> set (qmap_iter Q h)" "qmap_ptr (Some v) = Some a"
      by (force simp: map_filter_def)
    from tab [OF kv(1)] obtain b e where "v = VPtr b" "mods s b = Some e" "k = KBlob (me_mod_key e)" by blast
    with kv h show "\<exists>k. key_get Q s k = Some a"
      using qmap_iter_get [OF Q] by (intro exI [of _ "me_mod_key e"]) (auto simp: key_get_def mod_hd_get_def)
  next
    assume "\<exists>k. key_get Q s k = Some a"
    then obtain k v where "qmap_get Q h (KBlob k) = Some v" "qmap_ptr (Some v) = Some a"
      using h by (auto simp: key_get_def mod_hd_get_def qmap_ptr_def split: option.splits)
    then have "(KBlob k, v) \<in> set (qmap_iter Q h)" "qmap_ptr (Some v) = Some a" using qmap_iter_get [OF Q] by simp_all
    then show "a \<in> set ?ms" by (force simp: map_filter_def)
  qed
  have dist: "distinct (List.map_filter ?f kvs)"
    if "distinct (map fst kvs)" "\<And>k v. (k, v) \<in> set kvs \<Longrightarrow> (k, v) \<in> set (qmap_iter Q h)" for kvs
    using that
  proof (induction kvs)
    case Nil
    then show ?case by (simp add: map_filter_def)
  next
    case (Cons kv kvs)
    obtain k v where kv: "kv = (k, v)" by fastforce
    from tab [of k v] Cons.prems(2) [of k v] kv obtain a e where a: "v = VPtr a" "mods s a = Some e" "k = KBlob (me_mod_key e)"
      by auto
    have "a \<notin> set (List.map_filter ?f kvs)"
    proof
      assume "a \<in> set (List.map_filter ?f kvs)"
      then obtain k' v' where kv': "(k', v') \<in> set kvs" "qmap_ptr (Some v') = Some a" by (force simp: map_filter_def)
      from tab [of k' v'] Cons.prems(2) [of k' v'] kv' have "k' = KBlob (me_mod_key e)" using a(2) by auto
      then have "k \<in> fst ` set kvs" using kv'(1) a(3) by force
      with Cons.prems(1) kv show False by simp
    qed
    with Cons kv a(1) show ?case by (simp add: map_filter_simps)
  qed
  have "\<forall>a \<in> set ?ms. mods s a \<noteq> None" using mem key_get_live [OF lib] by fastforce
  then have "children_of Q m s = Some (filter (is_child_of s m) ?ms)" using h by (simp add: children_of_def)
  moreover have "distinct (filter (is_child_of s m) ?ms)"
    using dist [OF qmap_iter_distinct [OF Q]] by simp
  ultimately show ?thesis using mem by (intro exI [of _ "filter (is_child_of s m) ?ms"]) auto
qed

text \<open>Taking a reference.\<close>

lemma deref_frame:
  assumes u: "unloadable E Q s" and e: "mods s m = Some e" and s1: "s1 = s\<lparr>mods := (mods s)(m \<mapsto> e\<lparr>refcount := x\<rparr>)\<rparr>"
  shows "unloadable E Q s1" and "shrunk Q s s1" and "a \<noteq> m \<Longrightarrow> same_entry s s1 a"
proof -
  have lib: "wf_lib Q s" using u by (simp add: unloadable_def)
  have k: "keeps s s1"
    unfolding s1 by (rule keeps_mod_upd [OF e, of "refcount_update (\<lambda>_. x)"]) (simp_all add: mlinks_def mident_def)
  show "a \<noteq> m \<Longrightarrow> same_entry s s1 a" by (simp add: same_entry_def s1)
  show sh: "shrunk Q s s1"
  proof (rule shrunkI [OF lib, of s1 "{}"])
    show "mods s1 a = None \<or> map_option mcore (mods s1 a) = map_option mcore (mods s a)" for a
      using e by (simp add: s1 mcore_def mstat_def)
    show "a \<in> {} \<longleftrightarrow> mods s a \<noteq> None \<and> mods s1 a = None" for a using e by (cases "mods s a") (simp_all add: s1)
    show "region_mods s1 p = filter (\<lambda>a. a \<notin> {}) (region_mods s p)" for p
      using keeps_region_mods [OF k wf_libD(2) [OF lib]] by simp
    show "key_get Q s1 k = (case key_get Q s k of None \<Rightarrow> None | Some a \<Rightarrow> if a \<in> {} then None else Some a)" for k
      using key_get_cong [of s1 s Q] by (simp add: s1 split: option.split)
  qed (simp_all add: s1 stays_def)
  show "unloadable E Q s1" by (rule shrunk_unloadable [OF u sh keeps_wf_lib [OF k lib]])
qed

lemma unload_works_all:
  assumes Q: "qmap_laws Q" and A: "alloc_ok E" and C: "cleanup_ok E"
  shows "unload_works E Q n"
proof (induction n)
  case 0
  have "m < next_addr s" if "unloadable E Q s" "key_get Q s k = Some m" for s :: "'a xy_state" and m k
  proof -
    from that have lib: "wf_lib Q s" by (simp add: unloadable_def)
    from key_get_live [OF lib that(2)] wf_tree_parts(3) [OF wf_libD(2) [OF lib]] show ?thesis
      unfolding wf_mods_def by auto
  qed
  then show ?case unfolding unload_works_def by (metis add_0 less_asym)
next
  case (Suc n)
  show ?case
    unfolding unload_works_def
  proof (intro allI impI)
    fix s :: "'a xy_state" and fname rid m
    assume u: "unloadable E Q s" and k: "key_get Q s (inst_key E fname rid) = Some m" and fuel: "next_addr s < Suc n + m"
    have lib: "wf_lib Q s" and lin: "lineage E Q s" using u by (simp_all add: unloadable_def)
    from key_get_live [OF lib k] obtain e where e: "mods s m = Some e" "me_mod_key e = inst_key E fname rid" by auto
    define s1 where s1: "s1 = s\<lparr>mods := (mods s)(m \<mapsto> e\<lparr>refcount := refcount e - 1\<rparr>)\<rparr>"
    note d = deref_frame [OF u e(1) s1]
    have e1: "mods s1 m = Some (e\<lparr>refcount := refcount e - 1\<rparr>)" by (simp add: s1)
    have lib1: "wf_lib Q s1" and lin1: "lineage E Q s1" using d(1) by (simp_all add: unloadable_def)
    have apart: "c \<noteq> m \<and> \<not> loaded_from s1 c m" if "mods s1 c = Some ec" "parent_entry ec = Some m" for c ec
      using loaded_from_le [OF _ lin1, of c m] lin1 that unfolding lineage_def by fastforce
    have start: "mod_unload (Suc n) E Q fname rid s = (if refcount e > 1 then Some (XY_OK, s1)
        else do { cs \<leftarrow> children_of Q m s1; s2 \<leftarrow> unload_children (mod_unload n E Q) cs s1;
                  s3 \<leftarrow> unload_entry E Q m s2; Some (XY_OK, s3) })"
      using k e(1) by (simp add: lookup_eq [OF A] upd_mod_def s1)
    show "\<exists>s'. mod_unload (Suc n) E Q fname rid s = Some (XY_OK, s') \<and> unload_post E Q m s s'"
    proof (cases "refcount e > 1")
      case True
      have "a \<noteq> m" if "\<not> loaded_from s m a" for a using that loaded_self by auto
      moreover have dm: "dereferenced s s1 m" using e(1) e1 True by (simp add: dereferenced_iff)
      moreover have "changes_only (released E Q s m) s s1"
        unfolding changes_only_def released_unfold [of E Q s m] using d(3) dm e(1) True by auto
      moreover have "carries E Q s s1" unfolding s1 by (rule carries_steps(2) [OF u e(1)])
      ultimately have "unload_post E Q m s s1"
        unfolding unload_post_def using d e(1) True by auto
      with start True show ?thesis by (intro exI [of _ s1]) simp
    next
      case False
      from children_of_ok [OF Q lib1, of m] obtain cs where cs: "children_of Q m s1 = Some cs" "distinct cs"
        "\<And>c. c \<in> set cs \<longleftrightarrow> is_child_of s1 m c \<and> (\<exists>k. key_get Q s1 k = Some c)" by blast
      have kid: "\<exists>e. mods s1 c = Some e \<and> parent_entry e = Some m" if "c \<in> set cs" for c
        using that cs(3) by (simp add: is_child_of_def)
      have fuel1: "next_addr s1 < n + c" if "c \<in> set cs" for c
        using kid [OF that] lin1 fuel unfolding lineage_def by (fastforce simp: s1)
      from unload_children_ok [OF A Suc.IH d(1) cs(2) kid fuel1] obtain s2 where s2:
        "unload_children (mod_unload n E Q) cs s1 = Some s2" "unloadable E Q s2" "shrunk Q s1 s2"
        "carries E Q s1 s2" "\<And>a. (\<forall>c \<in> set cs. \<not> loaded_from s1 c a) \<Longrightarrow> same_entry s1 s2 a"
        "changes_only (\<lambda>a. \<exists>c \<in> set cs. named E Q s1 c \<and> released E Q s1 c a) s1 s2" by blast
      have m2: "same_entry s1 s2 m" using s2(5) kid apart by blast
      from same_entry_obtain [OF m2 e1] obtain e2 where e2: "mods s2 m = Some e2"
        "mstat e2 = mstat (e\<lparr>refcount := refcount e - 1\<rparr>)" .
      have lib2: "wf_lib Q s2" and ent2: "wf_entries s2" using s2(2) by (simp_all add: unloadable_def)
      have "key_get Q s2 (inst_key E fname rid) = Some m"
        using k shrunkD(3) [OF s2(3)] shrunkD(3) [OF d(2)] e1 e2 by simp
      with mstat_fields(1) [OF e2(2)] e(2) have key2: "key_get Q s2 (me_mod_key e2) = Some m" by simp
      from unload_entry_ok [OF Q C lib2 ent2 e2(1) key2] obtain s' where s': "unload_entry E Q m s2 = Some s'"
        "wf_lib Q s'" "taken_out Q m s2 s'" by blast
      note t = taken_out_shrunk [OF lib2 s'(3)] e2(1)
      have sh2: "shrunk Q s2 s'" by (rule t(1)) (simp add: e2(1))
      have oth: "same_entry s2 s' a" if "a \<noteq> m" for a by (rule t(2)) (use that e2(1) in simp_all)
      have sh: "shrunk Q s s'" by (rule shrunk_trans [OF d(2) shrunk_trans [OF s2(3) sh2]])
      have gone: "mods s' m = None" using s'(3) by (simp add: taken_out_def)
      have others: "same_entry s s' a" if a: "\<not> loaded_from s m a" for a
      proof -
        have ne: "a \<noteq> m" using a loaded_self by auto
        have "\<not> loaded_from s1 c a" if c: "c \<in> set cs" for c
        proof
          assume "loaded_from s1 c a"
          then have l: "loaded_from s c a" by (rule shrunk_loaded_from [OF d(2)])
          from kid [OF c] obtain ec where ec: "mods s1 c = Some ec" "parent_entry ec = Some m" by blast
          from apart [OF ec] have "c \<noteq> m" by simp
          with ec have "mods s c = Some ec" "parent_entry ec = Some m" by (simp_all add: s1)
          then have "loaded_from s m c" by (rule loaded_child [OF loaded_self])
          with l a show False using loaded_from_trans by blast
        qed
        with s2(5) have "same_entry s1 s2 a" by blast
        with d(3) [OF ne] oth [OF ne] show ?thesis by (meson same_entry_trans)
      qed
      have dm: "dereferenced s s' m" using e(1) gone False by (simp add: dereferenced_iff)
      have reach: "(\<exists>c \<in> set cs. named E Q s1 c \<and> released E Q s1 c a) \<longleftrightarrow> released E Q s m a" if a: "a \<noteq> m" for a
      proof -
        have kid_iff: "c \<in> set cs \<and> named E Q s1 c \<longleftrightarrow> (\<exists>ec. mods s c = Some ec \<and> parent_entry ec = Some m \<and> named E Q s c)" for c
        proof (cases "c = m")
          case True
          with lin cs(3) show ?thesis unfolding lineage_def is_child_of_def by blast
        next
          case ne: False
          then have "mods s1 c = mods s c" by (simp add: s1)
          with named_same [OF d(2) d(3) [OF ne], of E] cs(3) [of c] ne show ?thesis by (auto simp: is_child_of_def named_def)
        qed
        have same: "released E Q s1 c a \<longleftrightarrow> released E Q s c a" if "mods s c = Some ec" "parent_entry ec = Some m" for c ec
        proof (rule released_same [OF d(2)])
          have "m < c" using lin that unfolding lineage_def by blast
          then show "same_entry s s1 x" if "loaded_from s c x" for x
            using d(3) [of x] loaded_from_le [OF that lin] by (cases "x = m") simp_all
        qed
        show ?thesis
          unfolding released_unfold [of E Q s m] using a e(1) False kid_iff same by (metis linorder_not_less)
      qed
      have ch: "changes_only (released E Q s m) s s'"
        unfolding changes_only_def
      proof
        fix a show "if released E Q s m a then dereferenced s s' a else same_entry s s' a"
        proof (cases "a = m")
          case True
          with dm released_self show ?thesis by metis
        next
          case ne: False
          note c = changes_onlyD [OF s2(6), of a] and f = d(3) [OF ne] oth [OF ne]
          show ?thesis
            using c f reach [OF ne] dereferenced_before dereferenced_after same_entry_trans by metis
        qed
      qed
      have "carries E Q s s1" unfolding s1 by (rule carries_steps(2) [OF u e(1)])
      from carries_trans [OF this carries_trans [OF s2(4) carries_steps(3) [OF s2(2) e2(1) key2 s'(1)]]]
      have "unload_post E Q m s s'"
        using shrunk_unloadable [OF u sh s'(2)] sh others dm ch by (simp add: unload_post_def)
      with start False cs(1) s2(1) s'(1) show ?thesis by auto
    qed
  qed
qed

end
