(* ===== verification/Xy_Loading.thy ===== *)
theory Xy_Loading
  imports Xy_Cascade Xy_Warm
begin

text \<open>
  The steps of a load, one lemma each, for a module that is not loaded yet and claims no
  region.  \<open>prep\<close> describes the library while the new entry is being filled in and belongs
  to no region; \<open>joined\<close> describes it once the entry is at the end of its region's list.
\<close>

section \<open>An entry in preparation\<close>

text \<open>The region state that a module reads through its context.\<close>

definition XY_RS :: "'q xy_state \<Rightarrow> cptr \<Rightarrow> addr option" where
  "XY_RS s c = (case ctxs s c of None \<Rightarrow> None | Some x \<Rightarrow> ctx_region_state x)"

lemma XY_RS_upd [simp]:
  "XY_RS (t\<lparr>mods := a1\<rparr>) = XY_RS t" "XY_RS (t\<lparr>mod_hd := a2\<rparr>) = XY_RS t"
  "XY_RS (t\<lparr>mod_by_region_hd := a3\<rparr>) = XY_RS t" "XY_RS (t\<lparr>next_addr := a4\<rparr>) = XY_RS t"
  "XY_RS (t\<lparr>strs := a5\<rparr>) = XY_RS t" "XY_RS (t\<lparr>path_intern_hd := a6\<rparr>) = XY_RS t"
  "XY_RS (t\<lparr>xy_pending_ctx := a7\<rparr>) = XY_RS t" "XY_RS (t\<lparr>states := a8\<rparr>) = XY_RS t"
  "XY_RS (t\<lparr>xy_mod_count := a9\<rparr>) = XY_RS t" "XY_RS (t\<lparr>regions := b1\<rparr>) = XY_RS t"
  "XY_RS (t\<lparr>xy_loading_mod := b2\<rparr>) = XY_RS t" "XY_RS (t\<lparr>xy_err_val := b3\<rparr>) = XY_RS t"
  by (simp_all add: XY_RS_def fun_eq_iff)

lemma XY_RS_init [simp]:
  "ctxs t = C \<Longrightarrow> XY_RS (t\<lparr>ctxs := C(c \<mapsto> xy_init_ctx fname rid (case C c of None \<Rightarrow> ctx_zero | Some x \<Rightarrow> x))\<rparr>) = XY_RS t"
  by (auto simp: XY_RS_def xy_init_ctx_def ctx_zero_def fun_eq_iff split: option.splits)

definition prep :: "'q qmap_ops \<Rightarrow> 'q xy_state \<Rightarrow> (string \<Rightarrow> mptr option) \<Rightarrow> int \<Rightarrow> mptr \<Rightarrow> xy_mod_entry \<Rightarrow> 'q xy_state \<Rightarrow> bool" where
  "prep Q s ks cnt m e t \<longleftrightarrow> wf_lib Q t \<and> mods t m = Some e \<and> (\<forall>p. m \<notin> set (region_mods t p))
     \<and> (\<forall>p. region_mods t p = region_mods s p) \<and> key_get Q t = ks
     \<and> (\<forall>a. a \<noteq> m \<longrightarrow> mods t a = mods s a) \<and> regions t = regions s
     \<and> xy_current_region_id t = xy_current_region_id s \<and> xy_current_region_entry t = xy_current_region_entry s
     \<and> hook_id_hd t = hook_id_hd s \<and> xy_hook_id_counter t = xy_hook_id_counter s \<and> xy_mod_count t = cnt
     \<and> XY_RS t = XY_RS s \<and> adapters t = adapters s \<and> xy_last_retbuf t = xy_last_retbuf s"

lemma prepD:
  assumes "prep Q s ks cnt m e t"
  shows "wf_lib Q t" "mods t m = Some e" "\<forall>p. m \<notin> set (region_mods t p)" "region_mods t p = region_mods s p"
    "key_get Q t = ks" "a \<noteq> m \<Longrightarrow> mods t a = mods s a" "regions t = regions s"
    "xy_current_region_id t = xy_current_region_id s" "xy_current_region_entry t = xy_current_region_entry s"
    "hook_id_hd t = hook_id_hd s" "xy_hook_id_counter t = xy_hook_id_counter s" "xy_mod_count t = cnt"
    "XY_RS t = XY_RS s" "adapters t = adapters s" "xy_last_retbuf t = xy_last_retbuf s"
  using assms unfolding prep_def by blast+

text \<open>The fields a new entry gets at its allocation.\<close>

definition born :: "dlhandle \<Rightarrow> u64 \<Rightarrow> string \<Rightarrow> xy_mod_entry \<Rightarrow> bool" where
  "born h rid key e \<longleftrightarrow> me_handle e = Some h \<and> me_region_id e = rid \<and> me_mod_key e = key \<and> fn_cache e = []
     \<and> hook_impl_bits e = [] \<and> region_entry e = None \<and> refcount e = 1"

text \<open>Filling in the entry, its context and its state block.\<close>

lemma prep_entry:
  assumes p: "prep Q s ks cnt m e t"
    and t': "t' = t\<lparr>mods := (mods t)(m \<mapsto> e'), ctxs := C, states := S, next_addr := n, xy_mod_count := cnt',
      xy_pending_ctx := pc\<rparr>"
    and n: "next_addr t \<le> n" and key: "me_mod_key e' = me_mod_key e" and ctx: "\<And>c. me_ctx e' = Some c \<Longrightarrow> C c \<noteq> None"
    and C: "\<And>c. ctxs t c \<noteq> None \<Longrightarrow> C c \<noteq> None" and st: "XY_RS t' = XY_RS t"
  shows "prep Q s ks cnt' m e' t'"
proof -
  note d = prepD [OF p]
  let ?u = "t\<lparr>ctxs := C, states := S, xy_mod_count := cnt', xy_pending_ctx := pc\<rparr>"
  have k: "keeps t ?u" using C by (simp add: keeps_def same_shapeI)
  have libu: "wf_lib Q ?u" by (rule keeps_wf_lib [OF k d(1)])
  have ru: "region_mods ?u p = region_mods t p" for p by (rule keeps_region_mods [OF k wf_libD(2) [OF d(1)]])
  have outu: "\<forall>p. m \<notin> set (region_mods ?u p)" using d(3) ru by simp
  have su: "t' = ?u\<lparr>mods := (mods ?u)(m \<mapsto> e'), next_addr := n\<rparr>" by (simp add: t')
  have nu: "next_addr ?u \<le> n" using n by simp
  have mu: "m < n" using wf_tree_parts(3) [OF wf_libD(2) [OF d(1)]] d(2) n unfolding wf_mods_def by (metis option.distinct(1) order_less_le_trans)
  have ku: "k = me_mod_key e'" if "key_get Q ?u k = Some m" for k
    using key_get_live [OF libu that] d(2) key by simp
  have cu: "ctxs ?u c \<noteq> None" if "me_ctx e' = Some c" for c using ctx [OF that] by simp
  note r = entry_upd_ok [OF libu outu su nu mu ku cu]
  have cs: "XY_RS t' = XY_RS s" using st d(13) by simp
  have "key_get Q t' = ks" using key_get_cong [of t' t Q] d(5) by (simp add: t')
  then show ?thesis
    using r(1,2) ru d outu cs by (simp add: prep_def) (simp add: t')
qed

section \<open>The steps\<close>

text \<open>What the later steps read of the transaction.\<close>

definition tx_info :: "dlhandle \<Rightarrow> mptr \<Rightarrow> string \<Rightarrow> u64 \<Rightarrow> xy_load_txn \<Rightarrow> bool" where
  "tx_info h m key rid tx \<longleftrightarrow> tx_handle tx = Some h \<and> tx_mod_entry tx = Some m \<and> stable_key tx = Some key
     \<and> inherited_region_id tx = rid"

lemma intern_lib:
  assumes Q: "qmap_laws Q" and lib: "wf_lib Q s"
  obtains a s' where "module_path_intern Q (Some path) s = (Some a, s')" "wf_lib Q s'"
    "s' = s\<lparr>strs := strs s', next_addr := next_addr s', path_intern_hd := path_intern_hd s'\<rparr>" "same_shape s s'"
proof -
  note w = wf_libD [OF lib]
  from module_path_intern_ok [OF Q w(4), of path] obtain a s' where s': "module_path_intern Q (Some path) s = (Some a, s')"
    "wf_intern Q s'" "s' = s\<lparr>strs := strs s', next_addr := next_addr s', path_intern_hd := path_intern_hd s'\<rparr>"
    "next_addr s \<le> next_addr s'" by blast
  obtain S N P where S: "s' = s\<lparr>strs := S, next_addr := N, path_intern_hd := P\<rparr>" by (rule that) (rule s'(3))
  have sh: "same_shape s s'" by (rule same_shapeI) (use s'(4) in \<open>simp_all add: S\<close>)
  have "wf_lib Q s'"
    using w s'(2) same_shape_wf' [OF sh w(2)] wf_index_frame [OF w(3), of s'] wf_modtab_frame [OF w(10), of s']
      wf_current_frame [OF w(5), of s'] by (simp add: wf_lib_def S)
  with s' sh that show ?thesis by blast
qed

lemma alloc_step:
  assumes Q: "qmap_laws Q" and A: "alloc_ok E" and lib: "wf_lib Q s"
    and tx: "lk_key (tx_lookup tx) = Some key" "lk_load_path (tx_lookup tx) = Some path" "tx_handle tx = Some h"
      "inherited_region_id tx = rid"
  shows "\<exists>tx' m e t. mod_load_alloc_entry E Q fname tx s = Some (XY_OK, tx', t) \<and> tx_info h m key rid tx'
    \<and> prep Q s (key_get Q s) (xy_mod_count s) m e t \<and> mods s m = None \<and> born h rid key e \<and> me_ctx e = None"
proof -
  from intern_lib [OF Q lib] obtain a s1 where s1: "module_path_intern Q (Some path) s = (Some a, s1)" "wf_lib Q s1"
    "s1 = s\<lparr>strs := strs s1, next_addr := next_addr s1, path_intern_hd := path_intern_hd s1\<rparr>" "same_shape s s1" .
  obtain S N P where S: "s1 = s\<lparr>strs := S, next_addr := N, path_intern_hd := P\<rparr>" by (rule that) (rule s1(3))
  let ?e = "mod_zero\<lparr>me_handle := Some h, me_region_id := rid, refcount := 1, parent_entry := xy_loading_mod s1,
      me_mod_key := key, load_path := Some a, tmp_load_path := tx_tmp_load_path tx\<rparr>"
  let ?m = "next_addr s1" and ?t = "snd (alloc_mod ?e s1)"
  let ?tx = "tx\<lparr>stable_fname := Some fname, stable_key := Some key, interned_load_path := Some a,
      tx_lookup := module_lookup_result_free (tx_lookup tx), tx_mod_entry := Some ?m, tx_tmp_load_path := None\<rparr>"
  have step: "mod_load_alloc_entry E Q fname tx s = Some (XY_OK, ?tx, ?t)"
    using A tx s1(1) by (simp add: mod_load_alloc_entry_def alloc_ok_def alloc_mod_def)
  have ctx: "me_ctx ?e = None" by (simp add: mod_zero_def)
  note al = alloc_mod_ok [OF s1(2) ctx]
  have rm: "region_mods s1 p = region_mods s p" for p by (rule same_shape_region_mods [OF s1(4) wf_libD(2) [OF lib]])
  have kg: "key_get Q ?t = key_get Q s" by (rule key_get_cong) (simp add: alloc_mod_def S)
  have "prep Q s (key_get Q s) (xy_mod_count s) ?m ?e ?t"
    using al rm kg by (simp add: prep_def unlisted_def) (simp add: alloc_mod_def S)
  moreover have "mods s ?m = None" using al(1) by (simp add: S)
  moreover have "born h rid key ?e" by (simp add: born_def mod_zero_def)
  moreover have "tx_info h ?m key rid ?tx" using tx by (simp add: tx_info_def)
  ultimately show ?thesis using step ctx by blast
qed

lemma publish_step:
  assumes Q: "qmap_laws Q" and p: "prep Q s ks cnt m e t" and tx: "tx_info h m key rid tx" and e: "born h rid key e"
  shows "\<exists>t'. mod_load_publish_entry Q tx t = Some (XY_OK, tx\<lparr>published_entry := True\<rparr>, t')
    \<and> prep Q s (ks(key \<mapsto> m)) cnt m e t'"
proof -
  note d = prepD [OF p] and w = wf_libD [OF d(1)]
  from w(6,7) obtain hd rh where h: "mod_hd t = Some hd" "mod_by_region_hd t = Some rh" by auto
  let ?t' = "t\<lparr>mod_hd := Some (qmap_put Q hd (KBlob key) (VPtr m)),
      mod_by_region_hd := Some (mmap_put Q rh (KId (me_region_id e)) (VPtr m))\<rparr>"
  have "me_mod_key e = key" using e by (simp add: born_def)
  have lib: "wf_lib Q ?t'" by (rule wf_lib_table [OF d(1) wf_modtab_put [OF Q w(10) h(1) d(2)]]) fact
  have sh: "same_shape t ?t'" by (rule same_shapeI) simp_all
  have rm: "region_mods ?t' p = region_mods t p" for p by (rule same_shape_region_mods [OF sh w(2)])
  have kg: "key_get Q ?t' = ks(key \<mapsto> m)"
    using key_get_put [OF Q h(1)] key_get_cong [of ?t' "t\<lparr>mod_hd := Some (qmap_put Q hd (KBlob key) (VPtr m))\<rparr>" Q] d(5) by simp
  have "prep Q s (ks(key \<mapsto> m)) cnt m e ?t'" using lib rm kg d by (simp add: prep_def)
  moreover have "mod_load_publish_entry Q tx t = Some (XY_OK, tx\<lparr>published_entry := True\<rparr>, ?t')"
    using tx h d(2) by (simp add: mod_load_publish_entry_def tx_info_def)
  ultimately show ?thesis by blast
qed

text \<open>The object has a context of its own.\<close>

definition gives_ctx :: "'q env \<Rightarrow> dlhandle \<Rightarrow> bool" where
  "gives_ctx E h \<longleftrightarrow> e_dlsym E h ''get_xy_ptr'' \<noteq> 0 \<and> e_ctx E (e_dlsym E h ''get_xy_ptr'') \<noteq> None"

lemma bind_step:
  assumes p: "prep Q s ks cnt m e t" and tx: "tx_info h m key rid tx" and e: "born h rid key e" "me_ctx e = None"
  shows "\<exists>t' e'. mod_load_bind_xy E tx t = Some (XY_OK, tx, t') \<and> prep Q s ks cnt m e' t' \<and> born h rid key e'
    \<and> (gives_ctx E h \<longrightarrow> me_ctx e' \<noteq> None)"
proof -
  note d = prepD [OF p]
  let ?own = "if e_dlsym E h ''get_xy_ptr'' \<noteq> 0 then e_ctx E (e_dlsym E h ''get_xy_ptr'') else None"
  let ?ctx = "if ?own = None then xy_pending_ctx t else ?own"
  show ?thesis
  proof (cases ?ctx)
    case None
    let ?t' = "t\<lparr>xy_pending_ctx := None\<rparr>"
    have "prep Q s ks cnt m e ?t'"
      by (rule prep_entry [OF p, where e' = e and C = "ctxs t" and S = "states t" and n = "next_addr t" and cnt' = cnt and pc = None])
        (use d e in \<open>simp_all add: fun_upd_idem\<close>)
    moreover have "mod_load_bind_xy E tx t = Some (XY_OK, tx, ?t')"
      using tx None by (simp add: mod_load_bind_xy_def tx_info_def Let_def cong: option.case_cong)
    moreover have "\<not> gives_ctx E h" using None by (auto simp: gives_ctx_def split: if_splits)
    ultimately show ?thesis using e by blast
  next
    case (Some c)
    let ?u = "run_xy_init c (stable_fname tx) (inherited_region_id tx) (t\<lparr>xy_pending_ctx := None\<rparr>)"
    let ?e = "e\<lparr>me_ctx := Some c\<rparr>"
    let ?t' = "?u\<lparr>mods := (mods t)(m \<mapsto> ?e)\<rparr>"
    have "prep Q s ks cnt m ?e ?t'"
      by (rule prep_entry [OF p, where e' = ?e and C = "ctxs ?u" and S = "states t" and n = "next_addr t" and cnt' = cnt and pc = None])
        (use d in \<open>simp_all add: run_xy_init_def\<close>)
    moreover have "mod_load_bind_xy E tx t = Some (XY_OK, tx, ?t')"
      using tx Some d(2) by (simp add: mod_load_bind_xy_def tx_info_def Let_def upd_mod_def run_xy_init_def cong: option.case_cong)
    moreover have "born h rid key ?e" using e by (simp add: born_def)
    ultimately show ?thesis by (intro exI [of _ ?t'] exI [of _ ?e]) simp
  qed
qed

text \<open>The module asks for no region of its own, or its region hands none out.\<close>

definition no_claim :: "'q env \<Rightarrow> dlhandle \<Rightarrow> 'q xy_region_entry \<Rightarrow> bool" where
  "no_claim E h re \<longleftrightarrow> \<not> require_claim re \<and> (e_dlsym E h ''xy_claim'' = 0 \<or> claim_handler re = 0)"

text \<open>The context stays the caller's, so entering it changes nothing.\<close>

lemma set_current_same:
  "xy_current_region_id s = i \<Longrightarrow> xy_current_region_entry s = p \<Longrightarrow> set_current_region i p s = s"
  by (auto simp: set_current_region_def)

lemma enter_step:
  assumes p: "prep Q s ks cnt m e t" and tx: "tx_info h m key rid tx" and rid: "rid = xy_current_region_id s"
    and cur: "xy_current_region_entry s = Some r"
  shows "mod_load_enter_context Q tx t = Some (XY_OK, tx\<lparr>inherited_reg := Some r, prev_region_id := rid,
      prev_region_entry := Some r, context_active := True\<rparr>, t)" and "region_lookup Q rid t = Some r"
proof -
  note d = prepD [OF p] and w = wf_libD [OF d(1)]
  from w(5) d(8,9) rid cur obtain re where "regions t r = Some re" "re_id re = rid" unfolding wf_current_def by auto
  with region_lookup_iff [OF w(3)] show l: "region_lookup Q rid t = Some r" by blast
  have "inherited_region_id tx = rid" using tx by (simp add: tx_info_def)
  moreover have "set_current_region rid (Some r) t = t" by (rule set_current_same) (use d(8,9) rid cur in simp_all)
  ultimately show "mod_load_enter_context Q tx t = Some (XY_OK, tx\<lparr>inherited_reg := Some r, prev_region_id := rid,
      prev_region_entry := Some r, context_active := True\<rparr>, t)"
    using l d(8,9) rid cur by (simp add: mod_load_enter_context_def Let_def)
qed

lemma claim_step:
  assumes "prep Q s ks cnt m e t" and "tx_info h m key rid tx" and "inherited_reg tx = Some r"
    and "regions s r = Some re" and "no_claim E h re"
  shows "mod_load_claim_if_needed E Q tx t = Some (XY_OK, tx, t)"
  using assms prepD(7) [OF assms(1)] by (auto simp: mod_load_claim_if_needed_def tx_info_def no_claim_def Let_def)

text \<open>The module asks for a block of region state.\<close>

definition wants_state :: "'q env \<Rightarrow> dlhandle \<Rightarrow> bool" where
  "wants_state E h \<longleftrightarrow> e_dlsym E h ''xy_region_state_size'' \<noteq> 0 \<and> e_size E (e_dlsym E h ''xy_region_state_size'') \<noteq> 0"

lemma region_state_step:
  assumes A: "alloc_ok E" and p: "prep Q s ks cnt m e t" and tx: "tx_info h m key' rid' tx" and e: "born h rid key e"
  shows "\<exists>t' e'. mod_load_region_state E tx t = Some (XY_OK, tx, t') \<and> prep Q s ks (cnt + 1) m e' t' \<and> born h rid key e'
    \<and> (wants_state E h \<longrightarrow> region_state e' \<noteq> None) \<and> me_ctx e' = me_ctx e"
proof -
  note d = prepD [OF p]
  have ctx: "ctxs t c \<noteq> None" if "me_ctx e = Some c" for c
    using wf_libD(10) [OF d(1)] d(2) that unfolding wf_modtab_def by blast
  let ?f = "e_dlsym E h ''xy_region_state_size''"
  show ?thesis
  proof (cases "?f = 0 \<or> e_size E ?f = 0")
    case True
    let ?t' = "t\<lparr>xy_mod_count := cnt + 1\<rparr>"
    have "prep Q s ks (cnt + 1) m e ?t'"
      by (rule prep_entry [OF p, where e' = e and C = "ctxs t" and S = "states t" and n = "next_addr t"
            and cnt' = "cnt + 1" and pc = "xy_pending_ctx t"]) (use d ctx in \<open>simp_all add: fun_upd_idem\<close>)
    moreover have "mod_load_region_state E tx t = Some (XY_OK, tx, ?t')"
      using tx True d(12) by (auto simp: mod_load_region_state_def tx_info_def Let_def)
    ultimately show ?thesis using e True by (auto simp: wants_state_def)
  next
    case False
    let ?e = "e\<lparr>region_state := Some (next_addr t)\<rparr>"
    let ?t' = "t\<lparr>xy_mod_count := cnt + 1, mods := (mods t)(m \<mapsto> ?e),
      states := (states t)(next_addr t \<mapsto> replicate (e_size E ?f) 0), next_addr := next_addr t + 1\<rparr>"
    have "prep Q s ks (cnt + 1) m ?e ?t'"
      by (rule prep_entry [OF p, where e' = ?e and C = "ctxs t" and S = "states ?t'" and n = "next_addr t + 1"
            and cnt' = "cnt + 1" and pc = "xy_pending_ctx t"]) (use d ctx in simp_all)
    moreover have "mod_load_region_state E tx t = Some (XY_OK, tx, ?t')"
      using tx False d(2,12) A by (simp add: mod_load_region_state_def tx_info_def Let_def alloc_ok_def upd_mod_def)
    moreover have "born h rid key ?e" using e by (simp add: born_def)
    ultimately show ?thesis by (intro exI [of _ ?t'] exI [of _ ?e]) simp
  qed
qed

section \<open>Joining the region\<close>

definition joined :: "'q qmap_ops \<Rightarrow> 'q xy_state \<Rightarrow> (string \<Rightarrow> mptr option) \<Rightarrow> int \<Rightarrow> mptr \<Rightarrow> rptr \<Rightarrow> dlhandle
    \<Rightarrow> string \<Rightarrow> 'q xy_state \<Rightarrow> bool" where
  "joined Q s ks cnt m r h key t \<longleftrightarrow> wf_lib Q t
     \<and> (\<exists>e. mods t m = Some e \<and> me_handle e = Some h \<and> me_mod_key e = key \<and> region_entry e = Some r)
     \<and> (\<forall>q. region_mods t q = (if q = r then region_mods s r @ [m] else region_mods s q)) \<and> key_get Q t = ks
     \<and> (\<forall>a. a \<noteq> m \<longrightarrow> map_option mstat (mods t a) = map_option mstat (mods s a))
     \<and> xy_current_region_id t = xy_current_region_id s \<and> xy_current_region_entry t = xy_current_region_entry s
     \<and> xy_mod_count t = cnt \<and> stays s t \<and> XY_RS t = XY_RS s
     \<and> adapters t = adapters s \<and> xy_last_retbuf t = xy_last_retbuf s"

text \<open>What joining does to the rest of the library, and what the entry knows then: the regions above are
  marked, other entries only change their links, and every registered hook is resolved.\<close>

definition linked_in :: "'q env \<Rightarrow> 'q qmap_ops \<Rightarrow> 'q xy_state \<Rightarrow> mptr \<Rightarrow> rptr \<Rightarrow> 'q xy_state \<Rightarrow> bool" where
  "linked_in E Q s m r t \<longleftrightarrow>
     (\<forall>p. map_option rdata (regions t p)
        = map_option (\<lambda>e. rdata (if ancestor s p r then dirty_and_bump e else e)) (regions s p))
     \<and> (\<forall>a. a \<noteq> m \<longrightarrow> map_option mdata (mods t a) = map_option mdata (mods s a))
     \<and> (\<exists>e e0. mods t m = Some e \<and> mod_hooks_ok E Q t e0
          \<and> warmed E (xy_hook_id_counter t) (hook_pairs Q t) (hook_pairs Q t) e0 e)"

lemma ancestor_same:
  assumes "wf_parents s" and "wf_parents t" and "region_parent t = region_parent s" and "regions s r \<noteq> None"
  shows "ancestor t p r = ancestor s p r"
proof -
  from up_chain_total [OF assms(1,4)] obtain ps where ps: "linked (region_parent s) (Some r) ps" by blast
  then have "linked (region_parent t) (Some r) ps" using assms(3) by simp
  then show ?thesis using ancestor_iff [OF assms(1) ps] ancestor_iff [OF assms(2)] by simp
qed

lemma append_step:
  assumes Q: "qmap_laws Q" and E: "alloc_ok E" "dl_ok E" and H: "wf_hooks Q s"
    and p: "prep Q s ks cnt m e t" and tx: "tx_info h m key' rid' tx" and e: "born h rid key e"
    and l: "region_lookup Q rid t = Some r" and lib: "wf_lib Q s"
  shows "\<exists>t'. mod_load_append E Q tx t = Some (XY_OK, tx, t') \<and> joined Q s ks cnt m r h key t'
    \<and> (\<exists>x. mods t' m = Some x \<and> region_state x = region_state e \<and> me_ctx x = me_ctx e) \<and> linked_in E Q s m r t'"
proof -
  note d = prepD [OF p] and w = wf_libD [OF d(1)]
  from region_lookup_iff [OF w(3)] l obtain re where re: "regions t r = Some re" by blast
  have tail: "\<And>a. mods_tail re = Some a \<Longrightarrow> a \<in> set (region_mods t r)"
    using mods_tail_last [OF w(2) re] by (auto simp: dispatch_order.last_of_def split: if_splits)
  have "regions t r \<noteq> None" using re by simp
  from insert_lib_ok [OF d(1,2,3) this tail] obtain t1 e1 where t1:
    "module_region_insert_after (Some r) (Some m) (mods_tail re) t = Some t1" "wf_lib Q t1" "key_get Q t1 = key_get Q t"
    "\<forall>q. region_mods t1 q = (if q = r then insert_after (mods_tail re) m (region_mods t r) else region_mods t q)"
    "mods t1 m = Some e1" "mdata e1 = mdata (e\<lparr>region_entry := Some r\<rparr>)"
    "\<forall>a. a \<noteq> m \<longrightarrow> map_option mdata (mods t1 a) = map_option mdata (mods t a)"
    "t1 = t\<lparr>regions := regions t1, mods := mods t1\<rparr>" "stays t t1" "touched r (set_region_entry r m t) t1" by blast
  have app: "module_region_append (Some r) (Some m) t = Some t1" using t1(1) re by (simp add: module_region_append_def)
  have end1: "region_mods t1 r = region_mods t r @ [m]"
    using t1(4) mods_tail_last [OF w(2) re] dispatch_order.insert_after_last [OF dispatch_order.seq_distinct [OF w(2)]] by simp
  obtain R M where RM: "t1 = t\<lparr>regions := R, mods := M\<rparr>" by (rule that) (rule t1(8))
  have f1: "me_handle e1 = Some h" "me_mod_key e1 = key" "fn_cache e1 = []" "hook_impl_bits e1 = []" "region_entry e1 = Some r"
    using e arg_cong [OF t1(6), of me_handle] arg_cong [OF t1(6), of me_mod_key] arg_cong [OF t1(6), of fn_cache]
      arg_cong [OF t1(6), of hook_impl_bits] arg_cong [OF t1(6), of region_entry] by (simp_all add: mdata_def born_def)
  have hk: "hook_id_hd t1 = hook_id_hd s" "xy_hook_id_counter t1 = xy_hook_id_counter s"
    using d(10,11) by (simp_all add: RM)
  have wfh: "wf_hooks Q t1" using H hk by (simp add: wf_hooks_def)
  have "nth_opt ([] :: code list) i = None" for i by (simp add: nth_opt_def)
  then have ho: "mod_hooks_ok E Q t1 e1" using f1 by (simp add: mod_hooks_ok_def blank_def hook_ok_def hook_bit_def)
  from fn_cache_prewarm_ok [OF Q E wfh t1(5) ho] obtain e2 where
    e2: "fn_cache_prewarm E Q (Some m) t1 = Some (0, t1\<lparr>mods := (mods t1)(m \<mapsto> e2)\<rparr>)"
    "warmed E (xy_hook_id_counter t1) (hook_pairs Q t1) (hook_pairs Q t1) e1 e2" by blast
  let ?t2 = "t1\<lparr>mods := (mods t1)(m \<mapsto> e2)\<rparr>"
  obtain fc hb where e2': "e2 = e1\<lparr>fn_cache := fc, hook_impl_bits := hb\<rparr>" using e2(2) unfolding warmed_def by blast
  have k2: "keeps t1 ?t2"
    using keeps_mod_upd [OF t1(5), of "\<lambda>_. e2"] warmed_ident [OF e2(2)] by simp
  have lib2: "wf_lib Q ?t2" by (rule keeps_wf_lib [OF k2 t1(2)])
  have rm2: "region_mods ?t2 q = (if q = r then region_mods s r @ [m] else region_mods s q)" for q
    using keeps_region_mods [OF k2 wf_libD(2) [OF t1(2)], of q] end1 t1(4) d(4) by simp
  have kg: "key_get Q ?t2 = ks" using key_get_cong [of ?t2 t1 Q] t1(3) d(5) by simp
  have oth: "map_option mstat (mods ?t2 a) = map_option mstat (mods s a)" if "a \<noteq> m" for a
  proof -
    have "map_option mstat (mods t1 a) = map_option mstat (mods t a)"
    proof (rule map_option_factor)
      show "map_option mdata (mods t1 a) = map_option mdata (mods t a)" using t1(7) that by blast
      fix x y assume "mdata x = mdata y"
      from arg_cong [OF this, of mstat] show "mstat x = mstat y" by (simp add: mdata_def mstat_def)
    qed
    with that d(6) show ?thesis by simp
  qed
  have "joined Q s ks cnt m r h key ?t2"
    unfolding joined_def using lib2 rm2 kg oth f1 d(7-15) t1(9) by (simp add: e2' RM stays_def)
  moreover have "\<exists>x. mods ?t2 m = Some x \<and> region_state x = region_state e \<and> me_ctx x = me_ctx e"
    using arg_cong [OF t1(6), of region_state] arg_cong [OF t1(6), of me_ctx] by (simp add: e2' mdata_def)
  moreover have "linked_in E Q s m r ?t2"
    unfolding linked_in_def
  proof (intro conjI allI impI)
    let ?u = "set_region_entry r m t"
    have u: "regions ?u = regions s" by (simp add: set_region_entry_def d(7))
    have wp: "wf_parents ?u" using wf_tree_parts(1) [OF w(2)] by (simp add: set_region_entry_def wf_parents_def region_rank_def)
    have "ancestor ?u a r = ancestor s a r" for a
      by (rule ancestor_same [OF wf_tree_parts(1) [OF wf_libD(2) [OF lib]] wp])
        (use re d(7) in \<open>simp_all add: region_parent_def u fun_eq_iff\<close>)
    then show "map_option rdata (regions ?t2 a)
        = map_option (\<lambda>e. rdata (if ancestor s a r then dirty_and_bump e else e)) (regions s a)" for a
      using t1(10) u by (simp add: touched_def)
    show "map_option mdata (mods ?t2 a) = map_option mdata (mods s a)" if "a \<noteq> m" for a
      using t1(7) d(6) that by simp
    show "\<exists>x x0. mods ?t2 m = Some x \<and> mod_hooks_ok E Q ?t2 x0
        \<and> warmed E (xy_hook_id_counter ?t2) (hook_pairs Q ?t2) (hook_pairs Q ?t2) x0 x"
      using e2(2) ho by (intro exI [of _ e2] exI [of _ e1]) (simp add: mod_hooks_ok_def)
  qed
  moreover have "mod_load_append E Q tx t = Some (XY_OK, tx, ?t2)"
    using tx d(2) e l app e2(1) by (simp add: mod_load_append_def tx_info_def born_def)
  ultimately show ?thesis by blast
qed

section \<open>Everything before the install\<close>

text \<open>A load that finds a new object: the name is not loaded, and the object opens without a
  constructor that touches the library.  It is \<open>loadable\<close> when moreover no claim is due.\<close>

definition opens :: "'q env \<Rightarrow> 'q qmap_ops \<Rightarrow> string \<Rightarrow> dlhandle \<Rightarrow> rptr \<Rightarrow> 'q xy_state \<Rightarrow> bool" where
  "opens E Q fname h r s \<longleftrightarrow> key_get Q s (inst_key E fname (xy_current_region_id s)) = None
     \<and> (\<forall>path. e_dlopen E path s = Some (Some h, s)) \<and> xy_current_region_entry s = Some r"

definition loadable :: "'q env \<Rightarrow> 'q qmap_ops \<Rightarrow> string \<Rightarrow> dlhandle \<Rightarrow> rptr \<Rightarrow> 'q xy_state \<Rightarrow> bool" where
  "loadable E Q fname h r s \<longleftrightarrow> opens E Q fname h r s \<and> (\<exists>re. regions s r = Some re \<and> no_claim E h re)"

lemma loadable_opens: "loadable E Q fname h r s \<Longrightarrow> opens E Q fname h r s"
  by (simp add: loadable_def)

lemma open_step:
  assumes A: "alloc_ok E" and l: "opens E Q fname h r s"
  shows "\<exists>tx. mod_load_open_handle E Q fname (tx_zero (xy_current_region_id s)) s = Some (XY_OK, tx, s)
    \<and> mod_load_try_reuse_existing tx s = Some (False, tx, s)
    \<and> lk_key (tx_lookup tx) = Some (inst_key E fname (xy_current_region_id s))
    \<and> (\<exists>path. lk_load_path (tx_lookup tx) = Some path) \<and> tx_handle tx = Some h
    \<and> inherited_region_id tx = xy_current_region_id s"
proof -
  let ?rid = "xy_current_region_id s"
  let ?lk = "module_lookup_from_fname E Q fname ?rid s"
  obtain path where lk: "lk_err ?lk = XY_OK" "lk_entry ?lk = None" "lk_key ?lk = Some (inst_key E fname ?rid)"
    "lk_load_path ?lk = Some path"
    using lookup_eq [OF A, of Q fname ?rid s] l A
    by (simp add: opens_def module_lookup_from_fname_def module_load_path_def alloc_ok_def inst_key_def key_of_def Let_def)
  have opens: "open_file E f tmp tx s = Some (XY_OK, tx\<lparr>tx_handle := Some h, tx_tmp_load_path := tmp\<rparr>, s)" for f tmp tx
    using l by (simp add: open_file_def opens_def)
  have "\<exists>tmp. mod_load_open_handle E Q fname (tx_zero ?rid) s
      = Some (XY_OK, (tx_zero ?rid)\<lparr>tx_lookup := ?lk, tx_handle := Some h, tx_tmp_load_path := tmp\<rparr>, s)"
    using lk by (cases "if xy_reloading s then e_copy_tmp E path s else None")
      (auto simp: mod_load_open_handle_def opens tx_zero_def Let_def)
  then obtain tmp where "mod_load_open_handle E Q fname (tx_zero ?rid) s
      = Some (XY_OK, (tx_zero ?rid)\<lparr>tx_lookup := ?lk, tx_handle := Some h, tx_tmp_load_path := tmp\<rparr>, s)" ..
  with lk show ?thesis by (auto simp: mod_load_try_reuse_existing_def tx_zero_def)
qed

text \<open>Up to the claim: the entry is published and bound, and the caller's region is entered.\<close>

lemma alloc_step_name:
  "mod_load_alloc_entry E Q fname tx s = Some (XY_OK, tx', t) \<Longrightarrow> stable_fname tx' = Some fname"
  by (auto simp: mod_load_alloc_entry_def Let_def bind_eq_Some_conv xy_codes split: if_splits prod.splits)

lemma load_start:
  assumes Q: "qmap_laws Q" and E: "alloc_ok E" and lib: "wf_lib Q s" and cur: "xy_current_region_entry s = Some r"
    and tx: "lk_key (tx_lookup tx) = Some key" "lk_load_path (tx_lookup tx) = Some path" "tx_handle tx = Some h"
      "inherited_region_id tx = xy_current_region_id s"
  shows "\<exists>tx' m e t. mod_load_steps E Q fname tx s = tx_then (mod_load_claim_if_needed E Q)
      (tx_then (mod_load_region_state E) (tx_then (mod_load_append E Q) (mod_load_run_install E))) tx' t
    \<and> mods s m = None \<and> prep Q s ((key_get Q s)(key \<mapsto> m)) (xy_mod_count s) m e t \<and> born h (xy_current_region_id s) key e
    \<and> (gives_ctx E h \<longrightarrow> me_ctx e \<noteq> None)
    \<and> tx_info h m key (xy_current_region_id s) tx' \<and> stable_fname tx' = Some fname \<and> inherited_reg tx' = Some r
    \<and> published_entry tx' \<and> context_active tx' \<and> prev_region_id tx' = xy_current_region_id s \<and> prev_region_entry tx' = Some r"
proof -
  let ?rid = "xy_current_region_id s"
  from alloc_step [OF Q E lib tx] obtain tx1 m e1 t1 where 1: "mod_load_alloc_entry E Q fname tx s = Some (XY_OK, tx1, t1)"
    "tx_info h m key ?rid tx1" "prep Q s (key_get Q s) (xy_mod_count s) m e1 t1" "mods s m = None" "born h ?rid key e1"
    "me_ctx e1 = None" by blast
  from publish_step [OF Q 1(3,2,5)] obtain t2 where 2: "mod_load_publish_entry Q tx1 t1
      = Some (XY_OK, tx1\<lparr>published_entry := True\<rparr>, t2)"
    "prep Q s ((key_get Q s)(key \<mapsto> m)) (xy_mod_count s) m e1 t2" by blast
  let ?tx2 = "tx1\<lparr>published_entry := True\<rparr>"
  have i2: "tx_info h m key ?rid ?tx2" using 1(2) by (simp add: tx_info_def)
  from bind_step [OF 2(2) i2 1(5,6)] obtain t3 e3 where 3: "mod_load_bind_xy E ?tx2 t2 = Some (XY_OK, ?tx2, t3)"
    "prep Q s ((key_get Q s)(key \<mapsto> m)) (xy_mod_count s) m e3 t3" "born h ?rid key e3"
    "gives_ctx E h \<longrightarrow> me_ctx e3 \<noteq> None" by blast
  note 4 = enter_step [OF 3(2) i2 refl cur]
  let ?tx4 = "?tx2\<lparr>inherited_reg := Some r, prev_region_id := ?rid, prev_region_entry := Some r, context_active := True\<rparr>"
  have i4: "tx_info h m key ?rid ?tx4" "stable_fname ?tx4 = Some fname"
    using 1(2) alloc_step_name [OF 1(1)] by (simp_all add: tx_info_def)
  have "mod_load_steps E Q fname tx s = tx_then (mod_load_claim_if_needed E Q)
      (tx_then (mod_load_region_state E) (tx_then (mod_load_append E Q) (mod_load_run_install E))) ?tx4 t3"
    using 1(1) 2(1) 3(1) 4(1) by (simp add: mod_load_steps_def tx_then_def)
  with 1(4) 3(2-4) i4 show ?thesis by (intro exI [of _ ?tx4] exI [of _ m] exI [of _ e3] exI [of _ t3]) simp
qed

text \<open>After the claim: the entry joins its region.  The transaction still has the name and the region
  the load began with.\<close>

lemma load_join:
  assumes Q: "qmap_laws Q" and E: "alloc_ok E" "dl_ok E" and H: "wf_hooks Q s" and p: "prep Q s ks cnt m e t"
    and tx: "tx_info h m key' rid' tx" and e: "born h rid key e" and l: "region_lookup Q rid t = Some p" and lib: "wf_lib Q s"
  shows "\<exists>t'. tx_then (mod_load_region_state E) (tx_then (mod_load_append E Q) (mod_load_run_install E)) tx t
      = mod_load_run_install E tx t' \<and> joined Q s ks (cnt + 1) m p h key t'
    \<and> (\<exists>x. mods t' m = Some x \<and> (wants_state E h \<longrightarrow> region_state x \<noteq> None) \<and> me_ctx x = me_ctx e)
    \<and> linked_in E Q s m p t'"
proof -
  from region_state_step [OF E(1) p tx e] obtain t1 e1 where 1: "mod_load_region_state E tx t = Some (XY_OK, tx, t1)"
    "prep Q s ks (cnt + 1) m e1 t1" "born h rid key e1" "wants_state E h \<longrightarrow> region_state e1 \<noteq> None" "me_ctx e1 = me_ctx e" by blast
  note i = region_lookup_iff [OF wf_libD(3) [OF prepD(1) [OF p]]] region_lookup_iff [OF wf_libD(3) [OF prepD(1) [OF 1(2)]]]
  have "region_lookup Q rid t1 = Some p" using l prepD(7) [OF p] prepD(7) [OF 1(2)] by (simp add: i)
  from append_step [OF Q E H 1(2) tx 1(3) this lib] obtain t2 where 2: "mod_load_append E Q tx t1 = Some (XY_OK, tx, t2)"
    "joined Q s ks (cnt + 1) m p h key t2" "\<exists>x. mods t2 m = Some x \<and> region_state x = region_state e1 \<and> me_ctx x = me_ctx e1"
    "linked_in E Q s m p t2" by blast
  with 1(1,4,5) show ?thesis by (intro exI [of _ t2]) (auto simp: tx_then_def)
qed

lemma load_prefix:
  assumes Q: "qmap_laws Q" and E: "alloc_ok E" "dl_ok E" and lib: "wf_lib Q s" and H: "wf_hooks Q s"
    and l: "loadable E Q fname h r s"
    and tx: "lk_key (tx_lookup tx) = Some key" "lk_load_path (tx_lookup tx) = Some path" "tx_handle tx = Some h"
      "inherited_region_id tx = xy_current_region_id s"
  shows "\<exists>tx' m t. mod_load_steps E Q fname tx s = mod_load_run_install E tx' t \<and> mods s m = None
    \<and> joined Q s ((key_get Q s)(key \<mapsto> m)) (xy_mod_count s + 1) m r h key t
    \<and> tx_info h m key (xy_current_region_id s) tx' \<and> published_entry tx' \<and> context_active tx'
    \<and> prev_region_id tx' = xy_current_region_id s \<and> prev_region_entry tx' = Some r
    \<and> (\<exists>x. mods t m = Some x \<and> (wants_state E h \<longrightarrow> region_state x \<noteq> None) \<and> (gives_ctx E h \<longrightarrow> me_ctx x \<noteq> None))
    \<and> linked_in E Q s m r t"
proof -
  let ?rid = "xy_current_region_id s"
  from l have cur: "xy_current_region_entry s = Some r" by (simp add: loadable_def opens_def)
  from l obtain re where re: "regions s r = Some re" "no_claim E h re" by (auto simp: loadable_def)
  from load_start [OF Q E(1) lib cur tx] obtain tx' m e t where a: "mod_load_steps E Q fname tx s
      = tx_then (mod_load_claim_if_needed E Q)
        (tx_then (mod_load_region_state E) (tx_then (mod_load_append E Q) (mod_load_run_install E))) tx' t"
    "mods s m = None" "prep Q s ((key_get Q s)(key \<mapsto> m)) (xy_mod_count s) m e t" "born h ?rid key e"
    "gives_ctx E h \<longrightarrow> me_ctx e \<noteq> None" "tx_info h m key ?rid tx'" "inherited_reg tx' = Some r" "published_entry tx'" "context_active tx'"
    "prev_region_id tx' = ?rid" "prev_region_entry tx' = Some r" by blast
  note c = claim_step [OF a(3,6,7) re]
  from load_join [OF Q E H a(3,6,4) enter_step(2) [OF a(3,6) refl cur] lib] obtain t' where t':
    "tx_then (mod_load_region_state E) (tx_then (mod_load_append E Q) (mod_load_run_install E)) tx' t
      = mod_load_run_install E tx' t'" "joined Q s ((key_get Q s)(key \<mapsto> m)) (xy_mod_count s + 1) m r h key t'"
    "\<exists>x. mods t' m = Some x \<and> (wants_state E h \<longrightarrow> region_state x \<noteq> None) \<and> me_ctx x = me_ctx e"
    "linked_in E Q s m r t'" by blast
  from t'(3) a(5) have entry: "\<exists>x. mods t' m = Some x \<and> (wants_state E h \<longrightarrow> region_state x \<noteq> None)
      \<and> (gives_ctx E h \<longrightarrow> me_ctx x \<noteq> None)" by auto
  have "mod_load_steps E Q fname tx s = mod_load_run_install E tx' t'"
    using a(1) c t'(1) by (simp add: tx_then_def)
  with a(2,6,8-) t'(2,4) entry show ?thesis by blast
qed

section \<open>Taking a load back\<close>

lemma abort_joined:
  assumes Q: "qmap_laws Q" and C: "cleanup_ok E" and j: "joined Q s ((key_get Q s)(key \<mapsto> m)) cnt m r h key t"
    and new: "mods s m = None" and unused: "key_get Q s key = None"
    and tx: "tx_mod_entry tx = Some m" "published_entry tx" "context_active tx"
      "prev_region_id tx = xy_current_region_id s" "prev_region_entry tx = xy_current_region_entry s" and lib: "wf_lib Q s"
  shows "\<exists>u. mod_load_abort E Q tx err t = Some (err, u) \<and> wf_lib Q u \<and> key_get Q u = key_get Q s
    \<and> (\<forall>q. region_mods u q = region_mods s q) \<and> (\<forall>a. map_option mstat (mods u a) = map_option mstat (mods s a))
    \<and> xy_current_region_id u = xy_current_region_id s \<and> xy_current_region_entry u = xy_current_region_entry s
    \<and> xy_mod_count u = cnt \<and> mods u m = None \<and> (\<forall>a. a \<noteq> m \<longrightarrow> map_option mdata (mods u a) = map_option mdata (mods t a))
    \<and> (\<forall>p. map_option rdata (regions u p) = map_option (\<lambda>e. rdata (if ancestor t p r then dirty_and_bump e else e)) (regions t p))
    \<and> hook_id_hd u = hook_id_hd t \<and> xy_hook_id_counter u = xy_hook_id_counter t
    \<and> (\<forall>q. region_mods u q = filter (\<lambda>a. a \<noteq> m) (region_mods t q))"
proof -
  from j obtain e where e: "mods t m = Some e" "me_handle e = Some h" "me_mod_key e = key" "region_entry e = Some r"
    and t: "wf_lib Q t" "\<And>q. region_mods t q = (if q = r then region_mods s r @ [m] else region_mods s q)"
    "key_get Q t = (key_get Q s)(key \<mapsto> m)" "\<And>a. a \<noteq> m \<Longrightarrow> map_option mstat (mods t a) = map_option mstat (mods s a)"
    "xy_current_region_id t = xy_current_region_id s" "xy_current_region_entry t = xy_current_region_entry s"
    "xy_mod_count t = cnt" unfolding joined_def by blast
  have restore: "mod_load_restore_context tx t = (tx\<lparr>context_active := False\<rparr>, t)"
    using tx set_current_same [OF t(5,6)] by (simp add: mod_load_restore_context_def)
  have "me_handle e \<noteq> None" using e(2) by simp
  from cleanup_state_ok [OF C e(1) this] obtain v where v: "module_cleanup_region_state E m t
    = Some (t\<lparr>mods := (mods t)(m \<mapsto> e\<lparr>region_state := None\<rparr>), states := v\<rparr>)" .
  let ?e1 = "e\<lparr>region_state := None\<rparr>"
  let ?t1 = "t\<lparr>mods := (mods t)(m \<mapsto> ?e1), states := v\<rparr>"
  have k1: "keeps t ?t1"
    using e(1) by (simp add: keeps_def same_shape_def mlinks_def mident_def)
  have lib1: "wf_lib Q ?t1" by (rule keeps_wf_lib [OF k1 t(1)])
  have rm1: "region_mods ?t1 q = region_mods t q" for q by (rule keeps_region_mods [OF k1 wf_libD(2) [OF t(1)]])
  have kg1: "key_get Q ?t1 = key_get Q t" by (rule key_get_cong) simp
  have "mods ?t1 m = Some ?e1" "region_entry ?e1 = Some r" "m \<in> set (region_mods ?t1 r)" using e(4) rm1 t(2) by simp_all
  from abort_detach_ok [OF lib1 this] obtain t2 e2 where t2: "abort_detach m ?t1 = Some t2" "wf_lib Q t2"
    "key_get Q t2 = key_get Q ?t1" "mods t2 m = Some e2" "me_mod_key e2 = me_mod_key ?e1"
    "\<forall>a. a \<noteq> m \<longrightarrow> map_option mstat (mods t2 a) = map_option mstat (mods ?t1 a)"
    "\<forall>q. region_mods t2 q = filter (\<lambda>a. a \<noteq> m) (region_mods ?t1 q)" "\<forall>q. m \<notin> set (region_mods t2 q)"
    "t2 = ?t1\<lparr>regions := regions t2, mods := mods t2\<rparr>"
    "\<forall>p. map_option rdata (regions t2 p) = map_option (\<lambda>e. rdata (if ancestor ?t1 p r then dirty_and_bump e else e)) (regions ?t1 p)"
    "\<forall>a. a \<noteq> m \<longrightarrow> map_option mdata (mods t2 a) = map_option mdata (mods ?t1 a)" by blast
  obtain R M where RM: "t2 = ?t1\<lparr>regions := R, mods := M\<rparr>" by (rule that) (rule t2(9))
  from wf_libD(6,7) [OF t2(2)] obtain hd rh where h: "mod_hd t2 = Some hd" "mod_by_region_hd t2 = Some rh" by auto
  let ?t3 = "t2\<lparr>mod_hd := Some (qmap_del Q hd (KBlob (me_mod_key e2))),
      mod_by_region_hd := Some (mmap_del Q rh (KId (me_region_id e2))), xy_mod_count := cnt\<rparr>"
  have "key_get Q t2 (me_mod_key e2) = Some m" using t2(3,5) kg1 t(3) e(3) by simp
  note u = untable_free [OF Q t2(2) t2(4) t2(8) this h(1) refl, where rh = "mmap_del Q rh (KId (me_region_id e2))" and cnt = cnt]
  let ?u = "free_mod m ?t3"
  have cnt: "xy_mod_count t2 = cnt" using t(7) by (simp add: RM)
  then have "mod_load_unpublish Q m t2 = Some ?t3"
    using t2(4) h by (simp add: mod_load_unpublish_def)
  then have ab: "mod_load_abort E Q tx err t = Some (err, ?u)"
    using restore v t2(1) tx(1,2) by (simp add: mod_load_abort_def)
  have out: "filter (\<lambda>a. a \<noteq> m) (region_mods s q) = region_mods s q" for q
  proof (rule filter_True)
    have "m \<notin> set (region_mods s q)" using region_mods_live [OF lib, of m q] new by auto
    then show "\<forall>a \<in> set (region_mods s q). a \<noteq> m" by auto
  qed
  have rm: "region_mods ?u q = region_mods s q" for q
    using u(2) [of q] t2(7) rm1 t(2) out by simp
  have kg: "key_get Q ?u = key_get Q s"
  proof
    fix k
    show "key_get Q ?u k = key_get Q s k"
      using u(3) [of k] t2(3) kg1 t(3) unused key_get_live [OF lib, of k m] new by auto
  qed
  have ms: "map_option mstat (mods ?u a) = map_option mstat (mods s a)" for a
    using t2(6) t(4) [of a] new by (simp add: free_mod_def)
  have cur: "xy_current_region_id ?u = xy_current_region_id s" "xy_current_region_entry ?u = xy_current_region_entry s"
    "xy_mod_count ?u = cnt" using t(5,6) by (simp_all add: free_mod_def RM)
  have anc: "ancestor ?t1 = ancestor t" by (rule ancestor_cong) (simp_all add: region_parent_def fun_eq_iff)
  have rd: "map_option rdata (regions ?u p) = map_option (\<lambda>e. rdata (if ancestor t p r then dirty_and_bump e else e)) (regions t p)" for p
    using t2(10) unfolding anc by (simp add: free_mod_def)
  have md: "map_option mdata (mods ?u a) = map_option mdata (mods t a)" if "a \<noteq> m" for a
    using t2(11) that by (simp add: free_mod_def)
  have "mods ?u m = None" "hook_id_hd ?u = hook_id_hd t" "xy_hook_id_counter ?u = xy_hook_id_counter t"
    by (simp_all add: free_mod_def RM)
  moreover have "region_mods ?u q = filter (\<lambda>a. a \<noteq> m) (region_mods t q)" for q using u(2) [of q] t2(7) rm1 by simp
  ultimately show ?thesis using ab u(1) kg rm ms cur rd md by blast
qed

section \<open>A load that succeeds\<close>

text \<open>The module exports \<open>xy_install\<close>, which returns, and which neither loads nor unloads modules
  nor claims regions (it may register adapters, deny, change data).\<close>

definition install_ok :: "'q env \<Rightarrow> dlhandle \<Rightarrow> bool" where
  "install_ok E h \<longleftrightarrow> e_dlsym E h ''xy_install'' \<noteq> 0
     \<and> (\<forall>t. \<exists>t'. e_void E (e_dlsym E h ''xy_install'') t = Some t' \<and> keeps t t' \<and> xy_mod_count t' = xy_mod_count t)"

lemma loading_var_keeps: "keeps t (t\<lparr>xy_loading_mod := x\<rparr>)"
  by (simp add: keeps_def same_shapeI)

text \<open>The install, and back to the region of the caller.\<close>

lemma finish_load:
  assumes i: "install_ok E h" and j: "joined Q b ks cnt m p h key t" and tx: "tx_info h m key' rid' tx" "context_active tx"
    and home: "regions t q = Some e" "prev_region_id tx = re_id e" "prev_region_entry tx = Some q"
  shows "\<exists>u v. mod_load_run_install E tx t = Some (XY_OK, tx, u) \<and> v = snd (mod_load_restore_context tx u) \<and> wf_lib Q v
    \<and> (\<exists>x. mods v m = Some x \<and> region_entry x = Some p) \<and> key_get Q v = ks
    \<and> (\<forall>a. region_mods v a = region_mods t a) \<and> (\<forall>a. map_option rlinks (regions v a) = map_option rlinks (regions t a))
    \<and> (\<forall>a. map_option re_id (regions v a) = map_option re_id (regions t a))
    \<and> xy_current_region_id v = re_id e \<and> xy_current_region_entry v = Some q \<and> xy_mod_count v = cnt"
proof -
  let ?cb = "e_dlsym E h ''xy_install''" and ?t1 = "t\<lparr>xy_loading_mod := Some m\<rparr>"
  from i obtain u where u: "?cb \<noteq> 0" "e_void E ?cb ?t1 = Some u" "keeps ?t1 u" "xy_mod_count u = xy_mod_count ?t1"
    unfolding install_ok_def by blast
  let ?u = "u\<lparr>xy_loading_mod := xy_loading_mod t\<rparr>"
  let ?v = "set_current_region (re_id e) (Some q) ?u"
  have k: "keeps t ?u" by (rule keeps_trans [OF loading_var_keeps keeps_trans [OF u(3) loading_var_keeps]])
  from j obtain x where x: "mods t m = Some x" "region_entry x = Some p" unfolding joined_def by blast
  have lib: "wf_lib Q t" "key_get Q t = ks" "xy_mod_count t = cnt" using j unfolding joined_def by blast+
  have kc: "mod_hd ?u = mod_hd t" "map_option mlinks (mods ?u m) = map_option mlinks (mods t m)"
    "map_option re_id (regions ?u a) = map_option re_id (regions t a)" for a
    using k by (simp_all add: keeps_def same_shape_def)
  have libu: "wf_lib Q ?u" by (rule keeps_wf_lib [OF k lib(1)])
  have cur: "wf_current ?v" using kc(3) [of q] home(1) by (auto simp: wf_current_def set_current_region_def)
  have v: "?v = ?u\<lparr>xy_current_region_id := re_id e, xy_current_region_entry := Some q, xy_err_val := xy_err_val ?u\<rparr>"
    by (simp add: set_current_region_def)
  have libv: "wf_lib Q ?v" by (rule wf_lib_moved [OF libu v cur])
  have sh: "same_shape ?u ?v" by (rule same_shapeI) (simp_all add: set_current_region_def)
  have rm: "region_mods ?v a = region_mods t a" for a
    using same_shape_region_mods [OF sh wf_libD(2) [OF libu]] keeps_region_mods [OF k wf_libD(2) [OF lib(1)]] by simp
  have inst: "mod_load_run_install E tx t = Some (XY_OK, tx, ?u)"
    using tx(1) u(1,2) by (simp add: mod_load_run_install_def mod_run_def tx_info_def Let_def)
  have rest: "snd (mod_load_restore_context tx ?u) = ?v" using tx(2) home(2,3) by (simp add: mod_load_restore_context_def)
  have "\<exists>x. mods ?v m = Some x \<and> region_entry x = Some p"
    using kc(2) x by (cases "mods u m") (auto simp: mlinks_def set_current_region_def)
  moreover have "key_get Q ?v = ks" using key_get_cong [of ?v t Q] kc(1) lib(2) by (simp add: set_current_region_def)
  moreover have "map_option rlinks (regions ?v a) = map_option rlinks (regions t a)"
    "map_option re_id (regions ?v a) = map_option re_id (regions t a)" for a
    using k by (simp_all add: keeps_def same_shape_def set_current_region_def)
  moreover have "xy_current_region_id ?v = re_id e" "xy_current_region_entry ?v = Some q" "xy_mod_count ?v = cnt"
    using u(4) lib(3) by (simp_all add: set_current_region_def)
  ultimately show ?thesis using inst rest libv rm by (intro exI [of _ ?u] exI [of _ ?v]) simp
qed

text \<open>Both together, seen from the state in which the module's region is settled.\<close>

lemma join_finish:
  assumes "qmap_laws Q" and "alloc_ok E" "dl_ok E" and "wf_hooks Q b" and "prep Q b ks cnt m e t" and "tx_info h m key' rid' tx"
    and "born h rid key e" and "region_lookup Q rid t = Some p" and "context_active tx" and "install_ok E h"
    and x: "regions b q = Some x" "prev_region_id tx = re_id x" "prev_region_entry tx = Some q" and lib: "wf_lib Q b"
  shows "\<exists>u v. tx_then (mod_load_region_state E) (tx_then (mod_load_append E Q) (mod_load_run_install E)) tx t = Some (XY_OK, tx, u)
    \<and> v = snd (mod_load_restore_context tx u) \<and> wf_lib Q v \<and> key_get Q v = ks
    \<and> (\<forall>a. region_mods v a = (if a = p then region_mods b p @ [m] else region_mods b a))
    \<and> (\<forall>a. map_option re_id (regions v a) = map_option re_id (regions b a))
    \<and> (\<forall>a. map_option re_parent (regions v a) = map_option re_parent (regions b a))
    \<and> xy_current_region_id v = re_id x \<and> xy_current_region_entry v = Some q \<and> xy_mod_count v = cnt + 1"
proof -
  from load_join [OF assms(1-8) lib] obtain t' where t':
    "tx_then (mod_load_region_state E) (tx_then (mod_load_append E Q) (mod_load_run_install E)) tx t = mod_load_run_install E tx t'"
    "joined Q b ks (cnt + 1) m p h key t'" by blast
  then have st: "map_option claims (regions t' a) = map_option claims (regions b a)"
    and rm: "region_mods t' a = (if a = p then region_mods b p @ [m] else region_mods b a)" for a
    unfolding joined_def stays_def by blast+
  have id: "map_option re_id (regions t' a) = map_option re_id (regions b a)"
    "map_option re_parent (regions t' a) = map_option re_parent (regions b a)" for a
    by (rule map_option_factor [OF st], simp add: claims_def)+
  from id(1) [of q] x(1) obtain y where y: "regions t' q = Some y" "re_id y = re_id x" by auto
  have home: "prev_region_id tx = re_id y" using x(2) y(2) by simp
  from finish_load [OF assms(10) t'(2) assms(6,9) y(1) home x(3)] obtain u v where v:
    "mod_load_run_install E tx t' = Some (XY_OK, tx, u)" "v = snd (mod_load_restore_context tx u)" "wf_lib Q v" "key_get Q v = ks"
    "\<forall>a. region_mods v a = region_mods t' a" "\<And>a. map_option rlinks (regions v a) = map_option rlinks (regions t' a)"
    "\<forall>a. map_option re_id (regions v a) = map_option re_id (regions t' a)"
    "xy_current_region_id v = re_id y" "xy_current_region_entry v = Some q" "xy_mod_count v = cnt + 1" by blast
  have "map_option re_parent (regions v a) = map_option re_parent (regions t' a)" for a
    by (rule map_option_factor [OF v(6)]) (simp add: rlinks_def)
  with v t'(1) rm id y(2) show ?thesis by (intro exI [of _ u] exI [of _ v]) simp
qed

lemma mod_load_new:
  assumes "qmap_laws Q" and "alloc_ok E" "dl_ok E" and "wf_lib Q s" and "wf_hooks Q s"
    and "loadable E Q fname h r s" and "install_ok E h"
  shows "\<exists>v m. mod_load E Q fname s = Some (XY_OK, v) \<and> wf_lib Q v \<and> mods s m = None
    \<and> (\<exists>e. mods v m = Some e \<and> region_entry e = Some r)
    \<and> key_get Q v = (key_get Q s)(inst_key E fname (xy_current_region_id s) \<mapsto> m)
    \<and> (\<forall>q. region_mods v q = (if q = r then region_mods s r @ [m] else region_mods s q))
    \<and> xy_current_region_id v = xy_current_region_id s \<and> xy_current_region_entry v = Some r
    \<and> xy_mod_count v = xy_mod_count s + 1"
proof -
  let ?rid = "xy_current_region_id s" and ?key = "inst_key E fname (xy_current_region_id s)"
  from assms(6) have cur: "xy_current_region_entry s = Some r" by (simp add: loadable_def opens_def)
  from open_step [OF assms(2) loadable_opens [OF assms(6)]] obtain tx path where tx: "mod_load_open_handle E Q fname (tx_zero ?rid) s = Some (XY_OK, tx, s)"
    "mod_load_try_reuse_existing tx s = Some (False, tx, s)" "lk_key (tx_lookup tx) = Some ?key"
    "lk_load_path (tx_lookup tx) = Some path" "tx_handle tx = Some h" "inherited_region_id tx = ?rid" by blast
  from load_prefix [OF assms(1-6) tx(3-6)] obtain tx' m t where t: "mod_load_steps E Q fname tx s = mod_load_run_install E tx' t"
    "mods s m = None" "joined Q s ((key_get Q s)(?key \<mapsto> m)) (xy_mod_count s + 1) m r h ?key t" "tx_info h m ?key ?rid tx'"
    "context_active tx'" "prev_region_id tx' = ?rid" "prev_region_entry tx' = Some r" by blast
  have j: "wf_lib Q t" "\<And>q. region_mods t q = (if q = r then region_mods s r @ [m] else region_mods s q)"
    "xy_current_region_id t = ?rid" "xy_current_region_entry t = Some r" using t(3) cur unfolding joined_def by auto
  from wf_libD(5) [OF j(1)] j(3,4) obtain e where e: "regions t r = Some e" "re_id e = ?rid" unfolding wf_current_def by auto
  have home: "prev_region_id tx' = re_id e" using e(2) t(6) by simp
  from finish_load [OF assms(7) t(3-5) e(1) home t(7)] obtain u v where v: "mod_load_run_install E tx' t = Some (XY_OK, tx', u)"
    "v = snd (mod_load_restore_context tx' u)" "wf_lib Q v" "\<exists>x. mods v m = Some x \<and> region_entry x = Some r"
    "key_get Q v = (key_get Q s)(?key \<mapsto> m)" "\<forall>a. region_mods v a = region_mods t a"
    "xy_current_region_id v = re_id e" "xy_current_region_entry v = Some r" "xy_mod_count v = xy_mod_count s + 1" by blast
  have "mod_load E Q fname s = Some (XY_OK, v)" using tx(1,2) t(1) v(1,2) by (simp add: mod_load_def)
  with v(3-) t(2) j(2) e(2) show ?thesis by (intro exI [of _ v] exI [of _ m]) simp
qed

end
