(* ===== verification/Xy_Unloads.thy ===== *)
theory Xy_Unloads
  imports Xy_Cascade
begin

text \<open>
  The properties of \<open>xy_unload\<close>: what it does to a module that is not loaded, to a module with
  other users, and to the last user's module and everything loaded by it.
\<close>

section \<open>A library with a loaded child\<close>

text \<open>In the example, modules 5 and 6 are \<open>m\<close> and \<open>n\<close> in the root region, \<open>n\<close> has loaded module 7,
  which is \<open>m\<close> in region 2, and that one module 8, which is \<open>m\<close> in region 4.\<close>

definition demo_u_tab :: demo_q where
  "demo_u_tab = [(KBlob (key_of ''m.so'' 0), VPtr 5), (KBlob (key_of ''n.so'' 0), VPtr 6),
     (KBlob (key_of ''m.so'' 0x4000000000000000), VPtr 7), (KBlob (key_of ''m.so'' 0x5000000000000000), VPtr 8)]"

definition demo_u :: "demo_q xy_state" where
  "demo_u = demo\<lparr>
     mods := (mods demo)(5 \<mapsto> (demo_mod (Some 1) 0 (Some 11) (Some 6) None)\<lparr>me_mod_key := key_of ''m.so'' 0\<rparr>,
       6 \<mapsto> (demo_mod (Some 1) 0 (Some 12) None (Some 5))\<lparr>me_mod_key := key_of ''n.so'' 0\<rparr>,
       7 \<mapsto> (demo_mod (Some 2) 0x4000000000000000 (Some 13) None None)
              \<lparr>me_mod_key := key_of ''m.so'' 0x4000000000000000, parent_entry := Some 6\<rparr>,
       8 \<mapsto> (demo_mod (Some 4) 0x5000000000000000 (Some 14) None None)
              \<lparr>me_mod_key := key_of ''m.so'' 0x5000000000000000, parent_entry := Some 7\<rparr>),
     ctxs := (ctxs demo)(12 \<mapsto> (demo_ctx 0)\<lparr>ctx_module_path := Some ''n''\<rparr>),
     mod_hd := Some demo_u_tab\<rparr>"

lemma demo_keys:
  "key_of ''m.so'' 0 \<noteq> key_of ''m.so'' 0x4000000000000000" "key_of ''m.so'' 0 \<noteq> key_of ''m.so'' 0x5000000000000000"
  "key_of ''m.so'' 0x4000000000000000 \<noteq> key_of ''m.so'' 0x5000000000000000"
  "key_of ''n.so'' 0 \<noteq> key_of ''m.so'' 0x4000000000000000" "key_of ''n.so'' 0 \<noteq> key_of ''m.so'' 0"
  "key_of ''n.so'' 0 \<noteq> key_of ''m.so'' 0x5000000000000000"
  by code_simp+

lemma demo_globals:
  "ctxs demo 11 = Some (demo_ctx 0)" "ctxs demo 13 = Some (demo_ctx 0x4000000000000000)"
  "ctxs demo 14 = Some (demo_ctx 0x5000000000000000)" "xy_current_region_id demo = 0"
  unfolding demo_def xy_boot_def XY_REGION_ROOT_def by simp_all

lemma demo_u_entries:
  "mods demo_u 5 = Some ((demo_mod (Some 1) 0 (Some 11) (Some 6) None)\<lparr>me_mod_key := key_of ''m.so'' 0\<rparr>)"
  "mods demo_u 6 = Some ((demo_mod (Some 1) 0 (Some 12) None (Some 5))\<lparr>me_mod_key := key_of ''n.so'' 0\<rparr>)"
  "mods demo_u 7 = Some ((demo_mod (Some 2) 0x4000000000000000 (Some 13) None None)
      \<lparr>me_mod_key := key_of ''m.so'' 0x4000000000000000, parent_entry := Some 6\<rparr>)"
  "mods demo_u 8 = Some ((demo_mod (Some 4) 0x5000000000000000 (Some 14) None None)
      \<lparr>me_mod_key := key_of ''m.so'' 0x5000000000000000, parent_entry := Some 7\<rparr>)"
  "mods demo_u 9 = Some (demo_mod None 0 None None None)"
  "ctxs demo_u 11 = Some (demo_ctx 0)" "ctxs demo_u 12 = Some ((demo_ctx 0)\<lparr>ctx_module_path := Some ''n''\<rparr>)"
  "ctxs demo_u 13 = Some (demo_ctx 0x4000000000000000)" "ctxs demo_u 14 = Some (demo_ctx 0x5000000000000000)"
  by (simp_all add: demo_u_def demo_globals)

lemma demo_u_regions: "regions demo_u = regions demo"
  by (simp add: demo_u_def)

lemma demo_u_current: "xy_current_region_id demo_u = 0"
  by (simp add: demo_u_def demo_globals)

lemma demo_u_next: "next_addr demo_u = 30"
  by (simp add: demo_u_def)

lemma demo_u_hd: "mod_hd demo_u = Some demo_u_tab"
  by (simp add: demo_u_def)

lemmas demo_u_sel = demo_u_entries demo_u_regions demo_u_current demo_u_next demo_u_hd

lemma demo_u_cases:
  assumes "mods demo_u m = Some e"
  shows "m = 5 \<or> m = 6 \<or> m = 7 \<or> m = 8 \<or> m = 9"
proof -
  have "mods demo_u m = mods demo m" if "m \<noteq> 5" "m \<noteq> 6" "m \<noteq> 7" "m \<noteq> 8" using that by (simp add: demo_u_def)
  with assms demo_mods_cases [of m e] show ?thesis by metis
qed

lemma demo_u_shape: "same_shape demo demo_u"
proof -
  have "map_option mlinks (mods demo_u m) = map_option mlinks (mods demo m)" for m
    by (simp add: demo_u_def mlinks_def demo_mod_def)
  then show ?thesis by (simp add: same_shape_def demo_u_sel)
qed

lemma demo_u_wf_lib: "wf_lib alist_qmap demo_u"
proof -
  note w = wf_libD [OF demo_wf_lib]
  have live: "ctxs demo_u c \<noteq> None" if "mods demo_u m = Some e" "me_ctx e = Some c" for m e c
    using demo_u_cases [OF that(1)] that by (auto simp: demo_u_sel demo_mod_def)
  have "wf_modtab alist_qmap demo_u"
    unfolding wf_modtab_def
  proof (intro conjI allI impI)
    fix h k v assume "mod_hd demo_u = Some h" "qmap_get alist_qmap h k = Some v"
    then show "\<exists>m e. v = VPtr m \<and> mods demo_u m = Some e \<and> k = KBlob (me_mod_key e)"
      by (auto simp: demo_u_sel demo_u_tab_def split: if_splits)
  qed (use live in blast)
  moreover have "mod_by_region_hd demo_u = mod_by_region_hd demo" "sica_hd demo_u = sica_hd demo"
    "hook_id_hd demo_u = hook_id_hd demo" "xy_inited demo_u = xy_inited demo" "region_hd demo_u = region_hd demo"
    "strs demo_u = strs demo" "path_intern_hd demo_u = path_intern_hd demo"
    "xy_current_region_entry demo_u = xy_current_region_entry demo"
    "xy_current_region_id demo_u = xy_current_region_id demo" "next_addr demo_u = next_addr demo"
    "mod_hd demo_u \<noteq> None" by (simp_all add: demo_u_def)
  ultimately show ?thesis
    using w same_shape_wf' [OF demo_u_shape demo_wf] wf_index_frame [OF w(3), of demo_u]
      wf_intern_frame [OF w(4), of demo_u] wf_current_frame [OF w(5), of demo_u]
    by (simp add: wf_lib_def demo_u_sel(10))
qed

lemma demo_u_lists:
  "region_mods demo_u 1 = [5, 6]" "region_mods demo_u 2 = [7]" "region_mods demo_u 4 = [8]"
  using same_shape_region_mods [OF demo_u_shape demo_wf] demo_region_mods by simp_all

lemma demo_u_keys:
  "key_get alist_qmap demo_u k = (if k = key_of ''m.so'' 0 then Some 5 else if k = key_of ''n.so'' 0 then Some 6
     else if k = key_of ''m.so'' 0x4000000000000000 then Some 7
     else if k = key_of ''m.so'' 0x5000000000000000 then Some 8 else None)"
  by (simp add: key_get_def mod_hd_get_def demo_u_sel demo_u_tab_def)

lemma demo_u_own:
  "own_key demo_env demo_u 5 = Some (key_of ''m.so'' 0)" "own_key demo_env demo_u 6 = Some (key_of ''n.so'' 0)"
  "own_key demo_env demo_u 7 = Some (key_of ''m.so'' 0x4000000000000000)"
  "own_key demo_env demo_u 8 = Some (key_of ''m.so'' 0x5000000000000000)" "own_key demo_env demo_u 9 = None"
  by (simp_all add: own_key_def own_path_def demo_u_sel demo_mod_def demo_ctx_def inst_key_def)

lemma demo_u_unloadable: "unloadable demo_env alist_qmap demo_u"
proof -
  have "wf_entries demo_u"
    unfolding wf_entries_def
  proof (intro allI impI)
    fix m e assume e: "mods demo_u m = Some e"
    from demo_u_cases [OF e] e show "me_handle e \<noteq> None \<and> (\<forall>r. region_entry e = Some r \<longrightarrow> m \<in> set (region_mods demo_u r))"
      by (elim disjE) (auto simp: demo_u_sel demo_mod_def demo_u_lists simp del: One_nat_def)
  qed
  moreover have "lineage demo_env alist_qmap demo_u"
    unfolding lineage_def
  proof (intro conjI allI impI)
    fix m e p assume e: "mods demo_u m = Some e" "parent_entry e = Some p"
    from demo_u_cases [OF e(1)] e show "p < m" by (elim disjE) (auto simp: demo_u_sel demo_mod_def)
  next
    fix m k a assume k: "own_key demo_env demo_u m = Some k" "key_get alist_qmap demo_u k = Some a"
    then have "mods demo_u m \<noteq> None" by (auto simp: own_key_def bind_eq_Some_conv)
    then obtain e where "mods demo_u m = Some e" by auto
    from demo_u_cases [OF this] k show "a = m"
      by (elim disjE) (auto simp: demo_u_own demo_u_keys demo_keys demo_keys [symmetric] split: if_splits)
  qed
  ultimately show ?thesis using demo_u_wf_lib by (simp add: unloadable_def)
qed

lemma demo_u_named: "named demo_env alist_qmap demo_u 7" "named demo_env alist_qmap demo_u 8"
  by (simp_all add: named_def demo_u_own demo_u_keys demo_keys demo_keys [symmetric])

section \<open>The properties\<close>

text \<open>(C9) Unloading a module whose last reference goes: the call succeeds, whatever the modules loaded
  by it, and theirs, look like, so the cascade always ends.  The modules it reaches
  (\<open>released\<close>) are the unloaded one and, from each reached module whose last reference goes, the
  modules that one had loaded and that their own path still finds, down to any depth.
  Exactly these lose one reference each: the last reference takes the entry away, a shared
  module stays with one less, and with it everything below it.  Every other module keeps
  its entry and its reference count, a descendant without a usable path included.  The
  unloaded module is gone from the table; the lists keep the order of the modules that
  remain; the library stays well formed.\<close>

theorem unload_cascades:
  assumes "qmap_laws Q" "alloc_ok E" "cleanup_ok E" and "unloadable E Q s"
    and "lk_entry (module_lookup_from_fname E Q fname (xy_current_region_id s) s) = Some m"
    and "mods s m = Some e" "refcount e \<le> 1"
  shows "\<exists>s'. xy_unload E Q fname s = Some (XY_OK, s') \<and> wf_lib Q s' \<and> mods s' m = None
    \<and> lk_entry (module_lookup_from_fname E Q fname (xy_current_region_id s) s') = None
    \<and> (\<forall>p. region_mods s' p = filter (\<lambda>a. mods s' a \<noteq> None) (region_mods s p))
    \<and> (\<forall>a. if released E Q s m a then dereferenced s s' a else same_entry s s' a)
    \<and> (\<forall>a. mods s' a = None \<longleftrightarrow> (\<forall>ea. mods s a = Some ea \<longrightarrow> released E Q s m a \<and> refcount ea \<le> 1))"
proof -
  from assms(4) have lib: "wf_lib Q s" by (simp add: unloadable_def)
  have k: "key_get Q s (inst_key E fname (xy_current_region_id s)) = Some m" using assms(5) lookup_eq(2) [OF assms(2)] by simp
  have "next_addr s < unload_fuel s + m" by (simp add: unload_fuel_def)
  with unload_works_all [OF assms(1-3), of "unload_fuel s"] assms(4) k obtain t where t:
    "mod_unload (unload_fuel s) E Q fname (xy_current_region_id s) s = Some (XY_OK, t)" "unload_post E Q m s t"
    unfolding unload_works_def by blast
  let ?s' = "xy_set_err XY_OK t"
  have ut: "unloadable E Q t" and sh: "shrunk Q s t" and d: "dereferenced s t m"
    using t(2) by (simp_all add: unload_post_def)
  note f = errno_frame [OF ut, of XY_OK]
  have same: "mods ?s' = mods t" by (simp add: xy_set_err_def)
  have gone: "mods t m = None" using d assms(6,7) by (simp add: dereferenced_iff)
  have sh': "shrunk Q s ?s'" by (rule shrunk_trans [OF sh f(2)])
  have "xy_unload E Q fname s = Some (XY_OK, ?s')"
    using t(1) wf_libD(1) [OF lib] by (simp add: xy_unload_def fail_with_def)
  moreover have "lk_entry (module_lookup_from_fname E Q fname (xy_current_region_id s) ?s') = None"
    using k gone shrunkD(3) [OF sh'] by (simp add: lookup_eq(2) [OF assms(2)] same)
  moreover have ch: "\<forall>a. if released E Q s m a then dereferenced s ?s' a else same_entry s ?s' a"
  proof -
    have "same_entry s ?s' a = same_entry s t a" "dereferenced s ?s' a = dereferenced s t a" for a
      by (simp_all add: same_entry_def dereferenced_def same)
    with t(2) show ?thesis by (simp add: unload_post_def changes_only_def)
  qed
  moreover have "mods ?s' a = None \<longleftrightarrow> (\<forall>ea. mods s a = Some ea \<longrightarrow> released E Q s m a \<and> refcount ea \<le> 1)" for a
    using ch [rule_format, of a] same_entry_live [of s ?s' a]
    by (cases "released E Q s m a") (auto simp: dereferenced_def split: if_splits)
  ultimately show ?thesis
    using f(1) gone shrunkD(2) [OF sh'] same by (intro exI [of _ ?s']) (auto simp: unloadable_def)
qed

theorem unload_cascades_witness:
  "\<exists>s'. xy_unload demo_env alist_qmap ''n'' demo_u = Some (XY_OK, s') \<and> wf_lib alist_qmap s'
    \<and> mods s' 6 = None \<and> mods s' 7 = None \<and> mods s' 8 = None \<and> mods s' 5 \<noteq> None"
proof -
  have E: "alloc_ok demo_env" by (simp add: alloc_ok_def)
  let ?e = "(demo_mod (Some 1) 0 (Some 12) None (Some 5))\<lparr>me_mod_key := key_of ''n.so'' 0\<rparr>"
  have l: "lk_entry (module_lookup_from_fname demo_env alist_qmap ''n'' (xy_current_region_id demo_u) demo_u) = Some 6"
    by (simp add: lookup_eq(2) [OF E] inst_key_def demo_u_keys demo_u_sel demo_keys)
  have r: "refcount ?e \<le> 1" by (simp add: demo_mod_def)
  let ?R = "released demo_env alist_qmap demo_u 6"
  have r7: "?R 7" by (rule released_child [OF released_self demo_u_sel(2) r demo_u_sel(3)]) (simp_all add: demo_u_named)
  have r8: "?R 8" by (rule released_child [OF r7 demo_u_sel(3) _ demo_u_sel(4)]) (simp_all add: demo_u_named demo_mod_def)
  have r5: "\<not> ?R 5"
  proof
    assume "?R 5"
    then show False by (cases rule: released.cases) (auto simp: demo_u_sel demo_mod_def)
  qed
  from unload_cascades [OF alist_qmap_laws E demo_cleanup_ok demo_u_unloadable l demo_u_sel(2) r] obtain s' where
    s': "xy_unload demo_env alist_qmap ''n'' demo_u = Some (XY_OK, s')" "wf_lib alist_qmap s'" "mods s' 6 = None"
    "\<And>a. mods s' a = None \<longleftrightarrow> (\<forall>ea. mods demo_u a = Some ea \<longrightarrow> ?R a \<and> refcount ea \<le> 1)" by blast
  have "mods s' 7 = None" "mods s' 8 = None" "mods s' 5 \<noteq> None"
    unfolding s'(4) by (simp_all add: r7 r8 r5 demo_u_sel demo_mod_def)
  with s'(1-3) show ?thesis by blast
qed

text \<open>(C38) Unloading a module that has other users only takes one reference; unloading or reloading a module
  that is not loaded in the current region is refused with XY_ERR_NOTFOUND and changes
  nothing but the error number.\<close>

theorem unload_shared_or_unknown:
  assumes "alloc_ok E" and "wf_lib Q s"
    and "lk_entry (module_lookup_from_fname E Q fname (xy_current_region_id s) s) = found"
    and "\<forall>m. found = Some m \<longrightarrow> mods s m = Some e \<and> refcount e > 1"
  shows "xy_unload E Q fname s = Some (case found of
      None \<Rightarrow> (XY_ERR_NOTFOUND, s\<lparr>xy_err_val := XY_ERR_NOTFOUND\<rparr>)
    | Some m \<Rightarrow> (XY_OK, s\<lparr>mods := (mods s)(m \<mapsto> e\<lparr>refcount := refcount e - 1\<rparr>), xy_err_val := XY_OK\<rparr>))
    \<and> (found = None \<longrightarrow> xy_reload E Q fname s = Some (XY_ERR_NOTFOUND, s\<lparr>xy_err_val := XY_ERR_NOTFOUND\<rparr>))"
proof -
  have fuel: "unload_fuel s = Suc (next_addr s)" by (simp add: unload_fuel_def)
  note l = assms(3) lookup_eq(1) [OF assms(1)] wf_libD(1) [OF assms(2)]
  have "xy_reload E Q fname s = Some (XY_ERR_NOTFOUND, s\<lparr>xy_err_val := XY_ERR_NOTFOUND\<rparr>)" if "found = None"
    using that l by (simp add: xy_reload_def fail_with_def xy_set_err_def Let_def)
  with assms(4) l show ?thesis
    by (auto simp: xy_unload_def fuel fail_with_def xy_set_err_def upd_mod_def split: option.split)
qed

theorem unload_shared_or_unknown_witness:
  "xy_unload demo_env alist_qmap ''x'' demo = Some (XY_ERR_NOTFOUND, demo\<lparr>xy_err_val := XY_ERR_NOTFOUND\<rparr>)
    \<and> xy_reload demo_env alist_qmap ''x'' demo = Some (XY_ERR_NOTFOUND, demo\<lparr>xy_err_val := XY_ERR_NOTFOUND\<rparr>)"
proof -
  have E: "alloc_ok demo_env" by (simp add: alloc_ok_def)
  have "lk_entry (module_lookup_from_fname demo_env alist_qmap ''x'' (xy_current_region_id demo) demo) = None"
    by (simp add: lookup_eq(2) [OF E] key_get_def mod_hd_get_def) (simp add: demo_def)
  from unload_shared_or_unknown [OF E demo_wf_lib this] show ?thesis by simp
qed

end
