(* ===== verification/Xy_Loads.thy ===== *)
theory Xy_Loads
  imports Xy_Loading Xy_Unloads
begin

text \<open>
  The properties of \<open>xy_load\<close>: a new module joins the library, a module that is loaded already
  only gains a reference, and a load that fails is taken back.
\<close>

section \<open>A new module\<close>

text \<open>(C11) Loading an object that is not loaded in the current region, that claims no region and whose
  \<open>xy_install\<close> keeps to itself: the call succeeds; the new instance is stored under the
  name's key, is the last module of the current region, and is counted; every other key,
  every other module list and the caller's region are as before, and the library is well
  formed.\<close>

theorem load_new_module:
  assumes "qmap_laws Q" and "alloc_ok E" "dl_ok E" and "wf_lib Q s" and "wf_hooks Q s"
    and "loadable E Q fname h r s" and "install_ok E h"
  shows "\<exists>s' m. xy_load E Q fname s = Some (XY_OK, s') \<and> wf_lib Q s' \<and> mods s m = None \<and> mods s' m \<noteq> None
    \<and> lk_entry (module_lookup_from_fname E Q fname (xy_current_region_id s) s') = Some m
    \<and> (\<forall>k. k \<noteq> inst_key E fname (xy_current_region_id s) \<longrightarrow> key_get Q s' k = key_get Q s k)
    \<and> (\<forall>q. region_mods s' q = (if q = r then region_mods s r @ [m] else region_mods s q))
    \<and> xy_current_region_id s' = xy_current_region_id s \<and> xy_current_region_entry s' = xy_current_region_entry s
    \<and> xy_mod_count s' = xy_mod_count s + 1"
proof -
  from assms(6) have cur: "xy_current_region_entry s = Some r" by (simp add: loadable_def opens_def)
  from mod_load_new [OF assms] obtain v m where v: "mod_load E Q fname s = Some (XY_OK, v)" "wf_lib Q v" "mods s m = None"
    "\<exists>e. mods v m = Some e \<and> region_entry e = Some r" "key_get Q v = (key_get Q s)(inst_key E fname (xy_current_region_id s) \<mapsto> m)"
    "\<forall>q. region_mods v q = (if q = r then region_mods s r @ [m] else region_mods s q)"
    "xy_current_region_id v = xy_current_region_id s" "xy_current_region_entry v = Some r"
    "xy_mod_count v = xy_mod_count s + 1" by blast
  let ?s' = "xy_set_err XY_OK v"
  have k: "keeps v ?s'" by simp
  have kg: "key_get Q ?s' = key_get Q v" by (rule key_get_cong) (simp add: xy_set_err_def)
  have "xy_load E Q fname s = Some (XY_OK, ?s')" using v(1) wf_libD(1) [OF assms(4)] by (simp add: xy_load_def fail_with_def)
  moreover have "region_mods ?s' q = (if q = r then region_mods s r @ [m] else region_mods s q)" for q
    using keeps_region_mods [OF k wf_libD(2) [OF v(2)]] v(6) by simp
  moreover have "mods ?s' m \<noteq> None" "xy_current_region_id ?s' = xy_current_region_id s"
    "xy_current_region_entry ?s' = xy_current_region_entry s" "xy_mod_count ?s' = xy_mod_count s + 1"
    using v(4,7,8,9) cur by (auto simp: xy_set_err_def)
  ultimately show ?thesis
    using keeps_wf_lib [OF k v(2)] v(3,5) kg by (intro exI [of _ ?s'] exI [of _ m]) (simp add: lookup_eq(2) [OF assms(2)])
qed

lemma demo_loadable:
  assumes "\<And>f s. e_dlopen E f s = Some (Some 7, s)" and "e_dlsym E 7 ''xy_claim'' = 0"
  shows "loadable E alist_qmap ''x'' 7 1 demo_h"
proof -
  have "key_get alist_qmap demo_h k = None" for k by (simp add: key_get_def mod_hd_get_def) (simp add: demo_h_def demo_def)
  moreover have "no_claim E 7 (demo_region 0 0 0 None (Some 3) None (Some 5) (Some 6))"
    using assms by (simp add: no_claim_def demo_region_def)
  ultimately show ?thesis using assms(1) demo_sel(1) by (simp add: loadable_def opens_def) (simp add: demo_h_def demo_def)
qed

theorem load_new_module_witness:
  "\<exists>s' m. xy_load demo_env alist_qmap ''x'' demo_h = Some (XY_OK, s') \<and> wf_lib alist_qmap s'
    \<and> region_mods s' 1 = [5, 6, m]"
proof -
  have E: "alloc_ok demo_env" by (simp add: alloc_ok_def)
  have l: "loadable demo_env alist_qmap ''x'' 7 1 demo_h" by (rule demo_loadable) simp_all
  have i: "install_ok demo_env 7" by (simp add: install_ok_def)
  have "region_mods demo_h 1 = [5, 6]"
    using keeps_region_mods [OF demo_h_keeps demo_wf] demo_region_mods(1) by simp
  with load_new_module [OF alist_qmap_laws E demo_dl_ok demo_h_wf_lib demo_h_hooks l i] show ?thesis by fastforce
qed

section \<open>A module that is loaded already, and an object that does not open\<close>

text \<open>A name whose object does not open is refused with XY_ERR_NOTFOUND, and nothing but the error
  number changes.  Loading a module that the current region has already opens the object,
  adds one reference to the existing entry and runs nothing of the module.\<close>

lemma load_again_or_missing:
  assumes "alloc_ok E" and "wf_lib Q s" and "\<forall>path. e_dlopen E path s = Some (found, s)"
    and "lk_entry (module_lookup_from_fname E Q fname (xy_current_region_id s) s) = existing"
    and "\<forall>m. existing = Some m \<longrightarrow> mods s m = Some e"
  shows "(found = None \<longrightarrow> xy_load E Q fname s = Some (XY_ERR_NOTFOUND, s\<lparr>xy_err_val := XY_ERR_NOTFOUND\<rparr>))
    \<and> (\<forall>h m. found = Some h \<longrightarrow> existing = Some m \<longrightarrow> xy_load E Q fname s
        = Some (XY_OK, s\<lparr>mods := (mods s)(m \<mapsto> e\<lparr>refcount := refcount e + 1\<rparr>), xy_err_val := XY_OK\<rparr>))"
proof -
  let ?lk = "module_lookup_from_fname E Q fname (xy_current_region_id s) s"
  obtain path where lk: "lk_err ?lk = XY_OK" "lk_load_path ?lk = Some path"
    using assms(1) by (simp add: module_lookup_from_fname_def module_load_path_def alloc_ok_def Let_def)
  define tx where "tx = (tx_zero (xy_current_region_id s))\<lparr>tx_lookup := ?lk\<rparr>"
  have "\<exists>f tmp. mod_load_open_handle E Q fname (tx_zero (xy_current_region_id s)) s = open_file E f tmp tx s"
    using lk by (cases "if xy_reloading s then e_copy_tmp E path s else None")
      (auto simp: mod_load_open_handle_def tx_def tx_zero_def Let_def)
  then obtain f tmp where o: "mod_load_open_handle E Q fname (tx_zero (xy_current_region_id s)) s = open_file E f tmp tx s"
    by blast
  have lke: "lk_entry (tx_lookup tx) = existing" using assms(4) by (simp add: tx_def)
  have codes: "XY_ERR_NOTFOUND \<noteq> XY_OK" by (simp add: xy_codes)
  show ?thesis
    using o codes lke assms(3,5) wf_libD(1) [OF assms(2)]
    by (auto simp: open_file_def xy_load_def mod_load_def mod_load_try_reuse_existing_def upd_mod_def fail_with_def xy_set_err_def)
qed

section \<open>A load that fails\<close>

text \<open>(C13) When the object exports no \<open>xy_install\<close>, the load fails with XY_ERR_NOTFOUND after the module
  has been stored and linked, and is taken back: keys, module lists, all other entries and
  the caller's region are as before, the new entry is freed, and the library is well formed.
  The counter \<open>xy_mod_count\<close> is not taken back.\<close>

theorem failed_load_rolls_back:
  assumes "qmap_laws Q" and "alloc_ok E" "dl_ok E" "cleanup_ok E" and "wf_lib Q s" and "wf_hooks Q s"
    and "loadable E Q fname h r s" and "e_dlsym E h ''xy_install'' = 0"
  shows "\<exists>s'. xy_load E Q fname s = Some (XY_ERR_NOTFOUND, s') \<and> wf_lib Q s' \<and> key_get Q s' = key_get Q s
    \<and> (\<forall>q. region_mods s' q = region_mods s q)
    \<and> (\<forall>a. map_option mstat (mods s' a) = map_option mstat (mods s a))
    \<and> xy_current_region_id s' = xy_current_region_id s \<and> xy_current_region_entry s' = xy_current_region_entry s
    \<and> xy_errno s' = XY_ERR_NOTFOUND \<and> xy_mod_count s' = xy_mod_count s + 1"
proof -
  let ?rid = "xy_current_region_id s" and ?key = "inst_key E fname (xy_current_region_id s)"
  from assms(7) have cur: "xy_current_region_entry s = Some r" and unused: "key_get Q s ?key = None"
    by (simp_all add: loadable_def opens_def)
  from open_step [OF assms(2) loadable_opens [OF assms(7)]] obtain tx path where tx: "mod_load_open_handle E Q fname (tx_zero ?rid) s = Some (XY_OK, tx, s)"
    "mod_load_try_reuse_existing tx s = Some (False, tx, s)" "lk_key (tx_lookup tx) = Some ?key"
    "lk_load_path (tx_lookup tx) = Some path" "tx_handle tx = Some h" "inherited_region_id tx = ?rid" by blast
  from load_prefix [OF assms(1-3,5-7) tx(3-6)] obtain tx' m t where t: "mod_load_steps E Q fname tx s = mod_load_run_install E tx' t"
    "mods s m = None" "joined Q s ((key_get Q s)(?key \<mapsto> m)) (xy_mod_count s + 1) m r h ?key t" "tx_info h m ?key ?rid tx'"
    "published_entry tx'" "context_active tx'" "prev_region_id tx' = ?rid" "prev_region_entry tx' = Some r" by blast
  have inst: "mod_load_run_install E tx' t = Some (XY_ERR_NOTFOUND, tx', t)"
    using t(4) assms(8) by (simp add: mod_load_run_install_def mod_run_def tx_info_def Let_def)
  from abort_joined [OF assms(1,4) t(3,2) unused _ t(5,6) _ _ assms(5), of XY_ERR_NOTFOUND] t cur obtain u where
    u: "mod_load_abort E Q tx' XY_ERR_NOTFOUND t = Some (XY_ERR_NOTFOUND, u)" "wf_lib Q u" "key_get Q u = key_get Q s"
    "\<And>q. region_mods u q = region_mods s q" "\<And>a. map_option mstat (mods u a) = map_option mstat (mods s a)"
    "xy_current_region_id u = ?rid" "xy_current_region_entry u = Some r" "xy_mod_count u = xy_mod_count s + 1"
    by (auto simp: tx_info_def)
  let ?s' = "xy_set_err XY_ERR_NOTFOUND u"
  have codes: "XY_ERR_NOTFOUND \<noteq> XY_OK" by (simp add: xy_codes)
  have k: "keeps u ?s'" by simp
  have "xy_load E Q fname s = Some (XY_ERR_NOTFOUND, ?s')"
    using tx(1,2) t(1) inst u(1) codes wf_libD(1) [OF assms(5)] by (simp add: xy_load_def mod_load_def fail_with_def)
  moreover have "region_mods ?s' q = region_mods s q" for q
    using keeps_region_mods [OF k wf_libD(2) [OF u(2)]] u(4) by simp
  moreover have "key_get Q ?s' = key_get Q s" using key_get_cong [of ?s' u Q] u(3) by (simp add: xy_set_err_def)
  ultimately show ?thesis
    using keeps_wf_lib [OF k u(2)] u(5-8) cur by (intro exI [of _ ?s']) (simp add: xy_errno_def xy_set_err_def)
qed

definition bare_env :: "demo_q env" where
  "bare_env = demo_env\<lparr>e_dlsym := (\<lambda>h n. if n = ''h'' then 100 else 0)\<rparr>"

theorem failed_load_rolls_back_witness:
  "\<exists>s'. xy_load bare_env alist_qmap ''x'' demo_h = Some (XY_ERR_NOTFOUND, s') \<and> wf_lib alist_qmap s'
    \<and> region_mods s' 1 = [5, 6] \<and> xy_mod_count s' = 1"
proof -
  have E: "alloc_ok bare_env" "dl_ok bare_env"
    by (simp_all add: alloc_ok_def dl_ok_def bare_env_def XY_FN_NOT_FOUND_def XY_FN_RESOLVE_OOM_def)
  have c: "cleanup_ok bare_env" using demo_cleanup_ok by (simp add: cleanup_ok_def bare_env_def)
  have l: "loadable bare_env alist_qmap ''x'' 7 1 demo_h" by (rule demo_loadable) (simp_all add: bare_env_def)
  have i: "e_dlsym bare_env 7 ''xy_install'' = 0" by (simp add: bare_env_def)
  have "region_mods demo_h 1 = [5, 6]" "xy_mod_count demo_h = 0"
    using keeps_region_mods [OF demo_h_keeps demo_wf] demo_region_mods(1) by (simp_all add: demo_h_def demo_def xy_boot_def)
  with failed_load_rolls_back [OF alist_qmap_laws E c demo_h_wf_lib demo_h_hooks l i] show ?thesis by fastforce
qed

end
