(* ===== verification/Xy_Api.thy ===== *)
theory Xy_Api
  imports Xy_Loader Xy_Frame
begin

text \<open>
  The remaining functions of the interface: enumerating the child regions, running a
  function in another region, and the shutdown (src/libxylem.c, src/libxylem-runtime.c).
  The functions the host passes in are parameters.
\<close>

section \<open>Regions\<close>

text \<open>\<open>for (e = parent->children_head; e; e = e->sibling_next)\<close>: the next sibling is read after
  the call, and the loop runs at most once per allocated region.\<close>

primrec each_loop :: "nat \<Rightarrow> (u64 \<Rightarrow> 'q xy_state \<Rightarrow> (int \<times> 'q xy_state) option) \<Rightarrow> rptr option \<Rightarrow> int
    \<Rightarrow> 'q xy_state \<Rightarrow> (int \<times> 'q xy_state) option" where
  "each_loop 0 fn p ret s = (if p = None then Some (ret, s) else None)"
| "each_loop (Suc n) fn p ret s = (case p of None \<Rightarrow> Some (ret, s)
     | Some r \<Rightarrow> do {
         e \<leftarrow> regions s r;
         (ret1, s1) \<leftarrow> fn (re_id e) s;
         if ret1 \<noteq> XY_OK then Some (ret1, s1)
         else do { e1 \<leftarrow> regions s1 r; each_loop n fn (sibling_next e1) ret1 s1 } })"

definition xy_region_each :: "'q env \<Rightarrow> 'q qmap_ops \<Rightarrow> (u64 \<Rightarrow> 'q xy_state \<Rightarrow> (int \<times> 'q xy_state) option)
    \<Rightarrow> 'q xy_state \<Rightarrow> (int \<times> 'q xy_state) option" where
  "xy_region_each E Q fn = ensured E Q (\<lambda>s.
     (case region_lookup Q (xy_current_region_id s) s of
        None \<Rightarrow> Some (fail_with XY_ERR_NOTFOUND s)
      | Some parent \<Rightarrow> do {
          e \<leftarrow> regions s parent;
          (ret, s1) \<leftarrow> each_loop (next_addr s) fn (children_head e) XY_OK s;
          Some (ret, xy_set_err XY_OK s1) }))"

definition xy_current_region :: "'q env \<Rightarrow> 'q qmap_ops \<Rightarrow> 'q xy_state \<Rightarrow> (u64 \<times> 'q xy_state) option" where
  "xy_current_region E Q s = (do {
     (enter_ret, s1) \<leftarrow> xy_runtime_ensure E Q s;
     if enter_ret \<noteq> XY_OK then Some (XY_REGION_INVALID, xy_set_err enter_ret s1)
     else Some (xy_current_region_id s1, s1) })"

definition xy_with_region :: "'q env \<Rightarrow> 'q qmap_ops \<Rightarrow> u64 \<Rightarrow> ('q xy_state \<Rightarrow> (int \<times> 'q xy_state) option) option
    \<Rightarrow> 'q xy_state \<Rightarrow> (int \<times> 'q xy_state) option" where
  "xy_with_region E Q rid fn = ensured E Q (\<lambda>s. (case fn of
       None \<Rightarrow> Some (fail_with XY_ERR_INVALID s)
     | Some f \<Rightarrow>
         (case region_lookup Q rid s of
            None \<Rightarrow> Some (fail_with XY_ERR_NOTFOUND s)
          | Some target \<Rightarrow> do {
              (ret, s1) \<leftarrow> f (set_current_region rid (Some target) s);
              Some (fail_with ret (set_current_region (xy_current_region_id s) (xy_current_region_entry s) s1)) })))"

section \<open>Shutdown\<close>

primrec free_mods :: "'q env \<Rightarrow> (qkey \<times> qval) list \<Rightarrow> 'q xy_state \<Rightarrow> 'q xy_state option" where
  "free_mods E [] s = Some s"
| "free_mods E (kv # kvs) s = (do {
     s1 \<leftarrow> module_free_entry E (qmap_ptr (Some (snd kv))) s;
     free_mods E kvs s1 })"

primrec free_regions :: "(qkey \<times> qval) list \<Rightarrow> 'q xy_state \<Rightarrow> 'q xy_state option" where
  "free_regions [] s = Some s"
| "free_regions (kv # kvs) s = (do {
     s1 \<leftarrow> (case qmap_ptr (Some (snd kv)) of None \<Rightarrow> Some s | Some p \<Rightarrow> region_entry_free p s);
     free_regions kvs s1 })"

definition xy_runtime_teardown :: "'q env \<Rightarrow> 'q qmap_ops \<Rightarrow> 'q xy_state \<Rightarrow> 'q xy_state option" where
  "xy_runtime_teardown E Q s0 = (do {
     let s = s0\<lparr>xy_inited := False\<rparr>;
     s1 \<leftarrow> (case mod_hd s of None \<Rightarrow> Some s
           | Some h \<Rightarrow> do { s1 \<leftarrow> free_mods E (qmap_iter Q h) s; Some (s1\<lparr>mod_hd := None\<rparr>) });
     let s2 = s1\<lparr>mod_by_region_hd := None\<rparr>;
     s3 \<leftarrow> (case region_hd s2 of None \<Rightarrow> Some s2
           | Some h \<Rightarrow> do { s3 \<leftarrow> free_regions (qmap_iter Q h) s2; Some (s3\<lparr>region_hd := None\<rparr>) });
     Some ((path_intern_free_all s3)\<lparr>xy_mod_count := 0, xy_current_region_entry := None,
       xy_current_region_id := XY_REGION_ROOT, xy_last_ran := 0, xy_last_retp := RNull, cur_adapter := None\<rparr>) })"

definition xy_shutdown :: "'q env \<Rightarrow> 'q qmap_ops \<Rightarrow> 'q xy_state \<Rightarrow> 'q xy_state option" where
  "xy_shutdown E Q s = (if \<not> xy_inited s then Some (xy_set_err XY_OK s)
     else do { s1 \<leftarrow> xy_runtime_teardown E Q s; Some (xy_set_err XY_OK s1) })"

end
