(* ===== verification/Xy_Scopes.thy ===== *)
theory Xy_Scopes
  imports Xy_Api Xy_Taken
begin

text \<open>
  The properties of the functions in Xy_Api: the scoped change of the current region, the
  enumeration of the child regions, and the shutdown.
\<close>

section \<open>Running in another region\<close>

text \<open>\<open>xy_with_region\<close> runs the function with the named region as the current one and gives its
  result; afterwards, whatever the function did to the current region, the caller's is back,
  and a library that the function left in order is in order.  An unknown region is refused
  without running the function.\<close>

lemma with_region_restores:
  assumes "wf_lib Q s" and "region_lookup Q rid s = Some p"
    and "f (set_current_region rid (Some p) s) = Some (ret, s1)"
  shows "\<exists>s'. xy_with_region E Q rid (Some f) s = Some (ret, s')
    \<and> s' = s1\<lparr>xy_current_region_id := xy_current_region_id s, xy_current_region_entry := xy_current_region_entry s,
             xy_err_val := ret\<rparr>
    \<and> wf_lib Q (set_current_region rid (Some p) s)
    \<and> (wf_lib Q s1 \<longrightarrow> (\<forall>q. map_option re_id (regions s q) \<noteq> None \<longrightarrow> map_option re_id (regions s1 q) = map_option re_id (regions s q))
         \<longrightarrow> wf_lib Q s')
    \<and> (region_lookup Q rid' s = None \<longrightarrow> xy_with_region E Q rid' (Some f) s
         = Some (XY_ERR_NOTFOUND, s\<lparr>xy_err_val := XY_ERR_NOTFOUND\<rparr>))"
proof -
  note w = wf_libD [OF assms(1)]
  let ?s' = "s1\<lparr>xy_current_region_id := xy_current_region_id s, xy_current_region_entry := xy_current_region_entry s,
             xy_err_val := ret\<rparr>"
  from region_lookup_iff [OF w(3)] assms(2) obtain e where e: "regions s p = Some e" "re_id e = rid" by blast
  have "wf_lib Q (set_current_region rid (Some p) s)"
    by (rule wf_lib_moved [OF assms(1), where i = rid and q = "Some p" and x = "xy_err_val s"])
      (simp_all add: set_current_region_def wf_current_def e)
  moreover have "wf_lib Q ?s'" if l: "wf_lib Q s1"
    and same: "\<forall>q. map_option re_id (regions s q) \<noteq> None \<longrightarrow> map_option re_id (regions s1 q) = map_option re_id (regions s q)"
  proof (rule wf_lib_moved [OF l refl])
    from w(5) obtain q e where q: "xy_current_region_entry s = Some q" "regions s q = Some e"
      "re_id e = xy_current_region_id s" unfolding wf_current_def by blast
    from same [THEN spec, of q] q(2) obtain e' where "regions s1 q = Some e'" "re_id e' = re_id e" by auto
    with q show "wf_current ?s'" by (simp add: wf_current_def)
  qed
  ultimately show ?thesis
    using w(1) assms(2,3) by (intro exI [of _ ?s'])
      (simp add: xy_with_region_def fail_with_def xy_set_err_def set_current_region_def)
qed

section \<open>Enumerating the children\<close>

text \<open>Calling a function on each id of a list, until it fails.\<close>

primrec visit :: "('k \<Rightarrow> 's \<Rightarrow> (int \<times> 's) option) \<Rightarrow> 'k list \<Rightarrow> int \<Rightarrow> 's \<Rightarrow> (int \<times> 's) option" where
  "visit fn [] r s = Some (r, s)"
| "visit fn (k # ks) r s = (case fn k s of None \<Rightarrow> None
     | Some (r1, s1) \<Rightarrow> if r1 \<noteq> XY_OK then Some (r1, s1) else visit fn ks r1 s1)"

definition id_of :: "'q xy_state \<Rightarrow> rptr \<Rightarrow> u64" where
  "id_of s p = (case regions s p of None \<Rightarrow> XY_REGION_INVALID | Some e \<Rightarrow> re_id e)"

lemma each_loop_visit:
  assumes fn: "\<And>rid t r t'. fn rid t = Some (r, t') \<Longrightarrow> keeps t t'"
  shows "linked (region_sibling s) q cs \<Longrightarrow> length cs \<le> n \<Longrightarrow> keeps s t
    \<Longrightarrow> each_loop n fn q r t = visit fn (map (id_of s) cs) r t"
proof (induction cs arbitrary: q n r t)
  case Nil
  then show ?case by (cases n) simp_all
next
  case (Cons c cs)
  then obtain n' where n: "n = Suc n'" "length cs \<le> n'" by (cases n) auto
  from Cons.prems(1) obtain q' where q: "q = Some c" "region_sibling s c = Some q'" "linked (region_sibling s) q' cs" by auto
  have view: "\<exists>e. regions u c = Some e \<and> re_id e = id_of s c \<and> sibling_next e = q'" if "keeps s u" for u
  proof -
    from that have "map_option re_id (regions u c) = map_option re_id (regions s c)" "region_sibling u = region_sibling s"
      using same_shape_links(2) by (auto simp: keeps_def)
    with q(2) show ?thesis by (cases "regions u c") (auto simp: region_sibling_def id_of_def dest!: fun_cong [of _ _ c])
  qed
  from view [OF Cons.prems(3)] obtain e where e: "regions t c = Some e" "re_id e = id_of s c" by blast
  show ?case
  proof (cases "fn (id_of s c) t")
    case None
    with n q(1) e show ?thesis by simp
  next
    case (Some rt)
    obtain r1 t1 where rt: "rt = (r1, t1)" by fastforce
    have k: "keeps s t1" using keeps_trans [OF Cons.prems(3) fn] Some rt by simp
    from view [OF k] obtain e1 where "regions t1 c = Some e1" "sibling_next e1 = q'" by blast
    with Cons.IH [OF q(3) n(2) k, of r1] Some rt n q(1) e show ?thesis by (cases "r1 = XY_OK") simp_all
  qed
qed

text \<open>(C37) \<open>xy_region_each\<close> calls the function on the ids of the current region's immediate children in the
  order of the children list, and stops at the first result that is not XY_OK, which it
  returns; a new child is put at the head of that list, so the most recently claimed region
  comes first.\<close>

theorem region_each_in_list_order:
  assumes "wf_lib Q s" and "xy_current_region_entry s = Some p"
    and "\<And>rid t r t'. fn rid t = Some (r, t') \<Longrightarrow> keeps t t'"
  shows "xy_region_each E Q fn s = map_option (\<lambda>(r, t). (r, t\<lparr>xy_err_val := XY_OK\<rparr>))
      (visit fn (map (id_of s) (region_children s p)) XY_OK s)
    \<and> set (region_children s p) = {c. region_parent s c = Some (Some p)} \<and> distinct (region_children s p)"
proof -
  note w = wf_libD [OF assms(1)]
  note t = wf_tree_parts [OF w(2)]
  from w(5) assms(2) obtain e where e: "regions s p = Some e" "re_id e = xy_current_region_id s"
    by (auto simp: wf_current_def)
  note c = region_children_list [OF t(1,2) e(1)]
  have d: "distinct (region_children s p)" by (rule linked_distinct [OF c(1)])
  have "a < next_addr s" if a: "a \<in> set (region_children s p)" for a
    using a c(3) t(1) unfolding wf_parents_def by (auto simp: region_parent_def)
  then have "set (region_children s p) \<subseteq> {..<next_addr s}" by auto
  then have "length (region_children s p) \<le> next_addr s"
    using card_mono [of "{..<next_addr s}" "set (region_children s p)"] distinct_card [OF d] by simp
  from each_loop_visit [OF assms(3) c(1) this keeps_refl]
  have l: "each_loop (next_addr s) fn (children_head e) XY_OK s = visit fn (map (id_of s) (region_children s p)) XY_OK s" .
  have r: "region_lookup Q (xy_current_region_id s) s = Some p" using region_lookup_iff [OF w(3)] e by blast
  have "xy_region_each E Q fn s = map_option (\<lambda>(r, t). (r, t\<lparr>xy_err_val := XY_OK\<rparr>))
      (visit fn (map (id_of s) (region_children s p)) XY_OK s)"
    using w(1) r e(1) l by (cases "visit fn (map (id_of s) (region_children s p)) XY_OK s")
      (auto simp: xy_region_each_def xy_set_err_def)
  with c(3) d show ?thesis by blast
qed

theorem region_each_in_list_order_witness:
  "\<exists>s'. xy_region_each demo_env alist_qmap (\<lambda>rid s. Some (XY_OK, s\<lparr>xy_last_ran := unat rid + xy_last_ran s\<rparr>)) demo = Some (XY_OK, s')
    \<and> xy_err_val s' = XY_OK"
proof -
  let ?f = "\<lambda>rid s. Some (XY_OK, s\<lparr>xy_last_ran := unat (rid :: u64) + xy_last_ran s\<rparr>)"
  have c: "xy_current_region_entry demo = Some 1" by (simp add: demo_def)
  have k: "keeps t t'" if "?f rid t = Some (r, t')" for rid r and t t' :: "demo_q xy_state" using that by auto
  have v: "\<exists>t. visit ?f ks XY_OK u = Some (XY_OK, t)" for ks and u :: "demo_q xy_state"
    by (induction ks arbitrary: u) auto
  let ?ids = "map (id_of demo) (region_children demo 1)"
  from v [of ?ids demo] obtain t where t: "visit ?f ?ids XY_OK demo = Some (XY_OK, t)" by blast
  have "xy_region_each demo_env alist_qmap ?f demo
      = map_option (\<lambda>(r, t). (r, t\<lparr>xy_err_val := XY_OK\<rparr>)) (visit ?f ?ids XY_OK demo)"
    by (rule region_each_in_list_order [OF demo_wf_lib c, of ?f demo_env, THEN conjunct1]) (erule k)
  with t show ?thesis by simp
qed

end
