(* ===== verification/Xy_Stubs.thy ===== *)
theory Xy_Stubs
  imports Xy_Loads Xy_Scopes Xy_Dispatch Xy_Claim Xy_Api
begin

text \<open>
  The module side of the API, include/ttypt/xy-mod.h: a module calls the host through the
  function pointers of its own \<open>xy_t\<close>, which the host fills in during the load.  The host
  knows the struct from papi.h and the module from xy.h; a pointer that is not set is NULL,
  and calling it has no defined result.
\<close>

section \<open>The two declarations of the struct\<close>

text \<open>The members in the order of \<open>xy_t\<close> in papi.h, by which the host writes, and of \<open>struct xy_ctx\<close> in
  xy.h, by which a module reads.  Every member takes one slot: a pointer or 64 bits.\<close>

definition xy_t_layout :: "ctx_field list" where
  "xy_t_layout = [FCall, FAreg, FLoad, FErr, FStrerror, FAdapter, FLast, FShutdown, FModulePath, FRegionId,
     FDeny, FRequireClaim, FRegionEach, FWithRegion, FCurrentRegion, FUnload, FReload, FRegionState]"

definition xy_ctx_layout :: "ctx_field list" where
  "xy_ctx_layout = [FCall, FAreg, FLoad, FErr, FStrerror, FAdapter, FLast, FShutdown, FModulePath, FRegionId,
     FDeny, FRequireClaim, FRegionEach, FWithRegion, FCurrentRegion, FUnload, FReload, FRegionState]"

datatype ctx_value = VFn "host_fn option" | VAdapter "aptr option" | VPath "string option" | VId u64 | VState "addr option"

text \<open>What the host has put into a member; and what a module finds in a member: the value of whatever
  the host keeps in that slot.\<close>

definition host_field :: "xy_ctx \<Rightarrow> ctx_field \<Rightarrow> ctx_value" where
  "host_field x f = (case f of FAdapter \<Rightarrow> VAdapter (ctx_adapter x) | FModulePath \<Rightarrow> VPath (ctx_module_path x)
     | FRegionId \<Rightarrow> VId (ctx_region_id x) | FRegionState \<Rightarrow> VState (ctx_region_state x) | _ \<Rightarrow> VFn (ctx_api x f))"

definition slot_of :: "ctx_field list \<Rightarrow> ctx_field \<Rightarrow> nat" where
  "slot_of layout f = length (takeWhile (\<lambda>g. g \<noteq> f) layout)"

definition mod_field :: "xy_ctx \<Rightarrow> ctx_field \<Rightarrow> ctx_value option" where
  "mod_field x f = (let i = slot_of xy_ctx_layout f in
     if i < length xy_t_layout then Some (host_field x (xy_t_layout ! i)) else None)"

text \<open>The comment in papi.h asks that the two orders stay the same; then a module finds what the host wrote.\<close>

lemma mod_field_host: "mod_field x f = Some (host_field x f)"
proof -
  have "xy_t_layout ! slot_of xy_ctx_layout f = f \<and> slot_of xy_ctx_layout f < length xy_t_layout"
    by (cases f) (simp_all add: slot_of_def xy_t_layout_def xy_ctx_layout_def)
  then show ?thesis by (simp add: mod_field_def)
qed

section \<open>Calls through the context\<close>

text \<open>A call through member \<open>f\<close> of the context \<open>n\<close> runs the function found there; \<open>run\<close> says what a
  function of the host does when it is called with the type of \<open>f\<close>, which is not defined for
  one of another type.\<close>

definition through :: "cptr \<Rightarrow> ctx_field \<Rightarrow> (host_fn \<Rightarrow> 'q xy_state \<Rightarrow> 'b option) \<Rightarrow> 'q xy_state \<Rightarrow> 'b option" where
  "through n f run s = (do {
     x \<leftarrow> ctxs s n;
     v \<leftarrow> mod_field x f;
     (case v of VFn (Some h) \<Rightarrow> run h s | _ \<Rightarrow> None) })"

text \<open>The types: \<open>xy_load_t\<close>, \<open>xy_unload_t\<close> and \<open>xy_reload_t\<close> are the same, \<open>int (char *)\<close>, and each other
  type has one function.\<close>

definition run_fname :: "'q env \<Rightarrow> 'q qmap_ops \<Rightarrow> string \<Rightarrow> host_fn \<Rightarrow> 'q xy_state \<Rightarrow> (int \<times> 'q xy_state) option" where
  "run_fname E Q f h = (case h of H_xy_load \<Rightarrow> xy_load E Q f | H_xy_unload \<Rightarrow> xy_unload E Q f
     | H_xy_reload \<Rightarrow> xy_reload E Q f | _ \<Rightarrow> (\<lambda>s. None))"

definition run_one :: "host_fn \<Rightarrow> ('q xy_state \<Rightarrow> 'b option) \<Rightarrow> host_fn \<Rightarrow> 'q xy_state \<Rightarrow> 'b option" where
  "run_one g host h s = (if h = g then host s else None)"

definition mod_XY_CALL :: "'q env \<Rightarrow> 'q qmap_ops \<Rightarrow> cptr \<Rightarrow> byte list option \<Rightarrow> aptr \<Rightarrow> addr \<Rightarrow> 'q xy_state
    \<Rightarrow> (int \<times> byte list option \<times> 'q xy_state) option" where
  "mod_XY_CALL E Q n retp adapter args = through n FCall (run_one H_xy_call (xy_call E Q retp (Some adapter) args))"

definition xy_mod_load :: "'q env \<Rightarrow> 'q qmap_ops \<Rightarrow> cptr \<Rightarrow> string \<Rightarrow> 'q xy_state \<Rightarrow> (int \<times> 'q xy_state) option" where
  "xy_mod_load E Q n f = through n FLoad (run_fname E Q f)"

definition xy_mod_deny :: "'q env \<Rightarrow> 'q qmap_ops \<Rightarrow> cptr \<Rightarrow> string \<Rightarrow> xy_deny_type \<Rightarrow> 'q xy_state
    \<Rightarrow> (int \<times> 'q xy_state) option" where
  "xy_mod_deny E Q n w t = through n FDeny (run_one H_xy_deny (xy_deny E Q w t))"

definition xy_mod_require_claim :: "'q env \<Rightarrow> 'q qmap_ops \<Rightarrow> cptr \<Rightarrow> code \<Rightarrow> addr \<Rightarrow> 'q xy_state
    \<Rightarrow> (int \<times> 'q xy_state) option" where
  "xy_mod_require_claim E Q n fn ud = through n FRequireClaim (run_one H_xy_require_claim (xy_require_claim E Q fn ud))"

definition xy_mod_region_each :: "'q env \<Rightarrow> 'q qmap_ops \<Rightarrow> cptr
    \<Rightarrow> (u64 \<Rightarrow> 'q xy_state \<Rightarrow> (int \<times> 'q xy_state) option) \<Rightarrow> 'q xy_state \<Rightarrow> (int \<times> 'q xy_state) option" where
  "xy_mod_region_each E Q n fn = through n FRegionEach (run_one H_xy_region_each (xy_region_each E Q fn))"

definition xy_mod_with_region :: "'q env \<Rightarrow> 'q qmap_ops \<Rightarrow> cptr \<Rightarrow> u64
    \<Rightarrow> ('q xy_state \<Rightarrow> (int \<times> 'q xy_state) option) option \<Rightarrow> 'q xy_state \<Rightarrow> (int \<times> 'q xy_state) option" where
  "xy_mod_with_region E Q n region_id fn = through n FWithRegion (run_one H_xy_with_region (xy_with_region E Q region_id fn))"

definition mod_current_region :: "'q env \<Rightarrow> 'q qmap_ops \<Rightarrow> cptr \<Rightarrow> 'q xy_state \<Rightarrow> (u64 \<times> 'q xy_state) option" where
  "mod_current_region E Q n = through n FCurrentRegion (run_one H_xy_current_region (xy_current_region E Q))"

definition xy_mod_unload :: "'q env \<Rightarrow> 'q qmap_ops \<Rightarrow> cptr \<Rightarrow> string \<Rightarrow> 'q xy_state \<Rightarrow> (int \<times> 'q xy_state) option" where
  "xy_mod_unload E Q n f = through n FUnload (run_fname E Q f)"

definition xy_mod_reload :: "'q env \<Rightarrow> 'q qmap_ops \<Rightarrow> cptr \<Rightarrow> string \<Rightarrow> 'q xy_state \<Rightarrow> (int \<times> 'q xy_state) option" where
  "xy_mod_reload E Q n f = through n FReload (run_fname E Q f)"

definition xy_my_region :: "cptr \<Rightarrow> 'q xy_state \<Rightarrow> u64 option" where
  "xy_my_region n s = (do { x \<leftarrow> ctxs s n; v \<leftarrow> mod_field x FRegionId; (case v of VId i \<Rightarrow> Some i | _ \<Rightarrow> None) })"

text \<open>The members for which xy-mod.h has no stub; a module calls them as \<open>xy.areg()\<close>, \<open>xy.last()\<close>,
  \<open>xy.shutdown()\<close>, \<open>xy.err()\<close> and \<open>xy.strerror()\<close>.\<close>

definition mod_areg :: "'q env \<Rightarrow> 'q qmap_ops \<Rightarrow> cptr \<Rightarrow> string \<Rightarrow> aptr \<Rightarrow> 'q xy_state \<Rightarrow> (int \<times> 'q xy_state) option" where
  "mod_areg E Q n name adapter = through n FAreg (run_one H_xy_areg (xy_areg E Q name adapter))"

definition mod_last :: "'q env \<Rightarrow> 'q qmap_ops \<Rightarrow> cptr \<Rightarrow> byte list option \<Rightarrow> 'q xy_state
    \<Rightarrow> (int \<times> byte list option \<times> 'q xy_state) option" where
  "mod_last E Q n ret = through n FLast (run_one H_xy_last (xy_last E Q ret))"

definition mod_shutdown :: "'q env \<Rightarrow> 'q qmap_ops \<Rightarrow> cptr \<Rightarrow> 'q xy_state \<Rightarrow> 'q xy_state option" where
  "mod_shutdown E Q n = through n FShutdown (run_one H_xy_shutdown (xy_shutdown E Q))"

definition mod_err :: "cptr \<Rightarrow> 'q xy_state \<Rightarrow> int option" where
  "mod_err n = through n FErr (run_one H_xy_errno (\<lambda>s. Some (xy_errno s)))"

definition mod_strerror :: "cptr \<Rightarrow> int \<Rightarrow> 'q xy_state \<Rightarrow> string option" where
  "mod_strerror n err = through n FStrerror (run_one H_xy_strerror (\<lambda>s. Some (xy_strerror err)))"

section \<open>Binding\<close>

lemma bound_ctx:
  assumes "mod_load_bind_xy E tx s = Some (r, tx', s')" and "tx_mod_entry tx = Some m"
    and "mods s m = Some e" "me_ctx e = None" and "mods s' m = Some e'" "me_ctx e' = Some n"
  shows "ctxs s' n = Some (xy_init_ctx (stable_fname tx) (inherited_region_id tx) (case ctxs s n of None \<Rightarrow> ctx_zero | Some x \<Rightarrow> x))"
proof -
  from assms(1) obtain h where h: "tx_handle tx = Some h" by (cases "tx_handle tx") (auto simp: mod_load_bind_xy_def)
  define own where "own = (if e_dlsym E h ''get_xy_ptr'' \<noteq> 0 then e_ctx E (e_dlsym E h ''get_xy_ptr'') else None)"
  define ctx where "ctx = (if own = None then xy_pending_ctx s else own)"
  let ?s1 = "s\<lparr>xy_pending_ctx := None\<rparr>"
  have b: "mod_load_bind_xy E tx s = (case ctx of None \<Rightarrow> Some (XY_OK, tx, ?s1)
      | Some c \<Rightarrow> Some (XY_OK, tx, (run_xy_init c (stable_fname tx) (inherited_region_id tx) ?s1)\<lparr>mods := (mods s)(m \<mapsto> e\<lparr>me_ctx := Some c\<rparr>)\<rparr>))"
    using h assms(2,3) by (cases own; cases "xy_pending_ctx s")
      (simp_all add: mod_load_bind_xy_def own_def [symmetric] ctx_def upd_mod_def run_xy_init_def)
  show ?thesis
  proof (cases ctx)
    case None
    with assms b show ?thesis by auto
  next
    case (Some c)
    with assms(1) b have s': "s' = (run_xy_init c (stable_fname tx) (inherited_region_id tx) ?s1)\<lparr>mods := (mods s)(m \<mapsto> e\<lparr>me_ctx := Some c\<rparr>)\<rparr>"
      by auto
    with assms(5,6) have "n = c" by auto
    then show ?thesis by (simp add: s' run_xy_init_def)
  qed
qed

text \<open>The function pointers after \<open>_xy_init\<close>.\<close>

lemma xy_init_api:
  "ctx_api (xy_init_ctx fname rid x) f = (case f of
      FErr \<Rightarrow> ctx_api x FErr | FStrerror \<Rightarrow> ctx_api x FStrerror | FAdapter \<Rightarrow> ctx_api x FAdapter
    | FModulePath \<Rightarrow> ctx_api x FModulePath | FRegionId \<Rightarrow> ctx_api x FRegionId | FRegionState \<Rightarrow> ctx_api x FRegionState
    | FCall \<Rightarrow> Some H_xy_call | FAreg \<Rightarrow> Some H_xy_areg | FLoad \<Rightarrow> Some H_xy_load | FLast \<Rightarrow> Some H_xy_last
    | FShutdown \<Rightarrow> Some H_xy_shutdown | FDeny \<Rightarrow> Some H_xy_deny | FRequireClaim \<Rightarrow> Some H_xy_require_claim
    | FRegionEach \<Rightarrow> Some H_xy_region_each | FWithRegion \<Rightarrow> Some H_xy_with_region
    | FCurrentRegion \<Rightarrow> Some H_xy_current_region | FUnload \<Rightarrow> Some H_xy_unload | FReload \<Rightarrow> Some H_xy_reload)"
  by (cases f) (simp_all add: xy_init_ctx_def xy_init_fns_def)

lemmas stub_defs = mod_XY_CALL_def xy_mod_load_def xy_mod_deny_def xy_mod_require_claim_def xy_mod_region_each_def
  xy_mod_with_region_def mod_current_region_def xy_mod_unload_def xy_mod_reload_def xy_my_region_def
  mod_areg_def mod_last_def mod_shutdown_def mod_err_def mod_strerror_def

text \<open>(C36) Binding a module's context makes its calls reach the right functions of the host.  \<open>_xy_init\<close>
  writes each function into a member of papi.h's struct, the module follows the pointer in
  the slot of xy.h's struct, and what runs is the host's function of the member's name, for
  every stub of xy-mod.h and for the members without a stub; the module path, the region id
  and the region state are read as the host wrote them.  But a context that starts out
  zeroed, as the one in xy-mod.h does, has NULL in \<open>err\<close> and in \<open>strerror\<close>, and a call of either
  has no defined result.\<close>

theorem bound_stubs_reach_host:
  assumes "mod_load_bind_xy E tx s = Some (r, tx', s')" and "tx_mod_entry tx = Some m"
    and "mods s m = Some e" "me_ctx e = None" and "mods s' m = Some e'" "me_ctx e' = Some n"
    and "ctxs s n = None \<or> ctxs s n = Some ctx_zero"
  shows "mod_XY_CALL E Q n retp adapter args s' = xy_call E Q retp (Some adapter) args s'
    \<and> xy_mod_load E Q n f s' = xy_load E Q f s' \<and> xy_mod_unload E Q n f s' = xy_unload E Q f s'
    \<and> xy_mod_reload E Q n f s' = xy_reload E Q f s' \<and> xy_mod_deny E Q n w t s' = xy_deny E Q w t s'
    \<and> xy_mod_require_claim E Q n fn ud s' = xy_require_claim E Q fn ud s'
    \<and> xy_mod_region_each E Q n each s' = xy_region_each E Q each s'
    \<and> xy_mod_with_region E Q n rid scope s' = xy_with_region E Q rid scope s'
    \<and> mod_current_region E Q n s' = xy_current_region E Q s'
    \<and> mod_areg E Q n name adapter s' = xy_areg E Q name adapter s' \<and> mod_last E Q n ret s' = xy_last E Q ret s'
    \<and> mod_shutdown E Q n s' = xy_shutdown E Q s'
    \<and> (\<exists>x. ctxs s' n = Some x \<and> mod_field x FModulePath = Some (VPath (stable_fname tx))
        \<and> mod_field x FRegionState = Some (VState (XY_RS s' n))
        \<and> mod_field x FErr = Some (VFn None) \<and> mod_field x FStrerror = Some (VFn None))
    \<and> xy_my_region n s' = Some (inherited_region_id tx) \<and> mod_err n s' = None \<and> mod_strerror n code s' = None"
proof -
  let ?x = "xy_init_ctx (stable_fname tx) (inherited_region_id tx) ctx_zero"
  have c: "ctxs s' n = Some ?x" using bound_ctx [OF assms(1-6)] assms(7) by auto
  have data: "ctx_module_path ?x = stable_fname tx" "ctx_region_id ?x = inherited_region_id tx" "XY_RS s' n = ctx_region_state ?x"
    "ctx_api ctx_zero f = None" for f by (simp_all add: xy_init_ctx_def XY_RS_def c ctx_zero_def)
  show ?thesis
    by (simp add: stub_defs through_def c mod_field_host host_field_def xy_init_api data run_one_def run_fname_def)
qed

text \<open>An object with a context of its own at address 15.\<close>

definition ctx_env :: "demo_q env" where
  "ctx_env = demo_env\<lparr>e_dlsym := (\<lambda>h n. if n = ''get_xy_ptr'' \<or> n = ''xy_install'' \<or> n = ''xy_region_state_size'' then 60 else 0),
     e_ctx := (\<lambda>_. Some 15), e_size := (\<lambda>_. 8)\<rparr>"

theorem bound_stubs_reach_host_witness:
  "\<exists>s'. mod_load_bind_xy ctx_env ((tx_zero 0)\<lparr>tx_handle := Some 7, tx_mod_entry := Some 9\<rparr>) demo_h
      = Some (XY_OK, (tx_zero 0)\<lparr>tx_handle := Some 7, tx_mod_entry := Some 9\<rparr>, s')
    \<and> xy_mod_load ctx_env alist_qmap 15 ''x'' s' = xy_load ctx_env alist_qmap ''x'' s' \<and> mod_err 15 s' = None \<and> mod_strerror 15 (- 1) s' = None"
proof -
  let ?tx = "(tx_zero 0)\<lparr>tx_handle := Some 7, tx_mod_entry := Some 9\<rparr>"
  let ?e = "demo_mod None 0 None None None"
  let ?s' = "(run_xy_init 15 None 0 (demo_h\<lparr>xy_pending_ctx := None\<rparr>))\<lparr>mods := (mods demo_h)(9 \<mapsto> ?e\<lparr>me_ctx := Some 15\<rparr>)\<rparr>"
  have b: "mod_load_bind_xy ctx_env ?tx demo_h = Some (XY_OK, ?tx, ?s')"
    by (simp add: mod_load_bind_xy_def ctx_env_def tx_zero_def upd_mod_def run_xy_init_def)
  have m: "tx_mod_entry ?tx = Some 9" "mods demo_h 9 = Some ?e" "me_ctx ?e = None" "mods ?s' 9 = Some (?e\<lparr>me_ctx := Some 15\<rparr>)"
    "me_ctx (?e\<lparr>me_ctx := Some 15\<rparr>) = Some 15" by (simp_all add: demo_mod_def)
  have n: "ctxs demo_h 15 = None \<or> ctxs demo_h 15 = Some ctx_zero" by (simp add: demo_def xy_boot_def)
  from bound_stubs_reach_host [OF b m n] b show ?thesis by blast
qed

section \<open>Region state during the install\<close>

text \<open>(C15) \<open>xy_install\<close> does not see its region state.  Loading a module that asks for a state block
  allocates the block, but the context through which the module reads it (\<open>XY_RS\<close>) still says
  what it said before the load when \<open>xy_install\<close> is called -- NULL for a module that has not
  been called yet, although xy-mod.h promises a valid pointer there.\<close>

theorem install_misses_region_state:
  assumes "qmap_laws Q" and "alloc_ok E" "dl_ok E" and "wf_lib Q s" and "wf_hooks Q s"
    and "loadable E Q fname h r s" and "e_dlsym E h ''xy_install'' \<noteq> 0" and "wants_state E h"
  shows "\<exists>t m x. mods t m = Some x \<and> region_state x \<noteq> None \<and> XY_RS t = XY_RS s
    \<and> mod_load E Q fname s = do {
        u \<leftarrow> e_void E (e_dlsym E h ''xy_install'') (t\<lparr>xy_loading_mod := Some m\<rparr>);
        Some (XY_OK, set_current_region (xy_current_region_id s) (Some r) (u\<lparr>xy_loading_mod := xy_loading_mod t\<rparr>)) }"
proof -
  let ?rid = "xy_current_region_id s" and ?key = "inst_key E fname (xy_current_region_id s)"
  from open_step [OF assms(2) loadable_opens [OF assms(6)]] obtain tx path where tx: "mod_load_open_handle E Q fname (tx_zero ?rid) s = Some (XY_OK, tx, s)"
    "mod_load_try_reuse_existing tx s = Some (False, tx, s)" "lk_key (tx_lookup tx) = Some ?key"
    "lk_load_path (tx_lookup tx) = Some path" "tx_handle tx = Some h" "inherited_region_id tx = ?rid" by blast
  from load_prefix [OF assms(1-6) tx(3-6)] obtain tx' m t where t: "mod_load_steps E Q fname tx s = mod_load_run_install E tx' t"
    "joined Q s ((key_get Q s)(?key \<mapsto> m)) (xy_mod_count s + 1) m r h ?key t" "tx_info h m ?key ?rid tx'"
    "context_active tx'" "prev_region_id tx' = ?rid" "prev_region_entry tx' = Some r"
    "\<exists>x. mods t m = Some x \<and> (wants_state E h \<longrightarrow> region_state x \<noteq> None)" by blast
  from t(2) have rs: "XY_RS t = XY_RS s" unfolding joined_def by blast
  have "mod_load E Q fname s = do {
        u \<leftarrow> e_void E (e_dlsym E h ''xy_install'') (t\<lparr>xy_loading_mod := Some m\<rparr>);
        Some (XY_OK, set_current_region ?rid (Some r) (u\<lparr>xy_loading_mod := xy_loading_mod t\<rparr>)) }"
    using tx(1,2) t(1,3-6) assms(7)
    by (cases "e_void E (e_dlsym E h ''xy_install'') (t\<lparr>xy_loading_mod := Some m\<rparr>)")
      (simp_all add: mod_load_def mod_load_run_install_def mod_run_def tx_info_def mod_load_restore_context_def Let_def)
  with rs t(7) assms(8) show ?thesis by blast
qed

theorem install_misses_region_state_witness:
  "\<exists>t m x. mods t m = Some x \<and> region_state x \<noteq> None \<and> XY_RS t 15 = None
    \<and> mod_load ctx_env alist_qmap ''x'' demo_h
      = Some (XY_OK, set_current_region (xy_current_region_id demo_h) (Some 1) (t\<lparr>xy_loading_mod := xy_loading_mod t\<rparr>))"
proof -
  have E: "alloc_ok ctx_env" "dl_ok ctx_env" using demo_dl_ok by (simp_all add: ctx_env_def alloc_ok_def dl_ok_def XY_FN_NOT_FOUND_def XY_FN_RESOLVE_OOM_def)
  have l: "loadable ctx_env alist_qmap ''x'' 7 1 demo_h" by (rule demo_loadable) (simp_all add: ctx_env_def)
  have i: "e_dlsym ctx_env 7 ''xy_install'' \<noteq> 0" "wants_state ctx_env 7" by (simp_all add: ctx_env_def wants_state_def)
  have "XY_RS demo_h 15 = None" by (simp add: XY_RS_def demo_def xy_boot_def)
  moreover have "e_void ctx_env c u = Some u" for c u by (simp add: ctx_env_def)
  ultimately show ?thesis
    using install_misses_region_state [OF alist_qmap_laws E demo_h_wf_lib demo_h_hooks l i] by fastforce
qed

end
