(* ===== verification/Xy_Watch.thy ===== *)
theory Xy_Watch
  imports Xy_Prelude
begin

text \<open>
  The watcher (src/libxylem-watch.c): a set of at most 256 module paths, one inotify watch
  each, and a thread that reloads a module when its file has been written.  The
  operating system is a parameter: \<open>'k\<close> is its state and \<open>'k watch_os\<close> holds the
  calls.  Every block between \<open>pthread_mutex_lock\<close> and \<open>pthread_mutex_unlock\<close> is one
  definition here; Xy_Watch_Steps interleaves them.  \<open>None\<close> is an access outside the
  used part of the table, which is never reached from a well-formed table.
\<close>

section \<open>State\<close>

record xy_watch_entry =
  we_fname :: string
  we_wd :: int

text \<open>The statics of the file; the length of \<open>g_entries\<close> is \<open>g_entry_count\<close>.\<close>

record 'k watch_state =
  g_ifd :: int
  g_running :: bool
  g_entries :: "xy_watch_entry list"
  g_pipe_r :: int
  g_pipe_w :: int
  w_errno :: int
  kernel :: 'k

record 'k watch_os =
  inotify_init1 :: "'k \<Rightarrow> int \<times> 'k"
  pipe :: "'k \<Rightarrow> (int \<times> int) option \<times> 'k"
  inotify_add_watch :: "int \<Rightarrow> string \<Rightarrow> 'k \<Rightarrow> int \<times> 'k"
  inotify_rm_watch :: "int \<Rightarrow> int \<Rightarrow> 'k \<Rightarrow> 'k"
  close_fd :: "int \<Rightarrow> 'k \<Rightarrow> 'k"
  write_byte :: "int \<Rightarrow> 'k \<Rightarrow> 'k"
  pthread_create :: "'k \<Rightarrow> int \<times> 'k"
  strdup_ok :: "string \<Rightarrow> 'k \<Rightarrow> bool"

definition XY_WATCH_MAX :: nat where "XY_WATCH_MAX = 256"
definition IN_CLOSE_WRITE :: "32 word" where "IN_CLOSE_WRITE = 0x08"
definition IN_MOVED_TO :: "32 word" where "IN_MOVED_TO = 0x80"
definition XY_WATCH_MASK :: "32 word" where "XY_WATCH_MASK = IN_CLOSE_WRITE OR IN_MOVED_TO"
definition ENOMEM :: int where "ENOMEM = 12"

definition watch_boot :: "'k \<Rightarrow> 'k watch_state" where
  "watch_boot k = \<lparr>g_ifd = - 1, g_running = False, g_entries = [], g_pipe_r = - 1, g_pipe_w = - 1,
     w_errno = 0, kernel = k\<rparr>"

section \<open>Helpers\<close>

definition make_so_path :: "string \<Rightarrow> nat \<Rightarrow> string option" where
  "make_so_path fname buf_len = (let n = length (fname @ ''.so'') in
     if n \<ge> buf_len then None else Some (fname @ ''.so''))"

text \<open>\<open>for (i = i0; i < n; i++) if (P(entries[i])) return i; return -1\<close>\<close>

primrec index_from :: "('a \<Rightarrow> bool) \<Rightarrow> int \<Rightarrow> 'a list \<Rightarrow> int" where
  "index_from P i [] = - 1"
| "index_from P i (x # xs) = (if P x then i else index_from P (i + 1) xs)"

definition entry_find :: "string \<Rightarrow> 'k watch_state \<Rightarrow> int" where
  "entry_find fname s = index_from (\<lambda>e. we_fname e = fname) 0 (g_entries s)"

definition entry_find_by_wd :: "int \<Rightarrow> 'k watch_state \<Rightarrow> int" where
  "entry_find_by_wd wd s = index_from (\<lambda>e. we_wd e = wd) 0 (g_entries s)"

definition set_wd :: "int \<Rightarrow> int \<Rightarrow> 'k watch_state \<Rightarrow> 'k watch_state option" where
  "set_wd i wd s = (do {
     e \<leftarrow> nth_opt (g_entries s) i;
     es \<leftarrow> upd_opt (g_entries s) i (e\<lparr>we_wd := wd\<rparr>);
     Some (s\<lparr>g_entries := es\<rparr>) })"

definition entry_rewatch :: "'k watch_os \<Rightarrow> int \<Rightarrow> 'k watch_state \<Rightarrow> 'k watch_state option" where
  "entry_rewatch W i s =
     (if g_ifd s < 0 then Some s
      else do {
        e \<leftarrow> nth_opt (g_entries s) i;
        (case make_so_path (we_fname e) 4096 of
           None \<Rightarrow> Some s
         | Some path \<Rightarrow>
             (let (wd, k) = inotify_add_watch W (g_ifd s) path (kernel s)
              in set_wd i wd (s\<lparr>kernel := k\<rparr>))) })"

text \<open>\<open>for (i = 0; i < g_entry_count; i++) entry_rewatch(i)\<close>\<close>

primrec rewatch_all :: "'k watch_os \<Rightarrow> nat list \<Rightarrow> 'k watch_state \<Rightarrow> 'k watch_state option" where
  "rewatch_all W [] s = Some s"
| "rewatch_all W (i # is) s = (do { s1 \<leftarrow> entry_rewatch W (int i) s; rewatch_all W is s1 })"

section \<open>The public functions\<close>

definition close_all :: "'k watch_os \<Rightarrow> 'k watch_state \<Rightarrow> 'k watch_state" where
  "close_all W s = s\<lparr>kernel := close_fd W (g_pipe_w s) (close_fd W (g_pipe_r s) (close_fd W (g_ifd s) (kernel s))),
     g_ifd := - 1, g_pipe_r := - 1, g_pipe_w := - 1\<rparr>"

definition xy_watch_start :: "'k watch_os \<Rightarrow> 'k watch_state \<Rightarrow> (int \<times> 'k watch_state) option" where
  "xy_watch_start W s =
     (if g_running s then Some (0, s)
      else let (ifd, k1) = inotify_init1 W (kernel s); s1 = s\<lparr>g_ifd := ifd, kernel := k1\<rparr> in
        if ifd < 0 then Some (- 1, s1)
        else case pipe W k1 of
          (None, k2) \<Rightarrow> Some (- 1, s1\<lparr>kernel := close_fd W ifd k2, g_ifd := - 1\<rparr>)
        | (Some (r, w), k2) \<Rightarrow> do {
            s3 \<leftarrow> rewatch_all W [0..<length (g_entries s1)] (s1\<lparr>kernel := k2, g_pipe_r := r, g_pipe_w := w\<rparr>);
            let (ret, k3) = pthread_create W (kernel s3);
            if ret \<noteq> 0 then Some (- 1, (close_all W (s3\<lparr>kernel := k3\<rparr>))\<lparr>w_errno := ret\<rparr>)
            else Some (0, s3\<lparr>kernel := k3, g_running := True\<rparr>) })"

text \<open>\<open>xy_watch_stop\<close> has two critical sections, with the join of the thread between them;
  the first result of the first one says whether to go on.\<close>

definition watch_stop_signal :: "'k watch_os \<Rightarrow> 'k watch_state \<Rightarrow> bool \<times> 'k watch_state" where
  "watch_stop_signal W s = (if \<not> g_running s then (False, s)
     else (True, s\<lparr>kernel := write_byte W (g_pipe_w s) (kernel s), g_running := False\<rparr>))"

definition watch_stop_close :: "'k watch_os \<Rightarrow> 'k watch_state \<Rightarrow> 'k watch_state" where
  "watch_stop_close W s = (close_all W s)\<lparr>g_entries := map (\<lambda>e. e\<lparr>we_wd := - 1\<rparr>) (g_entries s)\<rparr>"

definition xy_watch_add :: "'k watch_os \<Rightarrow> string option \<Rightarrow> 'k watch_state \<Rightarrow> (int \<times> 'k watch_state) option" where
  "xy_watch_add W fname s = (case fname of None \<Rightarrow> Some (- 1, s)
     | Some f \<Rightarrow>
       if entry_find f s \<ge> 0 then Some (0, s)
       else if length (g_entries s) \<ge> XY_WATCH_MAX then Some (- 1, s\<lparr>w_errno := ENOMEM\<rparr>)
       else if \<not> strdup_ok W f (kernel s) then Some (- 1, s)
       else do {
         let idx = length (g_entries s);
         let s1 = s\<lparr>g_entries := g_entries s @ [\<lparr>we_fname = f, we_wd = - 1\<rparr>]\<rparr>;
         s2 \<leftarrow> (if g_ifd s1 \<ge> 0 then entry_rewatch W (int idx) s1 else Some s1);
         Some (0, s2) })"

text \<open>\<open>for (i = idx; i < g_entry_count - 1; i++) g_entries[i] = g_entries[i + 1]\<close>, then the
  count goes down.\<close>

definition compact :: "nat \<Rightarrow> 'a list \<Rightarrow> 'a list" where
  "compact idx es = take (length es - 1) (fold (\<lambda>i es. es[i := es ! (i + 1)]) [idx..<length es - 1] es)"

definition xy_watch_remove :: "'k watch_os \<Rightarrow> string option \<Rightarrow> 'k watch_state \<Rightarrow> 'k watch_state option" where
  "xy_watch_remove W fname s = (case fname of None \<Rightarrow> Some s
     | Some f \<Rightarrow> (let idx = entry_find f s in
       if idx < 0 then Some s
       else do {
         e \<leftarrow> nth_opt (g_entries s) idx;
         let s1 = (if g_ifd s \<ge> 0 \<and> we_wd e \<ge> 0
                   then s\<lparr>kernel := inotify_rm_watch W (g_ifd s) (we_wd e) (kernel s)\<rparr> else s);
         Some (s1\<lparr>g_entries := compact (nat idx) (g_entries s1)\<rparr>) }))"

section \<open>The thread\<close>

text \<open>One event: the first critical section looks the name up, copies it and registers the
  watch again; the result is the copy, if there is something to reload.\<close>

record inotify_event =
  ev_wd :: int
  ev_mask :: "32 word"

definition watcher_lookup :: "'k watch_os \<Rightarrow> inotify_event \<Rightarrow> 'k watch_state
    \<Rightarrow> (string option \<times> 'k watch_state) option" where
  "watcher_lookup W ev s =
     (if ev_mask ev AND XY_WATCH_MASK = 0 then Some (None, s)
      else let idx = entry_find_by_wd (ev_wd ev) s in
        if idx < 0 then Some (None, s)
        else do {
          e \<leftarrow> nth_opt (g_entries s) idx;
          let copy = (if strdup_ok W (we_fname e) (kernel s) then Some (we_fname e) else None);
          s1 \<leftarrow> (if ev_mask ev AND IN_MOVED_TO \<noteq> 0 then entry_rewatch W idx s else Some s);
          Some (copy, s1) })"

text \<open>One turn of the outer loop: what \<open>select\<close> and \<open>read\<close> gave decides whether the thread
  goes on, ends, or handles events.\<close>

datatype wait_result = SelectError bool | SelectReady bool bool "(bool, inotify_event list) sum"
datatype loop_turn = Continue | Break | Events "inotify_event list"

text \<open>\<open>SelectError eintr\<close>; \<open>SelectReady pipe inotify read\<close>, where the read failed (\<open>Inl eintr\<close>)
  or gave events.\<close>

fun watcher_turn :: "wait_result \<Rightarrow> loop_turn" where
  "watcher_turn (SelectError eintr) = (if eintr then Continue else Break)"
| "watcher_turn (SelectReady pipe_set ifd_set rd) =
     (if pipe_set then Break
      else if \<not> ifd_set then Continue
      else case rd of Inl eintr \<Rightarrow> (if eintr then Continue else Break) | Inr evs \<Rightarrow> Events evs)"

end
