(* ===== verification/Xy_Watch_Set.thy ===== *)
theory Xy_Watch_Set
  imports Xy_Watch
begin

text \<open>
  The watch set as a set of names: what each function does to the table, the invariant of
  the table, and the compaction loop.
\<close>

section \<open>Searching and compacting\<close>

abbreviation names :: "'k watch_state \<Rightarrow> string list" where
  "names s \<equiv> map we_fname (g_entries s)"

lemma index_from_eq: "index_from P i xs
    = (if \<exists>x \<in> set xs. P x then i + int (length (takeWhile (\<lambda>x. \<not> P x) xs)) else - 1)"
  by (induction xs arbitrary: i) auto

lemma length_takeWhile_found: "\<exists>x \<in> set xs. P x \<Longrightarrow> length (takeWhile (\<lambda>x. \<not> P x) xs) < length xs"
  by (induction xs) auto

lemma index_from_cases:
  obtains (missing) "\<forall>x \<in> set xs. \<not> P x" "index_from P 0 xs = - 1"
    | (found) k where "k < length xs" "P (xs ! k)" "\<forall>j < k. \<not> P (xs ! j)" "index_from P 0 xs = int k"
proof (cases "\<exists>x \<in> set xs. P x")
  case True
  let ?k = "length (takeWhile (\<lambda>x. \<not> P x) xs)"
  have k: "?k < length xs" by (rule length_takeWhile_found [OF True])
  have "P (xs ! ?k)" using nth_length_takeWhile [OF k] by simp
  moreover have "\<not> P (xs ! j)" if "j < ?k" for j
    using that by (metis nth_mem set_takeWhileD takeWhile_nth)
  ultimately show ?thesis using k True by (intro found) (auto simp: index_from_eq)
next
  case False
  then show ?thesis by (intro missing) (auto simp: index_from_eq)
qed

text \<open>The loop that closes the gap shifts the entries after \<open>idx\<close> down by one.\<close>

lemma shift_loop:
  assumes "m < length es" and "idx \<le> m"
  shows "fold (\<lambda>i es. es[i := es ! (i + 1)]) [idx..<m] es
    = take idx es @ map (\<lambda>i. es ! (i + 1)) [idx..<m] @ drop m es"
  using assms(2,1)
proof (induction m rule: dec_induct)
  case base
  then show ?case by simp
next
  case (step n)
  let ?us = "take idx es @ map (\<lambda>i. es ! (i + 1)) [idx..<n]"
  have len: "length ?us = n" using step by simp
  have l: "take idx es @ map (\<lambda>i. es ! (i + 1)) [idx..<n] @ drop n es = ?us @ es ! n # drop (Suc n) es"
    using step.prems by (simp add: Cons_nth_drop_Suc)
  have "(?us @ es ! n # drop (Suc n) es) ! (n + 1) = es ! (n + 1)"
    using step by (auto simp: nth_append)
  moreover have "(?us @ es ! n # drop (Suc n) es)[n := v] = ?us @ v # drop (Suc n) es" for v
    using list_update_length [of ?us "es ! n" "drop (Suc n) es" v] by (simp only: len)
  moreover have "fold (\<lambda>i es. es[i := es ! (i + 1)]) [idx..<n] es = ?us @ es ! n # drop (Suc n) es"
    using step l by simp
  ultimately show ?case using step by simp
qed

lemma compact_eq:
  assumes "idx < length es"
  shows "compact idx es = take idx es @ drop (Suc idx) es"
proof -
  let ?n = "length es - 1"
  have n: "?n < length es" "idx \<le> ?n" using assms by auto
  have "map (\<lambda>i. es ! (i + 1)) [idx..<?n] = drop (Suc idx) es"
    by (rule nth_equalityI) auto
  then show ?thesis
    using shift_loop [OF n] n by (simp add: compact_def)
qed

section \<open>Registering watches\<close>

text \<open>\<open>rewatched s s'\<close>: only descriptors of watches and the kernel have changed.\<close>

definition rewatched :: "'k watch_state \<Rightarrow> 'k watch_state \<Rightarrow> bool" where
  "rewatched s s' \<longleftrightarrow> (\<exists>es k. s' = s\<lparr>g_entries := es, kernel := k\<rparr> \<and> map we_fname es = names s)"

lemma rewatched_refl [simp]: "rewatched s s"
  unfolding rewatched_def by (rule exI [of _ "g_entries s"], rule exI [of _ "kernel s"]) simp

lemma rewatched_trans:
  assumes "rewatched s t" "rewatched t u"
  shows "rewatched s u"
proof -
  from assms obtain es k es' k' where "t = s\<lparr>g_entries := es, kernel := k\<rparr>" "map we_fname es = names s"
    "u = t\<lparr>g_entries := es', kernel := k'\<rparr>" "map we_fname es' = names t"
    unfolding rewatched_def by blast
  then show ?thesis unfolding rewatched_def by (intro exI [of _ es'] exI [of _ k']) simp
qed

lemma rewatched_sel:
  assumes "rewatched s s'"
  shows "names s' = names s" "g_ifd s' = g_ifd s" "g_running s' = g_running s" "g_pipe_r s' = g_pipe_r s"
    "g_pipe_w s' = g_pipe_w s" "length (g_entries s') = length (g_entries s)"
proof -
  from assms obtain es k where e: "s' = s\<lparr>g_entries := es, kernel := k\<rparr>" "map we_fname es = names s"
    unfolding rewatched_def by blast
  from arg_cong [OF e(2), of length] have "length es = length (g_entries s)" by simp
  with e show "names s' = names s" "g_ifd s' = g_ifd s" "g_running s' = g_running s" "g_pipe_r s' = g_pipe_r s"
    "g_pipe_w s' = g_pipe_w s" "length (g_entries s') = length (g_entries s)" by simp_all
qed

lemma set_wd_ok:
  assumes "i < length (g_entries s)"
  shows "\<exists>s'. set_wd (int i) wd s = Some s' \<and> rewatched s s'
    \<and> g_entries s' = (g_entries s)[i := (g_entries s ! i)\<lparr>we_wd := wd\<rparr>]"
proof -
  let ?es = "(g_entries s)[i := (g_entries s ! i)\<lparr>we_wd := wd\<rparr>]"
  have "map we_fname ?es = names s"
    using assms by (simp add: map_update) (metis list_update_id map_update)
  then have "rewatched s (s\<lparr>g_entries := ?es\<rparr>)"
    unfolding rewatched_def by (intro exI [of _ ?es] exI [of _ "kernel s"]) simp
  then show ?thesis using assms by (simp add: set_wd_def nth_opt_def upd_opt_def)
qed

lemma entry_rewatch_ok:
  assumes "i < length (g_entries s)"
  shows "\<exists>s'. entry_rewatch W (int i) s = Some s' \<and> rewatched s s'
    \<and> (\<forall>j < length (g_entries s). j \<noteq> i \<longrightarrow> g_entries s' ! j = g_entries s ! j)"
proof (cases "g_ifd s < 0 \<or> make_so_path (we_fname (g_entries s ! i)) 4096 = None")
  case True
  then show ?thesis using assms by (auto simp: entry_rewatch_def nth_opt_def)
next
  case False
  then obtain path where p: "make_so_path (we_fname (g_entries s ! i)) 4096 = Some path" "\<not> g_ifd s < 0" by auto
  obtain wd k where k: "inotify_add_watch W (g_ifd s) path (kernel s) = (wd, k)" by fastforce
  have "rewatched s (s\<lparr>kernel := k\<rparr>)"
    unfolding rewatched_def by (intro exI [of _ "g_entries s"] exI [of _ k]) simp
  moreover obtain s' where "set_wd (int i) wd (s\<lparr>kernel := k\<rparr>) = Some s'" "rewatched (s\<lparr>kernel := k\<rparr>) s'"
      "g_entries s' = (g_entries s)[i := (g_entries s ! i)\<lparr>we_wd := wd\<rparr>]"
    using set_wd_ok [of i "s\<lparr>kernel := k\<rparr>" wd] assms by auto
  ultimately show ?thesis
    using p k assms rewatched_trans by (fastforce simp: entry_rewatch_def nth_opt_def)
qed

lemma rewatch_all_ok:
  assumes "\<forall>i \<in> set is. i < length (g_entries s)"
  shows "\<exists>s'. rewatch_all W is s = Some s' \<and> rewatched s s'"
  using assms
proof (induction "is" arbitrary: s)
  case (Cons i "is")
  then obtain s1 where s1: "entry_rewatch W (int i) s = Some s1" "rewatched s s1"
    using entry_rewatch_ok [of i s W] by auto
  from Cons.prems rewatched_sel(6) [OF s1(2)] Cons.IH [of s1] obtain s2 where
    "rewatch_all W is s1 = Some s2" "rewatched s1 s2" by auto
  with s1 show ?case using rewatched_trans by auto
qed auto

section \<open>The set\<close>

text \<open>The table holds each name once and at most \<open>XY_WATCH_MAX\<close> of them.\<close>

definition wf_watch :: "'k watch_state \<Rightarrow> bool" where
  "wf_watch s \<longleftrightarrow> distinct (names s) \<and> length (g_entries s) \<le> XY_WATCH_MAX"

lemma wf_watch_rewatched: "rewatched s s' \<Longrightarrow> wf_watch s' = wf_watch s"
  using rewatched_sel(1,6) [of s s'] by (simp add: wf_watch_def)

lemma wf_watch_cong: "g_entries s' = g_entries s \<Longrightarrow> wf_watch s' = wf_watch s"
  by (simp add: wf_watch_def)

lemma entry_find_iff:
  "entry_find f s \<ge> 0 \<longleftrightarrow> f \<in> set (names s)"
  "entry_find f s < 0 \<longleftrightarrow> f \<notin> set (names s)"
  by (auto simp: entry_find_def index_from_eq)

lemma entry_find_nth:
  assumes "f \<in> set (names s)"
  obtains k where "entry_find f s = int k" "k < length (g_entries s)" "we_fname (g_entries s ! k) = f"
  using assms index_from_cases [of "g_entries s" "\<lambda>e. we_fname e = f"]
  unfolding entry_find_def by (metis (no_types, lifting) in_set_conv_nth length_map nth_map nth_mem)

lemma add_ok:
  assumes wf: "wf_watch s"
  shows "\<exists>r s'. xy_watch_add W (Some f) s = Some (r, s') \<and> wf_watch s'
    \<and> g_ifd s' = g_ifd s \<and> g_running s' = g_running s \<and> g_pipe_r s' = g_pipe_r s \<and> g_pipe_w s' = g_pipe_w s
    \<and> (\<forall>j < length (g_entries s). g_entries s' ! j = g_entries s ! j)
    \<and> (r = 0 \<and> names s' = (if f \<in> set (names s) then names s else names s @ [f])
       \<or> r = - 1 \<and> names s' = names s \<and> f \<notin> set (names s)
          \<and> (length (names s) = XY_WATCH_MAX \<and> w_errno s' = ENOMEM \<or> \<not> strdup_ok W f (kernel s)))"
proof -
  consider "f \<in> set (names s)" | "f \<notin> set (names s)" "length (g_entries s) \<ge> XY_WATCH_MAX"
    | "f \<notin> set (names s)" "length (g_entries s) < XY_WATCH_MAX" "\<not> strdup_ok W f (kernel s)"
    | (new) "f \<notin> set (names s)" "length (g_entries s) < XY_WATCH_MAX" "strdup_ok W f (kernel s)"
    by fastforce
  then show ?thesis
  proof cases
    case new
    let ?e = "\<lparr>we_fname = f, we_wd = - 1\<rparr>"
    let ?s1 = "s\<lparr>g_entries := g_entries s @ [?e]\<rparr>" and ?idx = "length (g_entries s)"
    have "\<exists>s2. (if g_ifd ?s1 \<ge> 0 then entry_rewatch W (int ?idx) ?s1 else Some ?s1) = Some s2 \<and> rewatched ?s1 s2
        \<and> (\<forall>j < ?idx. g_entries s2 ! j = g_entries s ! j)"
      using entry_rewatch_ok [of ?idx ?s1 W] by (auto simp: nth_append)
    then obtain s2 where s2: "(if g_ifd ?s1 \<ge> 0 then entry_rewatch W (int ?idx) ?s1 else Some ?s1) = Some s2"
      "rewatched ?s1 s2" "\<forall>j < ?idx. g_entries s2 ! j = g_entries s ! j" by blast
    have "wf_watch ?s1" using wf new by (auto simp: wf_watch_def)
    then have "wf_watch s2" using wf_watch_rewatched [OF s2(2)] by simp
    moreover have "xy_watch_add W (Some f) s = Some (0, s2)"
      using new s2(1) by (simp add: xy_watch_add_def entry_find_iff Let_def)
    ultimately show ?thesis using rewatched_sel [OF s2(2)] s2(3) new by auto
  qed (use wf in \<open>auto simp: xy_watch_add_def entry_find_iff wf_watch_def\<close>)
qed

lemma drop_named:
  assumes "distinct (map f xs)" and "k < length xs"
  shows "take k xs @ drop (Suc k) xs = filter (\<lambda>x. f x \<noteq> f (xs ! k)) xs"
proof -
  note xs = id_take_nth_drop [OF assms(2), symmetric]
  have "distinct (map f (take k xs @ xs ! k # drop (Suc k) xs))" by (simp only: xs assms(1))
  then have "\<forall>x \<in> set (take k xs @ drop (Suc k) xs). f x \<noteq> f (xs ! k)"
    by (auto simp: image_iff)
  then have "filter (\<lambda>x. f x \<noteq> f (xs ! k)) (take k xs @ xs ! k # drop (Suc k) xs) = take k xs @ drop (Suc k) xs"
    by (auto simp: filter_id_conv)
  then show ?thesis by (simp only: xs)
qed

lemma remove_ok:
  assumes wf: "wf_watch s"
  shows "\<exists>s'. xy_watch_remove W (Some f) s = Some s' \<and> wf_watch s'
    \<and> g_entries s' = filter (\<lambda>e. we_fname e \<noteq> f) (g_entries s)
    \<and> g_ifd s' = g_ifd s \<and> g_running s' = g_running s \<and> g_pipe_r s' = g_pipe_r s \<and> g_pipe_w s' = g_pipe_w s"
proof (cases "f \<in> set (names s)")
  case True
  from entry_find_nth [OF this] obtain k where k: "entry_find f s = int k" "k < length (g_entries s)"
    "we_fname (g_entries s ! k) = f" .
  have c: "compact k (g_entries s) = filter (\<lambda>e. we_fname e \<noteq> f) (g_entries s)"
    using compact_eq [OF k(2)] drop_named [of we_fname "g_entries s" k] wf k by (simp add: wf_watch_def)
  have "wf_watch (t\<lparr>g_entries := filter (\<lambda>e. we_fname e \<noteq> f) (g_entries s)\<rparr>)" for t :: "'a watch_state"
    using wf le_trans [OF length_filter_le] by (auto simp: wf_watch_def distinct_map_filter)
  then show ?thesis using k c by (auto simp: xy_watch_remove_def nth_opt_def Let_def)
next
  case False
  then have "filter (\<lambda>e. we_fname e \<noteq> f) (g_entries s) = g_entries s" by (auto simp: filter_id_conv)
  with False wf show ?thesis by (simp add: xy_watch_remove_def entry_find_iff)
qed

section \<open>The contract of the table\<close>

text \<open>What the clients of the watch set rely on: a table of entries with names, where an add appends a
  new name or reports a failure, and a remove takes out exactly the entries of a name.\<close>

locale name_table =
  fixes ok :: "'s \<Rightarrow> bool" and entries :: "'s \<Rightarrow> 'e list" and name :: "'e \<Rightarrow> 'n"
    and add :: "'n \<Rightarrow> 's \<Rightarrow> (int \<times> 's) option" and remove :: "'n \<Rightarrow> 's \<Rightarrow> 's option"
  assumes add_law: "ok s \<Longrightarrow> \<exists>r s'. add f s = Some (r, s') \<and> ok s'
      \<and> (\<forall>j < length (entries s). entries s' ! j = entries s ! j)
      \<and> map name (entries s') = map name (entries s) @ (if r = 0 \<and> f \<notin> set (map name (entries s)) then [f] else [])"
    and remove_law: "ok s \<Longrightarrow> \<exists>s'. remove f s = Some s' \<and> ok s' \<and> entries s' = filter (\<lambda>e. name e \<noteq> f) (entries s)"
begin

lemma total: "ok s \<Longrightarrow> add f s \<noteq> None" "ok s \<Longrightarrow> remove f s \<noteq> None"
  using add_law remove_law by (metis option.distinct(1))+

lemma add_keeps:
  assumes "ok s" and "add f s = Some (r, s1)"
  shows "ok s1" and "take (length (entries s)) (entries s1) = entries s"
    and "map name (entries s1) = map name (entries s) @ (if r = 0 \<and> f \<notin> set (map name (entries s)) then [f] else [])"
proof -
  from add_law [OF assms(1), of f] assms(2) have a: "ok s1" "\<forall>j < length (entries s). entries s1 ! j = entries s ! j"
    "map name (entries s1) = map name (entries s) @ (if r = 0 \<and> f \<notin> set (map name (entries s)) then [f] else [])" by auto
  from arg_cong [OF a(3), of length] have "length (entries s) \<le> length (entries s1)" by simp
  with a(2) show "take (length (entries s)) (entries s1) = entries s" by (intro nth_equalityI) auto
  from a show "ok s1" "map name (entries s1) = map name (entries s) @ (if r = 0 \<and> f \<notin> set (map name (entries s)) then [f] else [])"
    by blast+
qed

text \<open>A successful add of a new name appends one entry, and a remove takes it back.\<close>

lemma add_new:
  assumes "ok s" and "f \<notin> set (map name (entries s))" and "add f s = Some (0, s1)"
  obtains e where "entries s1 = entries s @ [e]" "name e = f"
proof -
  note k = add_keeps [OF assms(1,3)]
  let ?rest = "drop (length (entries s)) (entries s1)"
  have es: "entries s1 = entries s @ ?rest" using append_take_drop_id [of "length (entries s)" "entries s1"] k(2) by simp
  have "map name (entries s1) = map name (entries s) @ map name ?rest"
    using arg_cong [OF es, of "map name"] by (simp only: map_append)
  with k(3) assms(2) have "map name ?rest = [f]" by simp
  then obtain e where "?rest = [e]" "name e = f" by (cases ?rest) auto
  with es that show ?thesis by metis
qed

lemma add_remove:
  assumes "ok s" and "f \<notin> set (map name (entries s))" and "add f s = Some (0, s1)"
  shows "\<exists>s2. remove f s1 = Some s2 \<and> ok s2 \<and> entries s2 = entries s"
proof -
  from add_new [OF assms] obtain e where e: "entries s1 = entries s @ [e]" "name e = f" .
  have "filter (\<lambda>e. name e \<noteq> f) (entries s) = entries s" using assms(2) by (auto simp: filter_id_conv)
  with e remove_law [OF add_keeps(1) [OF assms(1,3)], of f] show ?thesis by auto
qed

lemma remove_twice:
  assumes "ok s" and "remove f s = Some s1"
  shows "\<exists>s2. remove f s1 = Some s2 \<and> entries s2 = entries s1 \<and> f \<notin> set (map name (entries s1))"
proof -
  from remove_law [OF assms(1), of f] assms(2) have a: "ok s1" "entries s1 = filter (\<lambda>e. name e \<noteq> f) (entries s)" by auto
  from remove_law [OF a(1), of f] a(2) show ?thesis by auto
qed

end

interpretation watch_set: name_table wf_watch g_entries we_fname "\<lambda>f. xy_watch_add W (Some f)" "\<lambda>f. xy_watch_remove W (Some f)"
  for W :: "'k watch_os"
proof unfold_locales
  fix s :: "'k watch_state" and f
  assume wf: "wf_watch s"
  from add_ok [OF this, of W f] obtain r s' where a: "xy_watch_add W (Some f) s = Some (r, s')" "wf_watch s'"
    "\<forall>j < length (g_entries s). g_entries s' ! j = g_entries s ! j"
    "r = 0 \<and> names s' = (if f \<in> set (names s) then names s else names s @ [f]) \<or> r = - 1 \<and> names s' = names s" by blast
  have "names s' = names s @ (if r = 0 \<and> f \<notin> set (names s) then [f] else [])" using a(4) by (cases "f \<in> set (names s)") auto
  with a(1-3) show "\<exists>r s'. xy_watch_add W (Some f) s = Some (r, s') \<and> wf_watch s'
      \<and> (\<forall>j < length (g_entries s). g_entries s' ! j = g_entries s ! j)
      \<and> names s' = names s @ (if r = 0 \<and> f \<notin> set (names s) then [f] else [])" by blast
  from remove_ok [OF wf, of W f] show "\<exists>s'. xy_watch_remove W (Some f) s = Some s' \<and> wf_watch s'
      \<and> g_entries s' = filter (\<lambda>e. we_fname e \<noteq> f) (g_entries s)" by blast
qed

section \<open>The lookup of the watcher\<close>

lemma lookup_ok:
  assumes "wf_watch s"
  shows "\<exists>c s'. watcher_lookup W ev s = Some (c, s') \<and> rewatched s s'
    \<and> (\<forall>f. c = Some f \<longrightarrow> (\<exists>e \<in> set (g_entries s). we_fname e = f \<and> we_wd e = ev_wd ev)
         \<and> ev_mask ev AND XY_WATCH_MASK \<noteq> 0)"
proof (cases "ev_mask ev AND XY_WATCH_MASK = 0")
  case False
  show ?thesis
  proof (cases rule: index_from_cases [of "g_entries s" "\<lambda>e. we_wd e = ev_wd ev"])
    case missing
    then show ?thesis using False by (simp add: watcher_lookup_def entry_find_by_wd_def)
  next
    case (found k)
    obtain s1 where s1: "entry_rewatch W (int k) s = Some s1" "rewatched s s1"
      using entry_rewatch_ok [OF found(1), of W] by auto
    show ?thesis
      using found False s1
      by (cases "ev_mask ev AND IN_MOVED_TO = 0")
        (auto simp: watcher_lookup_def entry_find_by_wd_def nth_opt_def Let_def intro!: bexI [of _ "g_entries s ! k"])
  qed
qed (simp add: watcher_lookup_def)

end
