(* ===== verification/Xy_Watch_Fds.thy ===== *)
theory Xy_Watch_Fds
  imports Xy_Watch_Set
begin

text \<open>
  The descriptors of the watcher: which calls open and close them, and what
  \<open>xy_watch_start\<close> and the second half of \<open>xy_watch_stop\<close> leave open.
\<close>

section \<open>Open descriptors\<close>

text \<open>\<open>fds k\<close> are the descriptors that are open in the kernel state \<open>k\<close>.  The documented behaviour:
  \<open>inotify_init1\<close> returns a descriptor that was not open, or -1, \<open>pipe\<close> makes two of them or none,
  \<open>close\<close> closes its argument, and the other calls open and close nothing.\<close>

definition fd_laws :: "'k watch_os \<Rightarrow> ('k \<Rightarrow> int set) \<Rightarrow> bool" where
  "fd_laws W fds \<longleftrightarrow>
     (\<forall>k fd k'. inotify_init1 W k = (fd, k') \<longrightarrow>
        (if fd < 0 then fd = - 1 \<and> fds k' = fds k else fd \<notin> fds k \<and> fds k' = insert fd (fds k)))
   \<and> (\<forall>k k'. pipe W k = (None, k') \<longrightarrow> fds k' = fds k)
   \<and> (\<forall>k r w k'. pipe W k = (Some (r, w), k') \<longrightarrow>
        0 \<le> r \<and> 0 \<le> w \<and> r \<noteq> w \<and> r \<notin> fds k \<and> w \<notin> fds k \<and> fds k' = {r, w} \<union> fds k)
   \<and> (\<forall>fd k. fds (close_fd W fd k) = fds k - {fd})
   \<and> (\<forall>fd f k wd k'. inotify_add_watch W fd f k = (wd, k') \<longrightarrow> fds k' = fds k)
   \<and> (\<forall>fd wd k. fds (inotify_rm_watch W fd wd k) = fds k)
   \<and> (\<forall>fd k. fds (write_byte W fd k) = fds k)
   \<and> (\<forall>k ret k'. pthread_create W k = (ret, k') \<longrightarrow> fds k' = fds k)"

lemma fd_lawsD:
  assumes "fd_laws W fds"
  shows "inotify_init1 W k = (fd, k') \<Longrightarrow> fd < 0 \<Longrightarrow> fd = - 1 \<and> fds k' = fds k"
    "inotify_init1 W k = (fd, k') \<Longrightarrow> \<not> fd < 0 \<Longrightarrow> fd \<notin> fds k \<and> fds k' = insert fd (fds k)"
    "pipe W k = (None, k') \<Longrightarrow> fds k' = fds k"
    "pipe W k = (Some (r, w), k') \<Longrightarrow>
       0 \<le> r \<and> 0 \<le> w \<and> r \<noteq> w \<and> r \<notin> fds k \<and> w \<notin> fds k \<and> fds k' = {r, w} \<union> fds k"
    "fds (close_fd W fd k) = fds k - {fd}"
    "inotify_add_watch W fd f k = (wd, k') \<Longrightarrow> fds k' = fds k"
    "fds (inotify_rm_watch W fd wd k) = fds k"
    "fds (write_byte W fd k) = fds k"
    "pthread_create W k = (ret, k') \<Longrightarrow> fds k' = fds k"
  using assms unfolding fd_laws_def by metis+

text \<open>The watcher's three descriptors are open, beside those of \<open>base\<close>; or closed and forgotten.\<close>

definition fds_opened :: "('k \<Rightarrow> int set) \<Rightarrow> int set \<Rightarrow> 'k watch_state \<Rightarrow> bool" where
  "fds_opened fds base s \<longleftrightarrow> 0 \<le> g_ifd s \<and> 0 \<le> g_pipe_r s \<and> 0 \<le> g_pipe_w s
     \<and> distinct [g_ifd s, g_pipe_r s, g_pipe_w s] \<and> {g_ifd s, g_pipe_r s, g_pipe_w s} \<inter> base = {}
     \<and> fds (kernel s) = {g_ifd s, g_pipe_r s, g_pipe_w s} \<union> base"

definition fds_closed :: "('k \<Rightarrow> int set) \<Rightarrow> int set \<Rightarrow> 'k watch_state \<Rightarrow> bool" where
  "fds_closed fds base s \<longleftrightarrow> g_ifd s = - 1 \<and> g_pipe_r s = - 1 \<and> g_pipe_w s = - 1 \<and> fds (kernel s) = base"

text \<open>\<open>fds_same fds s s'\<close>: the same descriptors are open and remembered.\<close>

definition fds_same :: "('k \<Rightarrow> int set) \<Rightarrow> 'k watch_state \<Rightarrow> 'k watch_state \<Rightarrow> bool" where
  "fds_same fds s s' \<longleftrightarrow> fds (kernel s') = fds (kernel s) \<and> g_ifd s' = g_ifd s \<and> g_pipe_r s' = g_pipe_r s
     \<and> g_pipe_w s' = g_pipe_w s \<and> g_running s' = g_running s"

lemma fds_same_refl [simp]: "fds_same fds s s"
  by (simp add: fds_same_def)

lemma fds_same_trans: "fds_same fds s t \<Longrightarrow> fds_same fds t u \<Longrightarrow> fds_same fds s u"
  by (simp add: fds_same_def)

lemma fds_same_cong:
  assumes "fds_same fds s s'"
  shows "fds_opened fds base s' = fds_opened fds base s" "fds_closed fds base s' = fds_closed fds base s"
    "g_running s' = g_running s"
  using assms by (simp_all add: fds_same_def fds_opened_def fds_closed_def)

section \<open>The operations\<close>

lemma set_wd_frame: "set_wd i wd s = Some s' \<Longrightarrow> \<exists>es. s' = s\<lparr>g_entries := es\<rparr>"
  by (auto simp: set_wd_def bind_eq_Some_conv)

lemma entry_rewatch_fds:
  assumes L: "fd_laws W fds" and r: "entry_rewatch W i s = Some s'"
  shows "fds_same fds s s'"
proof (cases "g_ifd s < 0")
  case False
  with r obtain e where e: "nth_opt (g_entries s) i = Some e"
    "(case make_so_path (we_fname e) 4096 of None \<Rightarrow> Some s
      | Some path \<Rightarrow> (let (wd, k) = inotify_add_watch W (g_ifd s) path (kernel s) in set_wd i wd (s\<lparr>kernel := k\<rparr>))) = Some s'"
    by (auto simp: entry_rewatch_def bind_eq_Some_conv)
  show ?thesis
  proof (cases "make_so_path (we_fname e) 4096")
    case (Some path)
    obtain wd k where k: "inotify_add_watch W (g_ifd s) path (kernel s) = (wd, k)" by fastforce
    with e Some have "set_wd i wd (s\<lparr>kernel := k\<rparr>) = Some s'" by simp
    from set_wd_frame [OF this] obtain es where "s' = s\<lparr>kernel := k, g_entries := es\<rparr>" by blast
    then show ?thesis by (simp add: fds_same_def fd_lawsD(6) [OF L k])
  qed (use e in simp)
qed (use r in \<open>simp add: entry_rewatch_def\<close>)

lemma rewatch_all_fds:
  assumes L: "fd_laws W fds"
  shows "rewatch_all W is s = Some s' \<Longrightarrow> fds_same fds s s'"
proof (induction "is" arbitrary: s)
  case (Cons i "is")
  then obtain t where "entry_rewatch W (int i) s = Some t" "rewatch_all W is t = Some s'" by (auto simp: bind_eq_Some_conv)
  with Cons.IH entry_rewatch_fds [OF L] show ?case by (blast intro: fds_same_trans)
qed simp

lemma add_fds:
  assumes L: "fd_laws W fds" and a: "xy_watch_add W f s = Some (r, s')"
  shows "fds_same fds s s'"
proof (cases "f = None \<or> entry_find (the f) s \<ge> 0 \<or> length (g_entries s) \<ge> XY_WATCH_MAX \<or> \<not> strdup_ok W (the f) (kernel s)")
  case True
  show ?thesis
  proof (cases f)
    case (Some g)
    with a True show ?thesis by (simp add: xy_watch_add_def fds_same_def split: if_splits) auto
  qed (use a in \<open>simp add: xy_watch_add_def fds_same_def\<close>)
next
  case False
  then obtain g where f: "f = Some g" by auto
  let ?s1 = "s\<lparr>g_entries := g_entries s @ [\<lparr>we_fname = g, we_wd = - 1\<rparr>]\<rparr>" and ?i = "int (length (g_entries s))"
  have "(if g_ifd ?s1 \<ge> 0 then entry_rewatch W ?i ?s1 else Some ?s1) = Some s'"
    using a False by (simp add: f xy_watch_add_def Let_def bind_eq_Some_conv)
  then have "fds_same fds ?s1 s'" using entry_rewatch_fds [OF L] by (auto split: if_splits)
  then show ?thesis by (simp add: fds_same_def)
qed

lemma remove_fds:
  assumes L: "fd_laws W fds" and r: "xy_watch_remove W f s = Some s'"
  shows "fds_same fds s s'"
  using r by (auto simp: xy_watch_remove_def fds_same_def Let_def bind_eq_Some_conv fd_lawsD(7) [OF L] split: option.splits if_splits)

lemma lookup_fds:
  assumes L: "fd_laws W fds" and l: "watcher_lookup W ev s = Some (c, s')"
  shows "fds_same fds s s'"
  using l entry_rewatch_fds [OF L] by (auto simp: watcher_lookup_def Let_def bind_eq_Some_conv split: if_splits)

lemma close_all_fds:
  assumes L: "fd_laws W fds" and "fds_opened fds base s"
  shows "fds_closed fds base (close_all W s)"
  using assms(2) by (auto simp: fds_opened_def fds_closed_def close_all_def fd_lawsD(5) [OF L])

lemma stop_close_fds:
  assumes L: "fd_laws W fds" and "fds_opened fds base s"
  shows "fds_closed fds base (watch_stop_close W s)" and "g_running (watch_stop_close W s) = g_running s"
  using close_all_fds [OF assms] by (simp_all add: fds_closed_def watch_stop_close_def close_all_def)

text \<open>A start of a watcher that is not running either opens three new descriptors or none.\<close>

lemma start_fds:
  assumes L: "fd_laws W fds" and r: "xy_watch_start W s = Some (r, s')" and nr: "\<not> g_running s"
  shows "r = 0 \<and> g_running s' \<and> fds_opened fds (fds (kernel s)) s'
    \<or> r = - 1 \<and> \<not> g_running s' \<and> g_ifd s' = - 1 \<and> fds (kernel s') = fds (kernel s)
      \<and> (g_pipe_r s' = - 1 \<and> g_pipe_w s' = - 1 \<or> g_pipe_r s' = g_pipe_r s \<and> g_pipe_w s' = g_pipe_w s)"
proof -
  obtain ifd k1 where i: "inotify_init1 W (kernel s) = (ifd, k1)" by fastforce
  obtain p k2 where p: "pipe W k1 = (p, k2)" by fastforce
  note L1 = fd_lawsD(1,2) [OF L i] and L5 = fd_lawsD(5) [OF L]
  let ?s1 = "s\<lparr>g_ifd := ifd, kernel := k1\<rparr>"
  show ?thesis
  proof (cases "ifd < 0 \<or> p = None")
    case True
    show ?thesis
    proof (cases "ifd < 0")
      case True
      with r nr i have "r = - 1" "s' = ?s1" by (simp_all add: xy_watch_start_def)
      with L1(1) True nr show ?thesis by simp
    next
      case ok: False
      with \<open>ifd < 0 \<or> p = None\<close> have none: "p = None" by simp
      have "xy_watch_start W s = Some (- 1, ?s1\<lparr>kernel := close_fd W ifd k2, g_ifd := - 1\<rparr>)"
        by (simp add: xy_watch_start_def nr i p none ok)
      then have "r = - 1" "s' = ?s1\<lparr>kernel := close_fd W ifd k2, g_ifd := - 1\<rparr>"
        using r by (metis option.inject Pair_inject)+
      with L1(2) [OF ok] fd_lawsD(3) [OF L, of k1 k2] p none nr show ?thesis by (simp add: L5)
    qed
  next
    case False
    then obtain pr pw where pp: "p = Some (pr, pw)" and ifd: "\<not> ifd < 0" by auto
    let ?s2 = "?s1\<lparr>kernel := k2, g_pipe_r := pr, g_pipe_w := pw\<rparr>"
    let ?go = "\<lambda>s3. let (ret, k3) = pthread_create W (kernel s3) in
        if ret \<noteq> 0 then Some (- 1, (close_all W (s3\<lparr>kernel := k3\<rparr>))\<lparr>w_errno := ret\<rparr>)
        else Some (0, s3\<lparr>kernel := k3, g_running := True\<rparr>)"
    have "xy_watch_start W s = rewatch_all W [0..<length (g_entries ?s1)] ?s2 \<bind> ?go"
      by (simp add: xy_watch_start_def nr i p pp ifd)
    with r have "rewatch_all W [0..<length (g_entries ?s1)] ?s2 \<bind> ?go = Some (r, s')" by (simp only:)
    then obtain s3 where s3: "rewatch_all W [0..<length (g_entries ?s1)] ?s2 = Some s3" "?go s3 = Some (r, s')"
      unfolding bind_eq_Some_conv by blast
    obtain ret k3 where c: "pthread_create W (kernel s3) = (ret, k3)" by fastforce
    from s3(2) c have e: "(if ret \<noteq> 0 then (- 1, (close_all W (s3\<lparr>kernel := k3\<rparr>))\<lparr>w_errno := ret\<rparr>)
        else (0, s3\<lparr>kernel := k3, g_running := True\<rparr>)) = (r, s')" by (simp split: if_splits)
    note same = rewatch_all_fds [OF L s3(1)] and L4 = fd_lawsD(4) [OF L p [unfolded pp]]
    have "fds_opened fds (fds (kernel s)) ?s2" using ifd L1 L4 by (auto simp: fds_opened_def)
    with same fd_lawsD(9) [OF L c] have o3: "fds_opened fds (fds (kernel s)) (s3\<lparr>kernel := k3\<rparr>)"
      by (simp add: fds_same_def fds_opened_def)
    show ?thesis
    proof (cases "ret = 0")
      case True
      with e have "r = 0" and s': "s' = s3\<lparr>kernel := k3, g_running := True\<rparr>" by auto
      moreover have "fds_opened fds (fds (kernel s)) s'" using o3 unfolding s' fds_opened_def by simp
      ultimately show ?thesis by simp
    next
      case fail: False
      have "\<not> g_running s3" using fds_same_cong(3) [OF same] nr by simp
      moreover from e fail have "r = - 1" and s': "s' = (close_all W (s3\<lparr>kernel := k3\<rparr>))\<lparr>w_errno := ret\<rparr>" by auto
      moreover have "g_running s' = g_running s3" unfolding s' by (simp add: close_all_def)
      moreover have "fds_closed fds (fds (kernel s)) s'"
        using close_all_fds [OF L o3] unfolding s' fds_closed_def by simp
      ultimately show ?thesis by (simp add: fds_closed_def)
    qed
  qed
qed

section \<open>A table of descriptors\<close>

text \<open>For the examples: the kernel state says for each number whether it is an open descriptor; a
  new descriptor is put behind the table, and nothing fails.\<close>

definition table_fds :: "bool list \<Rightarrow> int set" where
  "table_fds k = int ` {i. i < length k \<and> k ! i}"

definition fd_os :: "bool list watch_os" where
  "fd_os = \<lparr>inotify_init1 = (\<lambda>k. (int (length k), k @ [True])),
     pipe = (\<lambda>k. (Some (int (length k), int (length k) + 1), k @ [True, True])),
     inotify_add_watch = (\<lambda>_ p k. (int (of_char (hd p)), k)), inotify_rm_watch = (\<lambda>_ _ k. k),
     close_fd = (\<lambda>fd k. if fd < 0 then k else k[nat fd := False]),
     write_byte = (\<lambda>_ k. k), pthread_create = (\<lambda>k. (0, k)), strdup_ok = (\<lambda>_ _. True)\<rparr>"

lemma table_fds_append: "table_fds (k @ [True]) = insert (int (length k)) (table_fds k)"
  by (auto simp: table_fds_def nth_append image_iff less_Suc_eq)

lemma table_fds_bound: "fd \<in> table_fds k \<Longrightarrow> 0 \<le> fd \<and> fd < int (length k)"
  by (auto simp: table_fds_def)

lemma fd_os_laws: "fd_laws fd_os table_fds"
proof -
  have two: "table_fds (k @ [True, True]) = {int (length k), int (length k) + 1} \<union> table_fds k" for k
    using table_fds_append [of k] table_fds_append [of "k @ [True]"] by auto
  have close: "table_fds (if fd < 0 then k else k[nat fd := False]) = table_fds k - {fd}" for fd k
  proof (cases "fd < 0")
    case True
    with table_fds_bound [of fd k] show ?thesis by auto
  next
    case False
    then obtain n where n: "fd = int n" by (metis nonneg_int_cases not_less)
    have "{i. i < length k \<and> k[n := False] ! i} = {i. i < length k \<and> k ! i} - {n}"
      by (auto simp: nth_list_update split: if_splits) (metis nth_list_update_eq nth_list_update_neq)
    then have "table_fds (k[n := False]) = int ` ({i. i < length k \<and> k ! i} - {n})" by (simp add: table_fds_def)
    also have "\<dots> = table_fds k - {fd}" by (simp only: image_set_diff [OF inj_of_nat] image_insert image_empty table_fds_def n)
    finally show ?thesis by (simp add: n)
  qed
  have new: "int (length k) \<notin> table_fds k" "int (length k) + 1 \<notin> table_fds k" for k
    by (rule notI, drule table_fds_bound, simp)+
  have sel: "inotify_init1 fd_os k = (int (length k), k @ [True])"
    "pipe fd_os k = (Some (int (length k), int (length k) + 1), k @ [True, True])"
    "close_fd fd_os fd k = (if fd < 0 then k else k[nat fd := False])"
    "inotify_add_watch fd_os fd p k = (int (of_char (hd p)), k)" "inotify_rm_watch fd_os fd wd k = k"
    "write_byte fd_os fd k = k" "pthread_create fd_os k = (0, k)" for fd wd k p by (simp_all add: fd_os_def)
  show ?thesis
    unfolding fd_laws_def sel close
  proof (intro conjI)
    show "\<forall>k fd k'. (int (length k), k @ [True]) = (fd, k') \<longrightarrow>
        (if fd < 0 then fd = - 1 \<and> table_fds k' = table_fds k else fd \<notin> table_fds k \<and> table_fds k' = insert fd (table_fds k))"
      using new(1) by (auto simp: table_fds_append)
    show "\<forall>k r w k'. (Some (int (length k), int (length k) + 1), k @ [True, True]) = (Some (r, w), k') \<longrightarrow>
        0 \<le> r \<and> 0 \<le> w \<and> r \<noteq> w \<and> r \<notin> table_fds k \<and> w \<notin> table_fds k \<and> table_fds k' = {r, w} \<union> table_fds k"
      using new by (auto simp: two)
  qed simp_all
qed

end
