(* ===== verification/Xy_Watch_Steps.thy ===== *)
theory Xy_Watch_Steps
  imports Xy_Watch_Fds
begin

text \<open>
  The watcher as a transition system.  A step is one critical section, of a client that
  calls the public functions or of the watcher thread; steps of different threads
  interleave freely.  \<open>xy_watch_stop\<close> is three steps (signal, join, close), so that a
  configuration counts the clients between them.  The invariants are proved by induction
  on the runs.
\<close>

section \<open>Configurations and steps\<close>

text \<open>A thread has ended, is in its loop, or is between its two critical sections with a copy
  of the name to reload.  Every successful start creates a new thread; \<open>g_thread\<close> is the
  one created last, and an older one may still be alive.\<close>

datatype wthread = Ended | Looping | Copied string

record 'k wsys =
  ws :: "'k watch_state"
  wthread :: "nat \<Rightarrow> wthread"
  n_threads :: nat
  g_thread :: nat
  signalled :: nat  \<comment> \<open>clients that wait for the thread in \<open>xy_watch_stop\<close>\<close>
  joined :: nat  \<comment> \<open>clients that are about to close the descriptors\<close>
  reloads :: "string list"  \<comment> \<open>the arguments of the calls of \<open>xy_reload\<close> so far\<close>

definition wsys_boot :: "'k \<Rightarrow> 'k wsys" where
  "wsys_boot k = \<lparr>ws = watch_boot k, wthread = (\<lambda>_. Ended), n_threads = 0, g_thread = 0, signalled = 0, joined = 0, reloads = []\<rparr>"

text \<open>With \<open>serial\<close>, no client calls \<open>xy_watch_start\<close> while another one is in \<open>xy_watch_stop\<close>.\<close>

inductive wstep :: "'k watch_os \<Rightarrow> bool \<Rightarrow> 'k wsys \<Rightarrow> 'k wsys \<Rightarrow> bool" for W serial where
  start: "serial \<longrightarrow> signalled c + joined c = 0 \<Longrightarrow> xy_watch_start W (ws c) = Some (r, s) \<Longrightarrow>
    wstep W serial c (if g_running s \<and> \<not> g_running (ws c)
      then c\<lparr>ws := s, wthread := (wthread c)(n_threads c := Looping), g_thread := n_threads c, n_threads := n_threads c + 1\<rparr>
      else c\<lparr>ws := s\<rparr>)"
| add: "xy_watch_add W f (ws c) = Some (r, s) \<Longrightarrow> wstep W serial c (c\<lparr>ws := s\<rparr>)"
| remove: "xy_watch_remove W f (ws c) = Some s \<Longrightarrow> wstep W serial c (c\<lparr>ws := s\<rparr>)"
| stop_signal: "watch_stop_signal W (ws c) = (True, s) \<Longrightarrow>
    wstep W serial c (c\<lparr>ws := s, signalled := signalled c + 1\<rparr>)"
| stop_join: "wthread c (g_thread c) = Ended \<Longrightarrow> signalled c = Suc n \<Longrightarrow>
    wstep W serial c (c\<lparr>signalled := n, joined := joined c + 1\<rparr>)"
| stop_close: "joined c = Suc n \<Longrightarrow>
    wstep W serial c (c\<lparr>ws := watch_stop_close W (ws c), joined := n\<rparr>)"
| turn: "wthread c t = Looping \<Longrightarrow> watcher_turn w = Break \<Longrightarrow> wstep W serial c (c\<lparr>wthread := (wthread c)(t := Ended)\<rparr>)"
| event: "wthread c t = Looping \<Longrightarrow> watcher_turn w = Events evs \<Longrightarrow> ev \<in> set evs \<Longrightarrow>
    watcher_lookup W ev (ws c) = Some (copy, s) \<Longrightarrow>
    wstep W serial c (c\<lparr>ws := s, wthread := (wthread c)(t := (case copy of None \<Rightarrow> Looping | Some f \<Rightarrow> Copied f))\<rparr>)"
| reload: "wthread c t = Copied f \<Longrightarrow> wstep W serial c (c\<lparr>wthread := (wthread c)(t := Looping), reloads := reloads c @ [f]\<rparr>)"

inductive_cases wstepE: "wstep W serial c c'"

inductive wreach :: "'k watch_os \<Rightarrow> bool \<Rightarrow> 'k \<Rightarrow> 'k wsys \<Rightarrow> bool" for W serial k where
  boot: "wreach W serial k (wsys_boot k)"
| step: "wreach W serial k c \<Longrightarrow> wstep W serial c c' \<Longrightarrow> wreach W serial k c'"

section \<open>The table in every run\<close>

lemma start_ok:
  assumes wf: "wf_watch s"
  shows "\<exists>r s'. xy_watch_start W s = Some (r, s') \<and> names s' = names s \<and> wf_watch s'
    \<and> (g_running s \<and> r = 0 \<and> s' = s
       \<or> \<not> g_running s \<and> r = - 1 \<and> \<not> g_running s' \<and> g_ifd s' < 0
       \<or> \<not> g_running s \<and> r = 0 \<and> g_running s' \<and> 0 \<le> g_ifd s')"
proof (cases "g_running s")
  case False
  obtain ifd k1 where ifd: "inotify_init1 W (kernel s) = (ifd, k1)" by fastforce
  let ?s1 = "s\<lparr>g_ifd := ifd, kernel := k1\<rparr>"
  obtain p k2 where p: "pipe W k1 = (p, k2)" by fastforce
  show ?thesis
  proof (cases "ifd < 0 \<or> p = None")
    case True
    then show ?thesis
      using False ifd p wf by (auto simp: xy_watch_start_def Let_def wf_watch_def)
  next
    case ok: False
    then obtain r w where rw: "p = Some (r, w)" by auto
    let ?s2 = "?s1\<lparr>kernel := k2, g_pipe_r := r, g_pipe_w := w\<rparr>"
    obtain s3 where s3: "rewatch_all W [0..<length (g_entries ?s1)] ?s2 = Some s3" "rewatched ?s2 s3"
      using rewatch_all_ok [of "[0..<length (g_entries ?s1)]" ?s2 W] by auto
    obtain ret k3 where ret: "pthread_create W (kernel s3) = (ret, k3)" by fastforce
    have w3: "wf_watch s3" using wf_watch_rewatched [OF s3(2)] wf by (simp add: wf_watch_def)
    note sel = rewatched_sel [OF s3(2)]
    show ?thesis
      using ok ifd p rw s3(1) ret sel w3 False
      by (auto simp: xy_watch_start_def Let_def close_all_def wf_watch_def)
  qed
qed (use wf in \<open>simp add: xy_watch_start_def\<close>)

lemma stop_close_names: "names (watch_stop_close W s) = names s"
  by (simp add: watch_stop_close_def close_all_def)

lemma wstep_wf:
  assumes "wstep W serial c c'" and "wf_watch (ws c)"
  shows "wf_watch (ws c')"
  using assms
proof cases
  case (start r s)
  then show ?thesis using start_ok [OF assms(2), of W] by auto
next
  case (add f r s)
  show ?thesis
  proof (cases f)
    case (Some g)
    then show ?thesis using add add_ok [OF assms(2), of W g] by auto
  qed (use add assms(2) in \<open>auto simp: xy_watch_add_def\<close>)
next
  case (remove f s)
  show ?thesis
  proof (cases f)
    case (Some g)
    then show ?thesis using remove remove_ok [OF assms(2), of W g] by auto
  qed (use remove assms(2) in \<open>auto simp: xy_watch_remove_def\<close>)
next
  case (stop_signal s)
  then show ?thesis using assms(2) by (auto simp: watch_stop_signal_def wf_watch_def split: if_splits)
next
  case (stop_close n)
  then show ?thesis using assms(2) by (simp add: wf_watch_def watch_stop_close_def close_all_def comp_def)
next
  case (event t w evs ev copy s)
  then show ?thesis using lookup_ok [OF assms(2), of W ev] wf_watch_rewatched assms(2) by auto
qed (use assms(2) in auto)

lemma wreach_wf: "wreach W serial k c \<Longrightarrow> wf_watch (ws c)"
proof (induction rule: wreach.induct)
  case boot
  show ?case by (simp add: wsys_boot_def watch_boot_def wf_watch_def)
qed (rule wstep_wf)

section \<open>Descriptors\<close>

text \<open>When start and stop are not called at the same time: the three descriptors are open while the
  watcher is running or a client is inside \<open>xy_watch_stop\<close>, and otherwise closed and
  forgotten; \<open>base\<close> are the descriptors that were open before.\<close>

definition wf_descriptors :: "('k \<Rightarrow> int set) \<Rightarrow> int set \<Rightarrow> 'k wsys \<Rightarrow> bool" where
  "wf_descriptors fds base c \<longleftrightarrow>
     (if g_running (ws c) \<or> 0 < signalled c + joined c then fds_opened fds base (ws c) else fds_closed fds base (ws c))
     \<and> (g_running (ws c) \<longrightarrow> signalled c + joined c = 0) \<and> signalled c + joined c \<le> 1"

lemma wf_descriptors_same:
  assumes "wf_descriptors fds base c" and "fds_same fds (ws c) s"
  shows "wf_descriptors fds base (c\<lparr>ws := s\<rparr>)" "wf_descriptors fds base (c\<lparr>ws := s, wthread := t\<rparr>)"
  using assms by (simp_all add: wf_descriptors_def fds_same_cong)

lemma stop_signal_fds:
  assumes L: "fd_laws W fds" and "watch_stop_signal W s = (True, s')"
  shows "g_running s" "\<not> g_running s'" "fds (kernel s') = fds (kernel s)" "fds_opened fds base s' = fds_opened fds base s"
    "g_entries s' = g_entries s"
  using assms(2) by (auto simp: watch_stop_signal_def fds_opened_def fd_lawsD(8) [OF L] split: if_splits)

lemma wstep_descriptors:
  assumes L: "fd_laws W fds" and step: "wstep W serial c c'" and serial and d: "wf_descriptors fds base c"
  shows "wf_descriptors fds base c'"
  using step
proof cases
  case (start r s)
  show ?thesis
  proof (cases "g_running (ws c)")
    case True
    with start have "s = ws c" by (simp add: xy_watch_start_def)
    with start True d show ?thesis by simp
  next
    case False
    from start \<open>serial\<close> have "signalled c + joined c = 0" by simp
    with d False have cl: "fds_closed fds base (ws c)" by (simp add: wf_descriptors_def)
    from start_fds [OF L start(3) False] cl have "g_running s \<and> fds_opened fds base s \<or> \<not> g_running s \<and> fds_closed fds base s"
      by (auto simp: fds_closed_def)
    with start False \<open>signalled c + joined c = 0\<close> show ?thesis by (auto simp: wf_descriptors_def)
  qed
next
  case (add f r s)
  with wf_descriptors_same(1) [OF d add_fds [OF L]] show ?thesis by simp
next
  case (remove f s)
  with wf_descriptors_same(1) [OF d remove_fds [OF L]] show ?thesis by simp
next
  case (stop_signal s)
  note g = stop_signal_fds [OF L stop_signal(2)]
  from d g(1) have "signalled c + joined c = 0" "fds_opened fds base (ws c)" by (simp_all add: wf_descriptors_def)
  with stop_signal(1) g show ?thesis by (simp add: wf_descriptors_def)
next
  case (stop_join n)
  with d show ?thesis by (simp add: wf_descriptors_def)
next
  case (stop_close n)
  with d have "\<not> g_running (ws c)" "signalled c + n = 0" "fds_opened fds base (ws c)" by (auto simp: wf_descriptors_def)
  with stop_close(1) stop_close_fds [OF L, of base "ws c"] show ?thesis by (simp add: wf_descriptors_def)
next
  case (event t w evs ev copy s)
  with wf_descriptors_same(2) [OF d lookup_fds [OF L]] show ?thesis by simp
qed (use d in \<open>simp_all add: wf_descriptors_def\<close>)

lemma wreach_descriptors:
  assumes L: "fd_laws W fds" and "wreach W True k c"
  shows "wf_descriptors fds (fds k) c"
  using assms(2)
proof (induction rule: wreach.induct)
  case boot
  show ?case by (simp add: wf_descriptors_def fds_closed_def wsys_boot_def watch_boot_def)
next
  case (step c c')
  show ?case by (rule wstep_descriptors [OF L step.hyps(2) TrueI step.IH])
qed

text \<open>A thread that is alive can end: it finishes the reload it is at, and finds the byte in the pipe.\<close>

lemma thread_ends: "\<exists>c'. (wstep W serial)\<^sup>*\<^sup>* c c' \<and> wthread c' t = Ended \<and> ws c' = ws c \<and> g_thread c' = g_thread c
    \<and> n_threads c' = n_threads c \<and> signalled c' = signalled c \<and> joined c' = joined c"
proof -
  have loop: "\<exists>c'. wstep W serial c c' \<and> wthread c' t = Ended \<and> ws c' = ws c \<and> g_thread c' = g_thread c
    \<and> n_threads c' = n_threads c \<and> signalled c' = signalled c \<and> joined c' = joined c" if "wthread c t = Looping" for c
    using wstep.turn [of c t "SelectReady True False (Inl False)" W serial] that by (intro exI) auto
  show ?thesis
  proof (cases "wthread c t")
    case Looping
    from loop [OF this] show ?thesis by blast
  next
    case (Copied f)
    let ?c = "c\<lparr>wthread := (wthread c)(t := Looping), reloads := reloads c @ [f]\<rparr>"
    from wstep.reload [of c t f W serial] Copied have "wstep W serial c ?c" by simp
    with loop [of ?c] show ?thesis by (auto intro: converse_rtranclp_into_rtranclp)
  qed blast
qed

lemma wreach_steps: "(wstep W serial)\<^sup>*\<^sup>* c c' \<Longrightarrow> wreach W serial k c \<Longrightarrow> wreach W serial k c'"
  by (induction rule: rtranclp_induct) (auto intro: wreach.step)

section \<open>Theorems\<close>

text \<open>An operating system for the examples: its state is the next free descriptor, a watch on a
  path has the number of the path's first character, and nothing fails.\<close>

definition demo_os :: "nat watch_os" where
  "demo_os = \<lparr>inotify_init1 = (\<lambda>k. (int k, k + 1)), pipe = (\<lambda>k. (Some (int k, int k + 1), k + 2)),
     inotify_add_watch = (\<lambda>_ p k. (int (of_char (hd p)), k)), inotify_rm_watch = (\<lambda>_ _ k. k), close_fd = (\<lambda>_ k. k),
     write_byte = (\<lambda>_ k. k), pthread_create = (\<lambda>k. (0, k)), strdup_ok = (\<lambda>_ _. True)\<rparr>"

lemma demo_os_sel [simp]:
  "inotify_init1 demo_os k = (int k, k + 1)" "pipe demo_os k = (Some (int k, int k + 1), k + 2)"
  "inotify_add_watch demo_os fd p k = (int (of_char (hd p)), k)" "inotify_rm_watch demo_os fd wd k = k"
  "close_fd demo_os fd k = k" "write_byte demo_os fd k = k" "pthread_create demo_os k = (0, k)"
  "strdup_ok demo_os f k = True"
  by (simp_all add: demo_os_def)

definition demo_watch :: "nat watch_state" where
  "demo_watch = (watch_boot 3)\<lparr>g_entries := [\<lparr>we_fname = ''a'', we_wd = - 1\<rparr>, \<lparr>we_fname = ''b'', we_wd = - 1\<rparr>]\<rparr>"

lemma demo_watch_wf: "wf_watch demo_watch"
  by (simp add: wf_watch_def demo_watch_def XY_WATCH_MAX_def)

text \<open>(C33) Removing a path that has just been added gives the table back as it was, watches
  included.\<close>

theorem watch_add_remove_roundtrip:
  assumes "wf_watch s" and "f \<notin> set (names s)" and "xy_watch_add W (Some f) s = Some (0, s1)"
  shows "\<exists>s2. xy_watch_remove W (Some f) s1 = Some s2 \<and> g_entries s2 = g_entries s"
  using watch_set.add_remove [OF assms] by blast

theorem watch_add_remove_roundtrip_witness:
  "\<exists>s1 s2. xy_watch_add demo_os (Some ''c'') demo_watch = Some (0, s1)
    \<and> xy_watch_remove demo_os (Some ''c'') s1 = Some s2 \<and> g_entries s2 = g_entries demo_watch"
proof -
  have n: "''c'' \<notin> set (names demo_watch)" by (simp add: demo_watch_def)
  obtain s1 where a: "xy_watch_add demo_os (Some ''c'') demo_watch = Some (0, s1)"
    by (simp add: xy_watch_add_def entry_find_def demo_watch_def watch_boot_def XY_WATCH_MAX_def)
  from watch_add_remove_roundtrip [OF demo_watch_wf n a] a show ?thesis by blast
qed

text \<open>(C32) However the calls of several clients and the thread's critical sections interleave, the
  table is well formed in every reachable configuration, and every operation is defined
  there: none reads or writes outside the table.\<close>

theorem watch_runs_keep_table:
  assumes "wreach W serial k c"
  shows "wf_watch (ws c) \<and> xy_watch_start W (ws c) \<noteq> None \<and> xy_watch_add W f (ws c) \<noteq> None
    \<and> xy_watch_remove W f (ws c) \<noteq> None \<and> watcher_lookup W ev (ws c) \<noteq> None"
proof -
  note wf = wreach_wf [OF assms]
  have "xy_watch_add W f (ws c) \<noteq> None"
    by (cases f) (use watch_set.total(1) [OF wf] in \<open>simp_all add: xy_watch_add_def\<close>)
  moreover have "xy_watch_remove W f (ws c) \<noteq> None"
    by (cases f) (use watch_set.total(2) [OF wf] in \<open>simp_all add: xy_watch_remove_def\<close>)
  ultimately show ?thesis using wf start_ok [OF wf, of W] lookup_ok [OF wf, of W ev] by auto
qed

text \<open>Runs of the example system.\<close>

definition demo_started :: "nat wsys" where
  "demo_started = (wsys_boot 6)\<lparr>ws := (watch_boot 6)\<lparr>g_ifd := 3, g_pipe_r := 4, g_pipe_w := 5, g_running := True\<rparr>,
     wthread := (\<lambda>_. Ended)(0 := Looping), n_threads := 1\<rparr>"

lemma demo_started_sel [simp]:
  "signalled demo_started = 0" "joined demo_started = 0" "wthread demo_started = (\<lambda>_. Ended)(0 := Looping)"
  "n_threads demo_started = 1" "g_thread demo_started = 0" "reloads demo_started = []"
  by (simp_all add: demo_started_def wsys_boot_def)

lemma demo_start_boot: "xy_watch_start demo_os (watch_boot 3) = Some (0, ws demo_started)"
  by (simp add: xy_watch_start_def demo_started_def watch_boot_def Let_def)

lemma demo_reach_started: "wreach demo_os serial 3 demo_started"
proof -
  have "wstep demo_os serial (wsys_boot 3) ((wsys_boot 3)\<lparr>ws := ws demo_started,
      wthread := (\<lambda>_. Ended)(0 := Looping), n_threads := 1\<rparr>)"
    using wstep.start [of serial "wsys_boot 3" demo_os 0 "ws demo_started"] demo_start_boot
    by (simp add: wsys_boot_def demo_started_def watch_boot_def)
  moreover have "(wsys_boot 3)\<lparr>ws := ws demo_started, wthread := (\<lambda>_. Ended)(0 := Looping), n_threads := 1\<rparr> = demo_started"
    by (simp add: demo_started_def wsys_boot_def)
  ultimately show ?thesis using wreach.boot wreach.step by metis
qed

theorem watch_runs_keep_table_witness:
  "wf_watch (ws demo_started) \<and> xy_watch_remove demo_os (Some ''a'') (ws demo_started) \<noteq> None"
  using watch_runs_keep_table [OF demo_reach_started [of True], of "Some ''a''"] by blast

text \<open>A running watcher on the table of descriptors, with 0, 1 and 2 open before.\<close>

definition fd_started :: "bool list wsys" where
  "fd_started = (wsys_boot [True, True, True])\<lparr>ws := (watch_boot (replicate 6 True))\<lparr>g_ifd := 3, g_pipe_r := 4, g_pipe_w := 5, g_running := True\<rparr>,
     wthread := (\<lambda>_. Ended)(0 := Looping), n_threads := 1\<rparr>"

lemma fd_reach_started: "wreach fd_os serial [True, True, True] fd_started"
proof -
  have "xy_watch_start fd_os (ws (wsys_boot [True, True, True])) = Some (0, ws fd_started)"
    by (simp add: xy_watch_start_def fd_started_def watch_boot_def wsys_boot_def fd_os_def Let_def numeral_eq_Suc)
  from wreach.step [OF wreach.boot wstep.start [OF _ this]]
  show ?thesis by (simp add: wsys_boot_def fd_started_def watch_boot_def)
qed

text \<open>(C31) When start and stop are not called at the same time, the descriptors are handled
  correctly in every run.  While the watcher is marked as running, and until a client that
  stops it has closed them, its three descriptors are open, different, and the only ones
  that are open beside those from before; at all other times all three are closed and set
  to -1, so that a later start leaks nothing.  At most one client is inside
  \<open>xy_watch_stop\<close>.\<close>

theorem serial_runs_keep_descriptors:
  assumes "fd_laws W fds" and "wreach W True k c"
  shows "(if g_running (ws c) \<or> 0 < signalled c + joined c
      then 0 \<le> g_ifd (ws c) \<and> 0 \<le> g_pipe_r (ws c) \<and> 0 \<le> g_pipe_w (ws c)
        \<and> distinct [g_ifd (ws c), g_pipe_r (ws c), g_pipe_w (ws c)]
        \<and> {g_ifd (ws c), g_pipe_r (ws c), g_pipe_w (ws c)} \<inter> fds k = {}
        \<and> fds (kernel (ws c)) = {g_ifd (ws c), g_pipe_r (ws c), g_pipe_w (ws c)} \<union> fds k
      else g_ifd (ws c) = - 1 \<and> g_pipe_r (ws c) = - 1 \<and> g_pipe_w (ws c) = - 1 \<and> fds (kernel (ws c)) = fds k)
    \<and> (g_running (ws c) \<longrightarrow> signalled c + joined c = 0) \<and> signalled c + joined c \<le> 1"
  using wreach_descriptors [OF assms] unfolding wf_descriptors_def fds_opened_def fds_closed_def .

theorem serial_runs_keep_descriptors_witness:
  "g_running (ws fd_started) \<and> distinct [g_ifd (ws fd_started), g_pipe_r (ws fd_started), g_pipe_w (ws fd_started)]
    \<and> table_fds (kernel (ws fd_started)) = {g_ifd (ws fd_started), g_pipe_r (ws fd_started), g_pipe_w (ws fd_started)}
        \<union> table_fds [True, True, True]"
proof -
  have "g_running (ws fd_started)" by (simp add: fd_started_def)
  with serial_runs_keep_descriptors [OF fd_os_laws fd_reach_started] show ?thesis by simp
qed

text \<open>(C34) Without that restriction the descriptors are lost.  From any reachable configuration with a running
  watcher a client can go through the first half of \<open>xy_watch_stop\<close>, another client's
  \<open>xy_watch_start\<close> come next, and then the second half of the stop.  Whenever that start
  succeeds, the stop closes the three descriptors of the new watcher, which stays marked as
  running with all three at -1 and no watch registered.  What was open before the stop, the
  old watcher's descriptors included, stays open although no variable holds it any more,
  and every later \<open>xy_watch_start\<close> returns 0 and does nothing.\<close>

theorem stop_start_race:
  assumes "fd_laws W fds" and "wreach W False k c"
    and "watch_stop_signal W (ws c) = (True, s1)" and "xy_watch_start W s1 = Some (0, s2)"
  shows "\<exists>c1 c2 c3 c4. wreach W False k c4
    \<and> wstep W False c c1 \<and> signalled c1 = signalled c + 1 \<and> ws c1 = s1
    \<and> (wstep W False)\<^sup>*\<^sup>* c1 c2 \<and> ws c2 = s1
    \<and> wstep W False c2 c3 \<and> ws c3 = s2 \<and> n_threads c3 = n_threads c2 + 1
    \<and> wstep W False c3 c4 \<and> ws c4 = watch_stop_close W s2 \<and> signalled c4 + joined c4 = signalled c + joined c
    \<and> g_running (ws c4) \<and> g_ifd (ws c4) = - 1 \<and> g_pipe_r (ws c4) = - 1 \<and> g_pipe_w (ws c4) = - 1
    \<and> (\<forall>e \<in> set (g_entries (ws c4)). we_wd e = - 1)
    \<and> {g_ifd s2, g_pipe_r s2, g_pipe_w s2} \<inter> fds (kernel (ws c4)) = {} \<and> fds (kernel (ws c4)) = fds (kernel (ws c))
    \<and> xy_watch_start W (ws c4) = Some (0, ws c4)"
proof -
  note L = assms(1) and g = stop_signal_fds [OF assms(1,3)]
  let ?c1 = "c\<lparr>ws := s1, signalled := signalled c + 1\<rparr>"
  obtain d where d: "(wstep W False)\<^sup>*\<^sup>* ?c1 d" "wthread d (g_thread ?c1) = Ended" "ws d = s1" "g_thread d = g_thread ?c1"
    "signalled d = signalled c + 1" "joined d = joined c"
    using thread_ends [of W False ?c1 "g_thread ?c1"] by auto
  let ?c2 = "d\<lparr>signalled := signalled c, joined := joined c + 1\<rparr>"
  let ?c3 = "?c2\<lparr>ws := s2, wthread := (wthread d)(n_threads d := Looping), g_thread := n_threads d, n_threads := n_threads d + 1\<rparr>"
  let ?c4 = "?c3\<lparr>ws := watch_stop_close W s2, joined := joined c\<rparr>"
  have o: "g_running s2" "fds_opened fds (fds (kernel s1)) s2" using start_fds [OF L assms(4) g(2)] by auto
  have t1: "wstep W False c ?c1" by (rule wstep.stop_signal [OF assms(3)])
  have "wstep W False d ?c2" using wstep.stop_join [of d "signalled c" W False] d by simp
  with d(1) have t2: "(wstep W False)\<^sup>*\<^sup>* ?c1 ?c2" by simp
  have t3: "wstep W False ?c2 ?c3" using wstep.start [of False ?c2 W 0 s2] assms(4) d(3) o(1) g(2) by simp
  have t4: "wstep W False ?c3 ?c4" using wstep.stop_close [of ?c3 "joined c" W False] by simp
  have r4: "wreach W False k ?c4"
    using wreach.step [OF wreach.step [OF wreach_steps [OF t2 wreach.step [OF assms(2) t1]] t3] t4] .
  note cl = stop_close_fds [OF L o(2)]
  have e: "\<forall>e \<in> set (g_entries (watch_stop_close W s2)). we_wd e = - 1" by (simp add: watch_stop_close_def)
  have n: "xy_watch_start W (watch_stop_close W s2) = Some (0, watch_stop_close W s2)"
    using cl(2) o(1) by (simp add: xy_watch_start_def)
  show ?thesis
    by (rule exI [of _ ?c1], rule exI [of _ ?c2], rule exI [of _ ?c3], rule exI [of _ ?c4])
      (use r4 t1 t2 t3 t4 d cl o g(3) e n in \<open>simp add: fds_closed_def fds_opened_def\<close>)
qed

theorem stop_start_race_witness:
  "\<exists>c'. wreach fd_os False [True, True, True] c' \<and> g_running (ws c') \<and> g_ifd (ws c') = - 1
    \<and> {3, 4, 5} \<subseteq> table_fds (kernel (ws c')) \<and> xy_watch_start fd_os (ws c') = Some (0, ws c')"
proof -
  let ?s1 = "(ws fd_started)\<lparr>g_running := False\<rparr>"
  let ?s2 = "(watch_boot (replicate 9 True))\<lparr>g_ifd := 6, g_pipe_r := 7, g_pipe_w := 8, g_running := True\<rparr> :: bool list watch_state"
  have s1: "watch_stop_signal fd_os (ws fd_started) = (True, ?s1)"
    by (simp add: watch_stop_signal_def fd_started_def watch_boot_def fd_os_def)
  have s2: "xy_watch_start fd_os ?s1 = Some (0, ?s2)"
    by (simp add: xy_watch_start_def watch_boot_def fd_started_def fd_os_def Let_def numeral_eq_Suc)
  from stop_start_race [OF fd_os_laws fd_reach_started s1 s2] obtain c' where
    "wreach fd_os False [True, True, True] c'" "g_running (ws c')" "g_ifd (ws c') = - 1"
    "table_fds (kernel (ws c')) = table_fds (kernel (ws fd_started))" "xy_watch_start fd_os (ws c') = Some (0, ws c')"
    by blast
  moreover have "{3, 4, 5} \<subseteq> table_fds (kernel (ws fd_started))"
    by (auto simp: table_fds_def fd_started_def watch_boot_def numeral_eq_Suc image_iff less_Suc_eq)
  ultimately show ?thesis by metis
qed


end
