(* ===== verification/Xy_Reloads.thy ===== *)
theory Xy_Reloads
  imports Xy_Loads
begin

text \<open>
  Hot reloading: \<open>xy_reload\<close> unloads the module, loads its object again and moves the new
  entry to the old one's place in the dispatch order.
\<close>

lemma loaded_from_only:
  "loaded_from s m a \<Longrightarrow> \<forall>c ec. mods s c = Some ec \<longrightarrow> parent_entry ec \<noteq> Some m \<Longrightarrow> a = m"
  by (induction rule: loaded_from.induct) blast+

lemma region_prev_last:
  assumes "wf_tree s" and "region_mods s r = as @ m # bs" and "mods s m = Some e"
  shows "region_prev e = dispatch_order.last_of as"
proof -
  note wm = wf_tree_parts(3) [OF assms(1)]
  have "m \<in> set (region_mods s r)" using assms(2) by simp
  from region_mods_owner [OF wm this] have "regions s r \<noteq> None" by simp
  from region_mods_list [OF wm this] have "mod_list s r (as @ m # bs)" by (simp add: assms(2))
  then obtain p where "linked (mod_prev s) p (rev bs @ m # rev as)" by (auto simp: mod_list_def)
  from chain_next [OF this] assms(3) show ?thesis by (simp add: mod_prev_def dispatch_order.last_of_def hd_rev)
qed

text \<open>What unloading the only reference of a module without loaded modules leaves.\<close>

lemma unload_single:
  assumes Q: "qmap_laws Q" and A: "alloc_ok E" and C: "cleanup_ok E" and u: "unloadable E Q s"
    and k: "key_get Q s (inst_key E fname (xy_current_region_id s)) = Some m" and e: "mods s m = Some e" "refcount e \<le> 1"
    and kids: "\<forall>c ec. mods s c = Some ec \<longrightarrow> parent_entry ec \<noteq> Some m"
  shows "\<exists>t. mod_unload (unload_fuel s) E Q fname (xy_current_region_id s) s = Some (XY_OK, t) \<and> wf_lib Q t
    \<and> shrunk Q s t \<and> mods t m = None \<and> (\<forall>q. region_mods t q = filter (\<lambda>a. a \<noteq> m) (region_mods s q))"
proof -
  have lib: "wf_lib Q s" using u by (simp add: unloadable_def)
  have "next_addr s < unload_fuel s + m" by (simp add: unload_fuel_def)
  with unload_works_all [OF Q A C, of "unload_fuel s"] u k obtain t where
    t: "mod_unload (unload_fuel s) E Q fname (xy_current_region_id s) s = Some (XY_OK, t)" "unload_post E Q m s t"
    unfolding unload_works_def by blast
  from t(2) have p: "wf_lib Q t" "shrunk Q s t" "dereferenced s t m" "\<And>a. \<not> loaded_from s m a \<Longrightarrow> same_entry s t a"
    by (simp_all add: unload_post_def unloadable_def)
  have gone: "mods t m = None" using p(3) e by (simp add: dereferenced_iff)
  have "region_mods t q = filter (\<lambda>a. a \<noteq> m) (region_mods s q)" for q
    unfolding shrunkD(2) [OF p(2), of q]
  proof (rule filter_cong [OF refl])
    fix a assume a: "a \<in> set (region_mods s q)"
    show "(mods t a \<noteq> None) = (a \<noteq> m)"
    proof (cases "a = m")
      case False
      then have "\<not> loaded_from s m a" using loaded_from_only [OF _ kids] by blast
      from same_entry_live [OF p(4) [OF this]] region_mods_live [OF lib a] False show ?thesis by simp
    qed (simp add: gone)
  qed
  with t(1) p(1,2) gone show ?thesis by blast
qed

lemma not_elsewhere:
  assumes "wf_tree s" and "mods s m = Some e" "region_entry e = Some r" and "q \<noteq> r"
  shows "filter (\<lambda>a. a \<noteq> m) (region_mods s q) = region_mods s q"
proof (rule filter_True)
  have "m \<notin> set (region_mods s q)"
  proof
    assume "m \<in> set (region_mods s q)"
    with region_mods_owner [OF wf_tree_parts(3) [OF assms(1)]] assms(2-4) show False by (fastforce simp: mod_region_def)
  qed
  then show "\<forall>a \<in> set (region_mods s q). a \<noteq> m" by auto
qed

lemma take_from_middle:
  assumes "distinct (as @ m # bs)"
  shows "filter (\<lambda>a. a \<noteq> m) (as @ m # bs) = as @ bs"
proof -
  have "\<forall>a \<in> set as. a \<noteq> m" "\<forall>a \<in> set bs. a \<noteq> m" using assms by auto
  then have "filter (\<lambda>a. a \<noteq> m) as = as" "filter (\<lambda>a. a \<noteq> m) bs = bs" by (simp_all only: filter_True)
  then show ?thesis by simp
qed

text \<open>Moving the last module of a region to another place of its list.\<close>

lemma place_ok:
  assumes A: "alloc_ok E" and lib: "wf_lib Q u" and e: "mods u m = Some e" "region_entry e = Some r"
    and k: "key_get Q u (inst_key E fname rid) = Some m"
    and lists: "region_mods u r = as @ bs @ [m]"
  shows "\<exists>w. reload_place E Q fname rid (Some r) (dispatch_order.last_of as) u = Some (XY_OK, w)
    \<and> wf_lib Q w \<and> key_get Q w = key_get Q u \<and> mods w m \<noteq> None
    \<and> (\<forall>q. region_mods w q = (if q = r then as @ m # bs else region_mods u q))
    \<and> (\<exists>u1 w'. touched r u u1 \<and> wf_lib Q u1 \<and> touched r u1 w' \<and> wf_lib Q w' \<and> w = xy_set_err XY_OK w'
        \<and> (\<forall>q. q \<noteq> r \<longrightarrow> region_mods u1 q = region_mods u q \<and> region_mods w' q = region_mods u1 q))"
proof -
  note w = wf_libD [OF lib]
  have pl: "\<And>q. region_entry e = Some q \<Longrightarrow> m \<in> set (region_mods u q)" using e(2) lists by simp
  obtain u1 where u1: "module_region_detach (Some m) u = Some u1" "wf_lib Q u1" "key_get Q u1 = key_get Q u"
    "\<And>a. map_option mstat (mods u1 a) = map_option mstat (mods u a)"
    "\<And>q. region_mods u1 q = filter (\<lambda>a. a \<noteq> m) (region_mods u q)" "\<forall>q. m \<notin> set (region_mods u1 q)"
    "u1 = u\<lparr>regions := regions u1, mods := mods u1\<rparr>" "stays u u1" "touched r u u1"
    using detach_any_ok [OF lib e(1) pl] e(2) by auto
  have d: "distinct (as @ bs @ [m])" using dispatch_order.seq_distinct [OF w(2), of r] lists by simp
  then have "filter (\<lambda>a. a \<noteq> m) (as @ bs @ [m]) = as @ bs" using take_from_middle [of "as @ bs" m "[]"] by simp
  with u1(5) [of r] lists have l1: "region_mods u1 r = as @ bs" by simp
  have oth: "region_mods u1 q = region_mods u q" if "q \<noteq> r" for q
    unfolding u1(5) by (rule not_elsewhere [OF w(2) e that])
  from u1(4) [of m] e(1) obtain e1 where e1: "mods u1 m = Some e1" by auto
  have same: "set_region_entry r m u1 = u1"
  proof -
    have "map_option mdata (mods u1 m) = map_option mdata (mods u m)" using u1(9) by (simp add: touched_def)
    with e e1 have "region_entry e1 = Some r" by (auto simp: mdata_def dest: arg_cong [where f = region_entry])
    then have "e1\<lparr>region_entry := Some r\<rparr> = e1" by simp
    with e1 show ?thesis by (simp add: set_region_entry_def heap_upd_def fun_upd_idem)
  qed
  have live: "regions u1 r \<noteq> None"
  proof -
    have "regions u r \<noteq> None" using region_mods_owner [OF wf_tree_parts(3) [OF w(2)], of m r] lists by simp
    moreover have "map_option claims (regions u1 r) = map_option claims (regions u r)" using u1(8) by (simp add: stays_def)
    ultimately show ?thesis by (metis option.map_disc_iff)
  qed
  have a: "\<And>a. dispatch_order.last_of as = Some a \<Longrightarrow> a \<in> set (region_mods u1 r)"
    by (auto simp: l1 dispatch_order.last_of_def split: if_splits)
  from insert_lib_ok [OF u1(2) e1 u1(6) live a] obtain w' e2 where
    w': "module_region_insert_after (Some r) (Some m) (dispatch_order.last_of as) u1 = Some w'" "wf_lib Q w'"
    "key_get Q w' = key_get Q u1" "\<forall>q. region_mods w' q = (if q = r then insert_after (dispatch_order.last_of as) m (region_mods u1 r)
       else region_mods u1 q)" "mods w' m = Some e2" "touched r u1 w'" unfolding same by blast
  let ?w = "xy_set_err XY_OK w'"
  have kw: "keeps w' ?w" by simp
  have rm: "region_mods ?w q = (if q = r then as @ m # bs else region_mods u q)" for q
    using keeps_region_mods [OF kw wf_libD(2) [OF w'(2)], of q] w'(4) l1 oth [of q]
      dispatch_order.insert_after_prefix [of as bs m] d by simp
  have "reload_place E Q fname rid (Some r) (dispatch_order.last_of as) u = Some (XY_OK, ?w)"
    using u1(1) w'(1) by (simp add: reload_place_def lookup_eq [OF A] k fail_with_def Let_def)
  moreover have "key_get Q ?w = key_get Q u" using key_get_cong [of ?w w' Q] w'(3) u1(3) by (simp add: xy_set_err_def)
  moreover have "mods ?w m \<noteq> None" using w'(5) by (simp add: xy_set_err_def)
  moreover have "\<forall>q. q \<noteq> r \<longrightarrow> region_mods u1 q = region_mods u q \<and> region_mods w' q = region_mods u1 q"
    using oth w'(4) by simp
  ultimately show ?thesis using keeps_wf_lib [OF kw w'(2)] rm u1(2,9) w'(2,6)
    by (intro exI [of _ ?w]) blast
qed

text \<open>After the unload, the object can be loaded.\<close>

lemma reload_ready:
  assumes lib: "wf_lib Q t" and hk: "wf_hooks Q s" and sh: "shrunk Q s t" and gone: "mods t m = None"
    and k: "key_get Q s (inst_key E fname (xy_current_region_id s)) = Some m" and cur: "xy_current_region_entry s = Some r"
    and opens: "\<forall>path t. e_dlopen E path t = Some (Some h, t)" and re: "regions s r = Some re" "no_claim E h re"
  shows "wf_lib Q (t\<lparr>xy_reloading := True\<rparr>)" and "wf_hooks Q (t\<lparr>xy_reloading := True\<rparr>)"
    and "loadable E Q fname h r (t\<lparr>xy_reloading := True\<rparr>)" and "region_mods (t\<lparr>xy_reloading := True\<rparr>) q = region_mods t q"
proof -
  let ?t = "t\<lparr>xy_reloading := True\<rparr>"
  note st = shrunkD [OF sh]
  have kt: "keeps t ?t" by (simp add: keeps_def same_shapeI)
  show "wf_lib Q ?t" by (rule keeps_wf_lib [OF kt lib])
  show "wf_hooks Q ?t" using st(8) hk by (simp add: wf_hooks_def stays_def)
  show "region_mods ?t q = region_mods t q" by (rule keeps_region_mods [OF kt wf_libD(2) [OF lib]])
  have "map_option claims (regions ?t r) = map_option claims (regions s r)" using st(8) by (simp add: stays_def)
  with re(1) obtain re' where re': "regions ?t r = Some re'" "claims re' = claims re" by (cases "regions t r") auto
  have "no_claim E h re'" using re'(2) re(2) by (simp add: no_claim_def claims_def)
  moreover have "key_get Q ?t = key_get Q t" by (rule key_get_cong) simp
  ultimately show "loadable E Q fname h r ?t"
    using st(3) [of "inst_key E fname (xy_current_region_id s)"] st(6,7) k gone cur opens re'(1) by (simp add: loadable_def opens_def)
qed

text \<open>(C16) Reloading a module that nobody else uses and that has loaded no modules, whose new object claims no
  region and installs quietly: the call succeeds; the old entry is gone; the new entry is found
  under the module's name and stands at the old one's place in the dispatch order of its
  region, not at the end; no other list changes, and the library is well formed.\<close>

theorem reload_keeps_place:
  assumes "qmap_laws Q" and "alloc_ok E" "dl_ok E" "cleanup_ok E" and "unloadable E Q s" and "wf_hooks Q s"
    and "lk_entry (module_lookup_from_fname E Q fname (xy_current_region_id s) s) = Some m"
    and "mods s m = Some e" "refcount e \<le> 1" "region_entry e = Some r" and "xy_current_region_entry s = Some r"
    and "\<forall>c ec. mods s c = Some ec \<longrightarrow> parent_entry ec \<noteq> Some m" and "region_mods s r = as @ m # bs"
    and "\<forall>path t. e_dlopen E path t = Some (Some h, t)" and "regions s r = Some re" "no_claim E h re" and "install_ok E h"
  shows "\<exists>s' m'. xy_reload E Q fname s = Some (XY_OK, s') \<and> wf_lib Q s' \<and> mods s' m' \<noteq> None
    \<and> lk_entry (module_lookup_from_fname E Q fname (xy_current_region_id s) s') = Some m'
    \<and> (\<forall>q. region_mods s' q = (if q = r then as @ m' # bs else region_mods s q))"
proof -
  let ?rid = "xy_current_region_id s" and ?key = "inst_key E fname (xy_current_region_id s)"
  have lib: "wf_lib Q s" using assms(5) by (simp add: unloadable_def)
  note wf = wf_libD(2) [OF lib]
  have k: "key_get Q s ?key = Some m" using assms(7) lookup_eq(2) [OF assms(2)] by simp
  from unload_single [OF assms(1,2,4,5) k assms(8,9,12)] obtain t where t:
    "mod_unload (unload_fuel s) E Q fname ?rid s = Some (XY_OK, t)" "wf_lib Q t" "shrunk Q s t" "mods t m = None"
    "\<forall>q. region_mods t q = filter (\<lambda>a. a \<noteq> m) (region_mods s q)" by blast
  let ?t = "t\<lparr>xy_reloading := True\<rparr>"
  note rr = reload_ready [OF t(2) assms(6) t(3,4) k assms(11,14,15,16)]
  have cur: "xy_current_region_id ?t = ?rid" using shrunkD(6) [OF t(3)] by simp
  from mod_load_new [OF assms(1-3) rr(1,2,3) assms(17)] obtain v m' where v: "mod_load E Q fname ?t = Some (XY_OK, v)"
    "wf_lib Q v" "\<exists>e. mods v m' = Some e \<and> region_entry e = Some r" "key_get Q v = (key_get Q ?t)(?key \<mapsto> m')"
    "\<forall>q. region_mods v q = (if q = r then region_mods ?t r @ [m'] else region_mods ?t q)"
    using cur by auto
  let ?u = "v\<lparr>xy_reloading := False\<rparr>"
  have ku: "keeps v ?u" by (simp add: keeps_def same_shapeI)
  have libu: "wf_lib Q ?u" by (rule keeps_wf_lib [OF ku v(2)])
  note out = not_elsewhere [OF wf assms(8,10)]
  have "distinct (as @ m # bs)" using dispatch_order.seq_distinct [OF wf, of r] assms(13) by simp
  from take_from_middle [OF this] t(5) assms(13) have "region_mods t r = as @ bs" by simp
  moreover have rmu: "region_mods ?u q = (if q = r then region_mods t r @ [m'] else region_mods t q)" for q
    using keeps_region_mods [OF ku wf_libD(2) [OF v(2)]] rr(4) v(5) by simp
  ultimately have lu: "region_mods ?u r = as @ bs @ [m']" by simp
  from v(3) obtain e' where e': "mods ?u m' = Some e'" "region_entry e' = Some r" by auto
  have kgu: "key_get Q ?u ?key = Some m'" using key_get_cong [of ?u v Q] v(4) by simp
  from place_ok [OF assms(2) libu e' kgu lu] obtain w where w:
    "reload_place E Q fname ?rid (Some r) (dispatch_order.last_of as) ?u = Some (XY_OK, w)" "wf_lib Q w"
    "key_get Q w = key_get Q ?u" "mods w m' \<noteq> None" "\<forall>q. region_mods w q = (if q = r then as @ m' # bs else region_mods ?u q)"
    by blast
  have prev: "region_prev e = dispatch_order.last_of as" by (rule region_prev_last [OF wf assms(13,8)])
  have "xy_reload E Q fname s = Some (XY_OK, w)"
    using lookup_eq [OF assms(2), of Q fname ?rid s] k wf_libD(1) [OF lib] assms(8,10) t(1) v(1) w(1) prev
    by (simp add: xy_reload_def reload_found_def Let_def)
  with w(2-5) rmu t(5) out kgu show ?thesis
    by (intro exI [of _ w] exI [of _ m']) (simp add: lookup_eq(2) [OF assms(2)])
qed

theorem reload_keeps_place_witness:
  "\<exists>s' m'. xy_reload demo_env alist_qmap ''m'' demo_u = Some (XY_OK, s') \<and> wf_lib alist_qmap s'
    \<and> region_mods s' 1 = [m', 6]"
proof -
  let ?e = "(demo_mod (Some 1) 0 (Some 11) (Some 6) None)\<lparr>me_mod_key := key_of ''m.so'' 0\<rparr>"
  have E: "alloc_ok demo_env" by (simp add: alloc_ok_def)
  have l: "lk_entry (module_lookup_from_fname demo_env alist_qmap ''m'' (xy_current_region_id demo_u) demo_u) = Some 5"
    by (simp add: lookup_eq(2) [OF E] inst_key_def demo_u_keys demo_u_sel)
  have h: "wf_hooks alist_qmap demo_u" by (simp add: wf_hooks_def demo_u_def) (simp add: demo_def xy_boot_def)
  have e: "refcount ?e \<le> 1" "region_entry ?e = Some 1" by (simp_all add: demo_mod_def)
  have c: "xy_current_region_entry demo_u = Some 1" by (simp add: demo_u_def) (simp add: demo_def)
  have kids: "\<forall>c ec. mods demo_u c = Some ec \<longrightarrow> parent_entry ec \<noteq> Some 5"
  proof (intro allI impI)
    fix c ec assume m: "mods demo_u c = Some ec"
    from demo_u_cases [OF m] m show "parent_entry ec \<noteq> Some 5" by (elim disjE) (auto simp: demo_u_sel demo_mod_def)
  qed
  have ms: "region_mods demo_u 1 = [] @ 5 # [6]" using demo_u_lists(1) by simp
  have r: "regions demo_u 1 = Some (demo_region 0 0 0 None (Some 3) None (Some 5) (Some 6))"
    by (simp add: demo_u_sel del: One_nat_def)
  have n: "no_claim demo_env 7 (demo_region 0 0 0 None (Some 3) None (Some 5) (Some 6))"
    by (simp add: no_claim_def demo_region_def)
  have i: "install_ok demo_env 7" by (simp add: install_ok_def)
  have o7: "\<forall>path t. e_dlopen demo_env path t = Some (Some 7, t)" by simp
  from reload_keeps_place [OF alist_qmap_laws E demo_dl_ok demo_cleanup_ok demo_u_unloadable h l demo_u_sel(1) e c kids ms o7 r n i]
  show ?thesis by fastforce
qed

end
