(* ===== verification/Xy_Claiming.thy ===== *)
theory Xy_Claiming
  imports Xy_Loads
begin

text \<open>
  A load that claims: the module asks for a region of its own, the handler of its region
  grants the bits, and the module is moved to the new region before it is linked.
\<close>

section \<open>What a claim leaves alone\<close>

lemma link_child_frame:
  assumes "qmap_laws Q" and "alloc_ok E" and "wf_lib Q s" and "regions s p = Some pe" and "re_parent child = Some p"
    and "children_head child = None" "mods_head child = None" "mods_tail child = None"
    and "unat (re_plen pe) < unat (re_plen child)" "unat (re_plen child) \<le> 64" "region_lookup Q (re_id child) s = None"
    and "link_child E Q child p s = Some (c, s1)"
  shows "s1 = s\<lparr>next_addr := next_addr s1, region_hd := region_hd s1, regions := regions s1\<rparr>"
    and "regions s1 = ancestor_upd dirty_and_bump (Some p) (child_linked Q child p s)"
proof -
  note w = wf_libD [OF assms(3)]
  have "\<And>s. e_malloc E s AllocRegion" using assms(2) by (simp add: alloc_ok_def)
  from link_child_ok [OF assms(1) this w(2,3) assms(4-11)] assms(12) have
    s1: "s1 = (child_linked Q child p s)\<lparr>regions := ancestor_upd dirty_and_bump (Some p) (child_linked Q child p s)\<rparr>" by auto
  then show "regions s1 = ancestor_upd dirty_and_bump (Some p) (child_linked Q child p s)" by simp
  obtain R where "s1 = (child_linked Q child p s)\<lparr>regions := R\<rparr>" by (rule that) (rule s1)
  then show "s1 = s\<lparr>next_addr := next_addr s1, region_hd := region_hd s1, regions := regions s1\<rparr>"
    by (simp add: child_linked_def Let_def)
qed

text \<open>The module stored under the name in the parent region gets the id and the key of the child.\<close>

lemma claim_moves:
  assumes Q: "qmap_laws Q" and A: "alloc_ok E" and lib: "wf_lib Q s" and pe: "regions s p = Some pe"
    and al: "aligned (unat (re_plen pe)) (re_id pe)"
    and g: "0 < unat granted" "unat (re_plen pe) + unat granted < 64"
    and cid: "cid = region_alloc_slot Q pe granted s" "cid \<noteq> XY_REGION_INVALID"
    and m: "key_get Q s (inst_key E fname (re_id pe)) = Some m" and e: "mods s m = Some e"
    and r: "claim_child E Q (Some fname) (re_id pe) p granted s = Some (XY_OK, s')"
  shows "mods s' = (mods s)(m \<mapsto> e\<lparr>me_region_id := cid, me_mod_key := inst_key E fname cid\<rparr>)"
    and "key_get Q s' k = (if k = inst_key E fname (re_id pe) then None
         else if k = inst_key E fname cid then Some m else key_get Q s k)"
    and "hook_id_hd s' = hook_id_hd s" "xy_hook_id_counter s' = xy_hook_id_counter s" "xy_mod_count s' = xy_mod_count s"
    and "regions s' = ancestor_upd dirty_and_bump (Some p) (child_linked Q (new_child pe p cid granted (Some fname)) p s)"
    and "adapters s' = adapters s" "xy_last_retbuf s' = xy_last_retbuf s"
proof -
  note w = wf_libD [OF lib]
  let ?child = "new_child pe p cid granted (Some fname)"
  have leaf: "re_parent ?child = Some p" "children_head ?child = None" "mods_head ?child = None" "mods_tail ?child = None"
    by (simp_all add: new_child_def region_zero_def)
  have plen: "unat (re_plen ?child) = unat (re_plen pe) + unat granted" "re_id ?child = cid"
    using g(2) by (simp_all add: new_child_def child_plen)
  have taken: "region_lookup Q (re_id pe) s \<noteq> None" using region_lookup_iff [OF w(3), of "re_id pe" p] pe by auto
  have free: "region_lookup Q (re_id ?child) s = None"
    using region_alloc_slot_ok [OF g(2) al taken] cid unfolding plen(2) by auto
  from r pe cid obtain c s1 s3 where s1: "link_child E Q ?child p s = Some (c, s1)"
    "module_rekey_for_claim E Q fname (re_id pe) cid (set_current_region cid (Some c) s1) = Some s3" "s' = xy_set_err XY_OK s3"
    by (auto simp: claim_child_def fail_with_def Let_def bind_eq_Some_conv)
  have pl: "unat (re_plen pe) < unat (re_plen ?child)" "unat (re_plen ?child) \<le> 64" using plen(1) g by simp_all
  obtain N H R where f: "s1 = s\<lparr>next_addr := N, region_hd := H, regions := R\<rparr>"
    by (rule that) (rule link_child_frame(1) [OF Q A lib pe leaf pl free s1(1)])
  have R: "R = ancestor_upd dirty_and_bump (Some p) (child_linked Q ?child p s)"
    using link_child_frame(2) [OF Q A lib pe leaf pl free s1(1)] by (simp add: f)
  let ?s2 = "set_current_region cid (Some c) s1"
  obtain path where path: "inst_key E fname = key_of path" "module_lookup_from_fname E Q fname (re_id pe) ?s2
      = \<lparr>lk_load_path = Some path, lk_key = Some (key_of path (re_id pe)), lk_entry = mod_hd_get Q (key_of path (re_id pe)) ?s2, lk_err = XY_OK\<rparr>"
    using A by (simp add: module_lookup_from_fname_def module_load_path_def alloc_ok_def inst_key_def key_of_def Let_def fun_eq_iff)
  have "mod_hd_get Q (key_of path (re_id pe)) ?s2 = Some m"
    using m path(1) by (simp add: key_get_def mod_hd_get_def f set_current_region_def)
  then have re: "module_rekey_loaded_entry E Q m (key_of path (re_id pe)) path (re_id pe) cid ?s2 = Some s3"
    using s1(2) by (simp add: module_rekey_for_claim_def path(2))
  from w(6,7) obtain h b where hb: "mod_hd s = Some h" "mod_by_region_hd s = Some b" by auto
  have "\<And>c. me_ctx e = Some c \<Longrightarrow> ctxs ?s2 c \<noteq> None"
    using w(10) e unfolding wf_modtab_def by (simp add: f set_current_region_def)
  with rekey_loaded_eq [of ?s2 m e h b E path Q "key_of path (re_id pe)" "re_id pe" cid] e hb A re
  have s3: "s3 = ?s2\<lparr>mods := (mods ?s2)(m \<mapsto> e\<lparr>me_region_id := cid, me_mod_key := key_of path cid\<rparr>),
      mod_hd := Some (qmap_del Q (qmap_put Q h (KBlob (key_of path cid)) (VPtr m)) (KBlob (key_of path (re_id pe)))),
      mod_by_region_hd := mod_by_region_hd s3, ctxs := ctxs s3\<rparr>"
    by (auto simp: f set_current_region_def alloc_ok_def)
  obtain B C where s3': "s3 = ?s2\<lparr>mods := (mods ?s2)(m \<mapsto> e\<lparr>me_region_id := cid, me_mod_key := key_of path cid\<rparr>),
      mod_hd := Some (qmap_del Q (qmap_put Q h (KBlob (key_of path cid)) (VPtr m)) (KBlob (key_of path (re_id pe)))),
      mod_by_region_hd := B, ctxs := C\<rparr>" by (rule that) (rule s3)
  show "mods s' = (mods s)(m \<mapsto> e\<lparr>me_region_id := cid, me_mod_key := inst_key E fname cid\<rparr>)"
    "hook_id_hd s' = hook_id_hd s" "xy_hook_id_counter s' = xy_hook_id_counter s" "xy_mod_count s' = xy_mod_count s"
    "adapters s' = adapters s" "xy_last_retbuf s' = xy_last_retbuf s"
    by (simp_all add: s1(3) xy_set_err_def s3' f set_current_region_def path(1))
  show "regions s' = ancestor_upd dirty_and_bump (Some p) (child_linked Q ?child p s)"
    unfolding R [symmetric] by (simp add: s1(3) xy_set_err_def s3' f set_current_region_def)
  show "key_get Q s' k = (if k = inst_key E fname (re_id pe) then None
         else if k = inst_key E fname cid then Some m else key_get Q s k)"
    using hb(1) by (simp add: s1(3) xy_set_err_def s3' key_get_def mod_hd_get_def qmap_simps [OF Q] path(1))
qed

section \<open>The name of the new region\<close>

text \<open>Paths without an embedded NUL: what C passes as a string.\<close>

definition plain_path :: "'q env \<Rightarrow> string \<Rightarrow> bool" where
  "plain_path E fname \<longleftrightarrow> c_string (fname @ ''.so'') \<and> (\<forall>p. e_realpath E (fname @ ''.so'') = Some p \<longrightarrow> c_string p)"

lemma inst_key_eq:
  "plain_path E fname \<Longrightarrow> inst_key E fname a = inst_key E fname b \<longleftrightarrow> drop_bit 4 a = drop_bit 4 b"
  by (auto simp: inst_key_def plain_path_def key_of_eq_iff split: option.splits)

lemma aligned_drop_eq:
  assumes "aligned n a" "aligned k b" and "n \<le> 60" "k \<le> 60" and "drop_bit 4 a = drop_bit 4 b"
  shows "a = b"
proof (rule bit_eqI)
  fix i
  show "bit a i \<longleftrightarrow> bit b i"
  proof (cases "i < 4")
    case True
    with aligned_bit [OF assms(1), of i] aligned_bit [OF assms(2), of i] assms(3,4) show ?thesis by simp
  next
    case False
    then have "bit (drop_bit 4 x) (i - 4) = bit x i" for x :: u64 by (simp add: bit_simps)
    with assms(5) show ?thesis by metis
  qed
qed

lemma child_key_apart:
  assumes p: "plain_path E fname" and plen: "unat (re_plen pe) + unat bits \<le> 60"
    and al: "aligned (unat (re_plen pe)) (re_id pe)" and taken: "region_lookup Q (re_id pe) s \<noteq> None"
    and ok: "region_alloc_slot Q pe bits s \<noteq> XY_REGION_INVALID"
  shows "inst_key E fname (re_id pe) \<noteq> inst_key E fname (region_alloc_slot Q pe bits s)"
proof
  let ?sh = "64 - (unat (re_plen pe) + unat bits)"
  have lt: "unat (re_plen pe) + unat bits < 64" using plen by simp
  then have sum: "unat (re_plen pe) + unat bits + ?sh = 64" by simp
  from region_alloc_slot_ok [OF lt al taken] ok obtain i where
    i: "0 < i" "i < 2 ^ unat bits" "region_alloc_slot Q pe bits s = slot_id (re_id pe) ?sh i" by auto
  assume "inst_key E fname (re_id pe) = inst_key E fname (region_alloc_slot Q pe bits s)"
  then have d: "drop_bit 4 (re_id pe) = drop_bit 4 (slot_id (re_id pe) ?sh i)" using inst_key_eq [OF p] i(3) by simp
  have "slot_id (re_id pe) ?sh i = re_id pe"
    using aligned_drop_eq [OF al slot_aligned [OF al sum, of i] _ plen d] plen by simp
  with slot_inj [OF al sum i(2), of 0] i(1) show False by (simp add: slot_zero)
qed

section \<open>The claim of a load\<close>

text \<open>The object has the symbol \<open>xy_claim\<close>, the region of the caller has a handler that grants \<open>g\<close> bits
  whenever it is asked, there is a free slot, and the name is not loaded in it.\<close>

definition claimable :: "'q env \<Rightarrow> 'q qmap_ops \<Rightarrow> string \<Rightarrow> dlhandle \<Rightarrow> 'q xy_region_entry \<Rightarrow> u8 \<Rightarrow> 'q xy_state \<Rightarrow> bool" where
  "claimable E Q fname h re g s \<longleftrightarrow> plain_path E fname \<and> e_dlsym E h ''xy_claim'' \<noteq> 0
     \<and> 0 < e_claim_sym E (e_dlsym E h ''xy_claim'') \<and> e_claim_sym E (e_dlsym E h ''xy_claim'') \<le> 64
     \<and> claim_handler re \<noteq> 0
     \<and> (\<forall>t. e_handler E (claim_handler re) fname (e_claim_sym E (e_dlsym E h ''xy_claim'')) (claim_handler_ud re) t
          = Some ((XY_OK, g), t))
     \<and> 0 < g \<and> unat (re_plen re) + unat g \<le> 60 \<and> aligned (unat (re_plen re)) (re_id re)
     \<and> region_alloc_slot Q re g s \<noteq> XY_REGION_INVALID
     \<and> key_get Q s (inst_key E fname (region_alloc_slot Q re g s)) = None"

lemma alloc_slot_frame:
  assumes "wf_index Q s" "wf_index Q t" and "regions t = regions s"
  shows "region_alloc_slot Q pe bits t = region_alloc_slot Q pe bits s"
proof -
  have "region_lookup Q c t = None \<longleftrightarrow> region_lookup Q c s = None" for c
    using region_lookup_None [OF assms(1)] region_lookup_None [OF assms(2)] assms(3) by simp
  then have "(\<lambda>c. region_lookup Q c t \<noteq> None) = (\<lambda>c. region_lookup Q c s \<noteq> None)" by (intro ext) (simp only:)
  then show ?thesis by (simp only: region_alloc_slot_def)
qed

lemma handler_step:
  assumes c: "claimable E Q fname h re g s" and t: "region_lookup Q (re_id re) t = Some r" "regions t r = Some re"
    and tx: "tx_handle tx = Some h" "stable_fname tx = Some fname" "inherited_region_id tx = re_id re" "inherited_reg tx = Some r"
    and claim: "claim_child E Q (Some fname) (re_id re) r g t = Some (XY_OK, t')"
  shows "mod_load_claim_if_needed E Q tx t = Some (XY_OK, tx, t')"
proof -
  have g: "g \<noteq> 0" "\<not> g > 64" using c by (auto simp: claimable_def word_le_nat_alt word_less_nat_alt)
  have b: "e_claim_sym E (e_dlsym E h ''xy_claim'') \<noteq> 0" "\<not> e_claim_sym E (e_dlsym E h ''xy_claim'') > 64"
    using c by (auto simp: claimable_def)
  show ?thesis
    using c t tx claim g b by (simp add: mod_load_claim_if_needed_def xy_claim_for_load_def claimable_def Let_def)
qed

lemma claiming_step:
  assumes Q: "qmap_laws Q" and A: "alloc_ok E" and lib: "wf_lib Q s" and c: "claimable E Q fname h re g s"
    and cur: "xy_current_region_entry s = Some r" "regions s r = Some re" and rid: "rid = re_id re"
    and key: "key = inst_key E fname rid" and p: "prep Q s ((key_get Q s)(key \<mapsto> m)) cnt m e t" and b: "born h rid key e"
    and tx: "tx_info h m key rid tx" "stable_fname tx = Some fname" "inherited_reg tx = Some r"
    and cid: "cid = region_alloc_slot Q re g s"
  shows "\<exists>n t' e'. mod_load_claim_if_needed E Q tx t = Some (XY_OK, tx, t')
    \<and> prep Q t' ((key_get Q s)(key := None, inst_key E fname cid \<mapsto> m)) cnt m e' t' \<and> born h cid (inst_key E fname cid) e'
    \<and> regions s n = None \<and> map_option re_id (regions t' n) = Some cid \<and> map_option re_parent (regions t' n) = Some (Some r)
    \<and> (\<forall>q x. regions s q = Some x \<longrightarrow> (\<exists>y. regions t' q = Some y \<and> re_id y = re_id x \<and> re_parent y = re_parent x))
    \<and> (\<forall>q. region_mods t' q = region_mods s q) \<and> xy_current_region_entry t' = Some n
    \<and> hook_id_hd t' = hook_id_hd s \<and> xy_hook_id_counter t' = xy_hook_id_counter s
    \<and> regions t' = ancestor_upd dirty_and_bump (Some r) (child_linked Q (new_child re r cid g (Some fname)) r t)
    \<and> (\<forall>a. a \<noteq> m \<longrightarrow> mods t' a = mods t a) \<and> me_ctx e' = me_ctx e \<and> adapters t' = adapters s \<and> xy_last_retbuf t' = xy_last_retbuf s"
proof -
  note d = prepD [OF p] and w = wf_libD [OF lib] and wt = wf_libD [OF prepD(1) [OF p]]
  have re: "regions t r = Some re" using cur(2) d(7) by simp
  have al: "aligned (unat (re_plen re)) (re_id re)" "0 < unat g" "unat (re_plen re) + unat g \<le> 60" "plain_path E fname"
    using c by (auto simp: claimable_def word_less_nat_alt)
  have lt: "unat (re_plen re) + unat g < 64" using al(3) by simp
  have slot: "cid = region_alloc_slot Q re g t" "cid \<noteq> XY_REGION_INVALID"
    using alloc_slot_frame [OF w(3) wt(3) d(7)] c by (simp_all add: cid claimable_def)
  have lk: "region_lookup Q (re_id re) t = Some r" using region_lookup_iff [OF wt(3)] re by blast
  have mt: "key_get Q t (inst_key E fname (re_id re)) = Some m" using d(5) key rid by simp
  from claim_child_ok [OF Q A d(1) re al(1,2) lt slot, of "Some fname"] obtain n t' where
    t': "claim_child E Q (Some fname) (re_id re) r g t = Some (XY_OK, t')" "wf_lib Q t'" "regions t n = None"
    "regions t' n = Some ((new_child re r cid g (Some fname))\<lparr>sibling_next := children_head re\<rparr>)"
    "\<forall>q. region_mods t' q = region_mods t q" "xy_current_region_id t' = cid" "xy_current_region_entry t' = Some n"
    "\<forall>q e. regions t q = Some e \<longrightarrow> (\<exists>e'. regions t' q = Some e' \<and> re_id e' = re_id e
          \<and> re_plen e' = re_plen e \<and> re_parent e' = re_parent e)" by blast
  note mv = claim_moves [OF Q A d(1) re al(1,2) lt slot mt d(2) t'(1)]
  have step: "mod_load_claim_if_needed E Q tx t = Some (XY_OK, tx, t')"
    by (rule handler_step [OF c lk re _ tx(2) _ tx(3) t'(1)]) (use tx(1) rid in \<open>simp_all add: tx_info_def\<close>)
  let ?e = "e\<lparr>me_region_id := cid, me_mod_key := inst_key E fname cid\<rparr>"
  have apart: "inst_key E fname (re_id re) \<noteq> inst_key E fname cid"
    using child_key_apart [OF al(4,3,1)] lk slot by auto
  have "key_get Q t' = (key_get Q s)(key := None, inst_key E fname cid \<mapsto> m)"
    using mv(2) d(5) apart by (auto simp: key rid fun_eq_iff)
  then have "prep Q t' ((key_get Q s)(key := None, inst_key E fname cid \<mapsto> m)) cnt m ?e t'"
    using t'(2,5) d(3,12) mv(1,5) by (simp add: prep_def)
  moreover have "born h cid (inst_key E fname cid) ?e" using b by (simp add: born_def)
  moreover have "map_option re_id (regions t' n) = Some cid" "map_option re_parent (regions t' n) = Some (Some r)"
    using t'(4) by (simp_all add: new_child_def)
  moreover have "\<forall>q x. regions s q = Some x \<longrightarrow> (\<exists>y. regions t' q = Some y \<and> re_id y = re_id x \<and> re_parent y = re_parent x)"
    using t'(8) unfolding d(7) by blast
  ultimately show ?thesis
    using step t'(3,5,7) d(4,7,10,11,14,15) mv(1,3,4,6-8) by (intro exI [of _ n] exI [of _ t'] exI [of _ ?e]) simp
qed

section \<open>The property\<close>

lemma mod_load_claiming:
  assumes Q: "qmap_laws Q" and E: "alloc_ok E" "dl_ok E" and lib: "wf_lib Q s" and H: "wf_hooks Q s"
    and o: "opens E Q fname h r s" and re: "regions s r = Some re" and c: "claimable E Q fname h re g s" and i: "install_ok E h"
    and cid: "cid = region_alloc_slot Q re g s"
  shows "\<exists>v m n. mod_load E Q fname s = Some (XY_OK, v) \<and> wf_lib Q v \<and> mods s m = None \<and> regions s n = None
    \<and> map_option re_id (regions v n) = Some cid \<and> map_option re_parent (regions v n) = Some (Some r)
    \<and> key_get Q v = (key_get Q s)(inst_key E fname (re_id re) := None, inst_key E fname cid \<mapsto> m)
    \<and> (\<forall>q. region_mods v q = (if q = n then [m] else region_mods s q))
    \<and> xy_current_region_id v = xy_current_region_id s \<and> xy_current_region_entry v = Some r
    \<and> xy_mod_count v = xy_mod_count s + 1"
proof -
  note w = wf_libD [OF lib]
  from o have cur: "xy_current_region_entry s = Some r" and unused: "key_get Q s (inst_key E fname (xy_current_region_id s)) = None"
    by (simp_all add: opens_def)
  have rid: "xy_current_region_id s = re_id re" using w(5) cur re by (auto simp: wf_current_def)
  from open_step [OF E(1) o] obtain tx path where tx: "mod_load_open_handle E Q fname (tx_zero (xy_current_region_id s)) s
      = Some (XY_OK, tx, s)" "mod_load_try_reuse_existing tx s = Some (False, tx, s)"
    "lk_key (tx_lookup tx) = Some (inst_key E fname (xy_current_region_id s))"
    "lk_load_path (tx_lookup tx) = Some path" "tx_handle tx = Some h" "inherited_region_id tx = xy_current_region_id s" by blast
  from load_start [OF Q E(1) lib cur tx(3-6)] obtain tx' m e t where a: "mod_load_steps E Q fname tx s
      = tx_then (mod_load_claim_if_needed E Q)
        (tx_then (mod_load_region_state E) (tx_then (mod_load_append E Q) (mod_load_run_install E))) tx' t"
    "mods s m = None" "prep Q s ((key_get Q s)(inst_key E fname (xy_current_region_id s) \<mapsto> m)) (xy_mod_count s) m e t"
    "born h (xy_current_region_id s) (inst_key E fname (xy_current_region_id s)) e"
    "tx_info h m (inst_key E fname (xy_current_region_id s)) (xy_current_region_id s) tx'" "stable_fname tx' = Some fname"
    "inherited_reg tx' = Some r" "context_active tx'" "prev_region_id tx' = xy_current_region_id s"
    "prev_region_entry tx' = Some r" by blast
  from claiming_step [OF Q E(1) lib c cur re rid refl a(3-7) cid] obtain n t1 e1 where
    b: "mod_load_claim_if_needed E Q tx' t = Some (XY_OK, tx', t1)"
    "prep Q t1 ((key_get Q s)(inst_key E fname (xy_current_region_id s) := None, inst_key E fname cid \<mapsto> m)) (xy_mod_count s) m e1 t1"
    "born h cid (inst_key E fname cid) e1" "regions s n = None" "map_option re_id (regions t1 n) = Some cid"
    "map_option re_parent (regions t1 n) = Some (Some r)"
    "\<forall>q x. regions s q = Some x \<longrightarrow> (\<exists>y. regions t1 q = Some y \<and> re_id y = re_id x \<and> re_parent y = re_parent x)"
    "\<forall>q. region_mods t1 q = region_mods s q" "hook_id_hd t1 = hook_id_hd s" "xy_hook_id_counter t1 = xy_hook_id_counter s"
    by blast
  have H1: "wf_hooks Q t1" using H b(9,10) by (simp add: wf_hooks_def)
  have lk: "region_lookup Q cid t1 = Some n"
    using region_lookup_iff [OF wf_libD(3) [OF prepD(1) [OF b(2)]]] b(5) by auto
  from b(7) re obtain y where y: "regions t1 r = Some y" "re_id y = re_id re" by blast
  have home: "prev_region_id tx' = re_id y" using a(9) y(2) rid by simp
  from join_finish [OF Q E H1 b(2) a(5) b(3) lk a(8) i y(1) home a(10) prepD(1) [OF b(2)]] obtain u v where v:
    "tx_then (mod_load_region_state E) (tx_then (mod_load_append E Q) (mod_load_run_install E)) tx' t1 = Some (XY_OK, tx', u)"
    "v = snd (mod_load_restore_context tx' u)" "wf_lib Q v"
    "key_get Q v = (key_get Q s)(inst_key E fname (xy_current_region_id s) := None, inst_key E fname cid \<mapsto> m)"
    "\<forall>a. region_mods v a = (if a = n then region_mods t1 n @ [m] else region_mods t1 a)"
    "\<forall>a. map_option re_id (regions v a) = map_option re_id (regions t1 a)"
    "\<forall>a. map_option re_parent (regions v a) = map_option re_parent (regions t1 a)"
    "xy_current_region_id v = re_id y" "xy_current_region_entry v = Some r" "xy_mod_count v = xy_mod_count s + 1" by blast
  have "region_mods s n = []" using b(4) by (simp add: region_mods_def)
  moreover have "mod_load E Q fname s = Some (XY_OK, v)"
    using tx(1,2) a(1) b(1) v(1,2) by (simp add: mod_load_def tx_then_def)
  ultimately show ?thesis
    using v(3-) a(2) b(4-6,8) y(2) rid by (intro exI [of _ v] exI [of _ m] exI [of _ n]) simp
qed

text \<open>(C12) Loading a module that claims, into a region whose handler grants the bits: the call succeeds; one
  region is added below the caller's, with the first free id of its prefix, and the new
  module is its only module; the name finds the module in the new region and nothing in the
  caller's; no other module list changes, the caller is in its own region again, and the
  library is well formed.\<close>

theorem claiming_load_opens_region:
  assumes "qmap_laws Q" and "alloc_ok E" "dl_ok E" and "wf_lib Q s" and "wf_hooks Q s" and "opens E Q fname h r s"
    and "regions s r = Some re" and "claimable E Q fname h re g s" and "install_ok E h"
  shows "\<exists>s' m n. xy_load E Q fname s = Some (XY_OK, s') \<and> wf_lib Q s' \<and> mods s m = None \<and> regions s n = None
    \<and> map_option re_id (regions s' n) = Some (region_alloc_slot Q re g s) \<and> map_option re_parent (regions s' n) = Some (Some r)
    \<and> lk_entry (module_lookup_from_fname E Q fname (region_alloc_slot Q re g s) s') = Some m
    \<and> lk_entry (module_lookup_from_fname E Q fname (xy_current_region_id s) s') = None
    \<and> (\<forall>q. region_mods s' q = (if q = n then [m] else region_mods s q))
    \<and> xy_current_region_id s' = xy_current_region_id s \<and> xy_current_region_entry s' = xy_current_region_entry s
    \<and> xy_mod_count s' = xy_mod_count s + 1"
proof -
  let ?cid = "region_alloc_slot Q re g s"
  from mod_load_claiming [OF assms refl] obtain v m n where v: "mod_load E Q fname s = Some (XY_OK, v)" "wf_lib Q v"
    "mods s m = None" "regions s n = None" "map_option re_id (regions v n) = Some ?cid"
    "map_option re_parent (regions v n) = Some (Some r)"
    "key_get Q v = (key_get Q s)(inst_key E fname (re_id re) := None, inst_key E fname ?cid \<mapsto> m)"
    "\<forall>q. region_mods v q = (if q = n then [m] else region_mods s q)"
    "xy_current_region_id v = xy_current_region_id s" "xy_current_region_entry v = Some r"
    "xy_mod_count v = xy_mod_count s + 1" by blast
  note w = wf_libD [OF assms(4)]
  have cur: "xy_current_region_entry s = Some r" using assms(6) by (simp add: opens_def)
  have rid: "xy_current_region_id s = re_id re" using w(5) cur assms(7) by (auto simp: wf_current_def)
  have apart: "inst_key E fname (re_id re) \<noteq> inst_key E fname ?cid"
    by (rule child_key_apart) (use assms(7,8) region_lookup_iff [OF w(3), of "re_id re" r] in \<open>auto simp: claimable_def\<close>)
  let ?s' = "xy_set_err XY_OK v"
  have k: "keeps v ?s'" by simp
  have kg: "key_get Q ?s' = key_get Q v" by (rule key_get_cong) (simp add: xy_set_err_def)
  have "xy_load E Q fname s = Some (XY_OK, ?s')" using v(1) w(1) by (simp add: xy_load_def fail_with_def)
  moreover have "region_mods ?s' q = (if q = n then [m] else region_mods s q)" for q
    using keeps_region_mods [OF k wf_libD(2) [OF v(2)]] v(8) by simp
  ultimately show ?thesis
    using keeps_wf_lib [OF k v(2)] v(3-6,9-) cur apart rid
    by - (rule exI [of _ ?s'], rule exI [of _ m], rule exI [of _ n],
      simp add: lookup_eq(2) [OF assms(2)] kg [unfolded xy_set_err_def] v(7) xy_set_err_def)
qed

text \<open>In the example the root region has a handler, which grants what is asked, and the object asks for
  two bits.\<close>

definition claim_env :: "demo_q env" where
  "claim_env = demo_env\<lparr>e_dlsym := (\<lambda>h n. if n = ''h'' \<or> n = ''xy_install'' \<or> n = ''xy_claim'' then 100 else 0),
     e_claim_sym := (\<lambda>_. 2)\<rparr>"

definition demo_gate :: "demo_q xy_region_entry" where
  "demo_gate = (demo_region 0 0 0 None (Some 3) None (Some 5) (Some 6))\<lparr>claim_handler := 50, require_claim := True\<rparr>"

definition demo_c :: "demo_q xy_state" where
  "demo_c = demo_h\<lparr>regions := (regions demo)(1 \<mapsto> demo_gate)\<rparr>"

lemma demo_c_keeps: "keeps demo_h demo_c"
proof -
  have r: "regions demo_h = regions demo" by (simp add: demo_h_def)
  have "map_option rlinks (regions demo_c p) = map_option rlinks (regions demo p)"
    "map_option re_id (regions demo_c p) = map_option re_id (regions demo p)" for p
    using demo_sel(1) by (simp_all add: demo_c_def demo_gate_def rlinks_def del: One_nat_def)
  then show ?thesis using r by (simp add: keeps_def same_shape_def) (simp add: demo_c_def)
qed

lemma demo_c_slot: "region_alloc_slot alist_qmap demo_gate 2 demo_c = 0xC000000000000000"
proof -
  have "(\<lambda>c. region_lookup alist_qmap c demo_c \<noteq> None) = (\<lambda>c. region_lookup alist_qmap c demo \<noteq> None)"
    by (simp add: region_lookup_def demo_c_def demo_h_def)
  moreover have "re_plen demo_gate = re_plen (demo_region 0 0 0 None (Some 3) None (Some 5) (Some 6))"
    "re_id demo_gate = re_id (demo_region 0 0 0 None (Some 3) None (Some 5) (Some 6))" by (simp_all add: demo_gate_def)
  ultimately have "region_alloc_slot alist_qmap demo_gate 2 demo_c
      = region_alloc_slot alist_qmap (demo_region 0 0 0 None (Some 3) None (Some 5) (Some 6)) 2 demo"
    by (simp only: region_alloc_slot_def)
  with demo_slot show ?thesis by simp
qed

theorem claiming_load_opens_region_witness:
  "\<exists>s' n m. xy_load claim_env alist_qmap ''x'' demo_c = Some (XY_OK, s') \<and> wf_lib alist_qmap s'
    \<and> map_option re_id (regions s' n) = Some 0xC000000000000000 \<and> region_mods s' n = [m]"
proof -
  have lib: "wf_lib alist_qmap demo_c" by (rule keeps_wf_lib [OF demo_c_keeps demo_h_wf_lib])
  have "hook_id_hd demo_c = hook_id_hd demo_h" "xy_hook_id_counter demo_c = xy_hook_id_counter demo_h"
    by (simp_all add: demo_c_def del: demo_h_sel)
  with demo_h_hooks have H: "wf_hooks alist_qmap demo_c" by (simp only: wf_hooks_def)
  have E: "alloc_ok claim_env" "dl_ok claim_env"
    by (simp_all add: alloc_ok_def dl_ok_def claim_env_def XY_FN_NOT_FOUND_def XY_FN_RESOLVE_OOM_def)
  have un: "key_get alist_qmap demo_c k = None" for k
    by (simp add: key_get_def mod_hd_get_def) (simp add: demo_c_def demo_h_def demo_def)
  have o: "opens claim_env alist_qmap ''x'' 7 1 demo_c"
    using un by (simp add: opens_def claim_env_def) (simp add: demo_c_def demo_h_def demo_def)
  have r: "regions demo_c 1 = Some demo_gate" by (simp add: demo_c_def)
  have c: "claimable claim_env alist_qmap ''x'' 7 demo_gate 2 demo_c"
    using un demo_c_slot by (simp add: claimable_def claim_env_def plain_path_def c_string_def XY_OK_def
        XY_REGION_INVALID_def demo_gate_def demo_region_def aligned_def)
  have i: "install_ok claim_env 7" by (simp add: install_ok_def claim_env_def)
  from claiming_load_opens_region [OF alist_qmap_laws E lib H o r c i] demo_c_slot show ?thesis by fastforce
qed

end
