(* ===== verification/Xy_Shutdown.thy ===== *)
theory Xy_Shutdown
  imports Xy_Api Xy_Taken
begin

text \<open>
  Shutting down and starting again: \<open>xy_runtime_teardown\<close> frees every module and region and
  leaves the library as it is at program start, except for the adapters and their ids,
  which stay registered.
\<close>

text \<open>What the teardown relies on: every module entry is in the table of modules, and region ids
  are the only keys of the table of regions.\<close>

definition tables_complete :: "'q qmap_ops \<Rightarrow> 'q xy_state \<Rightarrow> bool" where
  "tables_complete Q s \<longleftrightarrow> (\<forall>m. mods s m \<noteq> None \<longrightarrow> (\<exists>k. key_get Q s k = Some m))
     \<and> (\<forall>h k v. region_hd s = Some h \<longrightarrow> qmap_get Q h k = Some v \<longrightarrow> (\<exists>rid. k = KId rid))"

lemma free_mods_ok:
  assumes C: "cleanup_ok E"
  shows "distinct (map fst kvs)
    \<Longrightarrow> (\<And>k v. (k, v) \<in> set kvs \<Longrightarrow> \<exists>a e. v = VPtr a \<and> mods s a = Some e \<and> me_handle e \<noteq> None \<and> k = KBlob (me_mod_key e))
    \<Longrightarrow> \<exists>v. free_mods E kvs s = Some (s\<lparr>mods := (\<lambda>a. if VPtr a \<in> snd ` set kvs then None else mods s a), states := v\<rparr>)"
proof (induction kvs arbitrary: s)
  case Nil
  have "s\<lparr>mods := mods s, states := states s\<rparr> = s" by simp
  then show ?case by (intro exI [of _ "states s"]) simp
next
  case (Cons kv kvs)
  obtain k v where kv: "kv = (k, v)" by fastforce
  from Cons.prems(2) [of k v] kv obtain a e where a: "v = VPtr a" "mods s a = Some e" "me_handle e \<noteq> None" "k = KBlob (me_mod_key e)"
    by auto
  from free_one_ok [OF C a(2,3)] obtain u where
    "module_free_entry E (Some a) s = Some ((free_mod a s)\<lparr>states := u\<rparr>)" .
  then have u: "module_free_entry E (Some a) s = Some (s\<lparr>mods := (mods s)(a := None), states := u\<rparr>)"
    by (simp add: free_mod_def)
  let ?t = "s\<lparr>mods := (mods s)(a := None), states := u\<rparr>"
  have "\<exists>v. free_mods E kvs ?t = Some (?t\<lparr>mods := (\<lambda>b. if VPtr b \<in> snd ` set kvs then None else mods ?t b), states := v\<rparr>)"
  proof (rule Cons.IH)
    show "distinct (map fst kvs)" using Cons.prems(1) by simp
    fix k' v' assume m: "(k', v') \<in> set kvs"
    with Cons.prems(2) [of k' v'] obtain b e' where b: "v' = VPtr b" "mods s b = Some e'" "me_handle e' \<noteq> None"
      "k' = KBlob (me_mod_key e')" by auto
    have "k' \<noteq> k" using Cons.prems(1) m kv by force
    with a b have "b \<noteq> a" by auto
    with b show "\<exists>a e. v' = VPtr a \<and> mods ?t a = Some e \<and> me_handle e \<noteq> None \<and> k' = KBlob (me_mod_key e)" by simp
  qed
  then obtain v' where v': "free_mods E kvs ?t
      = Some (?t\<lparr>mods := (\<lambda>b. if VPtr b \<in> snd ` set kvs then None else mods ?t b), states := v'\<rparr>)" ..
  have "(\<lambda>b. if VPtr b \<in> snd ` set kvs then None else mods ?t b)
      = (\<lambda>b. if VPtr b \<in> snd ` set (kv # kvs) then None else mods s b)"
    using kv a(1) by (auto simp: fun_eq_iff)
  with v' u kv a(1) show ?case by (intro exI [of _ v']) (simp del: set_simps)
qed

lemma free_regions_ok:
  "distinct (map fst kvs) \<Longrightarrow> (\<And>k v. (k, v) \<in> set kvs \<Longrightarrow> \<exists>a e. v = VPtr a \<and> regions s a = Some e \<and> k = KId (re_id e))
    \<Longrightarrow> free_regions kvs s = Some (s\<lparr>regions := (\<lambda>a. if VPtr a \<in> snd ` set kvs then None else regions s a)\<rparr>)"
proof (induction kvs arbitrary: s)
  case Nil
  then show ?case by simp
next
  case (Cons kv kvs)
  obtain k v where kv: "kv = (k, v)" by fastforce
  from Cons.prems(2) [of k v] kv obtain a e where a: "v = VPtr a" "regions s a = Some e" "k = KId (re_id e)" by auto
  let ?t = "s\<lparr>regions := (regions s)(a := None)\<rparr>"
  have "free_regions kvs ?t = Some (?t\<lparr>regions := (\<lambda>b. if VPtr b \<in> snd ` set kvs then None else regions ?t b)\<rparr>)"
  proof (rule Cons.IH)
    show "distinct (map fst kvs)" using Cons.prems(1) by simp
    fix k' v' assume m: "(k', v') \<in> set kvs"
    with Cons.prems(2) [of k' v'] obtain b e' where b: "v' = VPtr b" "regions s b = Some e'" "k' = KId (re_id e')" by auto
    have "k' \<noteq> k" using Cons.prems(1) m kv by force
    with a b have "b \<noteq> a" by auto
    with b show "\<exists>a e. v' = VPtr a \<and> regions ?t a = Some e \<and> k' = KId (re_id e)" by simp
  qed
  moreover have "(\<lambda>b. if VPtr b \<in> snd ` set kvs then None else regions ?t b)
      = (\<lambda>b. if VPtr b \<in> snd ` set (kv # kvs) then None else regions s b)"
    using kv a(1) by (auto simp: fun_eq_iff)
  ultimately show ?case using kv a(1,2) by (simp add: region_entry_free_def del: set_simps)
qed

text \<open>The state after a shutdown.\<close>

definition emptied :: "(addr \<Rightarrow> byte list option) \<Rightarrow> 'q xy_state \<Rightarrow> 'q xy_state" where
  "emptied v s = s\<lparr>xy_inited := False, mods := (\<lambda>_. None), states := v, mod_hd := None, mod_by_region_hd := None,
     regions := (\<lambda>_. None), region_hd := None, path_intern_hd := None, xy_mod_count := 0,
     xy_current_region_entry := None, xy_current_region_id := XY_REGION_ROOT, xy_last_ran := 0, xy_last_retp := RNull,
     cur_adapter := None, xy_err_val := XY_OK\<rparr>"

lemma shutdown_ok:
  assumes Q: "qmap_laws Q" and C: "cleanup_ok E" and lib: "wf_lib Q s" and ent: "wf_entries s"
    and tab: "tables_complete Q s"
  shows "\<exists>v. xy_shutdown E Q s = Some (emptied v s)"
proof -
  note w = wf_libD [OF lib]
  from w(6) obtain h where h: "mod_hd s = Some h" by auto
  from w(3) obtain rh where rh: "region_hd s = Some rh"
    "\<And>p e. regions s p = Some e \<Longrightarrow> qmap_get Q rh (KId (re_id e)) = Some (VPtr p)"
    "\<And>rid v. qmap_get Q rh (KId rid) = Some v \<Longrightarrow> \<exists>p e. v = VPtr p \<and> regions s p = Some e \<and> re_id e = rid"
    unfolding wf_index_def by blast
  note iter = qmap_iter_get [OF Q] and dist = qmap_iter_distinct [OF Q]
  let ?s0 = "s\<lparr>xy_inited := False\<rparr>"
  have ptrs: "\<exists>a e. v = VPtr a \<and> mods ?s0 a = Some e \<and> me_handle e \<noteq> None \<and> k = KBlob (me_mod_key e)"
    if "(k, v) \<in> set (qmap_iter Q h)" for k v
  proof -
    from that iter w(10) h obtain a e where "v = VPtr a" "mods s a = Some e" "k = KBlob (me_mod_key e)"
      unfolding wf_modtab_def by blast
    with ent show ?thesis unfolding wf_entries_def by auto
  qed
  from free_mods_ok [OF C dist ptrs] obtain v where v: "free_mods E (qmap_iter Q h) ?s0
      = Some (?s0\<lparr>mods := (\<lambda>a. if VPtr a \<in> snd ` set (qmap_iter Q h) then None else mods ?s0 a), states := v\<rparr>)" by blast
  have none: "(\<lambda>a. if VPtr a \<in> snd ` set (qmap_iter Q h) then None else mods ?s0 a) = (\<lambda>_. None)"
  proof
    fix a
    show "(if VPtr a \<in> snd ` set (qmap_iter Q h) then None else mods ?s0 a) = None"
    proof (cases "mods s a = None")
      case False
      with tab obtain k where "key_get Q s k = Some a" unfolding tables_complete_def by blast
      with h have "qmap_get Q h (KBlob k) = Some (VPtr a)"
        by (auto simp: key_get_def mod_hd_get_def qmap_ptr_def split: option.splits qval.splits)
      with iter have "(KBlob k, VPtr a) \<in> set (qmap_iter Q h)" by blast
      then show ?thesis by force
    qed simp
  qed
  let ?s2 = "?s0\<lparr>mods := (\<lambda>_. None), states := v, mod_hd := None, mod_by_region_hd := None\<rparr>"
  have rptrs: "\<exists>a e. u = VPtr a \<and> regions ?s2 a = Some e \<and> k = KId (re_id e)" if "(k, u) \<in> set (qmap_iter Q rh)" for k u
  proof -
    from that iter have g: "qmap_get Q rh k = Some u" by blast
    with tab rh(1) obtain rid where "k = KId rid" unfolding tables_complete_def by blast
    with rh(3) g show ?thesis by fastforce
  qed
  have rnone: "(\<lambda>a. if VPtr a \<in> snd ` set (qmap_iter Q rh) then None else regions ?s2 a) = (\<lambda>_. None)"
  proof
    fix a
    show "(if VPtr a \<in> snd ` set (qmap_iter Q rh) then None else regions ?s2 a) = None"
    proof (cases "regions s a")
      case (Some e)
      with rh(2) iter have "(KId (re_id e), VPtr a) \<in> set (qmap_iter Q rh)" by blast
      then show ?thesis by force
    qed simp
  qed
  have fr: "free_regions (qmap_iter Q rh) ?s2 = Some (?s2\<lparr>regions := (\<lambda>_. None)\<rparr>)"
    using free_regions_ok [OF dist rptrs] rnone by simp
  have "xy_shutdown E Q s = Some (emptied v s)"
    using w(1) h rh(1) v none fr
    by (simp add: xy_shutdown_def xy_runtime_teardown_def path_intern_free_all_def xy_set_err_def emptied_def)
  then show ?thesis by (intro exI [of _ v])
qed

text \<open>(C20) \<open>xy_shutdown\<close> of a library in order frees every module and every region, whatever the
  order the tables are walked in, and leaves it as at program start; hook ids and adapters stay
  registered.  The next API call brings it up again with a fresh root region.\<close>

theorem shutdown_then_restart:
  assumes Q: "qmap_laws Q" and C: "cleanup_ok E" and lib: "wf_lib Q s" and ent: "wf_entries s"
    and tab: "tables_complete Q s" and m: "\<And>s. e_malloc E s AllocRegion"
  shows "\<exists>s' t. xy_shutdown E Q s = Some s' \<and> quiet Q s' \<and> xy_errno s' = XY_OK \<and> xy_mod_count s' = 0
    \<and> hook_id_hd s' = hook_id_hd s \<and> sica_hd s' = sica_hd s \<and> xy_hook_id_counter s' = xy_hook_id_counter s
    \<and> adapters s' = adapters s
    \<and> xy_runtime_ensure E Q s' = Some (XY_OK, t) \<and> wf_lib Q t"
proof -
  from shutdown_ok [OF Q C lib ent tab] obtain v where v: "xy_shutdown E Q s = Some (emptied v s)" ..
  have q: "quiet Q (emptied v s)"
    using wf_libD(4) [OF lib] by (simp add: emptied_def quiet_def wf_intern_def path_hd_def qmap_simps [OF Q])
  from bootstrap_ok [OF Q q m] obtain t where t: "xy_runtime_bootstrap E Q (emptied v s) = Some (XY_OK, t)" "wf_lib Q t"
    by blast
  then have "xy_runtime_ensure E Q (emptied v s) = Some (XY_OK, t)" by (simp add: xy_runtime_ensure_def emptied_def)
  with v q t(2) show ?thesis by (intro exI [of _ "emptied v s"] exI [of _ t]) (simp add: xy_errno_def emptied_def)
qed

text \<open>A library with one module, \<open>m\<close> in the root region, loaded and in the table.\<close>

definition demo_one :: "demo_q xy_state" where
  "demo_one = xy_boot\<lparr>regions := [1 \<mapsto> demo_region 0 0 0 None None None (Some 5) (Some 5)],
     mods := [5 \<mapsto> demo_mod (Some 1) 0 None None None], next_addr := 30,
     mod_hd := Some [(KBlob ''k'', VPtr 5)], mod_by_region_hd := Some [], sica_hd := Some [],
     path_intern_hd := Some [], region_hd := Some [(KId 0, VPtr 1)], hook_id_hd := Some [],
     xy_inited := True, xy_current_region_entry := Some 1\<rparr>"

lemma demo_one_sel:
  "regions demo_one = [1 \<mapsto> demo_region 0 0 0 None None None (Some 5) (Some 5)]"
  "mods demo_one = [5 \<mapsto> demo_mod (Some 1) 0 None None None]" "next_addr demo_one = 30"
  "mod_hd demo_one = Some [(KBlob ''k'', VPtr 5)]" "region_hd demo_one = Some [(KId 0, VPtr 1)]"
  by (simp_all add: demo_one_def)

lemma demo_one_list: "mod_list demo_one 1 [5]"
  by (simp add: mod_list_def link_defs demo_one_sel demo_region_def demo_mod_def)

lemma demo_one_tree: "wf_tree demo_one"
proof -
  have "wf_parents demo_one" by (simp add: wf_parents_def demo_one_sel demo_region_def)
  moreover have "wf_children demo_one"
    by (auto simp: wf_children_def region_parent_def demo_one_sel demo_region_def)
  moreover have "wf_mods demo_one" using demo_one_list by (auto simp: wf_mods_def demo_one_sel)
  ultimately show ?thesis by (simp add: wf_tree_def)
qed

lemma demo_one_wf_lib: "wf_lib alist_qmap demo_one"
proof -
  have "wf_index alist_qmap demo_one" by (auto simp: wf_index_def demo_one_sel demo_region_def split: if_splits)
  moreover have "wf_intern alist_qmap demo_one" by (simp add: wf_intern_def demo_one_def xy_boot_def path_hd_def)
  moreover have "wf_current demo_one" by (simp add: wf_current_def demo_one_def xy_boot_def demo_region_def XY_REGION_ROOT_def)
  moreover have "wf_modtab alist_qmap demo_one" by (auto simp: wf_modtab_def demo_one_sel demo_mod_def split: if_splits)
  ultimately show ?thesis using demo_one_tree by (simp add: wf_lib_def) (simp add: demo_one_def)
qed

theorem shutdown_then_restart_witness:
  "\<exists>s' t. xy_shutdown demo_env alist_qmap demo_one = Some s' \<and> quiet alist_qmap s' \<and> wf_lib alist_qmap t
    \<and> xy_runtime_ensure demo_env alist_qmap s' = Some (XY_OK, t)"
proof -
  have "region_mods demo_one 1 = [5]" using mod_list_walk(1) [OF wf_tree_parts(3) [OF demo_one_tree] demo_one_list] .
  then have e: "wf_entries demo_one" by (simp add: wf_entries_def demo_one_sel demo_mod_def)
  have k: "key_get alist_qmap demo_one ''k'' = Some 5" by (simp add: key_get_def mod_hd_get_def demo_one_sel)
  have t: "tables_complete alist_qmap demo_one"
    unfolding tables_complete_def
  proof (intro conjI allI impI)
    fix m assume "mods demo_one m \<noteq> None"
    then have "m = 5" by (simp add: demo_one_sel split: if_splits)
    with k show "\<exists>k. key_get alist_qmap demo_one k = Some m" by blast
  qed (auto simp: demo_one_sel split: if_splits)
  from shutdown_then_restart [OF alist_qmap_laws demo_cleanup_ok demo_one_wf_lib e t] show ?thesis by auto
qed

end
