(* ===== verification/Xy_Coherent.thy ===== *)
theory Xy_Coherent
  imports Xy_Adapter Xy_Loads
begin

text \<open>
  The coherence of the library's three levels of caches: a clean subtree cache of a region lists
  the modules of its subtree; a dispatch vector of the region's current generation holds the
  listeners of its hook; and a module's symbol cache tells what the object exports.  The
  functions that read a cache rely on it, the functions that change what a cache depends on
  mark it (\<open>subtree_mods_dirty\<close>, \<open>dispatch_gen\<close>).  Here: the invariant and what it gives a call.
\<close>

section \<open>The invariant\<close>

definition holds :: "xy_hook_dispatch_cache \<Rightarrow> xy_dispatch_slot list \<Rightarrow> bool" where
  "holds c l \<longleftrightarrow> hd_count c = length l \<and> length l \<le> length (slots c) \<and> take (length l) (slots c) = l"

text \<open>One vector: it is of an earlier generation, or it holds the listeners of the hook that has
  its index.\<close>

definition vector_ok :: "'q env \<Rightarrow> 'q qmap_ops \<Rightarrow> 'q xy_state \<Rightarrow> rptr \<Rightarrow> u64 \<Rightarrow> int \<Rightarrow> xy_hook_dispatch_cache \<Rightarrow> bool" where
  "vector_ok E Q s r g j c \<longleftrightarrow> region_gen c \<le> g \<and> (region_gen c = g \<longrightarrow>
     (\<exists>name chain. hook_num Q s name = Some j \<and> call_chain (Some r) s = Some chain
        \<and> holds c (listener_slots E Q s chain name (subtree_list s r))))"

definition region_ok :: "'q env \<Rightarrow> 'q qmap_ops \<Rightarrow> 'q xy_state \<Rightarrow> rptr \<Rightarrow> 'q xy_region_entry \<Rightarrow> bool" where
  "region_ok E Q s r e \<longleftrightarrow> dispatch_gen e \<noteq> 0 \<and> (\<not> subtree_mods_dirty e \<longrightarrow> subtree_mods e = subtree_list s r)
     \<and> (\<forall>j c. nth_opt (hook_dispatch e) j = Some c \<longrightarrow> vector_ok E Q s r (dispatch_gen e) j c)"

definition mod_ok :: "'q env \<Rightarrow> 'q qmap_ops \<Rightarrow> 'q xy_state \<Rightarrow> xy_mod_entry \<Rightarrow> bool" where
  "mod_ok E Q s e \<longleftrightarrow> mod_hooks_ok E Q s e \<and> (\<forall>n i. hook_num Q s n = Some i \<longrightarrow> hook_live E n i e)"

definition coherent :: "'q env \<Rightarrow> 'q qmap_ops \<Rightarrow> 'q xy_state \<Rightarrow> bool" where
  "coherent E Q s \<longleftrightarrow> wf_lib Q s \<and> wf_hooks Q s \<and> (\<forall>m e. mods s m = Some e \<longrightarrow> mod_ok E Q s e)
     \<and> (\<forall>r e. regions s r = Some e \<longrightarrow> region_ok E Q s r e)"

lemma coherentD:
  assumes "coherent E Q s"
  shows "wf_lib Q s" "wf_hooks Q s" "mods s m = Some e \<Longrightarrow> mod_ok E Q s e" "regions s r = Some x \<Longrightarrow> region_ok E Q s r x"
  using assms unfolding coherent_def by blast+

lemma hook_num_unique:
  assumes "wf_hooks Q s" and "hook_num Q s n = Some i" and "hook_num Q s n' = Some i"
  shows "n = n'"
proof -
  from assms(1) obtain h where h: "hook_id_hd s = Some h"
    "\<And>n n' i. qmap_get Q h (KStr n) = Some (VInt i) \<Longrightarrow> qmap_get Q h (KStr n') = Some (VInt i) \<Longrightarrow> n = n'"
    unfolding wf_hooks_def by (elim conjE exE) (rule that, assumption, blast)
  with assms(2,3) show ?thesis by (simp add: hook_num_iff [OF assms(1) h(1)])
qed

lemma hook_num_bounds:
  assumes "wf_hooks Q s" and "hook_num Q s n = Some i"
  shows "0 \<le> i \<and> i < xy_hook_id_counter s"
proof -
  from assms(1) obtain h where h: "hook_id_hd s = Some h"
    "\<And>k v. qmap_get Q h k = Some v \<Longrightarrow> \<exists>n i. k = KStr n \<and> v = VInt i \<and> 0 \<le> i \<and> i < xy_hook_id_counter s"
    unfolding wf_hooks_def by (elim conjE exE) (rule that, assumption, blast)
  from h(2) [of "KStr n" "VInt i"] assms(2) show ?thesis by (simp add: hook_num_iff [OF assms(1) h(1)])
qed

lemma vector_is_holds:
  "vector_is s r i l \<longleftrightarrow> (\<exists>e c. regions s r = Some e \<and> nth_opt (hook_dispatch e) i = Some c \<and> region_gen c = dispatch_gen e \<and> holds c l)"
  by (auto simp: vector_is_def holds_def get_cache_def)

text \<open>In a coherent state every region is ready for a call of every registered hook.\<close>

lemma coherent_dispatch_ok:
  assumes c: "coherent E Q s" and e: "regions s r = Some e" and i: "hook_num Q s name = Some i"
    and chain: "call_chain (Some r) s = Some chain"
  shows "dispatch_ok E Q s r i name chain"
proof -
  note d = coherentD [OF c]
  have r: "dispatch_gen e \<noteq> 0" "\<not> subtree_mods_dirty e \<longrightarrow> subtree_mods e = subtree_list s r"
    "\<And>j c. nth_opt (hook_dispatch e) j = Some c \<Longrightarrow> vector_ok E Q s r (dispatch_gen e) j c"
    using d(4) [OF e] unfolding region_ok_def by blast+
  have "vector_is s r i (listener_slots E Q s chain name (subtree_list s r))"
    if "get_cache r i s = Some c" "region_gen c = dispatch_gen e" for c
  proof -
    have n: "nth_opt (hook_dispatch e) i = Some c" using that(1) e by (simp add: get_cache_def)
    with r(3) [OF n] that(2) obtain name' where "hook_num Q s name' = Some i"
      "holds c (listener_slots E Q s chain name' (subtree_list s r))" using chain by (auto simp: vector_ok_def)
    with hook_num_unique [OF d(2) i] e n that(2) show ?thesis unfolding vector_is_holds by blast
  qed
  moreover have "\<exists>x. mods s m = Some x \<and> me_handle x \<noteq> None \<and> hook_live E name i x" if "m \<in> set (subtree_list s r)" for m
  proof -
    from subtree_list_set(1) [OF wf_libD(2) [OF d(1)], of r] e that obtain q where "m \<in> set (region_mods s q)" by auto
    with region_mods_live [OF d(1)] obtain x where x: "mods s m = Some x" by blast
    with d(3) [OF x] i show ?thesis by (auto simp: mod_ok_def mod_hooks_ok_def)
  qed
  ultimately show ?thesis using e r(1,2) unfolding dispatch_ok_def by blast
qed

section \<open>What the caches depend on\<close>

text \<open>The part of a region entry that places it in the tree.\<close>

definition rskel :: "'q xy_region_entry \<Rightarrow> _" where
  "rskel e = (re_parent e, children_head e, sibling_next e, re_plen e)"

definition same_skel :: "'q xy_state \<Rightarrow> 'q xy_state \<Rightarrow> bool" where
  "same_skel s s' \<longleftrightarrow> (\<forall>p. map_option rskel (regions s' p) = map_option rskel (regions s p))"

lemma same_skel_views:
  assumes "same_skel s s'"
  shows "region_parent s' = region_parent s" "region_sibling s' = region_sibling s" "region_rank s' = region_rank s"
    "regions s' p = None \<longleftrightarrow> regions s p = None"
    "regions s' p = Some e' \<Longrightarrow> regions s p = Some e \<Longrightarrow> children_head e' = children_head e"
proof -
  have k: "map_option rskel (regions s' p) = map_option rskel (regions s p)" for p using assms by (simp add: same_skel_def)
  have f: "map_option re_parent (regions s' p) = map_option re_parent (regions s p)"
    "map_option sibling_next (regions s' p) = map_option sibling_next (regions s p)"
    "map_option re_plen (regions s' p) = map_option re_plen (regions s p)" for p
    by (rule map_option_factor [OF k], simp add: rskel_def)+
  show "region_parent s' = region_parent s" by (simp add: region_parent_def fun_eq_iff f)
  show "region_sibling s' = region_sibling s" by (simp add: region_sibling_def fun_eq_iff f)
  have "region_rank s' p = region_rank s p" for p
    using f(3) [of p] by (cases "regions s p"; cases "regions s' p") (simp_all add: region_rank_def)
  then show "region_rank s' = region_rank s" by blast
  show "regions s' p = None \<longleftrightarrow> regions s p = None" using k [of p] by (metis map_option_is_None)
  show "children_head e' = children_head e" if "regions s' p = Some e'" "regions s p = Some e"
    using k [of p] that by (simp add: rskel_def)
qed

text \<open>The list of a subtree depends on the children and the modules of its regions only.\<close>

lemma subtree_list_children:
  assumes wf: "wf_tree s" "wf_tree s'" and live: "regions s p \<noteq> None"
    and sub: "\<And>q. ancestor s p q \<Longrightarrow> regions s' q \<noteq> None \<and> region_children s' q = region_children s q \<and> region_mods s' q = region_mods s q"
  shows "subtree_list s' p = subtree_list s p"
  using live sub
proof (induction "65 - region_rank s p" arbitrary: p rule: less_induct)
  case less
  note w = wf_tree_parts [OF wf(1)]
  have own: "regions s' p \<noteq> None" "region_children s' p = region_children s p" "region_mods s' p = region_mods s p"
    using less.prems ancestor_refl [OF w(1)] by blast+
  have "subtree_list s' c = subtree_list s c" if c: "c \<in> set (region_children s p)" for c
  proof -
    note k = region_child_rank [OF wf(1) less.prems(1) c]
    have "region_rank s p \<le> 64" using less.prems(1) region_forest.rank_bound [OF w(1)] by simp
    with k(2) have "65 - region_rank s c < 65 - region_rank s p" by simp
    moreover have "ancestor s p c" using ancestor_step [OF w(1) k(1)] ancestor_refl [OF w(1) less.prems(1)] by simp
    ultimately show ?thesis using less.hyps k(3) less.prems(2) ancestor_trans [OF w(1)] by blast
  qed
  then have "map (subtree_list s') (region_children s p) = map (subtree_list s) (region_children s p)" by (intro map_cong refl)
  with own show ?case
    using subtree_list_order [OF wf(1) less.prems(1)] subtree_list_order [OF wf(2) own(1)] by (simp only:)
qed

lemma region_children_same:
  assumes "wf_tree s" "wf_tree s'" and "regions s q = Some e" "regions s' q = Some e'" and "children_head e' = children_head e"
    and "\<And>c. c \<in> set (region_children s q) \<Longrightarrow> region_sibling s' c = region_sibling s c"
  shows "region_children s' q = region_children s q"
proof -
  note w = wf_tree_parts [OF assms(1)] and w' = wf_tree_parts [OF assms(2)]
  have "linked (region_sibling s') (children_head e') (region_children s q)"
    using region_children_list(1) [OF w(1,2) assms(3)] assms(5,6) linked_cong by metis
  from linked_unique [OF region_children_list(1) [OF w'(1,2) assms(4)] this] show ?thesis .
qed

lemma subtree_list_local:
  assumes wf: "wf_tree s" "wf_tree s'" and sk: "same_skel s s'" and live: "regions s p \<noteq> None"
    and ms: "\<And>q. ancestor s p q \<Longrightarrow> region_mods s' q = region_mods s q"
  shows "subtree_list s' p = subtree_list s p"
proof (rule subtree_list_children [OF wf live])
  fix q assume a: "ancestor s p q"
  note v = same_skel_views [OF sk]
  from ancestor_live(2) [OF a] obtain e where e: "regions s q = Some e" by auto
  with v(4) [of q] obtain e' where e': "regions s' q = Some e'" by auto
  have "region_children s' q = region_children s q"
    by (rule region_children_same [OF wf e e']) (use v(2,5) e e' in simp_all)
  with e' ms [OF a] show "regions s' q \<noteq> None \<and> region_children s' q = region_children s q \<and> region_mods s' q = region_mods s q"
    by simp
qed

text \<open>What a vector reads of a module, and of the regions of its chain.\<close>

definition mview :: "xy_mod_entry \<Rightarrow> _" where
  "mview e = (me_ctx e, load_path e, me_handle e)"

definition dview :: "'q xy_region_entry \<Rightarrow> _" where
  "dview e = (denied_modules e, denied_modules_set e)"

definition same_denies :: "'q xy_state \<Rightarrow> 'q xy_state \<Rightarrow> bool" where
  "same_denies s s' \<longleftrightarrow> (\<forall>a. map_option dview (regions s' a) = map_option dview (regions s a))"

lemma same_denies_chain: "same_denies s s' \<Longrightarrow> chain_denies Q s' chain p = chain_denies Q s chain p"
  by (rule chain_denies_cong) (simp add: same_denies_def dview_def [abs_def])

lemma listener_slots_view:
  assumes m: "\<And>m. m \<in> set ms \<Longrightarrow> map_option mview (mods s' m) = map_option mview (mods s m)"
    and d: "\<And>m x. m \<in> set ms \<Longrightarrow> mods s m = Some x \<Longrightarrow> chain_denies Q s' chain (load_path x) = chain_denies Q s chain (load_path x)"
  shows "listener_slots E Q s' chain name ms = listener_slots E Q s chain name ms"
proof -
  have "listens E Q s' chain name m = listens E Q s chain name m \<and> slot_for E s' name m = slot_for E s name m"
    if "m \<in> set ms" for m
    using m [OF that] d [OF that] by (cases "mods s m"; cases "mods s' m") (simp_all add: listens_def slot_for_def mview_def)
  then show ?thesis unfolding listener_slots_def by (intro map_cong filter_cong refl) auto
qed

lemma call_chain_same:
  assumes "same_skel s s'" and "map_option subtree_flags (regions s' r) = map_option subtree_flags (regions s r)"
  shows "call_chain (Some r) s' = call_chain (Some r) s"
proof -
  have "region_ancestor_chain s' (Some r) 65 = region_ancestor_chain s (Some r) 65"
    by (simp add: region_ancestor_chain_def same_skel_views(1) [OF assms(1)])
  with assms(2) show ?thesis by (cases "regions s r"; cases "regions s' r") (simp_all add: call_chain_def)
qed

section \<open>Regions that stay coherent\<close>

text \<open>A region whose caches are unchanged stays coherent when nothing they depend on has changed.\<close>

definition rcaches :: "'q xy_region_entry \<Rightarrow> _" where
  "rcaches e = (subtree_flags e, dispatch_gen e, subtree_mods e, subtree_mods_dirty e, hook_dispatch e)"

lemma region_ok_same_chain:
  assumes ok: "region_ok E Q s r e" and c: "rcaches e' = rcaches e" and ch: "call_chain (Some r) s' = call_chain (Some r) s"
    and dv: "\<And>m x chain. m \<in> set (subtree_list s r) \<Longrightarrow> mods s m = Some x \<Longrightarrow>
      call_chain (Some r) s = Some chain \<Longrightarrow> chain_denies Q s' chain (load_path x) = chain_denies Q s chain (load_path x)"
    and sub: "subtree_list s' r = subtree_list s r"
    and mv: "\<And>m. m \<in> set (subtree_list s r) \<Longrightarrow> map_option mview (mods s' m) = map_option mview (mods s m)"
    and num: "\<And>n i. hook_num Q s n = Some i \<Longrightarrow> hook_num Q s' n = Some i"
  shows "region_ok E Q s' r e'"
proof -
  have ls: "listener_slots E Q s' chain name (subtree_list s r) = listener_slots E Q s chain name (subtree_list s r)"
    if "call_chain (Some r) s = Some chain" for chain name
    by (rule listener_slots_view [OF mv dv [OF _ _ that]])
  have "vector_ok E Q s' r g j v" if "vector_ok E Q s r g j v" for g j v
    using that num ls unfolding vector_ok_def ch sub by (metis (no_types, lifting))
  then show ?thesis using ok c unfolding region_ok_def rcaches_def by (auto simp: sub)
qed

lemma region_ok_same_listed:
  assumes ok: "region_ok E Q s r e" and e: "regions s r = Some e" "regions s' r = Some e'" and c: "rcaches e' = rcaches e"
    and sk: "same_skel s s'" and dv: "\<And>m x chain. m \<in> set (subtree_list s r) \<Longrightarrow> mods s m = Some x \<Longrightarrow>
      call_chain (Some r) s = Some chain \<Longrightarrow> chain_denies Q s' chain (load_path x) = chain_denies Q s chain (load_path x)" and sub: "subtree_list s' r = subtree_list s r"
    and mv: "\<And>m. m \<in> set (subtree_list s r) \<Longrightarrow> map_option mview (mods s' m) = map_option mview (mods s m)"
    and num: "\<And>n i. hook_num Q s n = Some i \<Longrightarrow> hook_num Q s' n = Some i"
  shows "region_ok E Q s' r e'"
  by (rule region_ok_same_chain [OF ok c call_chain_same [OF sk] dv sub mv num]) (use e c in \<open>simp_all add: rcaches_def\<close>)

lemma region_ok_same:
  assumes "region_ok E Q s r e" and "regions s r = Some e" "regions s' r = Some e'" and "rcaches e' = rcaches e"
    and "same_skel s s'" and "same_denies s s'" and "subtree_list s' r = subtree_list s r"
    and "\<And>m. m \<in> set (subtree_list s r) \<Longrightarrow> map_option mview (mods s' m) = map_option mview (mods s m)"
    and "\<And>n i. hook_num Q s n = Some i \<Longrightarrow> hook_num Q s' n = Some i"
  shows "region_ok E Q s' r e'"
  by (rule region_ok_same_listed [OF assms(1-5) _ assms(7-9)]) (rule same_denies_chain [OF assms(6)])

text \<open>A region whose generation has moved on is coherent whatever else has changed, as long as
  the generation has not wrapped around.\<close>

lemma next_gen_less: "g \<noteq> - 1 \<Longrightarrow> g < next_gen g \<and> next_gen g \<noteq> 0" for g :: u64
proof -
  assume "g \<noteq> - 1"
  then have "g + 1 \<noteq> 0" by (metis add_eq_0_iff2)
  then have "unat (g + 1) = Suc (unat g)" using unatSuc [of g] by (simp add: add.commute)
  then have "g < g + 1" by (simp add: word_less_nat_alt)
  with \<open>g + 1 \<noteq> 0\<close> show ?thesis by (simp add: next_gen_def Let_def)
qed

lemma region_ok_bumped:
  assumes ok: "region_ok E Q s r e" and g: "dispatch_gen e' = next_gen (dispatch_gen e)" "dispatch_gen e \<noteq> - 1"
    and h: "hook_dispatch e' = hook_dispatch e" and sub: "\<not> subtree_mods_dirty e' \<longrightarrow> subtree_mods e' = subtree_list s' r"
  shows "region_ok E Q s' r e'"
proof -
  note n = next_gen_less [OF g(2)]
  have "vector_ok E Q s' r (dispatch_gen e') j c" if "nth_opt (hook_dispatch e') j = Some c" for j c
  proof -
    from that ok h have "region_gen c \<le> dispatch_gen e" by (simp add: region_ok_def vector_ok_def)
    with n g(1) have "region_gen c < dispatch_gen e'" by (auto intro: order.strict_trans1)
    then show ?thesis by (auto simp: vector_ok_def)
  qed
  with n g(1) sub show ?thesis by (simp add: region_ok_def)
qed


section \<open>Operations that keep the shape\<close>

text \<open>The hook table as the caches see it.\<close>

definition same_hooks :: "'q xy_state \<Rightarrow> 'q xy_state \<Rightarrow> bool" where
  "same_hooks s s' \<longleftrightarrow> hook_id_hd s' = hook_id_hd s \<and> xy_hook_id_counter s' = xy_hook_id_counter s"

lemma same_hooks_views:
  assumes "same_hooks s s'"
  shows "hook_num Q s' = hook_num Q s" "wf_hooks Q s' = wf_hooks Q s" "mod_ok E Q s' = mod_ok E Q s"
    "hook_pairs Q s' = hook_pairs Q s"
proof -
  show n: "hook_num Q s' = hook_num Q s" using assms by (simp add: same_hooks_def hook_num_def fun_eq_iff)
  show "wf_hooks Q s' = wf_hooks Q s" using assms by (simp add: same_hooks_def wf_hooks_def)
  have "mod_hooks_ok E Q s' = mod_hooks_ok E Q s" using assms n by (simp add: same_hooks_def mod_hooks_ok_def fun_eq_iff)
  then show "mod_ok E Q s' = mod_ok E Q s" by (simp add: mod_ok_def n fun_eq_iff)
  show "hook_pairs Q s' = hook_pairs Q s" by (simp add: hook_pairs_def n)
qed

lemma keeps_skel: "keeps s s' \<Longrightarrow> same_skel s s'"
proof -
  assume "keeps s s'"
  then have k: "map_option rlinks (regions s' p) = map_option rlinks (regions s p)" for p by (simp add: keeps_def same_shape_def)
  have "map_option rskel (regions s' p) = map_option rskel (regions s p)" for p
    by (rule map_option_factor [OF k]) (simp add: rlinks_def rskel_def)
  then show ?thesis by (simp add: same_skel_def)
qed

lemma keeps_subtree_list:
  assumes "keeps s s'" and "wf_lib Q s" and "regions s r \<noteq> None"
  shows "subtree_list s' r = subtree_list s r"
  by (rule subtree_list_local [OF wf_libD(2) [OF assms(2)] wf_libD(2) [OF keeps_wf_lib [OF assms(1,2)]] keeps_skel [OF assms(1)] assms(3)])
    (rule keeps_region_mods [OF assms(1) wf_libD(2) [OF assms(2)]])

text \<open>What remains to be shown for an operation that keeps the shape of the library and the
  hooks: every entry that changed is right again.\<close>

lemma coherent_kept:
  assumes c: "coherent E Q s" and k: "keeps s s'" and h: "same_hooks s s'"
    and m: "\<And>a e'. mods s' a = Some e' \<Longrightarrow> mod_ok E Q s e'"
    and r: "\<And>p e e'. regions s p = Some e \<Longrightarrow> regions s' p = Some e' \<Longrightarrow> region_ok E Q s p e \<Longrightarrow>
      subtree_list s' p = subtree_list s p \<Longrightarrow> region_ok E Q s' p e'"
  shows "coherent E Q s'"
proof -
  note d = coherentD [OF c] and v = same_hooks_views [OF h]
  have "region_ok E Q s' p e'" if e': "regions s' p = Some e'" for p e'
  proof -
    from same_skel_views(4) [OF keeps_skel [OF k], of p] e' obtain e where e: "regions s p = Some e" by auto
    show ?thesis by (rule r [OF e e' d(4) [OF e] keeps_subtree_list [OF k d(1)]]) (use e in simp)
  qed
  with m show ?thesis using keeps_wf_lib [OF k d(1)] d(2) by (simp add: coherent_def v)
qed

text \<open>Writing what no cache depends on.\<close>

lemma coherent_frame:
  assumes c: "coherent E Q s" and k: "keeps s s'" and h: "same_hooks s s'" and rm: "regions s' = regions s" "mods s' = mods s"
  shows "coherent E Q s'"
proof (rule coherent_kept [OF c k h])
  show "mod_ok E Q s e'" if "mods s' a = Some e'" for a e' using that rm(2) coherentD(3) [OF c] by simp
  fix p e e' assume e: "regions s p = Some e" "regions s' p = Some e'" "region_ok E Q s p e" and sub: "subtree_list s' p = subtree_list s p"
  have "e' = e" using e(1,2) rm(1) by simp
  then show "region_ok E Q s' p e'"
    by (intro region_ok_same [OF e(3,1,2) _ keeps_skel [OF k] _ sub])
      (simp_all add: same_denies_def rm same_hooks_views(1) [OF h])
qed

end
