(* ===== verification/Xy_Coherent_Ops.thy ===== *)
theory Xy_Coherent_Ops
  imports Xy_Coherent
begin

text \<open>
  The operations keep the caches coherent: denying a hook, calling, registering an adapter, and
  joining a module to its region.
\<close>

section \<open>Denying a hook\<close>

lemma deny_fields:
  "dview (flag_and_bump e) = dview e" "dview (add_hook_deny Q what e) = dview e"
  "hook_dispatch (flag_and_bump e) = hook_dispatch e" "hook_dispatch (add_hook_deny Q what e) = hook_dispatch e"
  "subtree_mods (flag_and_bump e) = subtree_mods e" "subtree_mods (add_hook_deny Q what e) = subtree_mods e"
  "subtree_mods_dirty (flag_and_bump e) = subtree_mods_dirty e"
  "subtree_mods_dirty (add_hook_deny Q what e) = subtree_mods_dirty e"
  by (simp_all add: dview_def flag_and_bump_def bump_gen_def set_deny_flag_def add_hook_deny_def)

text \<open>Generations count up to \<open>2^64 - 1\<close>; the next step would make old vectors current again.\<close>

definition fresh_gens :: "'q xy_state \<Rightarrow> bool" where
  "fresh_gens s \<longleftrightarrow> (\<forall>r e. regions s r = Some e \<longrightarrow> dispatch_gen e \<noteq> - 1)"

lemma next_gen_fresh: "g \<noteq> - 1 \<Longrightarrow> g \<noteq> - 2 \<Longrightarrow> next_gen g \<noteq> - 1" for g :: u64
proof -
  assume g: "g \<noteq> - 1" "g \<noteq> - 2"
  then have "g + 1 \<noteq> 0" "g + 1 \<noteq> - 1" by (auto simp: eq_neg_iff_add_eq_0 add.assoc)
  then show "next_gen g \<noteq> - 1" by (simp add: next_gen_def Let_def)
qed

text \<open>Two steps that each raise the generation of a region at most once.\<close>

definition fresh_twice :: "'q xy_state \<Rightarrow> bool" where
  "fresh_twice s \<longleftrightarrow> (\<forall>r e. regions s r = Some e \<longrightarrow> dispatch_gen e \<noteq> - 1 \<and> dispatch_gen e \<noteq> - 2)"

lemma fresh_twice_step:
  assumes "fresh_twice s" and "\<And>p e'. regions t p = Some e' \<Longrightarrow> \<exists>e. regions s p = Some e \<and>
    (dispatch_gen e' = dispatch_gen e \<or> dispatch_gen e' = next_gen (dispatch_gen e))"
  shows "fresh_gens s" and "fresh_gens t"
proof -
  show "fresh_gens s" using assms(1) by (simp add: fresh_twice_def fresh_gens_def)
  show "fresh_gens t"
    unfolding fresh_gens_def
  proof (intro allI impI)
    fix p e' assume "regions t p = Some e'"
    from assms(2) [OF this] obtain e where "regions s p = Some e" "dispatch_gen e' = dispatch_gen e \<or> dispatch_gen e' = next_gen (dispatch_gen e)" by blast
    with assms(1) next_gen_fresh show "dispatch_gen e' \<noteq> - 1" unfolding fresh_twice_def by metis
  qed
qed

text \<open>An operation that marks some regions and leaves what the others depend on as it was.\<close>

lemma region_ok_marked:
  assumes lib0: "wf_lib Q s" and ok: "region_ok E Q s p e" and g: "fresh_gens s" and lib: "wf_lib Q t" and sk: "same_skel s t"
    and h: "same_hooks s t" and e: "regions s p = Some e" "regions t p = Some e'"
    and marked: "up \<Longrightarrow> dispatch_gen e' = next_gen (dispatch_gen e) \<and> hook_dispatch e' = hook_dispatch e \<and> subtree_mods_dirty e'"
    and kept: "\<not> up \<Longrightarrow> rcaches e' = rcaches e \<and> (\<forall>q. ancestor s p q \<longrightarrow> region_mods t q = region_mods s q)"
    and mv: "\<And>a. \<not> up \<Longrightarrow> a \<in> set (subtree_list s p) \<Longrightarrow> map_option mview (mods t a) = map_option mview (mods s a)"
    and dv: "\<And>a y chain. \<not> up \<Longrightarrow> a \<in> set (subtree_list s p) \<Longrightarrow> mods s a = Some y \<Longrightarrow>
      chain_denies Q t chain (load_path y) = chain_denies Q s chain (load_path y)"
  shows "region_ok E Q t p e'"
proof (cases up)
  case True
  with marked g e(1) show ?thesis by (intro region_ok_bumped [OF ok]) (auto simp: fresh_gens_def)
next
  case False
  with kept have k: "rcaches e' = rcaches e" "\<And>q. ancestor s p q \<Longrightarrow> region_mods t q = region_mods s q" by blast+
  have sub: "subtree_list t p = subtree_list s p"
    by (rule subtree_list_local [OF wf_libD(2) [OF lib0] wf_libD(2) [OF lib] sk]) (use e k(2) in simp_all)
  show ?thesis
    by (rule region_ok_same_listed [OF ok e k(1) sk _ sub mv [OF False]])
      (simp_all add: same_hooks_views(1) [OF h] dv [OF False])
qed

lemma coherent_deny_hook:
  assumes c: "coherent E Q s" and A: "alloc_ok E" and g: "fresh_gens s"
  shows "\<exists>s'. xy_deny E Q what XY_DENY_HOOK s = Some (XY_OK, s') \<and> coherent E Q s' \<and> keeps s s'"
proof -
  note d = coherentD [OF c]
  from wf_libD(5) [OF d(1)] obtain reg where reg: "xy_current_region_entry s = Some reg" by (auto simp: wf_current_def)
  from xy_deny_hook_ok [OF A d(1) reg, of what] obtain s' where s': "xy_deny E Q what XY_DENY_HOOK s = Some (XY_OK, s')"
    "keeps s s'" "s' = s\<lparr>regions := regions s', xy_err_val := XY_OK\<rparr>"
    "\<forall>p. regions s' p = map_option (deny_effect (add_hook_deny Q what) reg s p) (regions s p)" by blast
  have ms: "mods s' = mods s" by (subst s'(3)) simp
  have sh: "same_hooks s s'" by (subst s'(3)) (simp add: same_hooks_def)
  have dv: "same_denies s s'"
  proof -
    have "dview (deny_effect (add_hook_deny Q what) reg s p e) = dview e" for p e by (simp add: deny_effect_def deny_fields)
    then show ?thesis using s'(4) by (simp add: same_denies_def option.map_comp comp_def)
  qed
  have "coherent E Q s'"
  proof (rule coherent_kept [OF c s'(2) sh])
    show "mod_ok E Q s e'" if "mods s' a = Some e'" for a e' using that ms d(3) by simp
    fix p e e' assume e: "regions s p = Some e" "regions s' p = Some e'" "region_ok E Q s p e" and sub: "subtree_list s' p = subtree_list s p"
    have e': "e' = deny_effect (add_hook_deny Q what) reg s p e" using s'(4) e(1,2) by simp
    show "region_ok E Q s' p e'"
    proof (cases "ancestor s p reg")
      case True
      then have "dispatch_gen e' = next_gen (dispatch_gen e)" "hook_dispatch e' = hook_dispatch e"
        "subtree_mods e' = subtree_mods e" "subtree_mods_dirty e' = subtree_mods_dirty e"
        by (simp_all add: e' deny_effect_def deny_fields deny_sel)
      then show ?thesis using e(1,3) g sub by (intro region_ok_bumped [OF e(3)]) (auto simp: fresh_gens_def region_ok_def)
    next
      case False
      then have "e' = e" by (simp add: e' deny_effect_def)
      then show ?thesis
        by (intro region_ok_same [OF e(3,1,2) _ keeps_skel [OF s'(2)] dv sub])
          (simp_all add: ms same_hooks_views(1) [OF sh])
    qed
  qed
  with s'(1,2) show ?thesis by blast
qed


section \<open>Claim handlers\<close>

text \<open>No cache depends on the claim handler of a region.\<close>

lemma coherent_entry_upd:
  assumes c: "coherent E Q s" and e: "regions s r = Some e"
    and same: "rlinks e' = rlinks e" "re_id e' = re_id e" "rcaches e' = rcaches e" "dview e' = dview e"
  shows "coherent E Q (s\<lparr>regions := (regions s)(r \<mapsto> e')\<rparr>)" (is "coherent E Q ?t") and "keeps s (s\<lparr>regions := (regions s)(r \<mapsto> e')\<rparr>)"
proof -
  show k: "keeps s ?t" by (rule keeps_region_upd [OF e, of "\<lambda>_. e'"]) (use same in simp_all)
  have h: "same_hooks s ?t" by (simp add: same_hooks_def)
  have dv: "same_denies s ?t" unfolding same_denies_def using e same(4) by simp
  show "coherent E Q ?t"
  proof (rule coherent_kept [OF c k h])
    show "mod_ok E Q s x" if "mods ?t a = Some x" for a x using that coherentD(3) [OF c] by simp
    fix p x x' assume x: "regions s p = Some x" "regions ?t p = Some x'" "region_ok E Q s p x" and sub: "subtree_list ?t p = subtree_list s p"
    have "rcaches x' = rcaches x" using x(1,2) e same(3) by (auto split: if_splits)
    then show "region_ok E Q ?t p x'"
      by (intro region_ok_same [OF x(3,1,2) _ keeps_skel [OF k] dv sub]) (simp_all add: same_hooks_views(1) [OF h])
  qed
qed

definition with_handler :: "code \<Rightarrow> addr \<Rightarrow> 'q xy_region_entry \<Rightarrow> 'q xy_region_entry" where
  "with_handler fn ud e = (if fn = 0 then e\<lparr>claim_handler := 0, claim_handler_ud := 0, require_claim := False\<rparr>
     else e\<lparr>claim_handler := fn, claim_handler_ud := ud, require_claim := True\<rparr>)"

lemma coherent_require_claim:
  assumes c: "coherent E Q s" and cur: "xy_current_region_entry s = Some r" and e: "regions s r = Some e"
  shows "\<exists>s'. xy_require_claim E Q fn ud s = Some (XY_OK, s') \<and> coherent E Q s' \<and> keeps s s'
    \<and> s' = s\<lparr>regions := (regions s)(r \<mapsto> with_handler fn ud e), xy_err_val := XY_OK\<rparr>"
proof -
  note lib = coherentD(1) [OF c] and w = wf_libD [OF coherentD(1) [OF c]]
  let ?t = "s\<lparr>regions := (regions s)(r \<mapsto> with_handler fn ud e)\<rparr>"
  let ?s' = "?t\<lparr>xy_err_val := XY_OK\<rparr>"
  have "xy_current_region_id s = re_id e" using w(5) cur e by (auto simp: wf_current_def)
  with region_lookup_iff [OF w(3)] e have "region_lookup Q (xy_current_region_id s) s = Some r" by auto
  then have "xy_require_claim E Q fn ud s = Some (XY_OK, ?s')"
    using w(1) e by (simp add: xy_require_claim_def ensured_def xy_runtime_ensure_def upd_region_def fail_with_def xy_set_err_def with_handler_def)
  moreover have same: "rlinks (with_handler fn ud e) = rlinks e" "re_id (with_handler fn ud e) = re_id e"
    "rcaches (with_handler fn ud e) = rcaches e" "dview (with_handler fn ud e) = dview e"
    by (simp_all add: with_handler_def rlinks_def rcaches_def dview_def)
  note u = coherent_entry_upd [OF c e same]
  have k: "keeps ?t ?s'" by (simp add: keeps_def same_shapeI)
  have "coherent E Q ?s'" by (rule coherent_frame [OF u(1) k]) (simp_all add: same_hooks_def)
  ultimately show ?thesis using keeps_trans [OF u(2) k] by blast
qed

section \<open>Calling\<close>

lemma resolved_mod_ok:
  assumes H: "wf_hooks Q s" and i: "hook_num Q s name = Some i" and o: "only_resolved E name i e e'" and ok: "mod_ok E Q s e"
  shows "mod_ok E Q s e'"
proof -
  have live: "hook_live E n j e'" if "hook_num Q s n = Some j" for n j
  proof -
    have "n = name \<longleftrightarrow> j = i" using that i hook_num_unique [OF H i, of n] by auto
    with o ok that show ?thesis unfolding only_resolved_def mod_ok_def by blast
  qed
  have "blank (xy_hook_id_counter s) e" using ok by (simp add: mod_ok_def mod_hooks_ok_def)
  then have "blank (xy_hook_id_counter s) e'"
    using o hook_num_bounds [OF H i] unfolding only_resolved_def blank_def by (metis linorder_not_less)
  moreover have "me_handle e' \<noteq> None"
    using only_resolved_fields(3) [OF o] ok by (simp add: mod_ok_def mod_hooks_ok_def)
  ultimately show ?thesis using live by (simp add: mod_ok_def mod_hooks_ok_def hook_live_def)
qed

lemma coherent_refreshed:
  assumes c: "coherent E Q s" and f: "refreshes E name i r s s'" and i: "hook_num Q s name = Some i"
    and chain: "call_chain (Some r) s = Some chain"
    and v: "vector_is s' r i (listener_slots E Q s chain name (subtree_list s r))"
  shows "coherent E Q s'"
proof -
  note d = coherentD [OF c] and k = refreshes_keeps [OF f]
  from f obtain er er' where er: "regions s r = Some er" "regions s' = (regions s)(r \<mapsto> er')" "recached s r i er er'"
    and form: "s' = s\<lparr>regions := regions s', mods := mods s', next_addr := next_addr s'\<rparr>"
    and ms: "\<And>a. mods s' a = None \<longleftrightarrow> mods s a = None"
    "\<And>a e e'. mods s a = Some e \<Longrightarrow> mods s' a = Some e' \<Longrightarrow> only_resolved E name i e e'"
    unfolding refreshes_def by blast
  note core = rcore_fields [OF recached_core [OF er(3)]]
  have h: "same_hooks s s'" by (subst form) (simp add: same_hooks_def)
  have mv: "map_option mview (mods s' a) = map_option mview (mods s a)" for a
  proof (cases "mods s a")
    case (Some e)
    with ms(1) obtain e' where e': "mods s' a = Some e'" by (cases "mods s' a") auto
    from only_resolved_fields [OF ms(2) [OF Some e']] Some e' show ?thesis by (simp add: mview_def)
  qed (use ms(1) in simp)
  have dv: "same_denies s s'" using er(1,2) core by (simp add: same_denies_def dview_def)
  show ?thesis
  proof (rule coherent_kept [OF c k h])
    fix a e' assume e': "mods s' a = Some e'"
    with ms(1) [of a] obtain e where e: "mods s a = Some e" by (cases "mods s a") auto
    show "mod_ok E Q s e'" by (rule resolved_mod_ok [OF d(2) i ms(2) [OF e e'] d(3) [OF e]])
  next
    fix p e e' assume e: "regions s p = Some e" "regions s' p = Some e'" "region_ok E Q s p e" and sub: "subtree_list s' p = subtree_list s p"
    note num = same_hooks_views(1) [OF h]
    show "region_ok E Q s' p e'"
    proof (cases "p = r")
      case False
      then have "e' = e" using e er by simp
      then show ?thesis
        by (intro region_ok_same [OF e(3,1,2) _ keeps_skel [OF k] dv sub mv]) (simp_all add: num)
    next
      case True
      then have er': "e = er" "e' = er'" using e er by simp_all
      have ch: "call_chain (Some r) s' = call_chain (Some r) s"
        by (rule call_chain_same [OF keeps_skel [OF k]]) (use er core in simp)
      have ls: "listener_slots E Q s' l n (subtree_list s r) = listener_slots E Q s l n (subtree_list s r)" for l n
        by (rule listener_slots_view [OF mv same_denies_chain [OF dv]])
      have sr: "subtree_list s' r = subtree_list s r" using sub True by simp
      have gen: "dispatch_gen er' = dispatch_gen er" "dispatch_gen er \<noteq> 0" using core e(3) er' by (simp_all add: region_ok_def)
      have "vector_ok E Q s' r (dispatch_gen er') j w" if w: "nth_opt (hook_dispatch er') j = Some w" for j w
      proof (cases "j = i")
        case True
        from v w er(2) True have "region_gen w = dispatch_gen er'"
          "holds w (listener_slots E Q s chain name (subtree_list s r))" by (auto simp: vector_is_holds)
        then show ?thesis using True i chain unfolding vector_ok_def ch sr ls num by (intro conjI impI) (simp, blast)
      next
        case False
        with er(3) w consider "nth_opt (hook_dispatch er) j = Some w" | "region_gen w = 0" unfolding recached_def by blast
        then show ?thesis
        proof cases
          case 1
          with e(3) er' True have "vector_ok E Q s r (dispatch_gen er) j w" by (simp add: region_ok_def)
          then show ?thesis unfolding vector_ok_def ch sr ls num gen(1) .
        qed (use gen in \<open>simp add: vector_ok_def\<close>)
      qed
      moreover have "\<not> subtree_mods_dirty er' \<longrightarrow> subtree_mods er' = subtree_list s' r"
        using er(3) e(3) er' True sr unfolding recached_def region_ok_def by auto
      ultimately show ?thesis using gen er' True by (simp add: region_ok_def)
    qed
  qed
qed


text \<open>An adapter that stands in the table: its name is registered under its id, and it has a function
  that the environment runs calmly.\<close>

definition ready :: "'q env \<Rightarrow> 'q qmap_ops \<Rightarrow> aptr \<Rightarrow> xy_adapter \<Rightarrow> 'q xy_state \<Rightarrow> bool" where
  "ready E Q reg ad s \<longleftrightarrow> adapters s reg = Some ad \<and> hook_num Q s (ad_name ad) = Some (ad_hook_id ad)
     \<and> ad_call ad \<noteq> 0 \<and> ret_size ad \<le> XY_MAX_RET_SIZE \<and> calm_call E (ad_call ad) (ret_size ad)
     \<and> length (xy_last_retbuf s) = XY_MAX_RET_SIZE"

text \<open>The listeners of a hook for a caller: those of its subtree that its ancestors do not deny.\<close>

definition listeners_for :: "'q env \<Rightarrow> 'q qmap_ops \<Rightarrow> 'q xy_state \<Rightarrow> rptr \<Rightarrow> string \<Rightarrow> xy_dispatch_slot list" where
  "listeners_for E Q s r name = (case call_chain (Some r) s of None \<Rightarrow> []
     | Some chain \<Rightarrow> listener_slots E Q s chain name (subtree_list s r))"

definition hook_denied :: "'q qmap_ops \<Rightarrow> 'q xy_state \<Rightarrow> rptr \<Rightarrow> string \<Rightarrow> bool" where
  "hook_denied Q s r name \<longleftrightarrow> (\<exists>chain. call_chain (Some r) s = Some chain \<and> hook_denied_by Q s chain name = Some True)"

lemma calm_coherent: "coherent E Q s \<Longrightarrow> calm s s' \<Longrightarrow> coherent E Q s'"
  by (rule coherent_frame) (simp_all add: calm_def same_hooks_def)

lemma coherent_call:
  assumes c: "coherent E Q s" and E: "alloc_ok E" "dl_ok E" and ad: "ready E Q reg ad s"
    and cur: "xy_current_region_entry s = Some r" and nd: "\<not> hook_denied Q s r (ad_name ad)"
    and buf: "buffer_ok (ret_size ad) retp" and l: "l = listeners_for E Q s r (ad_name ad)"
  shows "\<exists>s1 retp1 s2 retp2 s'.
      run_slots E reg (ad_call ad) arg (xy_current_region_id s) l 0 retp s1 = Some (length l, retp1, s2)
    \<and> xy_call E Q retp (Some reg) arg s = Some (if l = [] then XY_ERR_NOTFOUND else XY_OK, retp2, s')
    \<and> (l \<noteq> [] \<longrightarrow> retp2 = retp1) \<and> xy_last_ran s' = length l \<and> coherent E Q s'
    \<and> keeps s s' \<and> adapters s' = adapters s \<and> length (xy_last_retbuf s') = XY_MAX_RET_SIZE"
proof -
  note d = coherentD [OF c] and w = wf_libD [OF d(1)]
  note a = ad [unfolded ready_def]
  from w(5) cur obtain e where e: "regions s r = Some e" by (auto simp: wf_current_def)
  from call_chain_set [OF wf_tree_parts(1) [OF w(2)] e] obtain chain where chain: "call_chain (Some r) s = Some chain" by blast
  have hd: "hook_denied_by Q s chain (ad_name ad) = Some False"
    using nd chain hook_denied_by_iff [OF call_chain_live [OF wf_tree_parts(1) [OF w(2)] chain], of Q "ad_name ad"]
    unfolding hook_denied_def by auto
  have i: "hook_num Q s (ad_name ad) = Some (ad_hook_id ad)" using a by blast
  have i0: "0 \<le> ad_hook_id ad" using hook_num_bounds [OF d(2) i] by simp
  have l': "l = listener_slots E Q s chain (ad_name ad) (subtree_list s r)" by (simp add: l listeners_for_def chain)
  note ok = coherent_dispatch_ok [OF c e i chain]
  from a have ad': "calm_call E (ad_call ad) (ret_size ad)" "adapters s reg = Some ad" "ad_call ad \<noteq> 0"
    "ret_size ad \<le> XY_MAX_RET_SIZE" "length (xy_last_retbuf s) = XY_MAX_RET_SIZE" by blast+
  from xy_call_ok [OF E ad'(1) d(1) cur ad'(2) i0 ad'(3,4) chain hd ok buf ad'(5) l', of arg] obtain ref s1 retp1 s2 retp2 s' where
    f: "refreshes E (ad_name ad) (ad_hook_id ad) r (called 0 ref reg s) s1" "vector_is s1 r (ad_hook_id ad) l"
    "run_slots E reg (ad_call ad) arg (xy_current_region_id s) l 0 retp s1 = Some (length l, retp1, s2)" "calm s1 s2"
    "xy_call E Q retp (Some reg) arg s = Some (if l = [] then XY_ERR_NOTFOUND else XY_OK, retp2, s')"
    "l \<noteq> [] \<longrightarrow> retp2 = retp1" "xy_last_ran s' = length l" "length (xy_last_retbuf s') = XY_MAX_RET_SIZE"
    "s' = s2\<lparr>xy_last_ran := length l, xy_last_retp := xy_last_retp s', xy_last_retbuf := xy_last_retbuf s', xy_err_val := xy_err_val s'\<rparr>"
    by (elim exE conjE) (rule that, assumption+)
  let ?t = "called 0 ref reg s"
  have ct: "coherent E Q ?t"
    by (rule coherent_frame [OF c called_frame(9)]) (simp_all add: called_def same_hooks_def)
  have sk: "same_skel s ?t" by (rule keeps_skel [OF called_frame(9)])
  have it: "hook_num Q ?t (ad_name ad) = Some (ad_hook_id ad)" using i by (simp add: called_def hook_num_def)
  have chain_t: "call_chain (Some r) ?t = Some chain" using call_chain_same [OF sk, of r] chain by (simp add: called_frame(1))
  have "vector_is s1 r (ad_hook_id ad) (listener_slots E Q ?t chain (ad_name ad) (subtree_list ?t r))"
    using f(2) l' by (simp only: called_frame(7,8))
  from coherent_refreshed [OF ct f(1) it chain_t this] calm_coherent [OF _ f(4)] have c2: "coherent E Q s2" by blast
  obtain x y z v where s': "s' = s2\<lparr>xy_last_ran := x, xy_last_retp := y, xy_last_retbuf := z, xy_err_val := v\<rparr>"
    by (rule that) (rule f(9))
  have k2: "keeps s2 s'" by (simp add: s' keeps_def same_shapeI)
  have c': "coherent E Q s'" by (rule coherent_frame [OF c2 k2]) (simp_all add: s' same_hooks_def)
  have "keeps s s2" using keeps_trans called_frame(9) refreshes_keeps [OF f(1)] f(4) unfolding calm_def by blast
  then have k: "keeps s s'" using k2 by (rule keeps_trans)
  have ad2: "adapters s' = adapters s" using refreshes_vars(3) [OF f(1)] f(4) by (simp add: s' calm_def called_def)
  from f(3,5-8) c' k ad2 show ?thesis by blast
qed


text \<open>A denied call leaves all caches alone.\<close>

lemma coherent_call_denied:
  assumes c: "coherent E Q s" and ad: "ready E Q reg ad s" and cur: "xy_current_region_entry s = Some r"
    and dn: "hook_denied Q s r (ad_name ad)" and buf: "buffer_ok (ret_size ad) retp"
  shows "\<exists>s'. xy_call E Q retp (Some reg) arg s = Some (XY_ERR_EPERM, map_option (zeroed (ret_size ad)) retp, s')
    \<and> coherent E Q s' \<and> keeps s s' \<and> adapters s' = adapters s \<and> xy_last_retbuf s' = xy_last_retbuf s"
proof -
  note d = coherentD [OF c] and a = ad [unfolded ready_def]
  from dn obtain chain where chain: "call_chain (Some r) s = Some chain" "hook_denied_by Q s chain (ad_name ad) = Some True"
    unfolding hook_denied_def by blast
  have i: "hook_num Q s (ad_name ad) = Some (ad_hook_id ad)" using a by blast
  have i0: "0 \<le> ad_hook_id ad" using hook_num_bounds [OF d(2) i] by simp
  have ad': "adapters s reg = Some ad" "ad_call ad \<noteq> 0" "ret_size ad \<le> XY_MAX_RET_SIZE" using a by blast+
  let ?s' = "s\<lparr>xy_last_ran := 0, xy_last_retp := RNull, cur_adapter := Some reg, xy_err_val := XY_ERR_EPERM\<rparr>"
  have k: "keeps s ?s'" by (simp add: keeps_def same_shapeI)
  have "coherent E Q ?s'" by (rule coherent_frame [OF c k]) (simp_all add: same_hooks_def)
  with denied_call_result [OF d(1) cur chain ad'(1) i0 ad'(2,3) buf, of E arg] k show ?thesis
    by (intro exI [of _ ?s']) simp
qed

section \<open>Registering\<close>

lemma coherent_minted:
  assumes Q: "qmap_laws Q" and c: "coherent E Q s" and new: "hook_num Q s name = None"
  shows "coherent E Q (minted Q name a ad s)"
proof -
  let ?t = "minted Q name a ad s"
  note d = coherentD [OF c] and w = wf_libD [OF d(1)]
  have k: "keeps s ?t" by (rule minted_keeps [OF w(8,9)])
  note m = minted_hooks [OF Q d(2) new, of a ad]
  have rm: "regions ?t = regions s" "mods ?t = mods s" by (simp_all add: minted_def Let_def)
  have "mod_ok E Q ?t e" if e: "mods ?t x = Some e" for x e
  proof -
    have ok: "mod_ok E Q s e" using d(3) e rm(2) by simp
    then have mo: "mod_hooks_ok E Q s e" by (simp add: mod_ok_def)
    from mod_hooks_minted [OF Q d(2) new mo, of a ad] have mt: "mod_hooks_ok E Q ?t e" .
    have "hook_live E n i e" if n: "hook_num Q ?t n = Some i" for n i
    proof (cases "n = name")
      case True
      with n m(2) have "i = xy_hook_id_counter s" by simp
      then have "\<not> hook_bit (hook_impl_bits e) i" using mo by (simp add: mod_hooks_ok_def blank_def)
      with mt n show ?thesis by (simp add: mod_hooks_ok_def hook_live_def)
    next
      case False
      with n m(2) ok show ?thesis by (simp add: mod_ok_def)
    qed
    with mt show ?thesis by (simp add: mod_ok_def)
  qed
  moreover have "region_ok E Q ?t p e" if e: "regions ?t p = Some e" for p e
  proof -
    have e0: "regions s p = Some e" using e rm(1) by simp
    show ?thesis
      by (rule region_ok_same [OF d(4) [OF e0] e0 e refl keeps_skel [OF k] _ keeps_subtree_list [OF k d(1)]])
        (use e0 m(2) new in \<open>auto simp: same_denies_def rm\<close>)
  qed
  ultimately show ?thesis using keeps_wf_lib [OF k d(1)] m(1) by (simp add: coherent_def)
qed

lemma warmed_mod_ok:
  assumes w: "warmed E (xy_hook_id_counter s) (hook_pairs Q s) (hook_pairs Q s) e e'" and ok: "mod_hooks_ok E Q s e"
  shows "mod_ok E Q s e'"
proof -
  have "hook_live E n i e'" if "hook_num Q s n = Some i" for n i
  proof -
    from w that have "hook_ok E n i e'" "warm E n i e'" by (auto simp: warmed_def hook_pairs_def)
    then show ?thesis by (auto simp: hook_live_def warm_def cached_def XY_FN_NOT_FOUND_def split: if_splits)
  qed
  with mod_hooks_warmed [OF w ok] show ?thesis by (simp add: mod_ok_def)
qed

lemma warmed_mview: "warmed E n K H e e' \<Longrightarrow> mview e' = mview e"
proof -
  assume "warmed E n K H e e'"
  then obtain cs ws where "e' = e\<lparr>fn_cache := cs, hook_impl_bits := ws\<rparr>" unfolding warmed_def by blast
  then show ?thesis by (simp add: mview_def)
qed

lemma coherent_all_warmed:
  assumes c: "coherent E Q s" and w: "all_warmed E Q M s s'"
  shows "coherent E Q s'"
proof -
  note d = coherentD [OF c] and k = all_warmed_keeps [OF w]
  from w obtain ms where form: "s' = s\<lparr>mods := ms\<rparr>" unfolding all_warmed_def by blast
  have h: "same_hooks s s'" by (simp add: form same_hooks_def)
  have live: "mods s' a = None \<longleftrightarrow> mods s a = None" for a using w by (simp add: all_warmed_def)
  have step: "e' = e \<or> warmed E (xy_hook_id_counter s) (hook_pairs Q s) (hook_pairs Q s) e e'"
    if "mods s a = Some e" "mods s' a = Some e'" for a e e' using w that unfolding all_warmed_def by blast
  have mv: "map_option mview (mods s' a) = map_option mview (mods s a)" for a
  proof (cases "mods s a")
    case (Some e)
    with live [of a] obtain e' where e': "mods s' a = Some e'" by (cases "mods s' a") auto
    from step [OF Some e'] Some e' warmed_mview show ?thesis by auto
  qed (use live in simp)
  show ?thesis
  proof (rule coherent_kept [OF c k h])
    fix a e' assume e': "mods s' a = Some e'"
    with live [of a] obtain e where e: "mods s a = Some e" by (cases "mods s a") auto
    from step [OF e e'] show "mod_ok E Q s e'"
    proof
      assume "warmed E (xy_hook_id_counter s) (hook_pairs Q s) (hook_pairs Q s) e e'"
      then show ?thesis by (rule warmed_mod_ok) (use d(3) [OF e] in \<open>simp add: mod_ok_def\<close>)
    qed (use d(3) [OF e] in simp)
  next
    fix p e e' assume e: "regions s p = Some e" "regions s' p = Some e'" "region_ok E Q s p e" and sub: "subtree_list s' p = subtree_list s p"
    have "e' = e" using e(1,2) by (simp add: form)
    then show "region_ok E Q s' p e'"
      by (intro region_ok_same [OF e(3,1,2) _ keeps_skel [OF k] _ sub mv])
        (simp_all add: same_hooks_views(1) [OF h], simp add: same_denies_def form)
  qed
qed

lemma coherent_areg:
  assumes Q: "qmap_laws Q" and E: "alloc_ok E" "dl_ok E" and c: "coherent E Q s"
    and ad: "adapters s a = Some ad" "ret_size ad \<le> XY_MAX_RET_SIZE"
    and new: "hook_num Q s name = None" "\<forall>h. sica_hd s = Some h \<longrightarrow> qmap_get Q h (KStr name) = None"
  shows "\<exists>s'. xy_areg E Q name a s = Some (0, s') \<and> coherent E Q s' \<and> keeps s s'
    \<and> hook_num Q s' = (hook_num Q s)(name \<mapsto> xy_hook_id_counter s)
    \<and> adapters s' = (adapters s)(a \<mapsto> ad\<lparr>ad_hook_id := xy_hook_id_counter s\<rparr>)
    \<and> xy_last_retbuf s' = xy_last_retbuf s \<and> regions s' = regions s \<and> xy_current_region_entry s' = xy_current_region_entry s
    \<and> (\<forall>m. map_option mview (mods s' m) = map_option mview (mods s m))"
proof -
  note d = coherentD [OF c] and w = wf_libD [OF d(1)]
  have mo: "\<forall>m e. mods s m = Some e \<longrightarrow> mod_hooks_ok E Q s e" using d(3) by (auto simp: mod_ok_def)
  from xy_areg_ok [OF Q E d(1,2) mo ad new] obtain s1 where s1: "xy_areg E Q name a s = Some (0, xy_set_err XY_OK s1)"
    "all_warmed E Q {m. \<exists>h k. mod_hd s = Some h \<and> qmap_get Q h k = Some (VPtr m)} (minted Q name a ad s) s1" by blast
  let ?t = "minted Q name a ad s" and ?s' = "xy_set_err XY_OK s1"
  have c1: "coherent E Q s1" by (rule coherent_all_warmed [OF coherent_minted [OF Q c new(1)] s1(2)])
  have k1: "keeps s1 ?s'" by simp
  have c': "coherent E Q ?s'" by (rule coherent_frame [OF c1 k1]) (simp_all add: xy_set_err_def same_hooks_def)
  have k: "keeps s ?s'" using keeps_trans [OF minted_keeps [OF w(8,9)] keeps_trans [OF all_warmed_keeps [OF s1(2)] k1]] .
  have mv: "map_option mview (mods s1 m) = map_option mview (mods s m)" for m
  proof (cases "mods s m")
    case (Some e)
    then have t: "mods ?t m = Some e" by (simp add: minted_def Let_def)
    with s1(2) obtain e' where e': "mods s1 m = Some e'" unfolding all_warmed_def by (metis not_None_eq)
    with s1(2) t have "e' = e \<or> warmed E (xy_hook_id_counter ?t) (hook_pairs Q ?t) (hook_pairs Q ?t) e e'"
      unfolding all_warmed_def by blast
    with Some e' warmed_mview show ?thesis by auto
  next
    case None
    then have "mods ?t m = None" by (simp add: minted_def Let_def)
    with s1(2) have "mods s1 m = None" unfolding all_warmed_def by blast
    with None show ?thesis by simp
  qed
  from s1(2) obtain ms where form: "s1 = ?t\<lparr>mods := ms\<rparr>" unfolding all_warmed_def by blast
  have "hook_num Q ?s' n = hook_num Q ?t n" for n by (simp add: form xy_set_err_def hook_num_def)
  then have num: "hook_num Q ?s' = (hook_num Q s)(name \<mapsto> xy_hook_id_counter s)"
    using minted_hooks(2) [OF Q d(2) new(1)] by (auto simp: fun_eq_iff)
  have "adapters ?s' = (adapters s)(a \<mapsto> ad\<lparr>ad_hook_id := xy_hook_id_counter s\<rparr>)" "xy_last_retbuf ?s' = xy_last_retbuf s"
    "regions ?s' = regions s" "xy_current_region_entry ?s' = xy_current_region_entry s"
    by (simp_all add: form xy_set_err_def minted_def Let_def)
  with s1(1) c' k num mv show ?thesis by (intro exI [of _ ?s']) (simp add: xy_set_err_def)
qed


section \<open>Joining a module\<close>

lemma rdata_views:
  assumes "rdata x = rdata y"
  shows "rskel x = rskel y" "dview x = dview y" "rcaches x = rcaches y"
proof -
  have "rskel (rdata z) = rskel z" "dview (rdata z) = dview z" "rcaches (rdata z) = rcaches z" for z :: "'a xy_region_entry"
    by (simp_all add: rdata_def rskel_def dview_def rcaches_def)
  with assms show "rskel x = rskel y" "dview x = dview y" "rcaches x = rcaches y" by metis+
qed

lemma dirty_views:
  "rskel (dirty_and_bump e) = rskel e" "dview (dirty_and_bump e) = dview e"
  "dispatch_gen (dirty_and_bump e) = next_gen (dispatch_gen e)" "hook_dispatch (dirty_and_bump e) = hook_dispatch e"
  "subtree_mods_dirty (dirty_and_bump e)"
  by (simp_all add: dirty_and_bump_def set_dirty_def bump_gen_def rskel_def dview_def)

lemma mdata_views:
  assumes "mdata x = mdata y"
  shows "mview x = mview y" "mod_ok E Q s x = mod_ok E Q s y"
proof -
  have v: "mview (mdata z) = mview z" "me_handle (mdata z) = me_handle z" "fn_cache (mdata z) = fn_cache z"
    "hook_impl_bits (mdata z) = hook_impl_bits z" for z by (simp_all add: mdata_def mview_def)
  show "mview x = mview y" using v(1) assms by metis
  have "mod_ok E Q s (mdata z) = mod_ok E Q s z" for z
    by (simp add: mod_ok_def mod_hooks_ok_def hook_live_def hook_ok_def blank_def v(2-4))
  with assms show "mod_ok E Q s x = mod_ok E Q s y" by metis
qed

lemma linked_in_entry:
  assumes "linked_in E Q s m r t" and "regions t p = Some e'"
  shows "\<exists>e. regions s p = Some e \<and> rdata e' = rdata (if ancestor s p r then dirty_and_bump e else e)"
proof -
  have "map_option rdata (regions t p) = map_option (\<lambda>e. rdata (if ancestor s p r then dirty_and_bump e else e)) (regions s p)"
    using assms(1) by (simp add: linked_in_def)
  with assms(2) show ?thesis by (cases "regions s p") auto
qed

lemma linked_in_frame:
  assumes k: "linked_in E Q s m r t"
  shows "same_skel s t" "same_denies s t" "map_option subtree_flags (regions t p) = map_option subtree_flags (regions s p)"
    "a \<noteq> m \<Longrightarrow> map_option mdata (mods t a) = map_option mdata (mods s a)"
proof -
  have v: "map_option rskel (regions t p) = map_option rskel (regions s p)
      \<and> map_option dview (regions t p) = map_option dview (regions s p)
      \<and> map_option subtree_flags (regions t p) = map_option subtree_flags (regions s p)" for p
  proof (cases "regions t p")
    case None
    have "map_option rdata (regions t p) = map_option (\<lambda>e. rdata (if ancestor s p r then dirty_and_bump e else e)) (regions s p)"
      using k by (simp add: linked_in_def)
    with None show ?thesis by simp
  next
    case (Some e')
    from linked_in_entry [OF k Some] obtain e where
      e: "regions s p = Some e" "rdata e' = rdata (if ancestor s p r then dirty_and_bump e else e)" by blast
    have "subtree_flags (dirty_and_bump e) = subtree_flags e" by (simp add: dirty_and_bump_def set_dirty_def bump_gen_def)
    with rdata_views [OF e(2)] Some e(1) show ?thesis by (simp add: dirty_views rcaches_def split: if_splits)
  qed
  then show "same_skel s t" "same_denies s t" "map_option subtree_flags (regions t p) = map_option subtree_flags (regions s p)"
    by (simp_all add: same_skel_def same_denies_def)
  show "a \<noteq> m \<Longrightarrow> map_option mdata (mods t a) = map_option mdata (mods s a)" using k by (simp add: linked_in_def)
qed

lemma rdata_marked:
  assumes "rdata e' = rdata (if up then dirty_and_bump e else e)"
  shows "up \<Longrightarrow> dispatch_gen e' = next_gen (dispatch_gen e) \<and> hook_dispatch e' = hook_dispatch e \<and> subtree_mods_dirty e'"
    and "\<not> up \<Longrightarrow> rcaches e' = rcaches e"
    and "rskel e' = rskel e" and "dview e' = dview e"
  using rdata_views [OF assms] dirty_views [of e] by (simp_all add: rcaches_def split: if_splits)

text \<open>Everything but one entry, which is being filled in and belongs to no region, is coherent.\<close>

definition coherent_but :: "'q env \<Rightarrow> 'q qmap_ops \<Rightarrow> mptr \<Rightarrow> 'q xy_state \<Rightarrow> bool" where
  "coherent_but E Q m s \<longleftrightarrow> wf_lib Q s \<and> wf_hooks Q s \<and> (\<forall>a e. mods s a = Some e \<longrightarrow> a \<noteq> m \<longrightarrow> mod_ok E Q s e)
     \<and> (\<forall>r e. regions s r = Some e \<longrightarrow> region_ok E Q s r e) \<and> (\<forall>p. m \<notin> set (region_mods s p))"

lemma coherent_butD:
  assumes "coherent_but E Q m s"
  shows "wf_lib Q s" "wf_hooks Q s" "mods s a = Some e \<Longrightarrow> a \<noteq> m \<Longrightarrow> mod_ok E Q s e"
    "regions s r = Some x \<Longrightarrow> region_ok E Q s r x" "m \<notin> set (region_mods s p)"
  using assms unfolding coherent_but_def by blast+

lemma coherent_but_unused:
  assumes "coherent E Q s" and "mods s m = None"
  shows "coherent_but E Q m s"
proof -
  note d = coherentD [OF assms(1)]
  have "m \<notin> set (region_mods s p)" for p using region_mods_live [OF d(1), of m p] assms(2) by auto
  with d show ?thesis unfolding coherent_but_def by blast
qed

lemma coherent_joined:
  assumes c: "coherent_but E Q m s" and g: "fresh_gens s" and j: "joined Q s ks cnt m r h key t" and k: "linked_in E Q s m r t"
  shows "coherent E Q t"
proof -
  note d = coherent_butD [OF c]
  from j have lib: "wf_lib Q t" and rm: "\<And>q. region_mods t q = (if q = r then region_mods s r @ [m] else region_mods s q)"
    and h: "same_hooks s t" unfolding joined_def stays_def same_hooks_def by blast+
  from k have me: "\<exists>e e0. mods t m = Some e \<and> mod_hooks_ok E Q t e0
      \<and> warmed E (xy_hook_id_counter t) (hook_pairs Q t) (hook_pairs Q t) e0 e" unfolding linked_in_def by blast
  note v = same_hooks_views [OF h] and sk = linked_in_frame(1) [OF k] and dv = linked_in_frame(2) [OF k]
    and md = linked_in_frame(4) [OF k]
  have ok: "mod_ok E Q t x" if x: "mods t a = Some x" for a x
  proof (cases "a = m")
    case True
    with me x obtain e0 where "mod_hooks_ok E Q t e0"
      "warmed E (xy_hook_id_counter t) (hook_pairs Q t) (hook_pairs Q t) e0 x" by auto
    then show ?thesis by (intro warmed_mod_ok)
  next
    case False
    with md [of a] x obtain y where y: "mods s a = Some y" "mdata x = mdata y" by (cases "mods s a") auto
    with mdata_views(2) [OF y(2), of E Q s] d(3) [OF y(1) False] v(3) show ?thesis by simp
  qed
  have "region_ok E Q t p e'" if e': "regions t p = Some e'" for p e'
  proof -
    from linked_in_entry [OF k e'] obtain e where e: "regions s p = Some e" "rdata e' = rdata (if ancestor s p r then dirty_and_bump e else e)" by blast
    show ?thesis
    proof (rule region_ok_marked [OF d(1) d(4) [OF e(1)] g lib sk h e(1) e' rdata_marked(1) [OF e(2)] _ _ same_denies_chain [OF dv]])
      show "rcaches e' = rcaches e \<and> (\<forall>q. ancestor s p q \<longrightarrow> region_mods t q = region_mods s q)" if "\<not> ancestor s p r"
        using rdata_marked(2) [OF e(2) that] that rm by auto
      fix a assume "a \<in> set (subtree_list s p)"
      with subtree_list_set(1) [OF wf_libD(2) [OF d(1)], of p] e(1) obtain q where "a \<in> set (region_mods s q)" by auto
      with d(5) have "a \<noteq> m" by auto
      from md [OF this] show "map_option mview (mods t a) = map_option mview (mods s a)"
        by (rule map_option_factor) (rule mdata_views(1))
    qed
  qed
  with lib ok d(2) v(2) show ?thesis by (simp add: coherent_def)
qed


text \<open>The subtree of the region that was joined: the new module is the last of the region's own.\<close>

lemma joined_subtree:
  assumes lib: "wf_lib Q s" and j: "joined Q s ks cnt m r h key t" and k: "linked_in E Q s m r t" and r: "regions s r \<noteq> None"
  obtains as bs where "subtree_list s r = as @ bs" "subtree_list t r = as @ m # bs"
proof -
  note wf = wf_libD(2) [OF lib] and sk = linked_in_frame(1) [OF k]
  from j have lib': "wf_lib Q t" and rm: "\<And>q. region_mods t q = (if q = r then region_mods s r @ [m] else region_mods s q)"
    unfolding joined_def by blast+
  note wf' = wf_libD(2) [OF lib'] and w = wf_tree_parts [OF wf] and v = same_skel_views [OF sk]
  from r obtain e where e: "regions s r = Some e" by auto
  from r v(4) [of r] obtain e' where e': "regions t r = Some e'" by auto
  have kids: "region_children t r = region_children s r"
    using region_children_list(1) [OF w(1,2) e] region_children_list(1) [OF wf_tree_parts(1,2) [OF wf'] e'] v(2,5) e e'
    by (metis linked_unique)
  have "subtree_list t c = subtree_list s c" if c: "c \<in> set (region_children s r)" for c
  proof -
    note cr = region_child_rank [OF wf r c]
    have "ancestor s r c" using ancestor_step [OF w(1) cr(1)] ancestor_refl [OF w(1) r] by simp
    then have "\<not> ancestor s c r" using ancestor_antisym [OF w(1), of r c] cr(2) by auto
    then show ?thesis using rm by (intro subtree_list_local [OF wf wf' sk cr(3)]) auto
  qed
  then have "map (subtree_list t) (region_children s r) = map (subtree_list s) (region_children s r)" by (intro map_cong refl)
  with subtree_list_order [OF wf r] subtree_list_order [OF wf', of r] e' kids rm
  have "subtree_list s r = region_mods s r @ concat (map (subtree_list s) (region_children s r))"
    "subtree_list t r = region_mods s r @ m # concat (map (subtree_list s) (region_children s r))" by simp_all
  then show ?thesis by (rule that)
qed

end
