(* ===== verification/Xy_Removing.thy ===== *)
theory Xy_Removing
  imports Xy_Coherent_Ops
begin

text \<open>
  Unloading keeps the caches coherent, provided that no other loaded module is an instance of the
  same object: the symbols of such a module are forgotten while its hook bits stay, and a denial
  of the path is lifted for it as well, without any vector being marked.
\<close>

section \<open>Taking one module out\<close>

text \<open>No other module holds an address of the object of \<open>m\<close>, or has its path.\<close>

definition alone :: "'q env \<Rightarrow> 'q xy_state \<Rightarrow> mptr \<Rightarrow> bool" where
  "alone E s m \<longleftrightarrow> (\<forall>e a x. mods s m = Some e \<longrightarrow> a \<noteq> m \<longrightarrow> mods s a = Some x \<longrightarrow>
     (load_path e \<noteq> None \<longrightarrow> load_path x \<noteq> load_path e)
     \<and> (\<forall>h base. me_handle e = Some h \<longrightarrow> module_handle_base E h = Some base \<longrightarrow> clear_in_base E base (fn_cache x) = fn_cache x))"

lemma clear_loop_alone:
  assumes "\<And>a x. a \<noteq> m \<Longrightarrow> mods s a = Some x \<Longrightarrow> clear_in_base E base (fn_cache x) = fn_cache x"
    and "\<And>k v. (k, v) \<in> set kvs \<Longrightarrow> \<exists>a. v = VPtr a \<and> mods s a \<noteq> None"
  shows "clear_loop E base m kvs s = Some s"
  using assms(2)
proof (induction kvs)
  case (Cons kv kvs)
  obtain k a where kv: "kv = (k, VPtr a)" "mods s a \<noteq> None"
    using Cons.prems [of "fst kv" "snd kv"] by (cases kv) auto
  then obtain e where e: "mods s a = Some e" by auto
  have rest: "clear_loop E base m kvs s = Some s" by (rule Cons.IH) (use Cons.prems in auto)
  show ?case
  proof (cases "a = m")
    case False
    from assms(1) [OF False e] have "e\<lparr>fn_cache := clear_in_base E base (fn_cache e)\<rparr> = e" by simp
    then have "upd_mod a (\<lambda>e. e\<lparr>fn_cache := clear_in_base E base (fn_cache e)\<rparr>) s = Some s"
      using e by (simp add: upd_mod_def fun_upd_idem)
    with False kv(1) rest show ?thesis by simp
  qed (use kv(1) rest in simp)
qed simp

lemma clear_alone:
  assumes Q: "qmap_laws Q" and lib: "wf_lib Q s" and e: "mods s m = Some e" and al: "alone E s m"
  shows "module_clear_fn_cache_for_handle E Q (Some m) s = Some s"
proof -
  from wf_libD(6) [OF lib] obtain t where t: "mod_hd s = Some t" by auto
  have live: "\<exists>a. v = VPtr a \<and> mods s a \<noteq> None" if "(k, v) \<in> set (qmap_iter Q t)" for k v
    using that t wf_libD(10) [OF lib] qmap_iter_get [OF Q] unfolding wf_modtab_def by blast
  have "clear_loop E base m (qmap_iter Q t) s = Some s" if "me_handle e = Some h" "module_handle_base E h = Some base" for h base
    by (rule clear_loop_alone [OF _ live]) (use al e that in \<open>unfold alone_def, blast+\<close>)
  with t e show ?thesis by (simp add: module_clear_fn_cache_for_handle_def split: option.split)
qed

lemma drop_denies_other:
  assumes "qmap_laws Q" and "b \<noteq> a"
  shows "denied_in Q (drop_denies Q a e) b = denied_in Q e b"
proof -
  obtain ds h where l: "remove_denies_loop Q a (denied_modules e) (denied_modules_set e) = (ds, h)" by fastforce
  have "b \<in> set ds \<longleftrightarrow> b \<in> set (denied_modules e)"
    using remove_denies_loop_list [of Q a "denied_modules e" "denied_modules_set e"] assms(2) unfolding l by auto
  moreover have "set_has Q h (KPtr b) \<longleftrightarrow> set_has Q (denied_modules_set e) (KPtr b)"
    using remove_denies_loop_set [OF assms(1), of a "denied_modules e" "denied_modules_set e" "KPtr b"] assms(2)
    unfolding l by auto
  ultimately show ?thesis by (simp add: denied_in_def drop_denies_def l)
qed

text \<open>The denials of one path have been lifted; nothing else about the regions has changed.\<close>

definition lifted :: "'q qmap_ops \<Rightarrow> sptr option \<Rightarrow> 'q xy_state \<Rightarrow> 'q xy_state \<Rightarrow> bool" where
  "lifted Q path s s' \<longleftrightarrow> (\<forall>p. map_option (\<lambda>e. (rskel e, rcaches e)) (regions s' p) = map_option (\<lambda>e. (rskel e, rcaches e)) (regions s p)
     \<and> (\<forall>e e' b. regions s p = Some e \<longrightarrow> regions s' p = Some e' \<longrightarrow> Some b \<noteq> path \<longrightarrow> denied_in Q e' b = denied_in Q e b))"

lemma remove_path_lifts:
  assumes Q: "qmap_laws Q" and live: "\<And>r. region_entry e = Some r \<Longrightarrow> regions s r \<noteq> None"
  shows "\<exists>s'. module_remove_path_owned_entries Q (region_entry e) (load_path e) s = Some s' \<and> keeps s s'
    \<and> s' = s\<lparr>regions := regions s'\<rparr> \<and> lifted Q (load_path e) s s'"
proof (cases "region_entry e = None \<or> load_path e = None")
  case True
  then show ?thesis by (intro exI [of _ s]) (auto simp: module_remove_path_owned_entries_def lifted_def)
next
  case False
  then obtain r a where ra: "region_entry e = Some r" "load_path e = Some a" by auto
  from live [OF ra(1)] obtain re where re: "regions s r = Some re" by blast
  let ?s' = "s\<lparr>regions := (regions s)(r \<mapsto> drop_denies Q a re)\<rparr>"
  have "rskel (drop_denies Q a re) = rskel re" "rcaches (drop_denies Q a re) = rcaches re"
    by (simp_all add: drop_denies_def rskel_def rcaches_def split: prod.split)
  then have "lifted Q (load_path e) s ?s'"
    using re ra(2) drop_denies_other [OF Q] by (auto simp: lifted_def)
  moreover have "keeps s ?s'" by (rule keeps_region_upd [OF re]) simp_all
  ultimately show ?thesis using ra re
    by (intro exI [of _ ?s']) (simp add: module_remove_path_owned_entries_def module_remove_denies_def upd_region_def)
qed

text \<open>What taking a module out does, seen from the caches.\<close>

definition removed :: "'q env \<Rightarrow> 'q qmap_ops \<Rightarrow> mptr \<Rightarrow> xy_mod_entry \<Rightarrow> 'q xy_state \<Rightarrow> 'q xy_state \<Rightarrow> bool" where
  "removed E Q m e s s' \<longleftrightarrow> wf_lib Q s' \<and> same_hooks s s' \<and> same_skel s s' \<and> mods s' m = None
     \<and> (\<forall>a. a \<noteq> m \<longrightarrow> map_option mdata (mods s' a) = map_option mdata (mods s a))
     \<and> (\<forall>p. region_mods s' p = filter (\<lambda>a. a \<noteq> m) (region_mods s p))
     \<and> (\<forall>p x x'. regions s p = Some x \<longrightarrow> regions s' p = Some x' \<longrightarrow>
          (if \<exists>r. region_entry e = Some r \<and> ancestor s p r
           then dispatch_gen x' = next_gen (dispatch_gen x) \<and> hook_dispatch x' = hook_dispatch x \<and> subtree_mods_dirty x'
           else rcaches x' = rcaches x)
          \<and> (\<forall>b. Some b \<noteq> load_path e \<longrightarrow> denied_in Q x' b = denied_in Q x b))"


lemma unload_entry_removes:
  assumes Q: "qmap_laws Q" and C: "cleanup_ok E" and lib: "wf_lib Q s" and ent: "wf_entries s"
    and e: "mods s m = Some e" and stored: "key_get Q s (me_mod_key e) = Some m" and al: "alone E s m"
  shows "\<exists>s'. unload_entry E Q m s = Some s' \<and> removed E Q m e s s'"
proof -
  note w = wf_libD [OF lib]
  from ent e have pl: "me_handle e \<noteq> None" "\<And>r. region_entry e = Some r \<Longrightarrow> m \<in> set (region_mods s r)"
    unfolding wf_entries_def by blast+
  have live: "regions s r \<noteq> None" if "region_entry e = Some r" for r
    using region_mods_owner [OF wf_tree_parts(3) [OF w(2)] pl(2) [OF that]] by simp
  from remove_path_lifts [OF Q live] obtain s2 where s2:
    "module_remove_path_owned_entries Q (region_entry e) (load_path e) s = Some s2" "keeps s s2"
    "s2 = s\<lparr>regions := regions s2\<rparr>" "lifted Q (load_path e) s s2" by blast
  obtain R where R: "s2 = s\<lparr>regions := R\<rparr>" by (rule that) (rule s2(3))
  note lib2 = keeps_wf_lib [OF s2(2) lib]
  have m2: "region_mods s2 p = region_mods s p" for p by (rule keeps_region_mods [OF s2(2) w(2)])
  have e2: "mods s2 m = Some e" using e R by simp
  obtain s3 where s3: "module_region_detach (Some m) s2 = Some s3" "wf_lib Q s3" "key_get Q s3 = key_get Q s2"
    "\<And>a. map_option mstat (mods s3 a) = map_option mstat (mods s2 a)"
    "\<And>p. region_mods s3 p = filter (\<lambda>a. a \<noteq> m) (region_mods s2 p)" "\<forall>p. m \<notin> set (region_mods s3 p)"
    "s3 = s2\<lparr>regions := regions s3, mods := mods s3\<rparr>" "stays s2 s3"
    "case region_entry e of None \<Rightarrow> s3 = s2 | Some r \<Rightarrow> touched r s2 s3"
    using detach_any_ok [OF lib2 e2] pl(2) m2 by auto
  have md: "map_option mdata (mods s3 a) = map_option mdata (mods s a)" for a
    using s3(9) R by (cases "region_entry e") (simp_all add: touched_def)
  from s3(4) [of m] e2 obtain e3 where e3: "mods s3 m = Some e3" "mstat e3 = mstat e" by auto
  note f3 = mstat_fields [OF e3(2)]
  have "key_get Q s3 = key_get Q s" using s3(3) key_get_cong [of s2 s Q] R by simp
  then have "me_handle e3 \<noteq> None" "key_get Q s3 (me_mod_key e3) = Some m" using f3 pl(1) stored by simp_all
  from free_tail_ok [OF Q C s3(2) e3(1) this(1) s3(6) this(2)] obtain s4 s' where s4: "unload_tables Q m s3 = Some s4"
    "module_free_entry E (Some m) s4 = Some s'" "wf_lib Q s'" "taken_out Q m s3 s'" "regions s' = regions s3"
    "mods s' = (mods s3)(m := None)" by blast
  have anc: "ancestor s2 p r = ancestor s p r" if "region_entry e = Some r" for p r
    using ancestor_same [OF wf_tree_parts(1) [OF w(2)] wf_tree_parts(1) [OF wf_libD(2) [OF lib2]]
        same_skel_views(1) [OF keeps_skel [OF s2(2)]] live [OF that]] .
  let ?up = "\<lambda>p. \<exists>r. region_entry e = Some r \<and> ancestor s p r"
  have rd: "map_option rdata (regions s' p) = map_option (\<lambda>y. rdata (if ?up p then dirty_and_bump y else y)) (regions s2 p)" for p
    using s3(9) anc by (cases "region_entry e") (simp_all add: s4(5) touched_def)
  have step: "\<exists>y. rskel y = rskel x \<and> rcaches y = rcaches x \<and> (\<forall>b. Some b \<noteq> load_path e \<longrightarrow> denied_in Q y b = denied_in Q x b)
      \<and> rdata x' = rdata (if ?up p then dirty_and_bump y else y)"
    if "regions s p = Some x" "regions s' p = Some x'" for p x x'
  proof -
    from rd [of p] that(2) obtain y where y: "regions s2 p = Some y" "rdata x' = rdata (if ?up p then dirty_and_bump y else y)"
      by (cases "regions s2 p") auto
    from s2(4) have l: "map_option (\<lambda>e. (rskel e, rcaches e)) (regions s2 p) = map_option (\<lambda>e. (rskel e, rcaches e)) (regions s p)"
      "\<And>e1 e' b. regions s p = Some e1 \<Longrightarrow> regions s2 p = Some e' \<Longrightarrow> Some b \<noteq> load_path e \<Longrightarrow> denied_in Q e' b = denied_in Q e1 b"
      unfolding lifted_def by blast+
    from l(1) l(2) [OF that(1) y(1)] y that(1) show ?thesis by (intro exI [of _ y]) simp
  qed
  have "unload_entry E Q m s = Some s'"
    using clear_alone [OF Q lib e al] e s2(1) s3(1) s4(1,2) by (simp add: unload_entry_def)
  moreover have "removed E Q m e s s'"
    unfolding removed_def
  proof (intro conjI allI impI)
    show "wf_lib Q s'" by (rule s4(3))
    show "same_hooks s s'" using s3(8) s4(4) R by (simp add: taken_out_def stays_def same_hooks_def)
    show "mods s' m = None" "\<And>a. a \<noteq> m \<Longrightarrow> map_option mdata (mods s' a) = map_option mdata (mods s a)"
      using s4(6) md by simp_all
    show "region_mods s' p = filter (\<lambda>a. a \<noteq> m) (region_mods s p)" for p
      using s4(4) s3(5) [of p] m2 by (simp add: taken_out_def)
    have "map_option rskel (regions s' p) = map_option rskel (regions s2 p)" for p
    proof (cases "regions s2 p")
      case (Some y)
      with rd [of p] obtain x' where x': "regions s' p = Some x'" "rdata x' = rdata (if ?up p then dirty_and_bump y else y)" by auto
      from rdata_views(1) [OF x'(2)] x'(1) Some dirty_views(1) [of y] show ?thesis by (simp split: if_splits)
    qed (use rd [of p] in simp)
    then show "same_skel s s'" using keeps_skel [OF s2(2)] by (simp add: same_skel_def)
    fix p x x' assume x: "regions s p = Some x" "regions s' p = Some x'"
    show "if \<exists>r. region_entry e = Some r \<and> ancestor s p r
           then dispatch_gen x' = next_gen (dispatch_gen x) \<and> hook_dispatch x' = hook_dispatch x \<and> subtree_mods_dirty x'
           else rcaches x' = rcaches x"
    proof -
      from step [OF x] obtain y where y: "rcaches y = rcaches x" "rdata x' = rdata (if ?up p then dirty_and_bump y else y)" by blast
      show ?thesis
      proof (cases "?up p")
        case True
        with rdata_views(3) [OF y(2)] have "rcaches x' = rcaches (dirty_and_bump y)" by simp
        with True y(1) dirty_views(3-5) [of y] show ?thesis by (simp add: rcaches_def)
      next
        case False
        with rdata_views(3) [OF y(2)] have "rcaches x' = rcaches y" by (simp only: if_False)
        with False y(1) show ?thesis by (simp only: if_False)
      qed
    qed
    fix b assume b: "Some b \<noteq> load_path e"
    from step [OF x] b obtain y where y: "denied_in Q y b = denied_in Q x b" "rdata x' = rdata (if ?up p then dirty_and_bump y else y)"
      by blast
    have "dview x' = dview y" using rdata_views(2) [OF y(2)] dirty_views(2) [of y] by (simp split: if_splits)
    then have "denied_in Q x' b = denied_in Q y b" by (simp add: dview_def denied_in_def)
    with y(1) show "denied_in Q x' b = denied_in Q x b" by simp
  qed
  ultimately show ?thesis by blast
qed


lemma chain_denies_path:
  assumes live: "\<And>a. regions s' a = None \<longleftrightarrow> regions s a = None"
    and d: "\<And>a e e' b. regions s a = Some e \<Longrightarrow> regions s' a = Some e' \<Longrightarrow> path = Some b \<Longrightarrow> denied_in Q e' b = denied_in Q e b"
  shows "chain_denies Q s' chain path = chain_denies Q s chain path"
proof -
  have eq: "chain_denies Q t chain (Some b) = (\<exists>a \<in> set chain. \<exists>e. regions t a = Some e \<and> denied_in Q e b)" for t :: "'a xy_state" and b
    by (auto simp: chain_denies_def)
  have "(\<exists>e. regions s' a = Some e \<and> denied_in Q e b) = (\<exists>e. regions s a = Some e \<and> denied_in Q e b)" if "path = Some b" for a b
  proof (cases "regions s a")
    case (Some e)
    with live [of a] obtain e' where e': "regions s' a = Some e'" by (cases "regions s' a") auto
    from d [OF Some e' that] Some e' show ?thesis by simp
  qed (use live [of a] in simp)
  then show ?thesis by (cases path) (simp_all add: eq, simp add: chain_denies_def)
qed

lemma coherent_removed:
  assumes c: "coherent E Q s" and g: "fresh_gens s" and e: "mods s m = Some e" and r: "removed E Q m e s s'"
    and dn: "\<And>a x. a \<noteq> m \<Longrightarrow> mods s a = Some x \<Longrightarrow> load_path x \<noteq> load_path e \<or> (\<forall>p y y' b. regions s p = Some y \<longrightarrow>
      regions s' p = Some y' \<longrightarrow> denied_in Q y' b = denied_in Q y b)"
  shows "coherent E Q s'"
proof -
  note d = coherentD [OF c] and w = wf_libD [OF coherentD(1) [OF c]]
  from r have lib: "wf_lib Q s'" and h: "same_hooks s s'" and sk: "same_skel s s'" and gone: "mods s' m = None"
    and md: "\<And>a. a \<noteq> m \<Longrightarrow> map_option mdata (mods s' a) = map_option mdata (mods s a)"
    and rm: "\<And>p. region_mods s' p = filter (\<lambda>a. a \<noteq> m) (region_mods s p)" unfolding removed_def by blast+
  let ?up = "\<lambda>p. \<exists>r. region_entry e = Some r \<and> ancestor s p r"
  from r have regs: "\<And>p x x'. regions s p = Some x \<Longrightarrow> regions s' p = Some x' \<Longrightarrow>
      (if ?up p then dispatch_gen x' = next_gen (dispatch_gen x) \<and> hook_dispatch x' = hook_dispatch x \<and> subtree_mods_dirty x'
       else rcaches x' = rcaches x) \<and> (\<forall>b. Some b \<noteq> load_path e \<longrightarrow> denied_in Q x' b = denied_in Q x b)"
    unfolding removed_def by blast
  have up: "\<And>p x x'. regions s p = Some x \<Longrightarrow> regions s' p = Some x' \<Longrightarrow> ?up p \<Longrightarrow>
      dispatch_gen x' = next_gen (dispatch_gen x) \<and> hook_dispatch x' = hook_dispatch x \<and> subtree_mods_dirty x'"
    and off: "\<And>p x x'. regions s p = Some x \<Longrightarrow> regions s' p = Some x' \<Longrightarrow> \<not> ?up p \<Longrightarrow> rcaches x' = rcaches x"
    and den: "\<And>p x x' b. regions s p = Some x \<Longrightarrow> regions s' p = Some x' \<Longrightarrow> Some b \<noteq> load_path e \<Longrightarrow> denied_in Q x' b = denied_in Q x b"
    using regs by simp_all
  note v = same_hooks_views [OF h]
  have ok: "mod_ok E Q s' x" if x: "mods s' a = Some x" for a x
  proof -
    have "a \<noteq> m" using x gone by auto
    with md [of a] x obtain y where y: "mods s a = Some y" "mdata x = mdata y" by (cases "mods s a") auto
    with mdata_views(2) [OF y(2), of E Q s] d(3) [OF y(1)] v(3) show ?thesis by simp
  qed
  have "region_ok E Q s' p x'" if x': "regions s' p = Some x'" for p x'
  proof -
    from same_skel_views(4) [OF sk, of p] x' obtain x where x: "regions s p = Some x" by auto
    have out: "m \<notin> set (region_mods s q)" if "\<not> ?up p" "ancestor s p q" for q
    proof
      assume "m \<in> set (region_mods s q)"
      from region_mods_owner [OF wf_tree_parts(3) [OF w(2)] this] e have "region_entry e = Some q" by (simp add: mod_region_def)
      with that show False by blast
    qed
    have other: "a \<noteq> m" if "\<not> ?up p" "a \<in> set (subtree_list s p)" for a
      using that(2) subtree_list_set(1) [OF w(2), of p] x out [OF that(1)] by auto
    show ?thesis
    proof (rule region_ok_marked [OF coherentD(1) [OF c] coherentD(4) [OF c x] g lib sk h x x' up [OF x x']])
      assume n: "\<not> ?up p"
      have "filter (\<lambda>a. a \<noteq> m) (region_mods s q) = region_mods s q" if "ancestor s p q" for q
        by (rule filter_True) (use out [OF n that] in auto)
      with off [OF x x' n] show "rcaches x' = rcaches x \<and> (\<forall>q. ancestor s p q \<longrightarrow> region_mods s' q = region_mods s q)"
        by (simp add: rm)
      fix a assume a: "a \<in> set (subtree_list s p)"
      show "map_option mview (mods s' a) = map_option mview (mods s a)"
        by (rule map_option_factor [OF md [OF other [OF n a]]]) (rule mdata_views(1))
      fix y chain assume "mods s a = Some y"
      note lp = dn [OF other [OF n a] this]
      show "chain_denies Q s' chain (load_path y) = chain_denies Q s chain (load_path y)"
      proof (rule chain_denies_path [OF same_skel_views(4) [OF sk]])
        show "denied_in Q x2 b = denied_in Q x1 b" if "regions s q = Some x1" "regions s' q = Some x2" "load_path y = Some b" for q x1 x2 b
          using lp den [OF that(1,2)] that by metis
      qed
    qed
  qed
  with lib ok d(2) v(2) show ?thesis by (simp add: coherent_def)
qed


section \<open>A whole unload\<close>

text \<open>All modules are instances of different objects.\<close>

definition apart :: "'q env \<Rightarrow> 'q xy_state \<Rightarrow> bool" where
  "apart E s \<longleftrightarrow> (\<forall>m e. mods s m = Some e \<longrightarrow> load_path e \<noteq> None \<and> alone E s m)"

text \<open>No generation can wrap around while the modules that are loaded now are unloaded.\<close>

definition loaded :: "'q xy_state \<Rightarrow> mptr set" where
  "loaded s = {m. mods s m \<noteq> None}"

definition room :: "'q xy_state \<Rightarrow> bool" where
  "room s \<longleftrightarrow> (\<forall>r e. regions s r = Some e \<longrightarrow> unat (dispatch_gen e) + card (loaded s) < 2 ^ 64 - 1)"

lemma room_fresh: "room s \<Longrightarrow> fresh_gens s"
proof -
  have "unat (- 1 :: u64) = 2 ^ 64 - 1" by (simp add: unsigned_minus_1_eq_mask mask_eq_exp_minus_1)
  then show "room s \<Longrightarrow> fresh_gens s" unfolding room_def fresh_gens_def by fastforce
qed

lemma finite_loaded: "wf_lib Q s \<Longrightarrow> finite (loaded s)"
  by (rule finite_subset [of _ "{..<next_addr s}"])
    (use wf_tree_parts(3) [OF wf_libD(2)] in \<open>unfold wf_mods_def loaded_def, auto\<close>)

lemma apart_same:
  assumes "\<And>a x'. mods s' a = Some x' \<Longrightarrow> \<exists>x. mods s a = Some x \<and> load_path x' = load_path x \<and> me_handle x' = me_handle x \<and> fn_cache x' = fn_cache x"
    and "apart E s"
  shows "apart E s'"
  unfolding apart_def alone_def
proof (intro allI impI)
  fix m e' assume e': "mods s' m = Some e'"
  from assms(1) [OF e'] obtain e where e: "mods s m = Some e" "load_path e' = load_path e" "me_handle e' = me_handle e" by blast
  with assms(2) have al: "load_path e \<noteq> None" "alone E s m" unfolding apart_def by blast+
  have "(load_path e' \<noteq> None \<longrightarrow> load_path x' \<noteq> load_path e')
      \<and> (\<forall>h base. me_handle e' = Some h \<longrightarrow> module_handle_base E h = Some base \<longrightarrow> clear_in_base E base (fn_cache x') = fn_cache x')"
    if a: "a \<noteq> m" "mods s' a = Some x'" for a x'
  proof -
    from assms(1) [OF a(2)] obtain x where x: "mods s a = Some x" "load_path x' = load_path x" "fn_cache x' = fn_cache x" by blast
    from al(2) e(1) a(1) x(1) have "load_path e \<noteq> None \<longrightarrow> load_path x \<noteq> load_path e"
      "\<And>h base. me_handle e = Some h \<Longrightarrow> module_handle_base E h = Some base \<Longrightarrow> clear_in_base E base (fn_cache x) = fn_cache x"
      unfolding alone_def by blast+
    with e x show ?thesis by simp
  qed
  with al(1) e(2) show "load_path e' \<noteq> None \<and> (\<forall>e a x. mods s' m = Some e \<longrightarrow> a \<noteq> m \<longrightarrow> mods s' a = Some x \<longrightarrow>
      (load_path e \<noteq> None \<longrightarrow> load_path x \<noteq> load_path e)
      \<and> (\<forall>h base. me_handle e = Some h \<longrightarrow> module_handle_base E h = Some base \<longrightarrow> clear_in_base E base (fn_cache x) = fn_cache x))"
    using e' by auto
qed

definition tidy :: "'q env \<Rightarrow> 'q qmap_ops \<Rightarrow> 'q xy_state \<Rightarrow> bool" where
  "tidy E Q s \<longleftrightarrow> coherent E Q s \<and> apart E s \<and> room s"

lemma tidy_errno: "tidy E Q s \<Longrightarrow> tidy E Q (xy_set_err x s)"
proof -
  assume t: "tidy E Q s"
  have f: "mods (xy_set_err x s) = mods s" "regions (xy_set_err x s) = regions s" by (simp_all add: xy_set_err_def)
  have "coherent E Q (xy_set_err x s)"
    by (rule coherent_frame [of E Q s]) (use t f in \<open>simp_all add: tidy_def same_hooks_def xy_set_err_def\<close>)
  moreover have "apart E (xy_set_err x s)" by (rule apart_same [of _ s]) (use t f in \<open>simp_all add: tidy_def\<close>)
  ultimately show ?thesis using t f by (simp add: tidy_def room_def loaded_def)
qed

lemma coherent_refcount:
  assumes c: "coherent E Q s" and e: "mods s m = Some e" and s': "s' = s\<lparr>mods := (mods s)(m \<mapsto> e\<lparr>refcount := x\<rparr>)\<rparr>"
  shows "coherent E Q s'"
proof -
  note d = coherentD [OF c]
  have k: "keeps s s'" unfolding s' by (rule keeps_mod_upd [OF e, of "refcount_update (\<lambda>_. x)"]) (simp_all add: mlinks_def mident_def)
  have h: "same_hooks s s'" by (simp add: s' same_hooks_def)
  have ok: "mod_ok E Q t (e\<lparr>refcount := x\<rparr>) = mod_ok E Q t e" for t
    by (simp add: mod_ok_def mod_hooks_ok_def hook_live_def hook_ok_def blank_def)
  show ?thesis
  proof (rule coherent_kept [OF c k h])
    show "mod_ok E Q s y" if "mods s' a = Some y" for a y
      using that d(3) e ok by (auto simp: s' split: if_splits)
    fix p y y' assume y: "regions s p = Some y" "regions s' p = Some y'" "region_ok E Q s p y" and sub: "subtree_list s' p = subtree_list s p"
    have "y' = y" using y(1,2) by (simp add: s')
    then show "region_ok E Q s' p y'"
      by (intro region_ok_same [OF y(3,1,2) _ keeps_skel [OF k] _ sub])
        (simp_all add: same_hooks_views(1) [OF h], simp_all add: s' e same_denies_def mview_def)
  qed
qed

lemma tidy_deref:
  assumes t: "tidy E Q s" and e: "mods s m = Some e" and s': "s' = s\<lparr>mods := (mods s)(m \<mapsto> e\<lparr>refcount := x\<rparr>)\<rparr>"
  shows "tidy E Q s'"
proof -
  have "coherent E Q s'" by (rule coherent_refcount [OF _ e s']) (use t in \<open>simp add: tidy_def\<close>)
  moreover have "apart E s'"
    by (rule apart_same [of _ s]) (use t e in \<open>auto simp: s' tidy_def split: if_splits\<close>)
  moreover have "loaded s' = loaded s" using e by (auto simp: s' loaded_def)
  then have "room s'" using t by (simp add: tidy_def room_def s')
  ultimately show ?thesis by (simp add: tidy_def)
qed

lemma tidy_removed:
  assumes t: "tidy E Q s" and e: "mods s m = Some e" and r: "removed E Q m e s s'"
  shows "tidy E Q s'"
proof -
  from t have c: "coherent E Q s" "room s" and al: "load_path e \<noteq> None" "alone E s m"
    using e unfolding tidy_def apart_def by blast+
  note d = coherentD [OF c(1)]
  from r have sk: "same_skel s s'" and gone: "mods s' m = None"
    and md: "\<And>a. a \<noteq> m \<Longrightarrow> map_option mdata (mods s' a) = map_option mdata (mods s a)"
    and regs: "\<And>p x x'. regions s p = Some x \<Longrightarrow> regions s' p = Some x' \<Longrightarrow>
      (if \<exists>r. region_entry e = Some r \<and> ancestor s p r then dispatch_gen x' = next_gen (dispatch_gen x)
        \<and> hook_dispatch x' = hook_dispatch x \<and> subtree_mods_dirty x' else rcaches x' = rcaches x)"
    unfolding removed_def by blast+
  have "coherent E Q s'"
    by (rule coherent_removed [OF c(1) room_fresh [OF c(2)] e r]) (use al e in \<open>unfold alone_def, blast\<close>)
  moreover have "apart E s'"
  proof (rule apart_same [of _ s])
    fix a x' assume x': "mods s' a = Some x'"
    with gone have "a \<noteq> m" by auto
    with md [of a] x' obtain x where x: "mods s a = Some x" "mdata x' = mdata x" by (cases "mods s a") auto
    from arg_cong [OF x(2), of load_path] arg_cong [OF x(2), of me_handle] arg_cong [OF x(2), of fn_cache] x(1)
    show "\<exists>x. mods s a = Some x \<and> load_path x' = load_path x \<and> me_handle x' = me_handle x \<and> fn_cache x' = fn_cache x"
      by (simp add: mdata_def)
  qed (use t in \<open>simp add: tidy_def\<close>)
  moreover have "room s'"
    unfolding room_def
  proof (intro allI impI)
    fix p x' assume x': "regions s' p = Some x'"
    from same_skel_views(4) [OF sk, of p] x' obtain x where x: "regions s p = Some x" by auto
    have fin: "finite (loaded s)" by (rule finite_loaded [OF d(1)])
    have "mods s' a = None \<longleftrightarrow> a = m \<or> mods s a = None" for a using md [of a] gone by (cases "a = m") (auto dest: sym)
    then have "loaded s' = loaded s - {m}" by (auto simp: loaded_def)
    moreover have "m \<in> loaded s" using e by (simp add: loaded_def)
    ultimately have card: "card (loaded s) = Suc (card (loaded s'))" using card.remove [OF fin] by simp
    have g: "dispatch_gen x \<noteq> - 1" using room_fresh [OF c(2)] x by (simp add: fresh_gens_def)
    have "dispatch_gen x' = next_gen (dispatch_gen x) \<or> dispatch_gen x' = dispatch_gen x"
      using regs [OF x x'] by (auto simp: rcaches_def split: if_splits)
    moreover have "unat (next_gen (dispatch_gen x)) \<le> Suc (unat (dispatch_gen x))"
      using next_gen_less [OF g] unatSuc [of "dispatch_gen x"] by (simp add: next_gen_def Let_def add.commute split: if_splits)
    ultimately have "unat (dispatch_gen x') \<le> Suc (unat (dispatch_gen x))" by auto
    with c(2) x card show "unat (dispatch_gen x') + card (loaded s') < 2 ^ 64 - 1" unfolding room_def by fastforce
  qed
  ultimately show ?thesis by (simp add: tidy_def)
qed

lemma tidy_stable:
  assumes Q: "qmap_laws Q" and C: "cleanup_ok E"
  shows "unload_stable E Q (tidy E Q)"
  unfolding unload_stable_def
proof (intro conjI allI impI)
  fix s m e s' assume u: "unloadable E Q s" and t: "tidy E Q s" and e: "mods s m = Some e"
    and k: "key_get Q s (me_mod_key e) = Some m" and s': "unload_entry E Q m s = Some s'"
  have lib: "wf_lib Q s" "wf_entries s" using u by (simp_all add: unloadable_def)
  have "alone E s m" using t e unfolding tidy_def apart_def by blast
  from unload_entry_removes [OF Q C lib e k this] s' have "removed E Q m e s s'" by auto
  with tidy_removed [OF t e] show "tidy E Q s'" .
qed (blast intro: tidy_errno tidy_deref)+

end
