(* ===== verification/Xy_Denying.thy ===== *)
theory Xy_Denying
  imports Xy_Removing
begin

text \<open>
  Denying a module.  The denial marks the denying region and its ancestors; a region below it
  asks for its denials only if it carries the flag itself, and then its vectors are not
  marked.  So the caches stay coherent exactly when no region below carries the flag.
\<close>

text \<open>The path is that of a module the library has already heard of.\<close>

definition known_path :: "'q env \<Rightarrow> 'q qmap_ops \<Rightarrow> string \<Rightarrow> sptr \<Rightarrow> 'q xy_state \<Rightarrow> bool" where
  "known_path E Q what a s \<longleftrightarrow> (\<exists>path. module_load_path E what s = Some path \<and> module_path_intern Q (Some path) s = (Some a, s))"

lemma xy_deny_module_ok:
  assumes m: "alloc_ok E" and wf: "wf_lib Q s" and p: "xy_current_region_entry s = Some reg" and k: "known_path E Q what a s"
  shows "\<exists>s'. xy_deny E Q what XY_DENY_MODULE s = Some (XY_OK, s') \<and> keeps s s'
    \<and> s' = s\<lparr>regions := regions s', xy_err_val := XY_OK\<rparr>
    \<and> (\<forall>p. regions s' p = map_option (deny_effect (add_module_deny Q a) reg s p) (regions s p))"
proof -
  note w = wf_libD [OF wf]
  from w(5) p obtain e where e: "regions s reg = Some e" "re_id e = xy_current_region_id s"
    by (auto simp: wf_current_def)
  have l: "region_lookup Q (xy_current_region_id s) s = Some reg"
    using region_lookup_iff [OF w(3)] e by blast
  from deny_raise_upd [OF w(2) e(1), of "add_module_deny Q a"] obtain s' where s':
    "upd_region reg (add_module_deny Q a) s = Some (s\<lparr>regions := (regions s)(reg \<mapsto> add_module_deny Q a e)\<rparr>)"
    "deny_raise reg (s\<lparr>regions := (regions s)(reg \<mapsto> add_module_deny Q a e)\<rparr>) = Some (XY_OK, s')"
    "s' = s\<lparr>regions := regions s', xy_err_val := XY_OK\<rparr>"
    "\<And>p. regions s' p = map_option (deny_effect (add_module_deny Q a) reg s p) (regions s p)" by auto
  have "keeps s s'" by (rule deny_keeps [OF _ _ s'(3,4)]) simp_all
  moreover from k obtain path where "module_load_path E what s = Some path" "module_path_intern Q (Some path) s = (Some a, s)"
    unfolding known_path_def by blast
  then have "xy_deny E Q what XY_DENY_MODULE s = Some (XY_OK, s')"
    using l m s'(1,2) by (simp add: xy_deny_def w(1) alloc_ok_def)
  ultimately show ?thesis using s'(3,4) by blast
qed

lemma call_chain_ancestors:
  assumes "wf_parents s" and "call_chain (Some r) s = Some chain" and "a \<in> set chain"
  shows "ancestor s a r" and "\<exists>e. regions s r = Some e \<and> subtree_flags e AND XY_SUBTREE_HAS_DENY \<noteq> 0"
proof -
  from assms(2,3) obtain e where e: "regions s r = Some e" "subtree_flags e AND XY_SUBTREE_HAS_DENY \<noteq> 0"
    "region_ancestor_chain s (Some r) 65 = Some chain"
    by (auto simp: call_chain_def bind_eq_Some_conv split: if_splits)
  from up_chain_total [OF assms(1), of r] e(1) obtain ps where ps: "linked (region_parent s) (Some r) ps" by auto
  have "length ps \<le> 65" using region_forest.chain_short [OF assms(1) ps] by simp
  from region_ancestor_chain_linked [OF ps this] e(3) assms(3) have "a \<in> set ps" by auto
  then show "ancestor s a r" using ancestor_iff [OF assms(1) ps] by simp
  from e show "\<exists>e. regions s r = Some e \<and> subtree_flags e AND XY_SUBTREE_HAS_DENY \<noteq> 0" by blast
qed

lemma chain_denies_on:
  assumes "\<And>a. a \<in> set chain \<Longrightarrow> map_option dview (regions s' a) = map_option dview (regions s a)"
  shows "chain_denies Q s' chain path = chain_denies Q s chain path"
proof -
  have "(\<exists>e. regions s' a = Some e \<and> denied_in Q e b) = (\<exists>e. regions s a = Some e \<and> denied_in Q e b)" if "a \<in> set chain" for a b
    using assms [OF that] by (cases "regions s a"; cases "regions s' a") (auto simp: dview_def denied_in_def)
  then show ?thesis unfolding chain_denies_def by blast
qed

text \<open>No region below the current one carries the deny flag.\<close>

definition below_unflagged :: "'q xy_state \<Rightarrow> bool" where
  "below_unflagged s \<longleftrightarrow> (\<forall>reg p e. xy_current_region_entry s = Some reg \<longrightarrow> regions s p = Some e \<longrightarrow> p \<noteq> reg \<longrightarrow>
     ancestor s reg p \<longrightarrow> subtree_flags e AND XY_SUBTREE_HAS_DENY = 0)"

lemma coherent_deny_module:
  assumes c: "coherent E Q s" and A: "alloc_ok E" and g: "fresh_gens s" and k: "known_path E Q what a s" and b: "below_unflagged s"
  shows "\<exists>s'. xy_deny E Q what XY_DENY_MODULE s = Some (XY_OK, s') \<and> coherent E Q s' \<and> keeps s s'"
proof -
  note d = coherentD [OF c]
  note w = wf_tree_parts [OF wf_libD(2) [OF d(1)]]
  from wf_libD(5) [OF d(1)] obtain reg where reg: "xy_current_region_entry s = Some reg" by (auto simp: wf_current_def)
  from xy_deny_module_ok [OF A d(1) reg k] obtain s' where s': "xy_deny E Q what XY_DENY_MODULE s = Some (XY_OK, s')"
    "keeps s s'" "s' = s\<lparr>regions := regions s', xy_err_val := XY_OK\<rparr>"
    "\<forall>p. regions s' p = map_option (deny_effect (add_module_deny Q a) reg s p) (regions s p)" by blast
  have ms: "mods s' = mods s" by (subst s'(3)) simp
  have sh: "same_hooks s s'" by (subst s'(3)) (simp add: same_hooks_def)
  have "coherent E Q s'"
  proof (rule coherent_kept [OF c s'(2) sh])
    show "mod_ok E Q s e'" if "mods s' a = Some e'" for a e' using that ms d(3) by simp
    fix p e e' assume e: "regions s p = Some e" "regions s' p = Some e'" "region_ok E Q s p e" and sub: "subtree_list s' p = subtree_list s p"
    have e': "e' = deny_effect (add_module_deny Q a) reg s p e" using s'(4) e(1,2) by simp
    show "region_ok E Q s' p e'"
    proof (cases "ancestor s p reg")
      case True
      then have "dispatch_gen e' = next_gen (dispatch_gen e)" "hook_dispatch e' = hook_dispatch e"
        "subtree_mods e' = subtree_mods e" "subtree_mods_dirty e' = subtree_mods_dirty e"
        by (simp_all add: e' deny_effect_def deny_fields add_module_deny_def deny_sel)
      then show ?thesis using e(1,3) g sub by (intro region_ok_bumped [OF e(3)]) (auto simp: fresh_gens_def region_ok_def)
    next
      case False
      then have same: "e' = e" by (simp add: e' deny_effect_def)
      have dv: "chain_denies Q s' chain path = chain_denies Q s chain path" if ch: "call_chain (Some p) s = Some chain" for chain path
      proof (rule chain_denies_on)
        fix q assume q: "q \<in> set chain"
        have "q \<noteq> reg"
        proof
          assume "q = reg"
          with call_chain_ancestors [OF w(1) ch q] reg b e(1) False show False unfolding below_unflagged_def by blast
        qed
        then have "dview (deny_effect (add_module_deny Q a) reg s q x) = dview x" for x by (simp add: deny_effect_def deny_fields)
        then show "map_option dview (regions s' q) = map_option dview (regions s q)"
          using s'(4) by (simp add: option.map_comp comp_def)
      qed
      show ?thesis
        by (rule region_ok_same_listed [OF e(3,1,2) _ keeps_skel [OF s'(2)] _ sub])
          (simp_all add: same ms same_hooks_views(1) [OF sh] dv)
    qed
  qed
  with s'(1,2) show ?thesis by blast
qed


section \<open>What a denial does not reach\<close>

text \<open>(C17) Denying a module from a region leaves the current vectors of the regions below as they are:
  in a region that carries the deny flag, and so asks its ancestors, the denied module is no
  longer a listener of any hook, but a vector that holds it already counts as current, and
  the next call of the hook from there runs over it unchanged.\<close>

theorem denied_module_stays_in_vectors:
  assumes "alloc_ok E" and "wf_lib Q s" and "xy_current_region_entry s = Some reg" and "known_path E Q what a s"
    and "ancestor s reg p" "p \<noteq> reg" and "regions s p = Some e" "subtree_flags e AND XY_SUBTREE_HAS_DENY \<noteq> 0" "\<not> subtree_mods_dirty e"
    and "vector_is s p i l" and "slot \<in> set l" "slot_me slot = Some m" and "mods s m = Some x" "load_path x = Some a"
  shows "\<exists>s' chain. xy_deny E Q what XY_DENY_MODULE s = Some (XY_OK, s') \<and> call_chain (Some p) s' = Some chain
    \<and> (\<forall>name. \<not> listens E Q s' chain name m \<and> refresh_vector E Q p i name chain s' = Some (XY_OK, s')) \<and> vector_is s' p i l"
proof -
  from xy_deny_module_ok [OF assms(1-4)] obtain s' where s': "xy_deny E Q what XY_DENY_MODULE s = Some (XY_OK, s')"
    "keeps s s'" "s' = s\<lparr>regions := regions s', xy_err_val := XY_OK\<rparr>"
    "\<forall>p. regions s' p = map_option (deny_effect (add_module_deny Q a) reg s p) (regions s p)" by blast
  note w = wf_tree_parts(1) [OF wf_libD(2) [OF assms(2)]]
  note w' = wf_tree_parts(1) [OF wf_libD(2) [OF keeps_wf_lib [OF s'(2) assms(2)]]]
  have below: "\<not> ancestor s p reg" using ancestor_antisym [OF w, of reg p] assms(5,6) by blast
  have e': "regions s' p = Some e" using s'(4) assms(7) below by (simp add: deny_effect_def)
  have ms: "mods s' = mods s" by (subst s'(3)) simp
  from ancestor_live [OF assms(5)] obtain re where re: "regions s reg = Some re" by blast
  have refl: "ancestor s reg reg" using ancestor_refl [OF w] re by simp
  have den: "denied_in Q (flag_and_bump (add_module_deny Q a re)) a"
    by (simp add: denied_in_def add_module_deny_def flag_and_bump_def bump_gen_def set_deny_flag_def)
  from up_chain_total [OF w', of p] e' obtain ps where ps: "linked (region_parent s') (Some p) ps" by auto
  have len: "length ps \<le> 65" using region_forest.chain_short [OF w' ps] by simp
  have ch: "call_chain (Some p) s' = Some (rev ps)"
    using region_ancestor_chain_linked [OF ps len] e' assms(8) by (simp add: call_chain_def)
  have "ancestor s' reg p"
    using ancestor_same [OF w w' same_skel_views(1) [OF keeps_skel [OF s'(2)]], of p reg] assms(5,7) by simp
  with ancestor_iff [OF w' ps] have "reg \<in> set (rev ps)" by simp
  moreover have "regions s' reg = Some (flag_and_bump (add_module_deny Q a re))" using s'(4) re refl by (simp add: deny_effect_def)
  ultimately have "chain_denies Q s' (rev ps) (Some a)" using den unfolding chain_denies_def by blast
  then have nl: "\<not> listens E Q s' (rev ps) name m" for name using assms(13,14) by (simp add: listens_def ms)
  have v: "vector_is s' p i l" using assms(7,10) e' by (simp add: vector_is_def get_cache_def)
  have "refresh_vector E Q p i name (rev ps) s' = Some (XY_OK, s')" for name
    using v e' assms(9) by (auto simp: vector_is_def get_cache_def refresh_vector_def nth_opt_def split: if_splits)
  with s'(1) ch nl v show ?thesis by blast
qed

text \<open>Region 2 carries the flag and has a vector for the hook \<open>h\<close> with its module; its path is then denied in
  the root region.\<close>

definition demo_flagged :: "demo_q xy_state" where
  "demo_flagged = demo\<lparr>path_intern_hd := Some [(KStr ''m.so'', VPtr 20)], regions := (regions demo)(2 \<mapsto>
     (demo_region 0x4000000000000000 1 2 (Some 1) (Some 4) None (Some 7) (Some 7))\<lparr>subtree_flags := XY_SUBTREE_HAS_DENY,
       subtree_mods_dirty := False, subtree_mods := [7, 8],
       hook_dispatch := [\<lparr>slots_buf = 25, slots = [\<lparr>slot_me = Some 7, slot_cb = 100\<rparr>, \<lparr>slot_me = Some 8, slot_cb = 100\<rparr>],
         hd_count = 2, region_gen = 1\<rparr>]\<rparr>)\<rparr>"


lemma demo_flagged_wf: "wf_lib alist_qmap demo_flagged"
proof -
  let ?t = "demo_flagged\<lparr>path_intern_hd := Some []\<rparr>"
  have p: "path_intern_hd demo = Some []" by (simp add: demo_def)
  have "keeps demo ?t"
  proof -
    let ?f = "\<lambda>e :: demo_q xy_region_entry. e\<lparr>subtree_flags := XY_SUBTREE_HAS_DENY, subtree_mods_dirty := False, subtree_mods := [7, 8],
       hook_dispatch := [\<lparr>slots_buf = 25, slots = [\<lparr>slot_me = Some 7, slot_cb = 100\<rparr>, \<lparr>slot_me = Some 8, slot_cb = 100\<rparr>],
         hd_count = 2, region_gen = 1\<rparr>]\<rparr>"
    have "?t = demo\<lparr>regions := (regions demo)(2 \<mapsto> ?f (demo_region 0x4000000000000000 1 2 (Some 1) (Some 4) None (Some 7) (Some 7)))\<rparr>"
      using p by (simp add: demo_flagged_def)
    then show ?thesis using keeps_region_upd [OF demo_sel(3), of ?f] by (simp add: rlinks_def)
  qed
  from keeps_wf_lib [OF this demo_wf_lib] have t: "wf_lib alist_qmap ?t" .
  have "same_shape ?t demo_flagged" by (simp add: same_shape_def)
  from same_shape_wf' [OF this wf_libD(2) [OF t]] have "wf_tree demo_flagged" .
  moreover have "wf_intern alist_qmap demo_flagged"
    by (simp add: wf_intern_def path_hd_def demo_flagged_def) (simp add: demo_def xy_boot_def)
  ultimately show ?thesis using t by (simp add: wf_lib_def wf_index_def wf_current_def wf_modtab_def demo_flagged_def)
qed

theorem denied_module_stays_in_vectors_witness:
  "\<exists>s' l. xy_deny demo_env alist_qmap ''m'' XY_DENY_MODULE demo_flagged = Some (XY_OK, s')
    \<and> vector_is s' 2 0 l \<and> Some 7 \<in> slot_me ` set l"
proof -
  let ?e = "the (regions demo_flagged 2)" and ?l = "[\<lparr>slot_me = Some 7, slot_cb = 100\<rparr>, \<lparr>slot_me = Some 8, slot_cb = 100\<rparr>]"
  have E: "alloc_ok demo_env" by (simp add: alloc_ok_def)
  have c: "xy_current_region_entry demo_flagged = Some 1" by (simp add: demo_flagged_def demo_def)
  have k: "known_path demo_env alist_qmap ''m'' 20 demo_flagged"
    by (simp add: known_path_def module_load_path_def module_path_intern_def path_hd_def demo_flagged_def qmap_ptr_def)
  have e: "regions demo_flagged 2 = Some ?e" "subtree_flags ?e AND XY_SUBTREE_HAS_DENY \<noteq> 0" "\<not> subtree_mods_dirty ?e"
    by (simp_all add: demo_flagged_def XY_SUBTREE_HAS_DENY_def)
  note w = wf_tree_parts(1) [OF wf_libD(2) [OF demo_flagged_wf]]
  have a: "ancestor demo_flagged 1 2"
  proof -
    have "region_parent demo_flagged 2 = Some (Some 1)" by (simp add: region_parent_def demo_flagged_def demo_region_def)
    moreover have "regions demo_flagged 1 \<noteq> None" by (simp add: demo_flagged_def)
    ultimately show ?thesis using ancestor_step [OF w, of 2 1] ancestor_refl [OF w, of 1] by simp
  qed
  have v: "vector_is demo_flagged 2 0 ?l"
    by (simp add: vector_is_def get_cache_def nth_opt_def demo_flagged_def demo_region_def)
  have m: "mods demo_flagged 7 = Some (demo_mod (Some 2) 0x4000000000000000 (Some 13) None None)"
    "load_path (demo_mod (Some 2) 0x4000000000000000 (Some 13) None None) = Some 20"
    by (simp_all add: demo_flagged_def demo_mod_def)
  from denied_module_stays_in_vectors [OF E demo_flagged_wf c k a _ e v, of "\<lparr>slot_me = Some 7, slot_cb = 100\<rparr>", OF _ _ _ m]
  show ?thesis by force
qed

end
