(* ===== verification/Xy_Acts.thy ===== *)
theory Xy_Acts
  imports Xy_Denying
begin

text \<open>
  What the code of a module may do between two loads (\<open>acts\<close>): register adapters, deny hooks and
  modules, set or clear the claim handler of its region, call hooks and write its own data.  All of it keeps the caches coherent, and so
  does a load whose \<open>xy_install\<close> acts in this way.
\<close>

section \<open>What modules do\<close>

text \<open>An adapter of a call site that has not been called yet: the call takes id and function from
  the adapter registered under its name.\<close>

definition declared :: "'q env \<Rightarrow> 'q qmap_ops \<Rightarrow> aptr \<Rightarrow> int \<Rightarrow> aptr \<Rightarrow> xy_adapter \<Rightarrow> xy_adapter \<Rightarrow> 'q xy_state \<Rightarrow> bool" where
  "declared E Q reg i ca cad d s \<longleftrightarrow> registered Q s (ad_name d) i ca cad \<and> adapters s reg = Some d
     \<and> ad_hook_id d < 0 \<and> ad_call d = 0 \<and> reg \<noteq> ca \<and> calm_call E (ad_call cad) (ret_size cad)
     \<and> length (xy_last_retbuf s) = XY_MAX_RET_SIZE"

lemma declared_call:
  assumes c: "coherent E Q s" and d: "declared E Q reg i ca cad d s"
  shows "xy_call E Q retp (Some reg) arg s = xy_call E Q retp (Some reg) arg (bind_adapter reg i cad d s)"
    and "ready E Q reg (bound_to i cad d) (bind_adapter reg i cad d s)"
    and "coherent E Q (bind_adapter reg i cad d s)"
proof -
  note a = d [unfolded declared_def]
  have r: "registered Q s (ad_name d) i ca cad" "adapters s reg = Some d" "ad_hook_id d < 0" "ad_call d = 0" "reg \<noteq> ca"
    using a by blast+
  note res = call_resolve_decl [OF r]
  note fr = bind_adapter_frame [where reg = reg and i = i and cad = cad and d = d and s = s]
  have ini: "xy_inited s" using wf_libD(1) [OF coherentD(1) [OF c]] .
  show "xy_call E Q retp (Some reg) arg s = xy_call E Q retp (Some reg) arg (bind_adapter reg i cad d s)"
    using xy_call_resolved [OF ini res fr(6)] ini fr(8) by simp
  show "coherent E Q (bind_adapter reg i cad d s)"
    by (rule coherent_frame [OF c fr(4)]) (simp_all add: same_hooks_def bind_adapter_def)
  show "ready E Q reg (bound_to i cad d) (bind_adapter reg i cad d s)"
    using a by (simp add: ready_def bound_to_def registered_def bind_adapter_def hook_num_def)
qed

inductive acts :: "'q env \<Rightarrow> 'q qmap_ops \<Rightarrow> 'q xy_state \<Rightarrow> 'q xy_state \<Rightarrow> bool" for E Q where
  nothing: "acts E Q s s"
| own_data: "acts E Q s t \<Longrightarrow> calm t u \<Longrightarrow> acts E Q s u"
| provides: "acts E Q s t \<Longrightarrow> adapters t a = None \<Longrightarrow> acts E Q s (t\<lparr>adapters := (adapters t)(a \<mapsto> ad)\<rparr>)"
| registers: "acts E Q s t \<Longrightarrow> adapters t a = Some ad \<Longrightarrow> ret_size ad \<le> XY_MAX_RET_SIZE \<Longrightarrow> hook_num Q t name = None \<Longrightarrow>
    (\<forall>h. sica_hd t = Some h \<longrightarrow> qmap_get Q h (KStr name) = None) \<Longrightarrow> xy_areg E Q name a t = Some (c, u) \<Longrightarrow> acts E Q s u"
| denies: "acts E Q s t \<Longrightarrow> fresh_gens t \<Longrightarrow> xy_deny E Q what XY_DENY_HOOK t = Some (c, u) \<Longrightarrow> acts E Q s u"
| denies_module: "acts E Q s t \<Longrightarrow> fresh_gens t \<Longrightarrow> known_path E Q what a t \<Longrightarrow> below_unflagged t \<Longrightarrow>
    xy_deny E Q what XY_DENY_MODULE t = Some (c, u) \<Longrightarrow> acts E Q s u"
| requires_claim: "acts E Q s t \<Longrightarrow> xy_require_claim E Q fn ud t = Some (c, u) \<Longrightarrow> acts E Q s u"
| calls: "acts E Q s t \<Longrightarrow> ready E Q reg ad t \<Longrightarrow> buffer_ok (ret_size ad) retp \<Longrightarrow>
    xy_call E Q retp (Some reg) arg t = Some (c, retp', u) \<Longrightarrow> acts E Q s u"
| calls_declared: "acts E Q s t \<Longrightarrow> declared E Q reg i ca cad d t \<Longrightarrow> buffer_ok (ret_size cad) retp \<Longrightarrow>
    xy_call E Q retp (Some reg) arg t = Some (c, retp', u) \<Longrightarrow> acts E Q s u"

lemma coherent_any_call:
  assumes c: "coherent E Q s" and E: "alloc_ok E" "dl_ok E" and ad: "ready E Q reg ad s" and b: "buffer_ok (ret_size ad) retp"
  obtains c' retp' s' where "xy_call E Q retp (Some reg) arg s = Some (c', retp', s')" "coherent E Q s'" "keeps s s'"
proof -
  from wf_libD(5) [OF coherentD(1) [OF c]] obtain r where r: "xy_current_region_entry s = Some r" by (auto simp: wf_current_def)
  show ?thesis
  proof (cases "hook_denied Q s r (ad_name ad)")
    case True
    from coherent_call_denied [OF c ad r True b, of arg] that show ?thesis by blast
  next
    case False
    from coherent_call [OF c E ad r False b refl, of arg] that show ?thesis by blast
  qed
qed

lemma acts_coherent:
  assumes Q: "qmap_laws Q" and E: "alloc_ok E" "dl_ok E" and a: "acts E Q s t" and c: "coherent E Q s"
  shows "coherent E Q t \<and> keeps s t"
  using a c
proof (induction rule: acts.induct)
  case (own_data s t u)
  then show ?case using calm_coherent keeps_trans by (auto simp: calm_def)
next
  case (provides s t a ad)
  let ?u = "t\<lparr>adapters := (adapters t)(a \<mapsto> ad)\<rparr>"
  from provides have t: "coherent E Q t" "keeps s t" by blast+
  have "coherent E Q ?u" by (rule coherent_frame [OF t(1)]) (simp_all add: same_hooks_def)
  with keeps_trans [OF t(2)] show ?case by simp
next
  case (registers s t a ad name c u)
  then have t: "coherent E Q t" "keeps s t" by blast+
  from coherent_areg [OF Q E t(1) registers.hyps(2-5)] registers.hyps(6) have "coherent E Q u" "keeps t u" by auto
  with keeps_trans [OF t(2)] show ?case by blast
next
  case (denies s t what c u)
  then have t: "coherent E Q t" "keeps s t" by blast+
  from coherent_deny_hook [OF t(1) E(1) denies.hyps(2), of what] denies.hyps(3) have "coherent E Q u" "keeps t u" by auto
  with keeps_trans [OF t(2)] show ?case by blast
next
  case (denies_module s t what a c u)
  then have t: "coherent E Q t" "keeps s t" by blast+
  from coherent_deny_module [OF t(1) E(1) denies_module.hyps(2-4)] denies_module.hyps(5) have "coherent E Q u" "keeps t u" by auto
  with keeps_trans [OF t(2)] show ?case by blast
next
  case (requires_claim s t fn ud c u)
  then have t: "coherent E Q t" "keeps s t" by blast+
  from wf_libD(5) [OF coherentD(1) [OF t(1)]] obtain r e where "xy_current_region_entry t = Some r" "regions t r = Some e"
    by (auto simp: wf_current_def)
  from coherent_require_claim [OF t(1) this, of fn ud] requires_claim.hyps(2) have "coherent E Q u" "keeps t u" by auto
  with keeps_trans [OF t(2)] show ?case by blast
next
  case (calls s t reg ad retp arg c retp' u)
  then have t: "coherent E Q t" "keeps s t" by blast+
  from coherent_any_call [OF t(1) E calls.hyps(2,3), of arg] calls.hyps(4) have "coherent E Q u" "keeps t u" by auto
  with keeps_trans [OF t(2)] show ?case by blast
next
  case (calls_declared s t reg i ca cad d retp arg c retp' u)
  then have t: "coherent E Q t" "keeps s t" by blast+
  note dc = declared_call [OF t(1) calls_declared.hyps(2)]
  have "buffer_ok (ret_size (bound_to i cad d)) retp" using calls_declared.hyps(3) by (simp add: bound_to_def)
  from coherent_any_call [OF dc(3) E dc(2) this, of arg] calls_declared.hyps(4) dc(1) [of retp arg]
  have "coherent E Q u" "keeps (bind_adapter reg i cad d t) u" by auto
  with keeps_trans [OF t(2) keeps_trans [OF bind_adapter_frame(4)]] show ?case by blast
qed simp

section \<open>Loading\<close>

text \<open>A module whose \<open>xy_install\<close> returns, having acted in the library.\<close>

definition install_acts :: "'q env \<Rightarrow> 'q qmap_ops \<Rightarrow> dlhandle \<Rightarrow> bool" where
  "install_acts E Q h \<longleftrightarrow> e_dlsym E h ''xy_install'' \<noteq> 0
     \<and> (\<forall>t. coherent E Q t \<longrightarrow> (\<exists>t'. e_void E (e_dlsym E h ''xy_install'') t = Some t' \<and> acts E Q t t'))"

lemma coherent_moved:
  assumes c: "coherent E Q s" and e: "regions s p = Some e"
  shows "coherent E Q (set_current_region (re_id e) (Some p) s)"
proof -
  let ?t = "set_current_region (re_id e) (Some p) s"
  note d = coherentD [OF c]
  have f: "regions ?t = regions s" "mods ?t = mods s" "same_hooks s ?t" "same_tree s ?t"
    by (simp_all add: set_current_region_def same_hooks_def same_tree_def)
  have lib: "wf_lib Q ?t"
    by (rule wf_lib_moved [OF d(1), where x = "xy_err_val s"]) (use e in \<open>simp_all add: set_current_region_def wf_current_def\<close>)
  have "region_ok E Q ?t q x" if x: "regions s q = Some x" for q x
    by (rule region_ok_same [OF d(4) [OF x] x _ refl])
      (use x f in \<open>simp_all add: same_skel_def same_denies_def subtree_list_same_tree same_hooks_views(1)\<close>)
  with lib d(2,3) show ?thesis by (simp add: coherent_def f(1,2) same_hooks_views [OF f(3)])
qed

lemma coherent_install:
  assumes Q: "qmap_laws Q" and E: "alloc_ok E" "dl_ok E" and c: "coherent E Q t" and i: "install_acts E Q h"
    and tx: "tx_info h m key rid tx" "context_active tx"
    and home: "regions t q = Some e" "prev_region_id tx = re_id e" "prev_region_entry tx = Some q"
  shows "\<exists>u v w. mod_load_run_install E tx t = Some (XY_OK, tx, w) \<and> v = snd (mod_load_restore_context tx w) \<and> coherent E Q v
    \<and> e_void E (e_dlsym E h ''xy_install'') (t\<lparr>xy_loading_mod := Some m\<rparr>) = Some u
    \<and> acts E Q (t\<lparr>xy_loading_mod := Some m\<rparr>) u \<and> keeps t w \<and> w = u\<lparr>xy_loading_mod := xy_loading_mod t\<rparr>
    \<and> v = set_current_region (re_id e) (Some q) w"
proof -
  let ?t1 = "t\<lparr>xy_loading_mod := Some m\<rparr>"
  have c1: "coherent E Q ?t1" by (rule coherent_frame [OF c loading_var_keeps]) (simp_all add: same_hooks_def)
  from i c1 obtain u where u: "e_dlsym E h ''xy_install'' \<noteq> 0" "e_void E (e_dlsym E h ''xy_install'') ?t1 = Some u" "acts E Q ?t1 u"
    unfolding install_acts_def by blast
  from acts_coherent [OF Q E u(3) c1] have cu: "coherent E Q u" "keeps ?t1 u" by blast+
  let ?w = "u\<lparr>xy_loading_mod := xy_loading_mod t\<rparr>"
  have kw: "keeps t ?w" using keeps_trans [OF keeps_trans [OF loading_var_keeps cu(2)] loading_var_keeps] .
  have cw: "coherent E Q ?w" by (rule coherent_frame [OF cu(1) loading_var_keeps]) (simp_all add: same_hooks_def)
  have "map_option re_id (regions ?w q) = map_option re_id (regions t q)" using kw by (simp add: keeps_def)
  with home(1) obtain y where y: "regions ?w q = Some y" "re_id y = re_id e" by auto
  have "mod_load_run_install E tx t = Some (XY_OK, tx, ?w)"
    using tx(1) u(1,2) by (simp add: mod_load_run_install_def mod_run_def tx_info_def Let_def)
  moreover have "snd (mod_load_restore_context tx ?w) = set_current_region (re_id e) (Some q) ?w"
    using tx(2) home(2,3) by (simp add: mod_load_restore_context_def)
  ultimately show ?thesis using coherent_moved [OF cw y(1)] y(2) u(2,3) kw by (intro exI [of _ u] exI [of _ "set_current_region (re_id e) (Some q) ?w"] exI [of _ ?w]) simp
qed

lemma coherent_mod_load:
  assumes Q: "qmap_laws Q" and E: "alloc_ok E" "dl_ok E" and c: "coherent E Q s" and g: "fresh_gens s"
    and l: "loadable E Q fname h r s" and i: "install_acts E Q h"
  shows "\<exists>m t u v. mod_load E Q fname s = Some (XY_OK, v) \<and> coherent E Q v \<and> mods s m = None
    \<and> joined Q s ((key_get Q s)(inst_key E fname (xy_current_region_id s) \<mapsto> m)) (xy_mod_count s + 1) m r h
        (inst_key E fname (xy_current_region_id s)) t
    \<and> linked_in E Q s m r t \<and> coherent E Q t \<and> (gives_ctx E h \<longrightarrow> (\<exists>x. mods t m = Some x \<and> me_ctx x \<noteq> None))
    \<and> e_void E (e_dlsym E h ''xy_install'') (t\<lparr>xy_loading_mod := Some m\<rparr>) = Some u
    \<and> acts E Q (t\<lparr>xy_loading_mod := Some m\<rparr>) u
    \<and> v = u\<lparr>xy_loading_mod := xy_loading_mod t\<rparr> \<and> keeps t v"
proof -
  note d = coherentD [OF c]
  let ?rid = "xy_current_region_id s" and ?key = "inst_key E fname (xy_current_region_id s)"
  from l have cur: "xy_current_region_entry s = Some r" by (simp add: loadable_def opens_def)
  from open_step [OF E(1) loadable_opens [OF l]] obtain tx path where tx: "mod_load_open_handle E Q fname (tx_zero ?rid) s = Some (XY_OK, tx, s)"
    "mod_load_try_reuse_existing tx s = Some (False, tx, s)" "lk_key (tx_lookup tx) = Some ?key"
    "lk_load_path (tx_lookup tx) = Some path" "tx_handle tx = Some h" "inherited_region_id tx = ?rid" by blast
  from load_prefix [OF Q E d(1,2) l tx(3-6)] obtain tx' m t where t: "mod_load_steps E Q fname tx s = mod_load_run_install E tx' t"
    "mods s m = None" "joined Q s ((key_get Q s)(?key \<mapsto> m)) (xy_mod_count s + 1) m r h ?key t" "tx_info h m ?key ?rid tx'"
    "context_active tx'" "prev_region_id tx' = ?rid" "prev_region_entry tx' = Some r"
    "gives_ctx E h \<longrightarrow> (\<exists>x. mods t m = Some x \<and> me_ctx x \<noteq> None)" "linked_in E Q s m r t" by blast
  have ct: "coherent E Q t" by (rule coherent_joined [OF coherent_but_unused [OF c t(2)] g t(3,9)])
  from t(3) have stay: "xy_current_region_id t = ?rid" "xy_current_region_entry t = Some r" using cur by (simp_all add: joined_def)
  with wf_libD(5) [OF coherentD(1) [OF ct]] obtain e where e: "regions t r = Some e" "?rid = re_id e" by (auto simp: wf_current_def)
  have home: "prev_region_id tx' = re_id e" using t(6) e(2) by simp
  from coherent_install [OF Q E ct i t(4,5) e(1) home t(7)] obtain u v w where
    v: "mod_load_run_install E tx' t = Some (XY_OK, tx', w)" "v = snd (mod_load_restore_context tx' w)" "coherent E Q v"
    "e_void E (e_dlsym E h ''xy_install'') (t\<lparr>xy_loading_mod := Some m\<rparr>) = Some u"
    "acts E Q (t\<lparr>xy_loading_mod := Some m\<rparr>) u" "keeps t w" "w = u\<lparr>xy_loading_mod := xy_loading_mod t\<rparr>"
    "v = set_current_region (re_id e) (Some r) w" by blast
  have "xy_current_region_id w = re_id e" "xy_current_region_entry w = Some r" using v(6) stay e(2) by (simp_all add: keeps_def)
  with v(8) set_current_same have vw: "v = w" by metis
  have "mod_load E Q fname s = Some (XY_OK, v)" using tx(1,2) t(1) v(1,2) by (simp add: mod_load_def)
  with t(2,3,8,9) ct v(3-7) vw show ?thesis
    by (intro exI [of _ m] exI [of _ t] exI [of _ u] exI [of _ v]) simp
qed

lemma coherent_load:
  assumes Q: "qmap_laws Q" and E: "alloc_ok E" "dl_ok E" and c: "coherent E Q s" and g: "fresh_gens s"
    and l: "loadable E Q fname h r s" and i: "install_acts E Q h"
  shows "\<exists>m t u s'. xy_load E Q fname s = Some (XY_OK, s') \<and> coherent E Q s' \<and> mods s m = None
    \<and> joined Q s ((key_get Q s)(inst_key E fname (xy_current_region_id s) \<mapsto> m)) (xy_mod_count s + 1) m r h
        (inst_key E fname (xy_current_region_id s)) t
    \<and> linked_in E Q s m r t \<and> coherent E Q t \<and> (gives_ctx E h \<longrightarrow> (\<exists>x. mods t m = Some x \<and> me_ctx x \<noteq> None))
    \<and> e_void E (e_dlsym E h ''xy_install'') (t\<lparr>xy_loading_mod := Some m\<rparr>) = Some u
    \<and> acts E Q (t\<lparr>xy_loading_mod := Some m\<rparr>) u
    \<and> s' = u\<lparr>xy_loading_mod := xy_loading_mod t, xy_err_val := XY_OK\<rparr>"
proof -
  from coherent_mod_load [OF assms] obtain m t u v where v: "mod_load E Q fname s = Some (XY_OK, v)" "coherent E Q v"
    "mods s m = None" "joined Q s ((key_get Q s)(inst_key E fname (xy_current_region_id s) \<mapsto> m)) (xy_mod_count s + 1) m r h
        (inst_key E fname (xy_current_region_id s)) t"
    "linked_in E Q s m r t" "coherent E Q t" "gives_ctx E h \<longrightarrow> (\<exists>x. mods t m = Some x \<and> me_ctx x \<noteq> None)"
    "e_void E (e_dlsym E h ''xy_install'') (t\<lparr>xy_loading_mod := Some m\<rparr>) = Some u"
    "acts E Q (t\<lparr>xy_loading_mod := Some m\<rparr>) u" "v = u\<lparr>xy_loading_mod := xy_loading_mod t\<rparr>" by blast
  let ?s' = "v\<lparr>xy_err_val := XY_OK\<rparr>"
  have "xy_load E Q fname s = Some (XY_OK, ?s')"
    using v(1) wf_libD(1) [OF coherentD(1) [OF c]] by (simp add: xy_load_def fail_with_def xy_set_err_def)
  moreover have "coherent E Q ?s'"
    by (rule coherent_frame [OF v(2)]) (simp_all add: keeps_def same_shapeI same_hooks_def)
  ultimately show ?thesis using v by (intro exI [of _ m] exI [of _ t] exI [of _ u] exI [of _ ?s']) simp
qed


text \<open>A module has been taken out of its region, and the regions above are marked.\<close>

lemma marked_removed:
  assumes "wf_lib Q u" and "same_hooks t u" and "mods u m = None"
    and "\<forall>a. a \<noteq> m \<longrightarrow> map_option mdata (mods u a) = map_option mdata (mods t a)"
    and rd: "\<And>p. map_option rdata (regions u p) = map_option (\<lambda>e. rdata (if ancestor t p r then dirty_and_bump e else e)) (regions t p)"
    and "\<forall>q. region_mods u q = filter (\<lambda>a. a \<noteq> m) (region_mods t q)" and e: "region_entry e = Some r"
  shows "removed E Q m e t u" and "regions t p = Some x \<Longrightarrow> regions u p = Some x' \<Longrightarrow> denied_in Q x' b = denied_in Q x b"
proof -
  have entry: "\<exists>x. regions t p = Some x \<and> rdata x' = rdata (if ancestor t p r then dirty_and_bump x else x)"
    if "regions u p = Some x'" for p x'
    using rd [of p] that by (cases "regions t p") auto
  have sk: "same_skel t u"
    unfolding same_skel_def
  proof
    fix p show "map_option rskel (regions u p) = map_option rskel (regions t p)"
    proof (cases "regions u p")
      case (Some x')
      from entry [OF Some] rdata_marked(3) Some show ?thesis by fastforce
    qed (use rd [of p] in simp)
  qed
  have den: "denied_in Q x' b = denied_in Q x b" if "regions t p = Some x" "regions u p = Some x'" for p x x' b
  proof -
    from entry [OF that(2)] that(1) have "rdata x' = rdata (if ancestor t p r then dirty_and_bump x else x)" by auto
    from rdata_marked(4) [OF this] show ?thesis by (simp add: dview_def denied_in_def)
  qed
  show "removed E Q m e t u"
    unfolding removed_def
  proof (intro conjI)
    show "\<forall>p x x'. regions t p = Some x \<longrightarrow> regions u p = Some x' \<longrightarrow>
        (if \<exists>r. region_entry e = Some r \<and> ancestor t p r
         then dispatch_gen x' = next_gen (dispatch_gen x) \<and> hook_dispatch x' = hook_dispatch x \<and> subtree_mods_dirty x'
         else rcaches x' = rcaches x) \<and> (\<forall>b. Some b \<noteq> load_path e \<longrightarrow> denied_in Q x' b = denied_in Q x b)"
    proof (intro allI impI)
      fix p x x' assume x: "regions t p = Some x" "regions u p = Some x'"
      from entry [OF x(2)] x(1) have "rdata x' = rdata (if ancestor t p r then dirty_and_bump x else x)" by auto
      from rdata_marked(1,2) [OF this] den [OF x] e show "(if \<exists>r. region_entry e = Some r \<and> ancestor t p r
         then dispatch_gen x' = next_gen (dispatch_gen x) \<and> hook_dispatch x' = hook_dispatch x \<and> subtree_mods_dirty x'
         else rcaches x' = rcaches x) \<and> (\<forall>b. Some b \<noteq> load_path e \<longrightarrow> denied_in Q x' b = denied_in Q x b)" by simp
    qed
  qed (use assms sk in simp_all)
  show "denied_in Q x' b = denied_in Q x b" if "regions t p = Some x" "regions u p = Some x'" using den [OF that] .
qed

text \<open>A load whose \<open>xy_install\<close> is missing raises the generations twice, when the module is linked and
  when it is taken back.\<close>

lemma coherent_failed_load:
  assumes Q: "qmap_laws Q" and E: "alloc_ok E" "dl_ok E" "cleanup_ok E" and c: "coherent E Q s" and g: "fresh_twice s"
    and l: "loadable E Q fname h r s" and none: "e_dlsym E h ''xy_install'' = 0"
  shows "\<exists>s'. xy_load E Q fname s = Some (XY_ERR_NOTFOUND, s') \<and> coherent E Q s'"
proof -
  note d = coherentD [OF c]
  let ?rid = "xy_current_region_id s" and ?key = "inst_key E fname (xy_current_region_id s)"
  from l have cur: "xy_current_region_entry s = Some r" and unused: "key_get Q s ?key = None"
    by (simp_all add: loadable_def opens_def)
  from open_step [OF E(1) loadable_opens [OF l]] obtain tx path where tx: "mod_load_open_handle E Q fname (tx_zero ?rid) s = Some (XY_OK, tx, s)"
    "mod_load_try_reuse_existing tx s = Some (False, tx, s)" "lk_key (tx_lookup tx) = Some ?key"
    "lk_load_path (tx_lookup tx) = Some path" "tx_handle tx = Some h" "inherited_region_id tx = ?rid" by blast
  from load_prefix [OF Q E(1,2) d(1,2) l tx(3-6)] obtain tx' m t where t: "mod_load_steps E Q fname tx s = mod_load_run_install E tx' t"
    "mods s m = None" "joined Q s ((key_get Q s)(?key \<mapsto> m)) (xy_mod_count s + 1) m r h ?key t" "tx_info h m ?key ?rid tx'"
    "published_entry tx'" "context_active tx'" "prev_region_id tx' = ?rid" "prev_region_entry tx' = Some r" "linked_in E Q s m r t" by blast
  have "\<exists>e. regions s p = Some e \<and> (dispatch_gen e' = dispatch_gen e \<or> dispatch_gen e' = next_gen (dispatch_gen e))"
    if e': "regions t p = Some e'" for p e'
  proof -
    from linked_in_entry [OF t(9) e'] obtain e where e: "regions s p = Some e" "rdata e' = rdata (if ancestor s p r then dirty_and_bump e else e)" by blast
    with rdata_marked(1,2) [OF e(2)] show ?thesis by (cases "ancestor s p r") (auto simp: rcaches_def)
  qed
  note gens = fresh_twice_step [OF g this]
  have ct: "coherent E Q t" by (rule coherent_joined [OF coherent_but_unused [OF c t(2)] gens(1) t(3,9)])
  have inst: "mod_load_run_install E tx' t = Some (XY_ERR_NOTFOUND, tx', t)"
    using t(4) none by (simp add: mod_load_run_install_def mod_run_def tx_info_def Let_def)
  have tm: "tx_mod_entry tx' = Some m" using t(4) by (simp add: tx_info_def)
  have pe: "prev_region_entry tx' = xy_current_region_entry s" using t(8) cur by simp
  from abort_joined [OF Q E(3) t(3,2) unused tm t(5-7) pe d(1), of XY_ERR_NOTFOUND] obtain u where
    u: "mod_load_abort E Q tx' XY_ERR_NOTFOUND t = Some (XY_ERR_NOTFOUND, u)" "wf_lib Q u" "mods u m = None"
      "\<forall>a. a \<noteq> m \<longrightarrow> map_option mdata (mods u a) = map_option mdata (mods t a)"
      "\<And>p. map_option rdata (regions u p) = map_option (\<lambda>e. rdata (if ancestor t p r then dirty_and_bump e else e)) (regions t p)"
      "hook_id_hd u = hook_id_hd t" "xy_hook_id_counter u = xy_hook_id_counter t"
      "\<forall>q. region_mods u q = filter (\<lambda>a. a \<noteq> m) (region_mods t q)" by blast
  from t(3) obtain e where e: "mods t m = Some e" "region_entry e = Some r" by (auto simp: joined_def)
  have "same_hooks t u" using u(6,7) by (simp add: same_hooks_def)
  note rm = marked_removed [OF u(2) this u(3,4,5,8) e(2)]
  from coherent_removed [OF ct gens(2) e(1) rm(1)] rm(2) have cu: "coherent E Q u" by blast
  have codes: "XY_ERR_NOTFOUND \<noteq> XY_OK" by (simp add: xy_codes)
  have "xy_load E Q fname s = Some (XY_ERR_NOTFOUND, xy_set_err XY_ERR_NOTFOUND u)"
    using tx(1,2) t(1) inst u(1) codes wf_libD(1) [OF d(1)] by (simp add: xy_load_def mod_load_def fail_with_def)
  moreover have "coherent E Q (xy_set_err XY_ERR_NOTFOUND u)"
    by (rule coherent_frame [OF cu]) (simp_all add: same_hooks_def xy_set_err_def keeps_def same_shapeI)
  ultimately show ?thesis by blast
qed

end
