(* ===== verification/Xy_Replacing.thy ===== *)
theory Xy_Replacing
  imports Xy_Acts Xy_Reloads Xy_Shutdown
begin

text \<open>
  Reloading a module, and shutting the library down and starting it again, seen from the caches.
\<close>

section \<open>Moving a module within its region\<close>

lemma coherent_touched:
  assumes c: "coherent E Q s" and g: "fresh_gens s" and tc: "touched r s t" and lib: "wf_lib Q t"
    and rm: "\<forall>q. q \<noteq> r \<longrightarrow> region_mods t q = region_mods s q"
  shows "coherent E Q t" and "regions t p = Some e' \<Longrightarrow> \<exists>e. regions s p = Some e \<and>
    (dispatch_gen e' = dispatch_gen e \<or> dispatch_gen e' = next_gen (dispatch_gen e))"
proof -
  note d = coherentD [OF c]
  have f: "t = s\<lparr>regions := regions t, mods := mods t\<rparr>" using tc unfolding touched_def by blast
  have h: "same_hooks s t" by (subst f) (simp add: same_hooks_def)
  note v = same_hooks_views [OF h]
  have md: "map_option mdata (mods t a) = map_option mdata (mods s a)" for a using tc by (simp add: touched_def)
  have entry: "\<exists>e. regions s p = Some e \<and> rdata e' = rdata (if ancestor s p r then dirty_and_bump e else e)"
    if "regions t p = Some e'" for p e'
  proof -
    from tc have "map_option rdata (regions t p) = map_option (\<lambda>e. rdata (if ancestor s p r then dirty_and_bump e else e)) (regions s p)"
      by (simp add: touched_def)
    with that show ?thesis by (cases "regions s p") auto
  qed
  have "map_option rskel (regions t p) = map_option rskel (regions s p) \<and> map_option dview (regions t p) = map_option dview (regions s p)" for p
  proof (cases "regions t p")
    case None
    with tc have "regions s p = None" by (auto simp: touched_def dest: spec [where x = p])
    with None show ?thesis by simp
  next
    case (Some e')
    from entry [OF Some] obtain e where e: "regions s p = Some e" "rdata e' = rdata (if ancestor s p r then dirty_and_bump e else e)" by blast
    with rdata_marked(3,4) [OF e(2)] Some show ?thesis by simp
  qed
  then have sk: "same_skel s t" and dv: "same_denies s t" by (simp_all add: same_skel_def same_denies_def)
  have ok: "mod_ok E Q t x" if x: "mods t a = Some x" for a x
  proof -
    from md [of a] x obtain y where y: "mods s a = Some y" "mdata x = mdata y" by (cases "mods s a") auto
    with mdata_views(2) [OF y(2), of E Q s] d(3) [OF y(1)] v(3) show ?thesis by simp
  qed
  have "region_ok E Q t p e'" if e': "regions t p = Some e'" for p e'
  proof -
    from entry [OF e'] obtain e where e: "regions s p = Some e" "rdata e' = rdata (if ancestor s p r then dirty_and_bump e else e)" by blast
    show ?thesis
    proof (rule region_ok_marked [OF coherentD(1) [OF c] coherentD(4) [OF c e(1)] g lib sk h e(1) e' rdata_marked(1) [OF e(2)] _ _ same_denies_chain [OF dv]])
      show "rcaches e' = rcaches e \<and> (\<forall>q. ancestor s p q \<longrightarrow> region_mods t q = region_mods s q)" if "\<not> ancestor s p r"
        using rdata_marked(2) [OF e(2) that] that rm by auto
      show "map_option mview (mods t a) = map_option mview (mods s a)" for a
        by (rule map_option_factor [OF md]) (rule mdata_views(1))
    qed
  qed
  with lib ok d(2) v(2) show "coherent E Q t" by (simp add: coherent_def)
  assume "regions t p = Some e'"
  from entry [OF this] obtain e where e: "regions s p = Some e" "rdata e' = rdata (if ancestor s p r then dirty_and_bump e else e)" by blast
  with rdata_marked(1,2) [OF e(2)] show "\<exists>e. regions s p = Some e \<and> (dispatch_gen e' = dispatch_gen e \<or> dispatch_gen e' = next_gen (dispatch_gen e))"
    by (cases "ancestor s p r") (auto simp: rcaches_def)
qed


lemma coherent_place:
  assumes A: "alloc_ok E" and c: "coherent E Q u" and g: "fresh_twice u" and e: "mods u m = Some e" "region_entry e = Some r"
    and k: "key_get Q u (inst_key E fname rid) = Some m" and lists: "region_mods u r = as @ bs @ [m]"
  shows "\<exists>w. reload_place E Q fname rid (Some r) (dispatch_order.last_of as) u = Some (XY_OK, w) \<and> coherent E Q w"
proof -
  from place_ok [OF A coherentD(1) [OF c] e k lists] obtain w u1 w' where
    w: "reload_place E Q fname rid (Some r) (dispatch_order.last_of as) u = Some (XY_OK, w)" "w = xy_set_err XY_OK w'"
    and t: "touched r u u1" "wf_lib Q u1" "touched r u1 w'" "wf_lib Q w'"
    "\<forall>q. q \<noteq> r \<longrightarrow> region_mods u1 q = region_mods u q" "\<forall>q. q \<noteq> r \<longrightarrow> region_mods w' q = region_mods u1 q" by blast
  have g0: "fresh_gens u" using g by (simp add: fresh_twice_def fresh_gens_def)
  note c1 = coherent_touched [OF c g0 t(1,2,5)]
  have "fresh_gens u1" by (rule fresh_twice_step(2) [OF g c1(2)])
  from coherent_touched(1) [OF c1(1) this t(3,4,6)] have "coherent E Q w'" .
  then have "coherent E Q w"
    by (rule coherent_frame) (simp_all add: w(2) same_hooks_def xy_set_err_def keeps_def same_shapeI)
  with w(1) show ?thesis by blast
qed

section \<open>Reloading\<close>

text \<open>What \<open>reload_keeps_place\<close> asks for: the module is found under its name in the current region,
  nobody else uses it, it has loaded no modules, and the object can be opened again.\<close>

definition reloadable :: "'q env \<Rightarrow> 'q qmap_ops \<Rightarrow> string \<Rightarrow> dlhandle \<Rightarrow> 'q xy_state \<Rightarrow> bool" where
  "reloadable E Q fname h s \<longleftrightarrow> (\<exists>m e r re. key_get Q s (inst_key E fname (xy_current_region_id s)) = Some m
     \<and> mods s m = Some e \<and> refcount e \<le> 1 \<and> region_entry e = Some r \<and> xy_current_region_entry s = Some r
     \<and> (\<forall>c ec. mods s c = Some ec \<longrightarrow> parent_entry ec \<noteq> Some m) \<and> (\<forall>path t. e_dlopen E path t = Some (Some h, t))
     \<and> regions s r = Some re \<and> no_claim E h re)"

text \<open>No generation is about to wrap around when the new entry is put into its place.\<close>

definition gens_to_spare :: "'q env \<Rightarrow> 'q qmap_ops \<Rightarrow> string \<Rightarrow> 'q xy_state \<Rightarrow> bool" where
  "gens_to_spare E Q fname s \<longleftrightarrow> (\<forall>t u. mod_unload (unload_fuel s) E Q fname (xy_current_region_id s) s = Some (XY_OK, t)
     \<longrightarrow> mod_load E Q fname (t\<lparr>xy_reloading := True\<rparr>) = Some (XY_OK, u) \<longrightarrow> fresh_twice u)"

lemma tidy_unload:
  assumes Q: "qmap_laws Q" and A: "alloc_ok E" and C: "cleanup_ok E" and u: "unloadable E Q s" and t: "tidy E Q s"
    and k: "key_get Q s (inst_key E fname (xy_current_region_id s)) = Some m"
  shows "\<exists>v. mod_unload (unload_fuel s) E Q fname (xy_current_region_id s) s = Some (XY_OK, v) \<and> unload_post E Q m s v
    \<and> tidy E Q v \<and> unloadable E Q v"
proof -
  have "next_addr s < unload_fuel s + m" by (simp add: unload_fuel_def)
  with unload_works_all [OF Q A C, of "unload_fuel s"] u k obtain v where v:
    "mod_unload (unload_fuel s) E Q fname (xy_current_region_id s) s = Some (XY_OK, v)" "unload_post E Q m s v"
    unfolding unload_works_def by blast
  then have "tidy E Q v" "unloadable E Q v" using t tidy_stable [OF Q C] by (auto simp: unload_post_def carries_def)
  with v show ?thesis by blast
qed

lemma coherent_reload:
  assumes Q: "qmap_laws Q" and E: "alloc_ok E" "dl_ok E" "cleanup_ok E" and u: "unloadable E Q s" and t: "tidy E Q s"
    and rl: "reloadable E Q fname h s" and i: "install_acts E Q h" and g: "gens_to_spare E Q fname s"
  shows "\<exists>w. xy_reload E Q fname s = Some (XY_OK, w) \<and> coherent E Q w"
proof -
  let ?rid = "xy_current_region_id s" and ?key = "inst_key E fname (xy_current_region_id s)"
  from rl obtain m e r re where k: "key_get Q s ?key = Some m" and e: "mods s m = Some e" "refcount e \<le> 1" "region_entry e = Some r"
    and cur: "xy_current_region_entry s = Some r" and kids: "\<forall>c ec. mods s c = Some ec \<longrightarrow> parent_entry ec \<noteq> Some m"
    and op: "\<forall>path t. e_dlopen E path t = Some (Some h, t)" and re: "regions s r = Some re" "no_claim E h re"
    unfolding reloadable_def by blast
  have c: "coherent E Q s" using t by (simp add: tidy_def)
  note lib = coherentD(1) [OF c] and hk = coherentD(2) [OF c]
  note wf = wf_libD(2) [OF lib]
  from u e(1,3) have "m \<in> set (region_mods s r)" unfolding unloadable_def wf_entries_def by blast
  then obtain as bs where ab: "region_mods s r = as @ m # bs" by (meson split_list)
  from unload_single [OF Q E(1,3) u k e(1,2) kids] obtain v where v:
    "mod_unload (unload_fuel s) E Q fname ?rid s = Some (XY_OK, v)" "wf_lib Q v" "shrunk Q s v" "mods v m = None"
    "\<forall>q. region_mods v q = filter (\<lambda>a. a \<noteq> m) (region_mods s q)" by blast
  from tidy_unload [OF Q E(1,3) u t k] v(1) have tv: "coherent E Q v" "fresh_gens v" by (auto simp: tidy_def room_fresh)
  let ?v = "v\<lparr>xy_reloading := True\<rparr>"
  note rr = reload_ready [OF v(2) hk v(3,4) k cur op re]
  have cv: "coherent E Q ?v" by (rule coherent_frame [OF tv(1)]) (simp_all add: keeps_def same_shapeI same_hooks_def)
  have gv: "fresh_gens ?v" using tv(2) by (simp add: fresh_gens_def)
  have rid: "xy_current_region_id ?v = ?rid" using shrunkD(6) [OF v(3)] by simp
  from coherent_mod_load [OF Q E(1,2) cv gv rr(3) i] obtain m' t' x where x: "mod_load E Q fname ?v = Some (XY_OK, x)" "coherent E Q x"
    "joined Q ?v ((key_get Q ?v)(?key \<mapsto> m')) (xy_mod_count ?v + 1) m' r h ?key t'" "keeps t' x" unfolding rid by blast
  let ?x = "x\<lparr>xy_reloading := False\<rparr>"
  have kx: "keeps t' ?x" by (rule keeps_trans [OF x(4)]) (simp add: keeps_def same_shapeI)
  have cx: "coherent E Q ?x" by (rule coherent_frame [OF x(2)]) (simp_all add: keeps_def same_shapeI same_hooks_def)
  have fx: "fresh_twice ?x" using g v(1) x(1) by (simp add: gens_to_spare_def fresh_twice_def)
  from x(3) obtain e' where e': "mods t' m' = Some e'" "region_entry e' = Some r" unfolding joined_def by blast
  from kx have "map_option mlinks (mods ?x m') = map_option mlinks (mods t' m')" by (simp add: keeps_def same_shape_def)
  with e' obtain e'' where e'': "mods ?x m' = Some e''" "region_entry e'' = Some r" by (cases "mods ?x m'") (auto simp: mlinks_def)
  have "key_get Q ?x = key_get Q t'" by (rule key_get_cong) (use kx in \<open>simp add: keeps_def\<close>)
  then have kg: "key_get Q ?x ?key = Some m'" using x(3) by (simp add: joined_def)
  have "distinct (as @ m # bs)" using dispatch_order.seq_distinct [OF wf, of r] ab by simp
  from take_from_middle [OF this] v(5) ab have "region_mods v r = as @ bs" by simp
  moreover have "region_mods ?x r = region_mods t' r" 
    by (rule keeps_region_mods [OF kx wf_libD(2) [of Q]]) (use x(3) in \<open>simp add: joined_def\<close>)
  ultimately have lx: "region_mods ?x r = as @ bs @ [m']" using x(3) rr(4) by (simp add: joined_def)
  from coherent_place [OF E(1) cx fx e'' kg lx] obtain w where
    w: "reload_place E Q fname ?rid (Some r) (dispatch_order.last_of as) ?x = Some (XY_OK, w)" "coherent E Q w" by blast
  have "xy_reload E Q fname s = Some (XY_OK, w)"
    using lookup_eq [OF E(1), of Q fname ?rid s] k wf_libD(1) [OF lib] e v(1) x(1) w(1) region_prev_last [OF wf ab e(1)]
    by (simp add: xy_reload_def reload_found_def Let_def)
  with w(2) show ?thesis by blast
qed

section \<open>Starting again\<close>

lemma coherent_bootstrap:
  assumes Q: "qmap_laws Q" and A: "alloc_ok E" and q: "quiet Q s" and h: "if hook_id_hd s = None then xy_hook_id_counter s = 0 else wf_hooks Q s"
    and b: "xy_runtime_ensure E Q s = Some (c, t)"
  shows "coherent E Q t"
proof -
  have m: "e_malloc E u AllocRegion" for u using A by (simp add: alloc_ok_def)
  from bootstrap_ok [OF Q q m] obtain t' where t': "xy_runtime_bootstrap E Q s = Some (XY_OK, t')" "wf_lib Q t'" by blast
  have z: "regions s = (\<lambda>_. None)" "mods s = (\<lambda>_. None)" "\<not> xy_inited s" "xy_current_region_id s = XY_REGION_ROOT"
    using q by (simp_all add: quiet_def)
  with t' b have t: "t = t'" by (simp add: xy_runtime_ensure_def)
  let ?r = "next_addr s"
  have r: "regions t = [?r \<mapsto> region_zero\<lparr>re_id := XY_REGION_ROOT, dispatch_gen := 1\<rparr>]" "mods t = (\<lambda>_. None)"
    "hook_id_hd t = open_once Q (hook_id_hd s)" "xy_hook_id_counter t = xy_hook_id_counter s"
    using t'(1) m z unfolding t
    by (auto simp: xy_runtime_bootstrap_def region_ensure_root_def alloc_region_def region_hd_put_def
        region_lookup_def qmap_simps [OF Q])
  have lib: "wf_lib Q t" using t'(2) t by simp
  have "subtree_list t p = []" if p: "regions t p \<noteq> None" for p
  proof -
    have "set (subtree_list t p) = {}"
      using subtree_list_set(1) [OF wf_libD(2) [OF lib] p] region_mods_live [OF lib] r(2) by auto
    then show ?thesis by simp
  qed
  then have "region_ok E Q t p x" if "regions t p = Some x" for p x
    using that r(1) by (auto simp: region_ok_def region_zero_def nth_opt_def split: if_splits)
  moreover have "wf_hooks Q t"
  proof (cases "hook_id_hd s")
    case None
    with h r(3,4) show ?thesis by (simp add: wf_hooks_def open_once_def qmap_simps [OF Q])
  next
    case (Some a)
    with h r(3,4) show ?thesis by (simp add: wf_hooks_def open_once_def)
  qed
  ultimately show ?thesis using lib r(2) by (simp add: coherent_def)
qed

lemma coherent_restart:
  assumes Q: "qmap_laws Q" and A: "alloc_ok E" and C: "cleanup_ok E" and c: "coherent E Q s" and ent: "wf_entries s"
    and tab: "tables_complete Q s" and sd: "xy_shutdown E Q s = Some t" and b: "xy_runtime_ensure E Q t = Some (x, u)"
  shows "coherent E Q u"
proof -
  note d = coherentD [OF c]
  from shutdown_ok [OF Q C d(1) ent tab] sd obtain v where t: "t = emptied v s" by auto
  have q: "quiet Q t"
    using wf_libD(4) [OF d(1)] by (simp add: t emptied_def quiet_def wf_intern_def path_hd_def qmap_simps [OF Q])
  have "wf_hooks Q t" using d(2) by (simp add: t emptied_def wf_hooks_def)
  moreover from d(2) have "hook_id_hd t \<noteq> None" by (auto simp: t emptied_def wf_hooks_def)
  ultimately show ?thesis by (intro coherent_bootstrap [OF Q A q _ b]) (simp del: not_None_eq)
qed

end
