(* ===== verification/Xy_Refused.thy ===== *)
theory Xy_Refused
  imports Xy_Claiming
begin

text \<open>
  Loads whose claim is refused.  The entry has been stored under its key by then but belongs to no
  region yet; taking the load back leaves regions, module entries and keys exactly as they were.
\<close>

section \<open>Taking back an entry that belongs to no region\<close>

lemma prep_err:
  assumes "prep Q s ks cnt m e t"
  shows "prep Q s ks cnt m e (t\<lparr>xy_err_val := x\<rparr>)"
proof -
  note d = prepD [OF assms]
  have k: "keeps t (t\<lparr>xy_err_val := x\<rparr>)" by (simp add: keeps_def same_shapeI)
  have rm: "region_mods (t\<lparr>xy_err_val := x\<rparr>) p = region_mods t p" for p by (rule keeps_region_mods [OF k wf_libD(2) [OF d(1)]])
  have "key_get Q (t\<lparr>xy_err_val := x\<rparr>) = ks" using key_get_cong [of "t\<lparr>xy_err_val := x\<rparr>" t Q] d(5) by simp
  then show ?thesis using keeps_wf_lib [OF k d(1)] rm d(2-4,6-15) by (simp add: prep_def)
qed

lemma abort_prep:
  assumes Q: "qmap_laws Q" and C: "cleanup_ok E" and p: "prep Q s ((key_get Q s)(key \<mapsto> m)) cnt m e t" and b: "born h rid key e"
    and new: "mods s m = None" and unused: "key_get Q s key = None"
    and tx: "tx_mod_entry tx = Some m" "published_entry tx" "context_active tx"
      "prev_region_id tx = xy_current_region_id s" "prev_region_entry tx = xy_current_region_entry s" and lib: "wf_lib Q s"
  shows "\<exists>u. mod_load_abort E Q tx err t = Some (err, u) \<and> wf_lib Q u \<and> key_get Q u = key_get Q s \<and> regions u = regions s \<and> mods u = mods s
    \<and> (\<forall>q. region_mods u q = region_mods s q)
    \<and> xy_current_region_id u = xy_current_region_id s \<and> xy_current_region_entry u = xy_current_region_entry s
    \<and> hook_id_hd u = hook_id_hd s \<and> xy_hook_id_counter u = xy_hook_id_counter s \<and> xy_mod_count u = cnt"
proof -
  note d = prepD [OF p]
  have be: "me_handle e \<noteq> None" "me_mod_key e = key" "region_entry e = None" using b by (simp_all add: born_def)
  have restore: "mod_load_restore_context tx t = (tx\<lparr>context_active := False\<rparr>, t)"
    using tx set_current_same [OF d(8,9)] by (simp add: mod_load_restore_context_def)
  from cleanup_state_ok [OF C d(2) be(1)] obtain v where v: "module_cleanup_region_state E m t
    = Some (t\<lparr>mods := (mods t)(m \<mapsto> e\<lparr>region_state := None\<rparr>), states := v\<rparr>)" .
  let ?e = "e\<lparr>region_state := None\<rparr>"
  let ?t1 = "t\<lparr>mods := (mods t)(m \<mapsto> ?e), states := v\<rparr>"
  have k1: "keeps t ?t1" using d(2) by (simp add: keeps_def same_shape_def mlinks_def mident_def)
  have lib1: "wf_lib Q ?t1" by (rule keeps_wf_lib [OF k1 d(1)])
  have rm1: "region_mods ?t1 q = region_mods t q" for q by (rule keeps_region_mods [OF k1 wf_libD(2) [OF d(1)]])
  have kg1: "key_get Q ?t1 = key_get Q t" by (rule key_get_cong) simp
  have det: "abort_detach m ?t1 = Some ?t1" using be(3) by (simp add: abort_detach_def)
  from wf_libD(6,7) [OF lib1] obtain hd rh where h: "mod_hd ?t1 = Some hd" "mod_by_region_hd ?t1 = Some rh" by auto
  let ?t2 = "?t1\<lparr>mod_hd := Some (qmap_del Q hd (KBlob (me_mod_key ?e))), mod_by_region_hd := Some (mmap_del Q rh (KId (me_region_id e))),
      xy_mod_count := cnt\<rparr>"
  have mt: "mods ?t1 m = Some ?e" by simp
  have out: "\<forall>p. m \<notin> set (region_mods ?t1 p)" using d(3) rm1 by simp
  have st: "key_get Q ?t1 (me_mod_key ?e) = Some m" using kg1 d(5) be(2) by simp
  note u = untable_free [OF Q lib1 mt out st h(1) refl, where rh = "mmap_del Q rh (KId (me_region_id e))" and cnt = cnt]
  let ?u = "free_mod m ?t2"
  have "mod_load_unpublish Q m ?t1 = Some ?t2" using h d(12) by (simp add: mod_load_unpublish_def)
  then have ab: "mod_load_abort E Q tx err t = Some (err, ?u)"
    using restore v det tx(1,2) by (simp add: mod_load_abort_def)
  have kg: "key_get Q ?u = key_get Q s"
  proof
    fix k show "key_get Q ?u k = key_get Q s k"
      using u(3) [of k] kg1 d(5) unused key_get_live [OF lib, of k m] new by auto
  qed
  have "mods ?u = mods s" using d(6) new by (auto simp: free_mod_def fun_eq_iff)
  moreover have "regions ?u = regions s" using d(7) by (simp add: free_mod_def)
  moreover have "region_mods ?u q = region_mods s q" for q using u(2) [of q] rm1 d(4) by simp
  ultimately show ?thesis using ab u(1) kg d(8-11) by (intro exI [of _ ?u]) (simp add: free_mod_def)
qed

section \<open>The refusal\<close>

text \<open>The region demands a claim that the object does not make; or the object claims and asks for no
  valid width, or the handler refuses or grants no valid width, or there is no free id.\<close>

definition claim_refused :: "'q env \<Rightarrow> 'q qmap_ops \<Rightarrow> string \<Rightarrow> dlhandle \<Rightarrow> 'q xy_region_entry \<Rightarrow> 'q xy_state \<Rightarrow> int \<Rightarrow> bool" where
  "claim_refused E Q fname h re s code \<longleftrightarrow> (let sym = e_dlsym E h ''xy_claim''; bits = e_claim_sym E sym in
     require_claim re \<and> sym = 0 \<and> code = XY_ERR_EPERM
     \<or> claim_handler re \<noteq> 0 \<and> sym \<noteq> 0 \<and> (bits = 0 \<or> bits > 64) \<and> code = XY_ERR_INVALID
     \<or> claim_handler re \<noteq> 0 \<and> sym \<noteq> 0 \<and> 0 < bits \<and> bits \<le> 64 \<and> code = XY_ERR_EPERM
       \<and> (\<exists>ret g. (ret \<noteq> XY_OK \<or> g = 0 \<or> g > 64)
            \<and> (\<forall>t. e_handler E (claim_handler re) fname bits (claim_handler_ud re) t = Some ((ret, g), t)))
     \<or> claim_handler re \<noteq> 0 \<and> sym \<noteq> 0 \<and> 0 < bits \<and> bits \<le> 64 \<and> code = XY_ERR_TOOBIG
       \<and> (\<exists>g. 0 < g \<and> g \<le> 64 \<and> region_alloc_slot Q re g s = XY_REGION_INVALID
            \<and> (\<forall>t. e_handler E (claim_handler re) fname bits (claim_handler_ud re) t = Some ((XY_OK, g), t))))"

lemma refused_step:
  assumes r: "claim_refused E Q fname h re s code" and t: "region_lookup Q (re_id re) t = Some r" "regions t r = Some re"
    and slots: "\<And>g. region_alloc_slot Q re g t = region_alloc_slot Q re g s"
    and tx: "tx_handle tx = Some h" "stable_fname tx = Some fname" "inherited_region_id tx = re_id re" "inherited_reg tx = Some r"
  shows "code \<noteq> XY_OK" "\<exists>x. mod_load_claim_if_needed E Q tx t = Some (code, tx, t\<lparr>xy_err_val := x\<rparr>)"
proof -
  let ?sym = "e_dlsym E h ''xy_claim''" and ?bits = "e_claim_sym E (e_dlsym E h ''xy_claim'')"
  show "code \<noteq> XY_OK" using r by (auto simp: claim_refused_def Let_def xy_codes)
  consider "require_claim re" "?sym = 0" "code = XY_ERR_EPERM"
    | "claim_handler re \<noteq> 0" "?sym \<noteq> 0" "?bits = 0 \<or> ?bits > 64" "code = XY_ERR_INVALID"
    | ret g where "claim_handler re \<noteq> 0" "?sym \<noteq> 0" "?bits \<noteq> 0" "\<not> ?bits > 64" "code = XY_ERR_EPERM" "ret \<noteq> XY_OK \<or> g = 0 \<or> g > 64"
        "\<And>t. e_handler E (claim_handler re) fname ?bits (claim_handler_ud re) t = Some ((ret, g), t)"
    | g where "claim_handler re \<noteq> 0" "?sym \<noteq> 0" "?bits \<noteq> 0" "\<not> ?bits > 64" "code = XY_ERR_TOOBIG" "g \<noteq> 0" "\<not> g > 64"
        "region_alloc_slot Q re g s = XY_REGION_INVALID"
        "\<And>t. e_handler E (claim_handler re) fname ?bits (claim_handler_ud re) t = Some ((XY_OK, g), t)"
    using r unfolding claim_refused_def Let_def word_greater_zero_iff linorder_not_less by (elim disjE conjE exE) blast+
  then show "\<exists>x. mod_load_claim_if_needed E Q tx t = Some (code, tx, t\<lparr>xy_err_val := x\<rparr>)"
  proof cases
    case 1
    then have "mod_load_claim_if_needed E Q tx t = Some (code, tx, t\<lparr>xy_err_val := xy_err_val t\<rparr>)"
      using t tx by (simp add: mod_load_claim_if_needed_def Let_def)
    then show ?thesis ..
  next
    case 2
    then have "mod_load_claim_if_needed E Q tx t = Some (code, tx, t\<lparr>xy_err_val := XY_ERR_INVALID\<rparr>)"
      using t tx by (auto simp: mod_load_claim_if_needed_def xy_claim_for_load_def fail_with_def xy_set_err_def Let_def)
    then show ?thesis ..
  next
    case 3
    then have "mod_load_claim_if_needed E Q tx t = Some (code, tx, t\<lparr>xy_err_val := XY_ERR_EPERM\<rparr>)"
      using t tx by (auto simp: mod_load_claim_if_needed_def xy_claim_for_load_def fail_with_def xy_set_err_def Let_def)
    then show ?thesis ..
  next
    case 4
    then have "mod_load_claim_if_needed E Q tx t = Some (code, tx, t\<lparr>xy_err_val := XY_ERR_TOOBIG\<rparr>)"
      using t tx slots
      by (auto simp: mod_load_claim_if_needed_def xy_claim_for_load_def claim_child_def fail_with_def xy_set_err_def Let_def)
    then show ?thesis ..
  qed
qed

lemma load_refused:
  assumes Q: "qmap_laws Q" and E: "alloc_ok E" "cleanup_ok E" and lib: "wf_lib Q s" and o: "opens E Q fname h r s"
    and re: "regions s r = Some re" and ref: "claim_refused E Q fname h re s code"
  shows "code \<noteq> XY_OK \<and> (\<exists>s'. xy_load E Q fname s = Some (code, s') \<and> wf_lib Q s' \<and> key_get Q s' = key_get Q s
    \<and> regions s' = regions s \<and> mods s' = mods s \<and> (\<forall>q. region_mods s' q = region_mods s q)
    \<and> xy_current_region_id s' = xy_current_region_id s \<and> xy_current_region_entry s' = xy_current_region_entry s
    \<and> hook_id_hd s' = hook_id_hd s \<and> xy_hook_id_counter s' = xy_hook_id_counter s \<and> xy_mod_count s' = xy_mod_count s
    \<and> xy_err_val s' = code)"
proof -
  let ?rid = "xy_current_region_id s" and ?key = "inst_key E fname (xy_current_region_id s)"
  from o have cur: "xy_current_region_entry s = Some r" and unused: "key_get Q s ?key = None" by (simp_all add: opens_def)
  have rid: "?rid = re_id re" using wf_libD(5) [OF lib] cur re by (auto simp: wf_current_def)
  from open_step [OF E(1) o] obtain tx path where tx: "mod_load_open_handle E Q fname (tx_zero ?rid) s = Some (XY_OK, tx, s)"
    "mod_load_try_reuse_existing tx s = Some (False, tx, s)" "lk_key (tx_lookup tx) = Some ?key"
    "lk_load_path (tx_lookup tx) = Some path" "tx_handle tx = Some h" "inherited_region_id tx = ?rid" by blast
  from load_start [OF Q E(1) lib cur tx(3-6)] obtain tx' m e t where a: "mod_load_steps E Q fname tx s
      = tx_then (mod_load_claim_if_needed E Q)
        (tx_then (mod_load_region_state E) (tx_then (mod_load_append E Q) (mod_load_run_install E))) tx' t"
    "mods s m = None" "prep Q s ((key_get Q s)(?key \<mapsto> m)) (xy_mod_count s) m e t" "born h ?rid ?key e"
    "tx_info h m ?key ?rid tx'" "stable_fname tx' = Some fname" "inherited_reg tx' = Some r" "published_entry tx'"
    "context_active tx'" "prev_region_id tx' = ?rid" "prev_region_entry tx' = Some r" by blast
  have rt: "regions t r = Some re" using re prepD(7) [OF a(3)] by simp
  have lk: "region_lookup Q (re_id re) t = Some r" using region_lookup_iff [OF wf_libD(3) [OF prepD(1) [OF a(3)]]] rt by blast
  have tx': "tx_handle tx' = Some h" "inherited_region_id tx' = re_id re" "tx_mod_entry tx' = Some m"
    using a(5) rid by (simp_all add: tx_info_def)
  have sl: "region_alloc_slot Q re g t = region_alloc_slot Q re g s" for g
    by (rule alloc_slot_frame [OF wf_libD(3) [OF lib] wf_libD(3) [OF prepD(1) [OF a(3)]] prepD(7) [OF a(3)]])
  from refused_step [OF ref lk rt sl tx'(1) a(6) tx'(2) a(7)] obtain x where
    c: "code \<noteq> XY_OK" "mod_load_claim_if_needed E Q tx' t = Some (code, tx', t\<lparr>xy_err_val := x\<rparr>)" by blast
  have pe: "prev_region_entry tx' = xy_current_region_entry s" using a(11) cur by simp
  from abort_prep [OF Q E(2) prep_err [OF a(3)] a(4,2) unused tx'(3) a(8-10) pe lib, of code x] obtain u where
    u: "mod_load_abort E Q tx' code (t\<lparr>xy_err_val := x\<rparr>) = Some (code, u)" "wf_lib Q u" "key_get Q u = key_get Q s"
    "regions u = regions s" "mods u = mods s" "\<forall>q. region_mods u q = region_mods s q"
    "xy_current_region_id u = xy_current_region_id s" "xy_current_region_entry u = xy_current_region_entry s"
    "hook_id_hd u = hook_id_hd s" "xy_hook_id_counter u = xy_hook_id_counter s" "xy_mod_count u = xy_mod_count s" by blast
  let ?s' = "u\<lparr>xy_err_val := code\<rparr>"
  have k: "keeps u ?s'" by (simp add: keeps_def same_shapeI)
  have "mod_load E Q fname s = Some (code, u)" using tx(1,2) a(1) c u(1) by (simp add: mod_load_def tx_then_def)
  then have "xy_load E Q fname s = Some (code, ?s')"
    using c(1) wf_libD(1) [OF lib] by (simp add: xy_load_def fail_with_def xy_set_err_def)
  moreover have "region_mods ?s' q = region_mods s q" for q using keeps_region_mods [OF k wf_libD(2) [OF u(2)]] u(6) by simp
  moreover have "key_get Q ?s' = key_get Q s" using key_get_cong [of ?s' u Q] u(3) by simp
  ultimately show ?thesis using c(1) keeps_wf_lib [OF k u(2)] u(4,5,7-) by (intro conjI exI [of _ ?s']) simp_all
qed

section \<open>The property\<close>

text \<open>(C14) A load whose claim is refused fails with the code of the refusal: XY_ERR_EPERM when the region
  demands a claim and the object makes none, when the handler refuses, or when it grants no
  valid width; XY_ERR_INVALID when the object asks for no valid width; XY_ERR_TOOBIG when no id
  is free.  It leaves no trace: every region and every module entry is as before, the name is
  not found, the caller is in its own region, and the module is not counted.\<close>

theorem refused_load_leaves_no_trace:
  assumes "qmap_laws Q" and "alloc_ok E" "cleanup_ok E" and "wf_lib Q s" and "opens E Q fname h r s"
    and "regions s r = Some re" and "claim_refused E Q fname h re s code"
  shows "code \<in> {XY_ERR_EPERM, XY_ERR_INVALID, XY_ERR_TOOBIG} \<and> (\<exists>s'. xy_load E Q fname s = Some (code, s') \<and> wf_lib Q s'
    \<and> regions s' = regions s \<and> mods s' = mods s \<and> (\<forall>q. region_mods s' q = region_mods s q)
    \<and> (\<forall>rid. lk_entry (module_lookup_from_fname E Q fname rid s') = lk_entry (module_lookup_from_fname E Q fname rid s))
    \<and> lk_entry (module_lookup_from_fname E Q fname (xy_current_region_id s) s') = None
    \<and> xy_current_region_id s' = xy_current_region_id s \<and> xy_current_region_entry s' = xy_current_region_entry s
    \<and> xy_mod_count s' = xy_mod_count s \<and> xy_errno s' = code)"
proof -
  from load_refused [OF assms] obtain s' where s': "xy_load E Q fname s = Some (code, s')" "wf_lib Q s'"
    "key_get Q s' = key_get Q s" "regions s' = regions s" "mods s' = mods s" "\<forall>q. region_mods s' q = region_mods s q"
    "xy_current_region_id s' = xy_current_region_id s" "xy_current_region_entry s' = xy_current_region_entry s"
    "xy_mod_count s' = xy_mod_count s" "xy_err_val s' = code" by blast
  have "code \<in> {XY_ERR_EPERM, XY_ERR_INVALID, XY_ERR_TOOBIG}" using assms(7) by (auto simp: claim_refused_def Let_def)
  moreover have "key_get Q s (inst_key E fname (xy_current_region_id s)) = None" using assms(5) by (simp add: opens_def)
  ultimately show ?thesis
    using s' by (intro conjI exI [of _ s']) (simp_all add: lookup_eq(2) [OF assms(2)] xy_errno_def)
qed

text \<open>In the example the handler of the root region grants what is asked, and the object asks for
  255 bits.\<close>

theorem refused_load_leaves_no_trace_witness:
  "\<exists>E s'. xy_load E alist_qmap ''x'' demo_c = Some (XY_ERR_INVALID, s') \<and> regions s' = regions demo_c \<and> mods s' = mods demo_c"
proof -
  let ?E = "claim_env\<lparr>e_claim_sym := (\<lambda>_. 255)\<rparr>"
  have lib: "wf_lib alist_qmap demo_c" by (rule keeps_wf_lib [OF demo_c_keeps demo_h_wf_lib])
  have E: "alloc_ok ?E" "cleanup_ok ?E"
    using demo_cleanup_ok by (simp_all add: alloc_ok_def cleanup_ok_def claim_env_def)
  have un: "key_get alist_qmap demo_c k = None" for k
    by (simp add: key_get_def mod_hd_get_def) (simp add: demo_c_def demo_h_def demo_def)
  have o: "opens ?E alist_qmap ''x'' 7 1 demo_c"
    using un by (simp add: opens_def claim_env_def) (simp add: demo_c_def demo_h_def demo_def)
  have r: "regions demo_c 1 = Some demo_gate" by (simp add: demo_c_def)
  have ref: "claim_refused ?E alist_qmap ''x'' 7 demo_gate demo_c XY_ERR_INVALID"
    by (simp add: claim_refused_def claim_env_def demo_gate_def demo_region_def)
  from refused_load_leaves_no_trace [OF alist_qmap_laws E lib o r ref] show ?thesis by blast
qed

end
