(* ===== verification/Xy_Claims.thy ===== *)
theory Xy_Claims
  imports Xy_Refused Xy_Acts
begin

text \<open>
  A load with a claim and the caches.  The claim puts an empty region below the caller's before
  the module is linked: the regions above are marked, the lists of all subtrees stay the same.
  Then the module joins the new region, which marks the regions above once more.
\<close>

section \<open>The tree with the new region\<close>

text \<open>The regions of \<open>u\<close> are those of \<open>t\<close> and an empty region \<open>child\<close>, linked below \<open>r\<close>, whose ancestors are
  marked.\<close>

definition region_below :: "'q qmap_ops \<Rightarrow> 'q xy_region_entry \<Rightarrow> rptr \<Rightarrow> 'q xy_state \<Rightarrow> 'q xy_state \<Rightarrow> bool" where
  "region_below Q child r t u \<longleftrightarrow> wf_lib Q t \<and> wf_lib Q u \<and> regions t r \<noteq> None \<and> re_parent child = Some r
     \<and> children_head child = None \<and> mods_head child = None \<and> mods_tail child = None
     \<and> region_rank t r < unat (re_plen child) \<and> unat (re_plen child) \<le> 64
     \<and> regions u = ancestor_upd dirty_and_bump (Some r) (child_linked Q child r t)
     \<and> (\<forall>p. region_mods u p = region_mods t p)"

lemma region_below_entries:
  assumes b: "region_below Q child r t u" and re: "regions t r = Some re"
  shows "regions t (next_addr t) = None"
    "regions u (next_addr t) = Some (child\<lparr>sibling_next := children_head re\<rparr>)"
    "\<And>p e. regions t p = Some e \<Longrightarrow> \<not> ancestor t p r \<Longrightarrow> p \<noteq> r \<and> regions u p = Some e"
    "\<And>p e. regions t p = Some e \<Longrightarrow> ancestor t p r \<Longrightarrow>
       regions u p = Some (dirty_and_bump (if p = r then e\<lparr>children_head := Some (next_addr t)\<rparr> else e))"
    "\<And>p. p \<noteq> next_addr t \<Longrightarrow> regions u p = None \<longleftrightarrow> regions t p = None"
    "region_parent u = (region_parent t)(next_addr t := Some (Some r))"
    "region_sibling u = (region_sibling t)(next_addr t := Some (children_head re))"
proof -
  from b have up: "re_parent child = Some r" and leaf: "children_head child = None" "mods_head child = None" "mods_tail child = None"
    and plen: "unat (re_plen re) < unat (re_plen child)" "unat (re_plen child) \<le> 64" and lib: "wf_lib Q t"
    and u: "regions u = ancestor_upd dirty_and_bump (Some r) (child_linked Q child r t)"
    using re by (simp_all add: region_below_def region_rank_def)
  note wf = wf_libD(2) [OF lib] and wfp = wf_tree_parts(1) [OF wf_libD(2) [OF lib]]
  have fresh: "regions t (next_addr t) = None" by (rule fresh_region [OF wfp])
  have rn: "r \<noteq> next_addr t" using re fresh by auto
  note l = child_links [OF re fresh up, of Q]
  note cw = child_linked_wf(1) [OF wf re up leaf plen, of Q]
  have anc: "ancestor (child_linked Q child r t) p r = ancestor t p r" for p
    by (rule child_linked_ancestor(1) [OF wf wf_tree_parts(1) [OF cw] re up]) (simp add: re)
  have ent: "regions u p = (if ancestor t p r then map_option dirty_and_bump (regions (child_linked Q child r t) p)
      else regions (child_linked Q child r t) p)" for p by (simp add: u ancestor_upd_def anc)
  have na: "\<not> ancestor t (next_addr t) r" using ancestor_live(1) [of t "next_addr t" r] fresh by auto
  have rr: "ancestor t r r" by (rule ancestor_refl [OF wfp]) (simp add: re)
  have st: "same_tree (child_linked Q child r t) ((child_linked Q child r t)\<lparr>regions := regions u\<rparr>)"
    unfolding u by (rule ancestor_upd_same_tree) simp
  have "region_parent u = region_parent ((child_linked Q child r t)\<lparr>regions := regions u\<rparr>)"
    "region_sibling u = region_sibling ((child_linked Q child r t)\<lparr>regions := regions u\<rparr>)"
    by (simp_all add: region_parent_def region_sibling_def fun_eq_iff)
  then have ps: "region_parent u = (region_parent t)(next_addr t := Some (Some r))"
    "region_sibling u = (region_sibling t)(next_addr t := Some (children_head re))"
    using same_tree_links(1,2) [OF st] l(1,2) by simp_all
  show "regions t (next_addr t) = None" "region_parent u = (region_parent t)(next_addr t := Some (Some r))"
    "region_sibling u = (region_sibling t)(next_addr t := Some (children_head re))" by (fact fresh ps)+
  show "regions u (next_addr t) = Some (child\<lparr>sibling_next := children_head re\<rparr>)"
    using na rn by (simp add: ent l(5))
  show "p \<noteq> r \<and> regions u p = Some e" if "regions t p = Some e" "\<not> ancestor t p r" for p e
    using that rr fresh by (auto simp: ent l(5))
  show "regions u p = Some (dirty_and_bump (if p = r then e\<lparr>children_head := Some (next_addr t)\<rparr> else e))"
    if "regions t p = Some e" "ancestor t p r" for p e
    using that re fresh by (auto simp: ent l(5))
  show "regions u p = None \<longleftrightarrow> regions t p = None" if "p \<noteq> next_addr t" for p
    using that re by (simp add: ent l(5))
qed

lemma region_below_children:
  assumes b: "region_below Q child r t u"
  shows "region_children u r = next_addr t # region_children t r" "region_children u (next_addr t) = []"
    "regions t q \<noteq> None \<Longrightarrow> q \<noteq> r \<Longrightarrow> region_children u q = region_children t q"
proof -
  from b obtain re where re: "regions t r = Some re" unfolding region_below_def by auto
  note f = region_below_entries [OF b re]
  from b have lib: "wf_lib Q t" "wf_lib Q u" and leaf: "children_head child = None" by (simp_all add: region_below_def)
  note wf = wf_libD(2) [OF lib(1)] wf_libD(2) [OF lib(2)]
  note w = wf_tree_parts [OF wf(1)] and w' = wf_tree_parts [OF wf(2)]
  have old: "c \<noteq> next_addr t" if "c \<in> set (region_children t q)" "regions t q \<noteq> None" for c q
    using region_child_rank(3) [OF wf(1) that(2,1)] f(1) by auto
  have rr: "ancestor t r r" by (rule ancestor_refl [OF w(1)]) (simp add: re)
  let ?r' = "dirty_and_bump (re\<lparr>children_head := Some (next_addr t)\<rparr>)"
  have r': "regions u r = Some ?r'" using f(4) [OF re rr] by simp
  have ch: "children_head (dirty_and_bump e) = children_head e" for e :: "'a xy_region_entry"
    by (simp add: dirty_and_bump_def set_dirty_def bump_gen_def)
  have "linked (region_sibling u) (children_head re) (region_children t r)
      = linked (region_sibling t) (children_head re) (region_children t r)"
    using old [of _ r] re by (intro linked_cong) (auto simp: f(7))
  then have "linked (region_sibling u) (children_head ?r') (next_addr t # region_children t r)"
    using region_children_list(1) [OF w(1,2) re] by (simp add: f(7) ch)
  from linked_unique [OF region_children_list(1) [OF w'(1,2) r'] this]
  show "region_children u r = next_addr t # region_children t r" .
  from region_children_list(1) [OF w'(1,2) f(2)] leaf have "linked (region_sibling u) None (region_children u (next_addr t))" by simp
  then show "region_children u (next_addr t) = []" by (cases "region_children u (next_addr t)") simp_all
  show "region_children u q = region_children t q" if q: "regions t q \<noteq> None" "q \<noteq> r"
  proof -
    from q(1) obtain e where e: "regions t q = Some e" by auto
    obtain e' where e': "regions u q = Some e'" "children_head e' = children_head e"
      using f(3,4) [OF e] q(2) ch by (cases "ancestor t q r") auto
    show ?thesis by (rule region_children_same [OF wf e e']) (use old [OF _ q(1)] f(7) in auto)
  qed
qed

text \<open>No subtree list changes, and the new region's is empty.\<close>

lemma region_below_subtrees:
  assumes b: "region_below Q child r t u"
  shows "subtree_list u (next_addr t) = []" "regions t p \<noteq> None \<Longrightarrow> \<not> ancestor t p r \<Longrightarrow> subtree_list u p = subtree_list t p"
    "subtree_list u r = subtree_list t r"
proof -
  note ch = region_below_children [OF b]
  from b obtain re where re: "regions t r = Some re" unfolding region_below_def by auto
  note f = region_below_entries [OF b re]
  from b have lib: "wf_lib Q t" "wf_lib Q u" and rm: "\<And>p. region_mods u p = region_mods t p" by (simp_all add: region_below_def)
  note wf = wf_libD(2) [OF lib(1)] wf_libD(2) [OF lib(2)]
  note w = wf_tree_parts [OF wf(1)]
  have "regions u (next_addr t) \<noteq> None" using f(2) by simp
  from subtree_list_order [OF wf(2) this] ch(2) rm f(1) show n: "subtree_list u (next_addr t) = []" by (simp add: region_mods_def)
  have same: "subtree_list u p = subtree_list t p" if p: "regions t p \<noteq> None" "\<not> ancestor t p r" for p
  proof (rule subtree_list_children [OF wf p(1)])
    fix q assume a: "ancestor t p q"
    then have "q \<noteq> r" "regions t q \<noteq> None" using p(2) ancestor_live(2) [OF a] by auto
    with ch(3) rm f(1) f(5) [of q] show "regions u q \<noteq> None \<and> region_children u q = region_children t q \<and> region_mods u q = region_mods t q"
      by (cases "q = next_addr t") auto
  qed
  then show "regions t p \<noteq> None \<Longrightarrow> \<not> ancestor t p r \<Longrightarrow> subtree_list u p = subtree_list t p" .
  have r: "regions t r \<noteq> None" "regions u r \<noteq> None" using re f(1) f(5) [of r] by (cases "r = next_addr t", auto)+
  have "subtree_list u c = subtree_list t c" if c: "c \<in> set (region_children t r)" for c
  proof (rule same)
    note k = region_child_rank [OF wf(1) r(1) c]
    show "regions t c \<noteq> None" by (rule k(3))
    have "ancestor t r c" using ancestor_step [OF w(1) k(1)] ancestor_refl [OF w(1) r(1)] by simp
    with ancestor_antisym [OF w(1), of r c] k(2) show "\<not> ancestor t c r" by auto
  qed
  then have "map (subtree_list u) (region_children t r) = map (subtree_list t) (region_children t r)" by (intro map_cong refl)
  with subtree_list_order [OF wf(1) r(1)] subtree_list_order [OF wf(2) r(2)] ch(1) n rm show "subtree_list u r = subtree_list t r"
    by simp
qed

section \<open>The caches after the claim\<close>

lemma region_below_chain:
  assumes b: "region_below Q child r t u" and e: "regions t p = Some e" "\<not> ancestor t p r"
  shows "call_chain (Some p) u = call_chain (Some p) t"
    and "call_chain (Some p) t = Some chain \<Longrightarrow> chain_denies Q u chain path = chain_denies Q t chain path"
proof -
  from b obtain re where re: "regions t r = Some re" unfolding region_below_def by auto
  note f = region_below_entries [OF b re]
  from b have lib: "wf_lib Q t" "wf_lib Q u" by (simp_all add: region_below_def)
  note wfp = wf_tree_parts(1) [OF wf_libD(2) [OF lib(1)]]
  from up_chain_total [OF wfp, of p] e(1) obtain ps where ps: "linked (region_parent t) (Some p) ps" by auto
  have out: "next_addr t \<notin> set ps" using linked_live [OF ps, of "next_addr t"] f(1) by (auto simp: region_parent_def)
  have "linked (region_parent u) (Some p) ps = linked (region_parent t) (Some p) ps" using out by (intro linked_cong) (auto simp: f(6))
  with ps have pu: "linked (region_parent u) (Some p) ps" by simp
  have len: "length ps \<le> 65" using region_forest.chain_short [OF wfp ps] by simp
  have pe: "regions u p = Some e" using f(3) [OF e] by blast
  show "call_chain (Some p) u = call_chain (Some p) t"
    using region_ancestor_chain_linked [OF ps len] region_ancestor_chain_linked [OF pu len] e(1) pe by (simp add: call_chain_def)
  assume c: "call_chain (Some p) t = Some chain"
  have d: "(\<exists>x. regions u a = Some x \<and> denied_in Q x b) = (\<exists>x. regions t a = Some x \<and> denied_in Q x b)" if "a \<in> set chain" for a b
  proof -
    from call_chain_ancestors(1) [OF wfp c that] ancestor_live(1) [of t a p] obtain y where y: "regions t a = Some y" by auto
    have "\<exists>x. regions u a = Some x \<and> denied_modules x = denied_modules y \<and> denied_modules_set x = denied_modules_set y"
      using f(3,4) [OF y] by (cases "ancestor t a r") (auto simp: dirty_and_bump_def set_dirty_def bump_gen_def)
    with y show ?thesis by (auto simp: denied_in_def)
  qed
  then show "chain_denies Q u chain path = chain_denies Q t chain path"
    unfolding chain_denies_def by blast
qed

lemma region_below_coherent:
  assumes c: "coherent_but E Q m t" and g: "fresh_gens t" and b: "region_below Q child r t u"
    and new: "dispatch_gen child \<noteq> 0" "\<not> subtree_mods_dirty child" "subtree_mods child = []" "hook_dispatch child = []"
    and h: "same_hooks t u" and ms: "\<And>a. a \<noteq> m \<Longrightarrow> mods u a = mods t a"
  shows "coherent_but E Q m u"
proof -
  note d = coherent_butD [OF c] and v = same_hooks_views [OF h]
  from b obtain re where re: "regions t r = Some re" unfolding region_below_def by auto
  note f = region_below_entries [OF b re]
  from b have lib: "wf_lib Q u" and rm: "\<And>p. region_mods u p = region_mods t p" by (simp_all add: region_below_def)
  have ok: "region_ok E Q u p e'" if e': "regions u p = Some e'" for p e'
  proof (cases "p = next_addr t")
    case True
    with e' f(2) new region_below_subtrees(1) [OF b] show ?thesis by (auto simp: region_ok_def nth_opt_def)
  next
    case False
    with e' f(5) [of p] obtain e where e: "regions t p = Some e" by auto
    show ?thesis
    proof (cases "ancestor t p r")
      case True
      have "dispatch_gen e \<noteq> - 1" using g e by (auto simp: fresh_gens_def)
      with f(4) [OF e True] e' show ?thesis
        by (intro region_ok_bumped [OF d(4) [OF e]]) (auto simp: dirty_and_bump_def set_dirty_def bump_gen_def)
    next
      case out: False
      have "e' = e" using f(3) [OF e out] e' by simp
      have sub: "subtree_list u p = subtree_list t p" by (rule region_below_subtrees(2) [OF b]) (use e out in simp_all)
      note ch = region_below_chain [OF b e out]
      have mv: "map_option mview (mods u a) = map_option mview (mods t a)" if "a \<in> set (subtree_list t p)" for a
      proof -
        from subtree_list_set(1) [OF wf_libD(2) [OF d(1)], of p] e that obtain q where "a \<in> set (region_mods t q)" by auto
        with d(5) have "a \<noteq> m" by auto
        with ms show ?thesis by simp
      qed
      show ?thesis
        by (rule region_ok_same_chain [OF d(4) [OF e] _ ch(1) _ sub mv]) (use \<open>e' = e\<close> ch(2) v(1) in simp_all)
    qed
  qed
  have "mod_ok E Q u x" if "mods u a = Some x" "a \<noteq> m" for a x using d(3) [of a x] that ms v(3) by simp
  with lib ok d(2,5) v(2) rm show ?thesis unfolding coherent_but_def by simp
qed

lemma region_below_gens:
  assumes "fresh_twice t" and b: "region_below Q child r t u" and "dispatch_gen child \<noteq> - 1"
  shows "fresh_gens u"
  unfolding fresh_gens_def
proof (intro allI impI)
  from b obtain re where re: "regions t r = Some re" unfolding region_below_def by auto
  note f = region_below_entries [OF b re]
  fix p e' assume e': "regions u p = Some e'"
  show "dispatch_gen e' \<noteq> - 1"
  proof (cases "p = next_addr t")
    case True
    with f(2) e' assms(3) show ?thesis by auto
  next
    case False
    with e' f(5) [of p] obtain e where e: "regions t p = Some e" by auto
    with assms(1) have "dispatch_gen e \<noteq> - 1" "dispatch_gen e \<noteq> - 2" by (auto simp: fresh_twice_def)
    with next_gen_fresh f(3,4) [OF e] e' show ?thesis
      by (cases "ancestor t p r") (auto simp: dirty_and_bump_def set_dirty_def bump_gen_def)
  qed
qed

section \<open>The load\<close>

lemma coherent_but_prep:
  assumes c: "coherent E Q s" and p: "prep Q s ks cnt m e t" and new: "mods s m = None"
  shows "coherent_but E Q m t"
proof -
  note d = coherentD [OF c] and pd = prepD [OF p]
  have h: "same_hooks s t" using pd(10,11) by (simp add: same_hooks_def)
  note v = same_hooks_views [OF h]
  have sk: "same_skel s t" "same_denies s t" by (simp_all add: same_skel_def same_denies_def pd(7))
  have "region_ok E Q t q x" if x: "regions t q = Some x" for q x
  proof -
    from x pd(7) have xs: "regions s q = Some x" by simp
    have sub: "subtree_list t q = subtree_list s q"
      by (rule subtree_list_local [OF wf_libD(2) [OF d(1)] wf_libD(2) [OF pd(1)] sk(1)]) (use xs pd(4) in simp_all)
    have mv: "map_option mview (mods t a) = map_option mview (mods s a)" if "a \<in> set (subtree_list s q)" for a
    proof -
      from subtree_list_set(1) [OF wf_libD(2) [OF d(1)], of q] xs that obtain p where "a \<in> set (region_mods s p)" by auto
      from region_mods_live [OF d(1) this] new have "a \<noteq> m" by auto
      with pd(6) show ?thesis by simp
    qed
    show ?thesis by (rule region_ok_same [OF d(4) [OF xs] xs x refl sk sub mv]) (simp_all add: v(1))
  qed
  moreover have "mod_ok E Q t x" if "mods t a = Some x" "a \<noteq> m" for a x using d(3) [of a x] that pd(6) v(3) by simp
  ultimately show ?thesis using pd(1,3) d(2) v(2) by (simp add: coherent_but_def)
qed

lemma new_child_below:
  assumes lib: "wf_lib Q t" "wf_lib Q u" and re: "regions t r = Some re" and g: "0 < unat g" "unat (re_plen re) + unat g \<le> 60"
    and u: "regions u = ancestor_upd dirty_and_bump (Some r) (child_linked Q (new_child re r cid g fname) r t)"
    and rm: "\<And>p. region_mods u p = region_mods t p"
  shows "region_below Q (new_child re r cid g fname) r t u"
proof -
  have "unat (re_plen (new_child re r cid g fname)) = unat (re_plen re) + unat g"
    using g(2) by (simp add: new_child_def child_plen)
  with assms show ?thesis by (simp add: region_below_def region_rank_def) (simp add: new_child_def region_zero_def)
qed

text \<open>A load that claims, up to the install: an empty region is put below \<open>r\<close> (\<open>t1\<close>), and the module is
  linked as its member (\<open>t2\<close>).\<close>

definition claimed_join :: "'q env \<Rightarrow> 'q qmap_ops \<Rightarrow> dlhandle \<Rightarrow> rptr \<Rightarrow> mptr \<Rightarrow> 'q xy_state \<Rightarrow> 'q xy_state \<Rightarrow> 'q xy_state \<Rightarrow> bool" where
  "claimed_join E Q h r m s t1 t2 \<longleftrightarrow> mods s m = None
     \<and> (\<exists>t child ks cnt key. wf_lib Q t \<and> regions t = regions s \<and> (\<forall>p. region_mods t p = region_mods s p)
          \<and> region_below Q child r t t1 \<and> joined Q t1 ks cnt m (next_addr t) h key t2 \<and> linked_in E Q t1 m (next_addr t) t2)
     \<and> (\<forall>a. a \<noteq> m \<longrightarrow> mods t1 a = mods s a) \<and> same_hooks s t1 \<and> adapters t1 = adapters s \<and> xy_last_retbuf t1 = xy_last_retbuf s
     \<and> coherent E Q t2 \<and> (gives_ctx E h \<longrightarrow> (\<exists>x. mods t2 m = Some x \<and> me_ctx x \<noteq> None))"

lemma marked_id: "rdata x = rdata (if up then dirty_and_bump y else y) \<Longrightarrow> re_id x = re_id y"
  by (drule arg_cong [where f = re_id]) (simp add: rdata_def dirty_and_bump_def set_dirty_def bump_gen_def split: if_splits)

lemma claim_and_join:
  assumes Q: "qmap_laws Q" and E: "alloc_ok E" "dl_ok E" and c: "coherent E Q s" and g: "fresh_twice s"
    and re: "regions s r = Some re" and cl: "claimable E Q fname h re gr s"
    and cur: "xy_current_region_entry s = Some r" and rid: "rid = re_id re" and key: "key = inst_key E fname rid"
    and p: "prep Q s ((key_get Q s)(key \<mapsto> m)) cnt m e t" and b: "born h rid key e" and new: "mods s m = None"
    and tx: "tx_info h m key rid tx" "stable_fname tx = Some fname" "inherited_reg tx = Some r"
    and ctx: "gives_ctx E h \<longrightarrow> me_ctx e \<noteq> None"
  shows "\<exists>t1 t2. tx_then (mod_load_claim_if_needed E Q)
      (tx_then (mod_load_region_state E) (tx_then (mod_load_append E Q) (mod_load_run_install E))) tx t = mod_load_run_install E tx t2
    \<and> claimed_join E Q h r m s t1 t2 \<and> map_option re_id (regions t2 r) = Some (re_id re)"
proof -
  note d = coherentD [OF c] and pd = prepD [OF p]
  let ?cid = "region_alloc_slot Q re gr s" and ?child = "new_child re r (region_alloc_slot Q re gr s) gr (Some fname)"
  from claiming_step [OF Q E(1) d(1) cl cur re rid key p b tx refl] obtain n t1 e1 where
    b: "mod_load_claim_if_needed E Q tx t = Some (XY_OK, tx, t1)"
    "prep Q t1 ((key_get Q s)(key := None, inst_key E fname ?cid \<mapsto> m)) cnt m e1 t1"
    "born h ?cid (inst_key E fname ?cid) e1" "regions s n = None" "map_option re_id (regions t1 n) = Some ?cid"
    "\<forall>q x. regions s q = Some x \<longrightarrow> (\<exists>y. regions t1 q = Some y \<and> re_id y = re_id x \<and> re_parent y = re_parent x)"
    "\<forall>q. region_mods t1 q = region_mods s q" "hook_id_hd t1 = hook_id_hd s" "xy_hook_id_counter t1 = xy_hook_id_counter s"
    "regions t1 = ancestor_upd dirty_and_bump (Some r) (child_linked Q ?child r t)"
    "\<forall>a. a \<noteq> m \<longrightarrow> mods t1 a = mods t a" "me_ctx e1 = me_ctx e" "adapters t1 = adapters s" "xy_last_retbuf t1 = xy_last_retbuf s"
    by blast
  note p1 = prepD [OF b(2)]
  have gr: "0 < unat gr" "unat (re_plen re) + unat gr \<le> 60" using cl by (auto simp: claimable_def word_less_nat_alt)
  have rt: "regions t r = Some re" using re pd(7) by simp
  have below: "region_below Q ?child r t t1"
    by (rule new_child_below [OF pd(1) p1(1) rt gr b(10)]) (use b(7) pd(4) in simp)
  have n: "n = next_addr t"
  proof (rule ccontr)
    assume "n \<noteq> next_addr t"
    from region_below_entries(5) [OF below rt this] b(4,5) pd(7) show False by simp
  qed
  have h1: "same_hooks s t1" "same_hooks t t1" using b(8,9) pd(10,11) by (simp_all add: same_hooks_def)
  have gt: "fresh_twice t" using g pd(7) by (simp add: fresh_twice_def)
  have fields: "dispatch_gen ?child = 1" "\<not> subtree_mods_dirty ?child" "subtree_mods ?child = []" "hook_dispatch ?child = []"
    by (simp_all add: new_child_def region_zero_def)
  have but: "coherent_but E Q m t1"
    by (rule region_below_coherent [OF coherent_but_prep [OF c p new] _ below _ fields(2-4) h1(2)])
      (use gt fields(1) b(11) in \<open>simp_all add: fresh_twice_def fresh_gens_def\<close>)
  have g1: "fresh_gens t1" by (rule region_below_gens [OF gt below]) (simp add: fields(1))
  have lk: "region_lookup Q ?cid t1 = Some n" using region_lookup_iff [OF wf_libD(3) [OF p1(1)]] b(5) by auto
  have H1: "wf_hooks Q t1" using d(2) h1(1) by (simp add: same_hooks_views(2))
  from load_join [OF Q E H1 b(2) tx(1) b(3) lk p1(1)] obtain t2 where t2:
    "tx_then (mod_load_region_state E) (tx_then (mod_load_append E Q) (mod_load_run_install E)) tx t1 = mod_load_run_install E tx t2"
    "joined Q t1 ((key_get Q s)(key := None, inst_key E fname ?cid \<mapsto> m)) (cnt + 1) m n h (inst_key E fname ?cid) t2"
    "\<exists>x. mods t2 m = Some x \<and> (wants_state E h \<longrightarrow> region_state x \<noteq> None) \<and> me_ctx x = me_ctx e1" "linked_in E Q t1 m n t2" by blast
  have c2: "coherent E Q t2" by (rule coherent_joined [OF but g1 t2(2,4)])
  from b(6) re obtain y where y: "regions t1 r = Some y" "re_id y = re_id re" by blast
  have "map_option rdata (regions t2 r) = map_option (\<lambda>e. rdata (if ancestor t1 r n then dirty_and_bump e else e)) (regions t1 r)"
    using t2(4) by (simp add: linked_in_def)
  then have home: "map_option re_id (regions t2 r) = Some (re_id re)"
    using y by (cases "regions t2 r") (auto dest!: marked_id)
  have "gives_ctx E h \<longrightarrow> (\<exists>x. mods t2 m = Some x \<and> me_ctx x \<noteq> None)" using t2(3) b(12) ctx by auto
  moreover have "\<forall>a. a \<noteq> m \<longrightarrow> mods t1 a = mods s a" using b(11) pd(6) by simp
  ultimately have "claimed_join E Q h r m s t1 t2"
    unfolding claimed_join_def using new pd(1,4,7) below t2(2,4) h1(1) b(13,14) c2 unfolding n by blast
  with b(1) t2(1) home show ?thesis by (intro exI [of _ t1] exI [of _ t2]) (simp add: tx_then_def)
qed

lemma coherent_load_claiming:
  assumes Q: "qmap_laws Q" and E: "alloc_ok E" "dl_ok E" and c: "coherent E Q s" and g: "fresh_twice s"
    and o: "opens E Q fname h r s" and re: "regions s r = Some re" and cl: "claimable E Q fname h re gr s" and i: "install_acts E Q h"
  shows "\<exists>m t1 t2 u s'. xy_load E Q fname s = Some (XY_OK, s') \<and> coherent E Q s' \<and> claimed_join E Q h r m s t1 t2
    \<and> e_void E (e_dlsym E h ''xy_install'') (t2\<lparr>xy_loading_mod := Some m\<rparr>) = Some u
    \<and> acts E Q (t2\<lparr>xy_loading_mod := Some m\<rparr>) u
    \<and> s' = (set_current_region (re_id re) (Some r) (u\<lparr>xy_loading_mod := xy_loading_mod t2\<rparr>))\<lparr>xy_err_val := XY_OK\<rparr>"
proof -
  note lib = coherentD(1) [OF c]
  let ?rid = "xy_current_region_id s"
  from o have cur: "xy_current_region_entry s = Some r" by (simp add: opens_def)
  have rid: "?rid = re_id re" using wf_libD(5) [OF lib] cur re by (auto simp: wf_current_def)
  from open_step [OF E(1) o] obtain tx path where tx: "mod_load_open_handle E Q fname (tx_zero ?rid) s = Some (XY_OK, tx, s)"
    "mod_load_try_reuse_existing tx s = Some (False, tx, s)" "lk_key (tx_lookup tx) = Some (inst_key E fname ?rid)"
    "lk_load_path (tx_lookup tx) = Some path" "tx_handle tx = Some h" "inherited_region_id tx = ?rid" by blast
  from load_start [OF Q E(1) lib cur tx(3-6)] obtain tx' m e t where a: "mod_load_steps E Q fname tx s
      = tx_then (mod_load_claim_if_needed E Q)
        (tx_then (mod_load_region_state E) (tx_then (mod_load_append E Q) (mod_load_run_install E))) tx' t"
    "mods s m = None" "prep Q s ((key_get Q s)(inst_key E fname ?rid \<mapsto> m)) (xy_mod_count s) m e t"
    "born h ?rid (inst_key E fname ?rid) e" "gives_ctx E h \<longrightarrow> me_ctx e \<noteq> None"
    "tx_info h m (inst_key E fname ?rid) ?rid tx'" "stable_fname tx' = Some fname"
    "inherited_reg tx' = Some r" "context_active tx'" "prev_region_id tx' = ?rid" "prev_region_entry tx' = Some r" by blast
  from claim_and_join [OF Q E c g re cl cur rid refl a(3,4,2,6-8,5)] obtain t1 t2 where
    b: "mod_load_steps E Q fname tx s = mod_load_run_install E tx' t2" "claimed_join E Q h r m s t1 t2"
    "map_option re_id (regions t2 r) = Some (re_id re)" unfolding a(1) by blast
  from b(3) obtain z where z: "regions t2 r = Some z" "re_id z = re_id re" by auto
  have c2: "coherent E Q t2" using b(2) by (simp add: claimed_join_def)
  have home: "prev_region_id tx' = re_id z" using a(10) z(2) rid by simp
  from coherent_install [OF Q E c2 i a(6,9) z(1) home a(11)] obtain u v w where
    v: "mod_load_run_install E tx' t2 = Some (XY_OK, tx', w)" "v = snd (mod_load_restore_context tx' w)" "coherent E Q v"
    "e_void E (e_dlsym E h ''xy_install'') (t2\<lparr>xy_loading_mod := Some m\<rparr>) = Some u"
    "acts E Q (t2\<lparr>xy_loading_mod := Some m\<rparr>) u" "keeps t2 w" "w = u\<lparr>xy_loading_mod := xy_loading_mod t2\<rparr>"
    "v = set_current_region (re_id z) (Some r) w" by blast
  have "mod_load E Q fname s = Some (XY_OK, v)" using tx(1,2) b(1) v(1,2) by (simp add: mod_load_def)
  then have l: "xy_load E Q fname s = Some (XY_OK, v\<lparr>xy_err_val := XY_OK\<rparr>)"
    using wf_libD(1) [OF lib] by (simp add: xy_load_def fail_with_def xy_set_err_def)
  have "coherent E Q (v\<lparr>xy_err_val := XY_OK\<rparr>)"
    by (rule coherent_frame [OF v(3)]) (simp_all add: keeps_def same_shapeI same_hooks_def)
  moreover have "v\<lparr>xy_err_val := XY_OK\<rparr>
      = (set_current_region (re_id re) (Some r) (u\<lparr>xy_loading_mod := xy_loading_mod t2\<rparr>))\<lparr>xy_err_val := XY_OK\<rparr>"
    using v(7,8) z(2) by simp
  ultimately show ?thesis using l b(2) v(4,5) by blast
qed

section \<open>What the new module is added to\<close>

text \<open>Seen from the caller's region the new module stands right behind the region's own modules: its
  region is the first of the children.\<close>

lemma claimed_subtree:
  assumes lib: "wf_lib Q s" and r: "regions s r \<noteq> None" and j: "claimed_join E Q h r m s t1 t2"
  obtains bs where "subtree_list s r = region_mods s r @ bs" "subtree_list t2 r = region_mods s r @ m # bs"
proof -
  from j obtain t child ks cnt key where t: "wf_lib Q t" "regions t = regions s" "\<And>p. region_mods t p = region_mods s p"
    and b: "region_below Q child r t t1" and jn: "joined Q t1 ks cnt m (next_addr t) h key t2" and k: "linked_in E Q t1 m (next_addr t) t2"
    unfolding claimed_join_def by blast
  let ?n = "next_addr t" and ?kids = "region_children t r"
  from b have lib1: "wf_lib Q t1" and rm1: "\<And>p. region_mods t1 p = region_mods t p" by (simp_all add: region_below_def)
  from jn have lib2: "wf_lib Q t2" and rm2: "\<And>q. region_mods t2 q = (if q = ?n then region_mods t1 ?n @ [m] else region_mods t1 q)"
    unfolding joined_def by blast+
  note wf = wf_libD(2) [OF lib] wf_libD(2) [OF t(1)] wf_libD(2) [OF lib1] wf_libD(2) [OF lib2]
  note sk = linked_in_frame(1) [OF k] and ch = region_below_children [OF b]
  from r t(2) obtain re where re: "regions t r = Some re" by auto
  note en = region_below_entries [OF b re]
  have rn: "r \<noteq> ?n" using re en(1) by auto
  have sub0: "subtree_list t r = subtree_list s r"
    by (rule subtree_list_local [OF wf(1,2) _ r]) (simp_all add: same_skel_def t(2,3))
  have live1: "regions t1 r \<noteq> None" "regions t1 ?n \<noteq> None" using en(2) en(5) [of r] rn re by auto
  then have live2: "regions t2 r \<noteq> None" using same_skel_views(4) [OF sk, of r] by simp
  have kids2: "region_children t2 r = ?n # ?kids"
  proof -
    from live1(1) live2 obtain e e' where e: "regions t1 r = Some e" "regions t2 r = Some e'" by blast
    have "region_children t2 r = region_children t1 r"
      by (rule region_children_same [OF wf(3,4) e]) (use same_skel_views(2,5) [OF sk] e in simp_all)
    with ch(1) show ?thesis by simp
  qed
  have new: "subtree_list t2 ?n = [m]"
    using joined_subtree [OF lib1 jn k live1(2)] region_below_subtrees(1) [OF b] by (metis append_is_Nil_conv append_Nil)
  have up: "region_parent t1 ?n = Some (Some r)" by (simp add: en(6))
  have old: "subtree_list t2 c = subtree_list t c" if c: "c \<in> set ?kids" for c
  proof -
    have r0: "regions t r \<noteq> None" using re by simp
    note kc = region_child_rank [OF wf(2) r0 c]
    have "ancestor t r c" using ancestor_step [OF wf_tree_parts(1) [OF wf(2)] kc(1)] ancestor_refl [OF wf_tree_parts(1) [OF wf(2)] r0] by simp
    with ancestor_antisym [OF wf_tree_parts(1) [OF wf(2)], of r c] kc(2) have out: "\<not> ancestor t c r" by auto
    have cn: "c \<noteq> ?n" using kc(3) en(1) by auto
    have c1: "regions t1 c \<noteq> None" using kc(3) en(5) [OF cn] by simp
    have c1r: "c \<in> set (region_children t1 r)" using c ch(1) by simp
    note k1 = region_child_rank [OF wf(3) live1(1) c1r]
    have nr: "\<not> ancestor t1 c r"
      using ancestor_step [OF wf_tree_parts(1) [OF wf(3)] k1(1)] ancestor_refl [OF wf_tree_parts(1) [OF wf(3)] live1(1)]
        ancestor_antisym [OF wf_tree_parts(1) [OF wf(3)], of r c] k1(2) by auto
    have "\<not> ancestor t1 c ?n" using ancestor_step [OF wf_tree_parts(1) [OF wf(3)] up] nr cn by simp
    then have "subtree_list t2 c = subtree_list t1 c"
      using rm2 by (intro subtree_list_local [OF wf(3,4) sk c1]) auto
    with region_below_subtrees(2) [OF b kc(3) out] show ?thesis by simp
  qed
  then have "subtree_list t2 r = region_mods s r @ m # concat (map (subtree_list t) ?kids)"
    using subtree_list_order [OF wf(4) live2] kids2 new rm1 rm2 rn t(3) by (simp cong: map_cong)
  moreover have "subtree_list s r = region_mods s r @ concat (map (subtree_list t) ?kids)"
    using subtree_list_order [OF wf(2), of r] re sub0 t(3) by simp
  ultimately show ?thesis using that by blast
qed

lemma claimed_join_frame:
  assumes re: "regions s r = Some re" and j: "claimed_join E Q h r m s t1 t2"
  shows "map_option subtree_flags (regions t2 r) = Some (subtree_flags re)" "\<exists>x. mods t2 m = Some x \<and> me_handle x = Some h"
    "a \<noteq> m \<Longrightarrow> map_option mview (mods t2 a) = map_option mview (mods s a)"
    "same_hooks s t2" "adapters t2 = adapters s" "xy_last_retbuf t2 = xy_last_retbuf s"
proof -
  from j obtain t child ks cnt key where t: "regions t = regions s" "wf_lib Q t"
    and b: "region_below Q child r t t1" and jn: "joined Q t1 ks cnt m (next_addr t) h key t2" and k: "linked_in E Q t1 m (next_addr t) t2"
    and ms: "\<And>a. a \<noteq> m \<Longrightarrow> mods t1 a = mods s a" and h: "same_hooks s t1" "adapters t1 = adapters s" "xy_last_retbuf t1 = xy_last_retbuf s"
    unfolding claimed_join_def by blast
  have rt: "regions t r = Some re" using re t(1) by simp
  have "ancestor t r r" by (rule ancestor_refl [OF wf_tree_parts(1) [OF wf_libD(2) [OF t(2)]]]) (simp add: rt)
  from region_below_entries(4) [OF b rt rt this] linked_in_frame(3) [OF k, of r]
  show "map_option subtree_flags (regions t2 r) = Some (subtree_flags re)"
    by (simp add: dirty_and_bump_def set_dirty_def bump_gen_def)
  show "\<exists>x. mods t2 m = Some x \<and> me_handle x = Some h" using jn by (auto simp: joined_def)
  show "map_option mview (mods t2 a) = map_option mview (mods s a)" if "a \<noteq> m"
    using map_option_factor [OF linked_in_frame(4) [OF k that], of mview] mdata_views(1) ms [OF that] by metis
  show "same_hooks s t2" "adapters t2 = adapters s" "xy_last_retbuf t2 = xy_last_retbuf s"
    using jn h by (simp_all add: joined_def stays_def same_hooks_def)
qed

section \<open>A load whose claim is refused\<close>

lemma coherent_refused_load:
  assumes Q: "qmap_laws Q" and E: "alloc_ok E" "cleanup_ok E" and c: "coherent E Q s" and o: "opens E Q fname h r s"
    and re: "regions s r = Some re" and ref: "claim_refused E Q fname h re s code"
  shows "\<exists>s'. xy_load E Q fname s = Some (code, s') \<and> coherent E Q s'"
proof -
  note d = coherentD [OF c]
  from load_refused [OF Q E d(1) o re ref] obtain s' where s': "xy_load E Q fname s = Some (code, s')" "wf_lib Q s'"
    "regions s' = regions s" "mods s' = mods s" "\<forall>q. region_mods s' q = region_mods s q"
    "hook_id_hd s' = hook_id_hd s" "xy_hook_id_counter s' = xy_hook_id_counter s" by blast
  have h: "same_hooks s s'" using s'(6,7) by (simp add: same_hooks_def)
  note v = same_hooks_views [OF h]
  have sk: "same_skel s s'" "same_denies s s'" by (simp_all add: same_skel_def same_denies_def s'(3))
  have "region_ok E Q s' q x" if x: "regions s' q = Some x" for q x
  proof -
    from x s'(3) have xs: "regions s q = Some x" by simp
    have "subtree_list s' q = subtree_list s q"
      by (rule subtree_list_local [OF wf_libD(2) [OF d(1)] wf_libD(2) [OF s'(2)] sk(1)]) (use xs s'(5) in simp_all)
    then show ?thesis by (intro region_ok_same [OF d(4) [OF xs] xs x refl sk]) (simp_all add: v(1) s'(4))
  qed
  with s'(2,4) d(2,3) v have "coherent E Q s'" by (simp add: coherent_def)
  with s'(1) show ?thesis by blast
qed

end
