(* ===== verification/Xy_Session.thy ===== *)
theory Xy_Session
  imports Xy_Replacing Xy_Claims
begin

text \<open>
  Whole runs of the library.  \<open>session\<close> is a run from the start of the program: acts of modules,
  moves to other regions, loads of modules whose \<open>xy_install\<close> acts or is missing, with a claim (granted or refused) or without, unloads, reloads, and
  shutdowns with a new start.  In every state of a session the caches are coherent, so that a
  call needs no further assumption about them.
\<close>

section \<open>The other operations\<close>

text \<open>The state after the first call of an API function.\<close>

lemma started:
  assumes Q: "qmap_laws Q" and A: "alloc_ok E"
  shows "\<exists>s r. xy_runtime_ensure E Q xy_boot = Some (XY_OK, s) \<and> wf_lib Q s \<and> mods s = (\<lambda>_. None)
    \<and> regions s = [r \<mapsto> region_zero\<lparr>re_id := XY_REGION_ROOT, dispatch_gen := 1\<rparr>] \<and> xy_current_region_entry s = Some r
    \<and> hook_id_hd s = Some (qmap_open Q) \<and> sica_hd s = Some (qmap_open Q) \<and> mod_hd s = Some (qmap_open Q)
    \<and> xy_hook_id_counter s = 0 \<and> adapters s = (\<lambda>_. None) \<and> xy_last_retbuf s = replicate XY_MAX_RET_SIZE 0"
proof -
  have boot: "regions (xy_boot :: 'a xy_state) = (\<lambda>_. None)" "mods (xy_boot :: 'a xy_state) = (\<lambda>_. None)"
    "hook_id_hd (xy_boot :: 'a xy_state) = None" "sica_hd (xy_boot :: 'a xy_state) = None"
    "xy_hook_id_counter (xy_boot :: 'a xy_state) = 0" "adapters (xy_boot :: 'a xy_state) = (\<lambda>_. None)"
    "xy_current_region_id (xy_boot :: 'a xy_state) = XY_REGION_ROOT" "\<not> xy_inited (xy_boot :: 'a xy_state)"
    "xy_last_retbuf (xy_boot :: 'a xy_state) = replicate XY_MAX_RET_SIZE 0"
    by (simp_all add: xy_boot_def)
  have m: "e_malloc E t AllocRegion" for t using A by (simp add: alloc_ok_def)
  from bootstrap_ok [OF Q quiet_boot [OF Q] m] obtain s where s: "xy_runtime_bootstrap E Q xy_boot = Some (XY_OK, s)" "wf_lib Q s" by blast
  then have b: "xy_runtime_ensure E Q xy_boot = Some (XY_OK, s)" using boot(8) by (simp add: xy_runtime_ensure_def)
  let ?r = "next_addr (xy_boot :: 'a xy_state)"
  have "regions s = [?r \<mapsto> region_zero\<lparr>re_id := XY_REGION_ROOT, dispatch_gen := 1\<rparr>] \<and> mods s = (\<lambda>_. None)
    \<and> xy_current_region_entry s = Some ?r \<and> hook_id_hd s = Some (qmap_open Q) \<and> sica_hd s = Some (qmap_open Q)
    \<and> mod_hd s = Some (qmap_open Q) \<and> xy_hook_id_counter s = 0 \<and> adapters s = (\<lambda>_. None)
    \<and> xy_last_retbuf s = replicate XY_MAX_RET_SIZE 0"
    using s(1) m boot
    by (auto simp: xy_runtime_bootstrap_def region_ensure_root_def alloc_region_def region_hd_put_def open_once_def
        region_lookup_def qmap_simps [OF Q])
  with b s(2) show ?thesis by blast
qed

lemma coherent_start:
  assumes Q: "qmap_laws Q" and A: "alloc_ok E" and b: "xy_runtime_ensure E Q xy_boot = Some (c, s)"
  shows "coherent E Q s"
  by (rule coherent_bootstrap [OF Q A quiet_boot [OF Q] _ b]) (simp add: xy_boot_def)

lemma coherent_unload:
  assumes Q: "qmap_laws Q" and A: "alloc_ok E" and C: "cleanup_ok E" and u: "unloadable E Q s" and t: "tidy E Q s"
    and k: "key_get Q s (inst_key E fname (xy_current_region_id s)) \<noteq> None"
  shows "\<exists>s'. xy_unload E Q fname s = Some (XY_OK, s') \<and> tidy E Q s' \<and> unloadable E Q s'"
proof -
  from k obtain m where "key_get Q s (inst_key E fname (xy_current_region_id s)) = Some m" by auto
  from tidy_unload [OF Q A C u t this] obtain v where v:
    "mod_unload (unload_fuel s) E Q fname (xy_current_region_id s) s = Some (XY_OK, v)" and tv: "tidy E Q v" "unloadable E Q v" by blast
  have "wf_lib Q s" using u by (simp add: unloadable_def)
  from wf_libD(1) [OF this] v(1) have "xy_unload E Q fname s = Some (XY_OK, xy_set_err XY_OK v)"
    by (simp add: xy_unload_def fail_with_def)
  with tidy_errno [OF tv(1)] errno_frame(1) [OF tv(2)] show ?thesis by blast
qed

section \<open>Sessions\<close>

inductive session :: "'q env \<Rightarrow> 'q qmap_ops \<Rightarrow> 'q xy_state \<Rightarrow> bool" for E Q where
  starts: "xy_runtime_ensure E Q xy_boot = Some (XY_OK, s) \<Longrightarrow> session E Q s"
| acting: "session E Q s \<Longrightarrow> acts E Q s t \<Longrightarrow> session E Q t"
| moves: "session E Q s \<Longrightarrow> regions s p = Some e \<Longrightarrow> session E Q (set_current_region (re_id e) (Some p) s)"
| loads: "session E Q s \<Longrightarrow> fresh_gens s \<Longrightarrow> loadable E Q fname h r s \<Longrightarrow> install_acts E Q h \<Longrightarrow>
    xy_load E Q fname s = Some (c, t) \<Longrightarrow> session E Q t"
| loads_failing: "session E Q s \<Longrightarrow> fresh_twice s \<Longrightarrow> loadable E Q fname h r s \<Longrightarrow> e_dlsym E h ''xy_install'' = 0 \<Longrightarrow>
    xy_load E Q fname s = Some (c, t) \<Longrightarrow> session E Q t"
| loads_claiming: "session E Q s \<Longrightarrow> fresh_twice s \<Longrightarrow> opens E Q fname h r s \<Longrightarrow> regions s r = Some re \<Longrightarrow>
    claimable E Q fname h re g s \<Longrightarrow> install_acts E Q h \<Longrightarrow> xy_load E Q fname s = Some (c, t) \<Longrightarrow> session E Q t"
| loads_refused: "session E Q s \<Longrightarrow> opens E Q fname h r s \<Longrightarrow> regions s r = Some re \<Longrightarrow>
    claim_refused E Q fname h re s code \<Longrightarrow> xy_load E Q fname s = Some (c, t) \<Longrightarrow> session E Q t"
| loads_again: "session E Q s \<Longrightarrow> (\<forall>path. e_dlopen E path s = Some (found, s)) \<Longrightarrow>
    lk_entry (module_lookup_from_fname E Q fname (xy_current_region_id s) s) = existing \<Longrightarrow> found = None \<or> existing \<noteq> None \<Longrightarrow>
    xy_load E Q fname s = Some (c, t) \<Longrightarrow> session E Q t"
| unloads: "session E Q s \<Longrightarrow> unloadable E Q s \<Longrightarrow> apart E s \<Longrightarrow> room s \<Longrightarrow>
    key_get Q s (inst_key E fname (xy_current_region_id s)) \<noteq> None \<Longrightarrow> xy_unload E Q fname s = Some (c, t) \<Longrightarrow> session E Q t"
| reloads: "session E Q s \<Longrightarrow> unloadable E Q s \<Longrightarrow> apart E s \<Longrightarrow> room s \<Longrightarrow> reloadable E Q fname h s \<Longrightarrow> install_acts E Q h \<Longrightarrow>
    gens_to_spare E Q fname s \<Longrightarrow> xy_reload E Q fname s = Some (c, t) \<Longrightarrow> session E Q t"
| restarts: "session E Q s \<Longrightarrow> wf_entries s \<Longrightarrow> tables_complete Q s \<Longrightarrow> xy_shutdown E Q s = Some t \<Longrightarrow>
    xy_runtime_ensure E Q t = Some (c, u) \<Longrightarrow> session E Q u"

lemma session_steps_coherent:
  assumes Q: "qmap_laws Q" and E: "alloc_ok E" "dl_ok E" "cleanup_ok E" and s: "session E Q s"
  shows "coherent E Q s"
  using s
proof (induction rule: session.induct)
  case (starts s)
  then show ?case by (rule coherent_start [OF Q E(1)])
next
  case (acting s t)
  with acts_coherent [OF Q E(1,2)] show ?case by blast
next
  case (moves s p e)
  from coherent_moved [OF moves.IH moves.hyps(2)] show ?case .
next
  case (loads s fname h r c t)
  from coherent_load [OF Q E(1,2) loads.IH loads.hyps(2-4)] loads.hyps(5) show ?case by auto
next
  case (loads_failing s fname h r c t)
  from coherent_failed_load [OF Q E loads_failing.IH loads_failing.hyps(2-4)] loads_failing.hyps(5) show ?case by auto
next
  case (loads_claiming s fname h r re g c t)
  from coherent_load_claiming [OF Q E(1,2) loads_claiming.IH loads_claiming.hyps(2-6)] loads_claiming.hyps(7) show ?case by auto
next
  case (loads_refused s fname h r re code c t)
  from coherent_refused_load [OF Q E(1,3) loads_refused.IH loads_refused.hyps(2-4)] loads_refused.hyps(5) show ?case by auto
next
  case (loads_again s found fname existing c t)
  note lib = coherentD(1) [OF loads_again.IH]
  from loads_again.hyps(3) have ex: "key_get Q s (inst_key E fname (xy_current_region_id s)) = existing"
    by (simp add: lookup_eq(2) [OF E(1)])
  obtain e where e: "\<forall>m. existing = Some m \<longrightarrow> mods s m = Some e"
    using key_get_live [OF lib] ex by (cases existing) auto
  note la = load_again_or_missing [OF E(1) lib loads_again.hyps(2,3) e]
  show ?case
  proof (cases found)
    case None
    with la loads_again.hyps(5) have "t = s\<lparr>xy_err_val := XY_ERR_NOTFOUND\<rparr>" by simp
    then show ?thesis by (simp add: coherent_frame [OF loads_again.IH] same_hooks_def)
  next
    case (Some h)
    with loads_again.hyps(4) obtain m where m: "existing = Some m" by auto
    with Some la loads_again.hyps(5) have "t = s\<lparr>mods := (mods s)(m \<mapsto> e\<lparr>refcount := refcount e + 1\<rparr>), xy_err_val := XY_OK\<rparr>" by simp
    moreover have "coherent E Q (s\<lparr>mods := (mods s)(m \<mapsto> e\<lparr>refcount := refcount e + 1\<rparr>)\<rparr>)"
      by (rule coherent_refcount [OF loads_again.IH _ refl]) (use e m in simp)
    ultimately show ?thesis by (simp add: coherent_frame same_hooks_def)
  qed
next
  case (unloads s fname c t)
  then have "tidy E Q s" by (simp add: tidy_def)
  from coherent_unload [OF Q E(1,3) unloads.hyps(2) this unloads.hyps(5)] unloads.hyps(6) show ?case
    by (auto simp: tidy_def)
next
  case (reloads s fname h c t)
  then have "tidy E Q s" by (simp add: tidy_def)
  from coherent_reload [OF Q E reloads.hyps(2) this reloads.hyps(5-7)] reloads.hyps(8) show ?case by auto
next
  case (restarts s t c u)
  from coherent_restart [OF Q E(1,3) restarts.IH restarts.hyps(2-5)] show ?case .
qed


text \<open>A session to start from: the adapter at 21 is registered for the hook \<open>h\<close>, and no module is
  loaded yet; the object that can be loaded exports \<open>h\<close>, has its own context and asks for a
  region of one bit where there is a claim handler.\<close>

definition demo_cenv :: "demo_q env" where
  "demo_cenv = demo_env\<lparr>e_dlsym := (\<lambda>h n. if n = ''h'' \<or> n = ''xy_install'' \<or> n = ''get_xy_ptr'' \<or> n = ''xy_claim'' then 100 else 0),
     e_ctx := (\<lambda>_. Some 11)\<rparr>"

lemma demo_cenv_ok: "alloc_ok demo_cenv" "dl_ok demo_cenv" "cleanup_ok demo_cenv" "calm_call demo_cenv dc n" "gives_ctx demo_cenv h"
  using demo_cleanup_ok demo_calm_call
  by (simp_all add: alloc_ok_def dl_ok_def demo_cenv_def XY_FN_NOT_FOUND_def XY_FN_RESOLVE_OOM_def cleanup_ok_def calm_call_def gives_ctx_def)

lemma demo_session:
  obtains s r re ad where "session demo_cenv alist_qmap s" "ready demo_cenv alist_qmap 21 ad s" "ad_name ad = ''h''"
    "ret_size ad = 1" "xy_current_region_entry s = Some r" "regions s r = Some re" "subtree_flags re = 0" "fresh_gens s"
    "loadable demo_cenv alist_qmap ''x'' 7 r s" "ad_hook_id ad = 0" "listeners_for demo_cenv alist_qmap s r ''h'' = []"
    "regions s = [r \<mapsto> region_zero\<lparr>re_id := XY_REGION_ROOT, dispatch_gen := 1\<rparr>]" "\<forall>k. key_get alist_qmap s k = None"
proof -
  let ?E = "demo_cenv" and ?Q = "alist_qmap" and ?ad = "\<lparr>ad_name = ''h'', arg_size = 0, ret_size = 1, ad_call = 50, ad_hook_id = 0\<rparr>"
  note Q = alist_qmap_laws and E = demo_cenv_ok(1,2)
  from started [OF Q E(1)] obtain s0 r where s0: "xy_runtime_ensure ?E ?Q xy_boot = Some (XY_OK, s0)"
    "regions s0 = [r \<mapsto> region_zero\<lparr>re_id := XY_REGION_ROOT, dispatch_gen := 1\<rparr>]" "xy_current_region_entry s0 = Some r"
    "hook_id_hd s0 = Some (qmap_open ?Q)" "sica_hd s0 = Some (qmap_open ?Q)" "mod_hd s0 = Some (qmap_open ?Q)"
    "xy_hook_id_counter s0 = 0" "adapters s0 = (\<lambda>_. None)" "xy_last_retbuf s0 = replicate XY_MAX_RET_SIZE 0"
    "mods s0 = (\<lambda>_. None)" by blast
  have c0: "coherent ?E ?Q s0" by (rule coherent_start [OF Q E(1) s0(1)])
  let ?t = "s0\<lparr>adapters := (adapters s0)(21 \<mapsto> ?ad)\<rparr>"
  have a1: "acts ?E ?Q s0 ?t" by (rule acts.provides [OF acts.nothing]) (simp add: s0(8))
  have ct: "coherent ?E ?Q ?t" by (rule coherent_frame [OF c0]) (simp_all add: same_hooks_def)
  have pre: "adapters ?t 21 = Some ?ad" "ret_size ?ad \<le> XY_MAX_RET_SIZE" "hook_num ?Q ?t ''h'' = None"
    "\<forall>h. sica_hd ?t = Some h \<longrightarrow> qmap_get ?Q h (KStr ''h'') = None"
    by (simp_all add: XY_MAX_RET_SIZE_def hook_num_def s0 qmap_simps [OF Q])
  from coherent_areg [OF Q E ct pre] obtain s where s: "xy_areg ?E ?Q ''h'' 21 ?t = Some (0, s)" "coherent ?E ?Q s" "keeps ?t s"
    "hook_num ?Q s = (hook_num ?Q ?t)(''h'' \<mapsto> xy_hook_id_counter ?t)"
    "adapters s = (adapters ?t)(21 \<mapsto> ?ad\<lparr>ad_hook_id := xy_hook_id_counter ?t\<rparr>)"
    "xy_last_retbuf s = xy_last_retbuf ?t" "regions s = regions ?t" "xy_current_region_entry s = xy_current_region_entry ?t" by blast
  have "session ?E ?Q s" by (rule session.acting [OF session.starts [OF s0(1)] acts.registers [OF a1 pre s(1)]])
  moreover have "ready ?E ?Q 21 ?ad s"
    using s(4-6) s0(7,9) demo_cenv_ok(4) by (simp add: ready_def XY_MAX_RET_SIZE_def)
  moreover have rs: "regions s r = Some (region_zero\<lparr>re_id := XY_REGION_ROOT, dispatch_gen := 1\<rparr>)" "xy_current_region_entry s = Some r"
    using s(7,8) s0(2,3) by simp_all
  moreover have "mod_hd s = Some (qmap_open ?Q)" using s(3) s0(6) by (simp add: keeps_def)
  then have kn: "key_get ?Q s k = None" for k by (simp add: key_get_def mod_hd_get_def qmap_simps [OF Q])
  then have "loadable ?E ?Q ''x'' 7 r s"
    using rs by (simp add: loadable_def opens_def no_claim_def demo_cenv_def region_zero_def)
  moreover have "fresh_gens s" using s(7) s0(2) by (simp add: fresh_gens_def)
  moreover have "listeners_for ?E ?Q s r ''h'' = []"
  proof -
    have none: "mods s m = None" for m
      using s(3) s0(10) by (cases "mods s m") (auto simp: keeps_def same_shape_def dest: spec [where x = m])
    note lib = coherentD(1) [OF s(2)]
    have "set (subtree_list s r) = {}"
      using subtree_list_set(1) [OF wf_libD(2) [OF lib], of r] rs(1) region_mods_live [OF lib] none by auto
    then show ?thesis by (simp add: listeners_for_def listener_slots_def split: option.split)
  qed
  ultimately show ?thesis using that [of s ?ad r] s(7) s0(2) kn by (simp add: region_zero_def)
qed

end
