(* ===== verification/Xy_Runs.thy ===== *)
theory Xy_Runs
  imports Xy_Session
begin

text \<open>
  The properties of sessions: the caches are coherent in every state, a call does what the hook
  and the denials say whatever has happened before, and a module that has just been loaded is
  among the listeners of the next call.
\<close>

text \<open>(C1) In every state of a session the three levels of caches are coherent: all invariants of the
  library hold, what a module's symbol cache says about a hook is what its object exports,
  a clean subtree cache lists the subtree, and a dispatch vector of the region's generation
  holds the hook's listeners; so every region is ready for a call of every registered hook.\<close>

theorem session_caches_coherent:
  assumes "qmap_laws Q" and "alloc_ok E" "dl_ok E" "cleanup_ok E" and "session E Q s"
  shows "coherent E Q s \<and> (\<forall>r e name i chain. regions s r = Some e \<longrightarrow> hook_num Q s name = Some i
    \<longrightarrow> call_chain (Some r) s = Some chain \<longrightarrow> dispatch_ok E Q s r i name chain)"
  using session_steps_coherent [OF assms] coherent_dispatch_ok by blast

theorem session_caches_coherent_witness:
  "\<exists>s r. coherent demo_cenv alist_qmap s \<and> dispatch_ok demo_cenv alist_qmap s r 0 ''h'' []"
proof -
  obtain s r re ad where a: "session demo_cenv alist_qmap s" "ready demo_cenv alist_qmap 21 ad s" "ad_name ad = ''h''"
    "regions s r = Some re" "subtree_flags re = 0" "ad_hook_id ad = 0" by (rule demo_session)
  note sc = session_caches_coherent [OF alist_qmap_laws demo_cenv_ok(1-3) a(1)]
  have "call_chain (Some r) s = Some []" using a(4,5) by (simp add: call_chain_def)
  moreover have "hook_num alist_qmap s ''h'' = Some 0" using a(2,3,6) by (simp add: ready_def)
  ultimately have "dispatch_ok demo_cenv alist_qmap s r 0 ''h'' []" using sc a(4) by blast
  with sc show ?thesis by blast
qed

text \<open>(C4) A call of a registered hook from any state of a session.  If the caller carries the deny flag
  and one of its ancestors denies the hook, nothing runs and the result is XY_ERR_EPERM with a
  zeroed buffer.  Otherwise every module of the caller's subtree that has a context, exports
  the hook and is not denied is called once, in depth-first order, and the result is XY_OK, or
  XY_ERR_NOTFOUND when there is none.  Either way the session goes on.\<close>

theorem call_in_session:
  assumes "qmap_laws Q" and "alloc_ok E" "dl_ok E" "cleanup_ok E" and "session E Q s"
    and "ready E Q reg ad s" and "xy_current_region_entry s = Some r" and "buffer_ok (ret_size ad) retp"
    and "l = listeners_for E Q s r (ad_name ad)"
  shows "\<exists>retp' s'. session E Q s' \<and> (if hook_denied Q s r (ad_name ad)
    then xy_call E Q retp (Some reg) arg s = Some (XY_ERR_EPERM, map_option (zeroed (ret_size ad)) retp, s')
    else xy_call E Q retp (Some reg) arg s = Some (if l = [] then XY_ERR_NOTFOUND else XY_OK, retp', s')
      \<and> xy_last_ran s' = length l
      \<and> (\<exists>s1 s2 retp1. run_slots E reg (ad_call ad) arg (xy_current_region_id s) l 0 retp s1 = Some (length l, retp1, s2)
           \<and> (l \<noteq> [] \<longrightarrow> retp' = retp1)))"
proof -
  have c: "coherent E Q s" by (rule session_steps_coherent [OF assms(1-5)])
  have go: "session E Q s'" if "xy_call E Q retp (Some reg) arg s = Some (code, retp', s')" for code retp' s'
    using session.acting [OF assms(5) acts.calls [OF acts.nothing assms(6,8) that]] .
  show ?thesis
  proof (cases "hook_denied Q s r (ad_name ad)")
    case True
    from coherent_call_denied [OF c assms(6,7) True assms(8), of arg] go True show ?thesis by (simp only: if_True) blast
  next
    case False
    from coherent_call [OF c assms(2,3,6,7) False assms(8,9), of arg] go False show ?thesis by (simp only: if_False) blast
  qed
qed

theorem call_in_session_witness:
  "\<exists>s s' retp'. xy_call demo_cenv alist_qmap (Some [9]) (Some 21) 0 s = Some (XY_ERR_NOTFOUND, retp', s')
    \<and> xy_last_ran s' = 0 \<and> session demo_cenv alist_qmap s'"
proof -
  obtain s r re ad where a: "session demo_cenv alist_qmap s" "ready demo_cenv alist_qmap 21 ad s" "ad_name ad = ''h''"
    "ret_size ad = 1" "xy_current_region_entry s = Some r" "regions s r = Some re" "subtree_flags re = 0"
    "listeners_for demo_cenv alist_qmap s r ''h'' = []" by (rule demo_session)
  have "buffer_ok (ret_size ad) (Some [9])" using a(4) by (simp add: buffer_ok_def)
  from call_in_session [OF alist_qmap_laws demo_cenv_ok(1-3) a(1,2,5) this refl, of 0]
  have "\<exists>retp' s'. session demo_cenv alist_qmap s' \<and> xy_last_ran s' = 0
    \<and> xy_call demo_cenv alist_qmap (Some [9]) (Some 21) 0 s = Some (XY_ERR_NOTFOUND, retp', s')"
    using a(3,6-8) by (auto simp: hook_denied_def call_chain_def)
  then show ?thesis by blast
qed

section \<open>Loading and then calling\<close>

text \<open>The first call after the load.\<close>

lemma call_reaches:
  assumes "coherent E Q s" and "alloc_ok E" "dl_ok E" and "ready E Q reg ad s" and "xy_current_region_entry s = Some r"
    and "call_chain (Some r) s = Some []" and "buffer_ok (ret_size ad) retp"
    and "listeners_for E Q s r (ad_name ad) = as @ x # bs"
  shows "\<exists>retp' s'. xy_call E Q retp (Some reg) arg s = Some (XY_OK, retp', s') \<and> xy_last_ran s' = Suc (length as + length bs)"
proof -
  have "\<not> hook_denied Q s r (ad_name ad)" using assms(6) by (simp add: hook_denied_def)
  from coherent_call [OF assms(1-5) this assms(7) refl, of arg] assms(8) show ?thesis by auto
qed

text \<open>The module exports \<open>xy_install\<close>, which returns and only writes its own data.\<close>

definition install_calm :: "'q env \<Rightarrow> dlhandle \<Rightarrow> bool" where
  "install_calm E h \<longleftrightarrow> e_dlsym E h ''xy_install'' \<noteq> 0
     \<and> (\<forall>t. \<exists>t'. e_void E (e_dlsym E h ''xy_install'') t = Some t' \<and> calm t t')"

lemma install_calm_acts: "install_calm E h \<Longrightarrow> install_acts E Q h"
  unfolding install_calm_def install_acts_def using acts.own_data [OF acts.nothing] by metis

text \<open>The listeners of a region without denials, before and after a module has come into its subtree.\<close>

lemma listeners_inserted:
  assumes lib: "wf_lib Q s" and new: "mods s m = None" and r: "regions s r \<noteq> None"
    and ch: "call_chain (Some r) s = Some []" "call_chain (Some r) t = Some []"
    and sub: "subtree_list s r = as @ bs" "subtree_list t r = as @ m # bs"
    and mv: "\<And>a. a \<noteq> m \<Longrightarrow> map_option mview (mods t a) = map_option mview (mods s a)"
    and x: "mods t m = Some x" "me_ctx x \<noteq> None" "me_handle x = Some h" and name: "e_dlsym E h name \<noteq> 0"
  shows "listeners_for E Q s r name = listener_slots E Q s [] name as @ listener_slots E Q s [] name bs"
    "listeners_for E Q t r name = listener_slots E Q s [] name as
      @ \<lparr>slot_me = Some m, slot_cb = e_dlsym E h name\<rparr> # listener_slots E Q s [] name bs"
proof -
  have none: "chain_denies Q u [] p = False" for u :: "'a xy_state" and p by (simp add: chain_denies_def)
  have "a \<noteq> m" if "a \<in> set (as @ bs)" for a
  proof -
    from that subtree_list_set(1) [OF wf_libD(2) [OF lib] r] sub(1) obtain q where "a \<in> set (region_mods s q)" by auto
    with region_mods_live [OF lib, of a q] new show ?thesis by auto
  qed
  then have old: "listener_slots E Q t [] name l = listener_slots E Q s [] name l" if "set l \<subseteq> set (as @ bs)" for l
    by (intro listener_slots_view) (use mv that none in auto)
  have "listens E Q t [] name m" "slot_for E t name m = \<lparr>slot_me = Some m, slot_cb = e_dlsym E h name\<rparr>"
    using x name by (simp_all add: listens_def slot_for_def none)
  then have "listener_slots E Q t [] name (as @ m # bs)
      = listener_slots E Q s [] name as @ \<lparr>slot_me = Some m, slot_cb = e_dlsym E h name\<rparr> # listener_slots E Q s [] name bs"
    using old [of as] old [of bs] by (simp add: listener_slots_def)
  with ch sub show "listeners_for E Q t r name = listener_slots E Q s [] name as
      @ \<lparr>slot_me = Some m, slot_cb = e_dlsym E h name\<rparr> # listener_slots E Q s [] name bs"
    "listeners_for E Q s r name = listener_slots E Q s [] name as @ listener_slots E Q s [] name bs"
    by (simp_all add: listeners_for_def) (simp add: listener_slots_def)
qed

lemma listeners_kept:
  assumes k: "same_shape s s'" and lib: "wf_lib Q s" "wf_lib Q s'" and rm: "regions s' = regions s" "mods s' = mods s" and r: "regions s r \<noteq> None"
  shows "listeners_for E Q s' r name = listeners_for E Q s r name" "call_chain (Some r) s' = call_chain (Some r) s"
proof -
  have sk: "same_skel s s'" by (simp add: same_skel_def rm)
  show ch: "call_chain (Some r) s' = call_chain (Some r) s" by (rule call_chain_same [OF sk]) (simp add: rm)
  have "listener_slots E Q s' chain name ms = listener_slots E Q s chain name ms" for chain ms
    by (rule listener_slots_cong) (simp_all add: rm chain_denies_def)
  moreover have "subtree_list s' r = subtree_list s r"
    by (rule subtree_list_local [OF wf_libD(2) [OF lib(1)] wf_libD(2) [OF lib(2)] sk r])
      (rule same_shape_region_mods [OF k wf_libD(2) [OF lib(1)]])
  ultimately show "listeners_for E Q s' r name = listeners_for E Q s r name"
    using ch by (cases "call_chain (Some r) s") (simp_all add: listeners_for_def)
qed

text \<open>After the install: a registered hook is as ready as before.\<close>

lemma ready_after:
  assumes "ready E Q reg ad s" and "adapters t = adapters s" "xy_last_retbuf t = xy_last_retbuf s" "same_hooks s t"
    and "calm (t\<lparr>xy_loading_mod := l\<rparr>) u" and "adapters s' = adapters u" "xy_last_retbuf s' = xy_last_retbuf u" "same_hooks u s'"
  shows "ready E Q reg ad s'"
  using assms unfolding ready_def by (simp add: calm_def same_hooks_def hook_num_def)

text \<open>Both together: the new module is called in its place.\<close>

lemma new_listener_called:
  assumes E: "alloc_ok E" "dl_ok E" and c: "coherent E Q s" "coherent E Q t" "coherent E Q s'" and new: "mods s m = None"
    and ch: "call_chain (Some r) s = Some []" "call_chain (Some r) t = Some []" and live: "regions s r \<noteq> None" "regions t r \<noteq> None"
    and sub: "subtree_list s r = as @ bs" "subtree_list t r = as @ m # bs"
    and mv: "\<And>a. a \<noteq> m \<Longrightarrow> map_option mview (mods t a) = map_option mview (mods s a)"
    and x: "mods t m = Some x" "me_ctx x \<noteq> None" "me_handle x = Some h" and name: "e_dlsym E h (ad_name ad) \<noteq> 0"
    and st: "same_shape t s'" "regions s' = regions t" "mods s' = mods t" and rd: "ready E Q reg ad s'"
    and cur: "xy_current_region_entry s' = Some r" and buf: "buffer_ok (ret_size ad) retp"
    and own: "own = listener_slots E Q s [] (ad_name ad) as" and rest: "rest = listener_slots E Q s [] (ad_name ad) bs"
  shows "listeners_for E Q s r (ad_name ad) = own @ rest
    \<and> listeners_for E Q s' r (ad_name ad) = own @ \<lparr>slot_me = Some m, slot_cb = e_dlsym E h (ad_name ad)\<rparr> # rest
    \<and> (\<exists>retp' s''. xy_call E Q retp (Some reg) arg s' = Some (XY_OK, retp', s'') \<and> xy_last_ran s'' = Suc (length own + length rest))"
proof -
  note ls = listeners_inserted [OF coherentD(1) [OF c(1)] new live(1) ch sub mv x name, folded own rest]
  note lk = listeners_kept [OF st(1) coherentD(1) [OF c(2)] coherentD(1) [OF c(3)] st(2,3) live(2)]
  have l: "listeners_for E Q s' r (ad_name ad) = own @ \<lparr>slot_me = Some m, slot_cb = e_dlsym E h (ad_name ad)\<rparr> # rest"
    using lk(1) ls(2) by simp
  have "call_chain (Some r) s' = Some []" using lk(2) ch(2) by simp
  from call_reaches [OF c(3) E rd cur this buf l] ls(1) l show ?thesis by blast
qed

text \<open>(C2) A module that is loaded into a region without denials hears the next call: after the load
  a call of a hook that the module exports runs the listeners of before and the new one, which
  stands after the region's older modules and before those of the regions below.\<close>

theorem load_then_call:
  assumes "qmap_laws Q" and "alloc_ok E" "dl_ok E" "cleanup_ok E" and "session E Q s" and "fresh_gens s"
    and "loadable E Q fname h r s" and "install_calm E h" and "gives_ctx E h"
    and "ready E Q reg ad s" and "e_dlsym E h (ad_name ad) \<noteq> 0"
    and "regions s r = Some re" and "subtree_flags re AND XY_SUBTREE_HAS_DENY = 0" and "buffer_ok (ret_size ad) retp"
  shows "\<exists>s' m as bs retp' s''. xy_load E Q fname s = Some (XY_OK, s') \<and> mods s m = None
    \<and> listeners_for E Q s r (ad_name ad) = as @ bs
    \<and> listeners_for E Q s' r (ad_name ad) = as @ \<lparr>slot_me = Some m, slot_cb = e_dlsym E h (ad_name ad)\<rparr> # bs
    \<and> xy_call E Q retp (Some reg) arg s' = Some (XY_OK, retp', s'') \<and> xy_last_ran s'' = Suc (length as + length bs)
    \<and> session E Q s''"
proof -
  have c: "coherent E Q s" by (rule session_steps_coherent [OF assms(1-5)])
  note lib = coherentD(1) [OF c] and ia = install_calm_acts [OF assms(8)]
  have cur: "xy_current_region_entry s = Some r" using assms(7) by (simp add: loadable_def opens_def)
  from coherent_load [OF assms(1-3) c assms(6,7) ia] obtain m t u s' where l: "xy_load E Q fname s = Some (XY_OK, s')"
    "coherent E Q s'" "mods s m = None" "linked_in E Q s m r t" "coherent E Q t"
    "joined Q s ((key_get Q s)(inst_key E fname (xy_current_region_id s) \<mapsto> m)) (xy_mod_count s + 1) m r h
        (inst_key E fname (xy_current_region_id s)) t"
    "gives_ctx E h \<longrightarrow> (\<exists>x. mods t m = Some x \<and> me_ctx x \<noteq> None)"
    "e_void E (e_dlsym E h ''xy_install'') (t\<lparr>xy_loading_mod := Some m\<rparr>) = Some u"
    "s' = u\<lparr>xy_loading_mod := xy_loading_mod t, xy_err_val := XY_OK\<rparr>" by blast
  from l(7) assms(9) obtain x where x: "mods t m = Some x" "me_ctx x \<noteq> None" by blast
  have h: "me_handle x = Some h" using l(6) x(1) by (auto simp: joined_def)
  from assms(8) l(8) have cu: "calm (t\<lparr>xy_loading_mod := Some m\<rparr>) u" unfolding install_calm_def by (metis option.inject)
  have k: "keeps t s'"
  proof -
    have "keeps u s'" by (simp add: l(9) keeps_def same_shapeI)
    with cu keeps_trans loading_var_keeps show ?thesis unfolding calm_def by blast
  qed
  have rm: "regions s' = regions t" "mods s' = mods t" using cu by (simp_all add: l(9) calm_def)
  note fr = linked_in_frame [OF l(4)]
  have live: "regions s r \<noteq> None" "regions t r \<noteq> None" using same_skel_views(4) [OF fr(1), of r] assms(12) by simp_all
  have ch: "call_chain (Some r) s = Some []" using assms(12,13) by (simp add: call_chain_def)
  have cht: "call_chain (Some r) t = Some []" using call_chain_same [OF fr(1) fr(3), of r] ch by simp
  obtain as bs where sub: "subtree_list s r = as @ bs" "subtree_list t r = as @ m # bs"
    by (rule joined_subtree [OF lib l(6,4) live(1)])
  have mv: "map_option mview (mods t a) = map_option mview (mods s a)" if "a \<noteq> m" for a
    using map_option_factor [OF fr(4) [OF that], of mview] mdata_views(1) by blast
  have st: "same_shape t s'" using k by (simp add: keeps_def)
  have cur': "xy_current_region_entry s' = Some r" using k l(6) cur by (simp add: keeps_def joined_def)
  have rd: "ready E Q reg ad s'"
    by (rule ready_after [OF assms(10) _ _ _ cu]) (use l(6) in \<open>simp_all add: joined_def stays_def same_hooks_def l(9)\<close>)
  note hear = new_listener_called [OF assms(2,3) c l(5,2,3) ch cht live sub mv x h assms(11) st rm rd cur' assms(14) refl refl]
  have "session E Q s'" by (rule session.loads [OF assms(5-7) ia l(1)])
  then have "session E Q s''" if "xy_call E Q retp (Some reg) arg s' = Some (XY_OK, retp', s'')" for retp' s''
    using session.acting acts.calls [OF acts.nothing rd assms(14) that] by blast
  with hear [of arg] l(1,3) show ?thesis by blast
qed

theorem load_then_call_witness:
  "\<exists>s s' retp s''. xy_load demo_cenv alist_qmap ''x'' s = Some (XY_OK, s')
    \<and> xy_call demo_cenv alist_qmap (Some [9]) (Some 21) 0 s' = Some (XY_OK, retp, s'') \<and> xy_last_ran s'' = 1"
proof -
  obtain s r re ad where a: "session demo_cenv alist_qmap s" "ready demo_cenv alist_qmap 21 ad s" "ad_name ad = ''h''"
    "ret_size ad = 1" "regions s r = Some re" "subtree_flags re = 0" "fresh_gens s" "loadable demo_cenv alist_qmap ''x'' 7 r s"
    "listeners_for demo_cenv alist_qmap s r ''h'' = []" by (rule demo_session)
  have i: "install_calm demo_cenv 7" by (simp add: install_calm_def demo_cenv_def)
  have h: "e_dlsym demo_cenv 7 (ad_name ad) \<noteq> 0" using a(3) by (simp add: demo_cenv_def)
  have f: "subtree_flags re AND XY_SUBTREE_HAS_DENY = 0" using a(6) by simp
  have b: "buffer_ok (ret_size ad) (Some [9])" using a(4) by (simp add: buffer_ok_def)
  from load_then_call [OF alist_qmap_laws demo_cenv_ok(1-3) a(1,7,8) i demo_cenv_ok(5) a(2) h a(5) f b, of 0] a(3,9)
  show ?thesis by fastforce
qed

section \<open>Claiming and then calling\<close>

text \<open>(C3) A module that claims a region of its own hears the next call of the region it was loaded
  from, when that region carries no deny flag: after the load its listener stands right behind
  those of the caller's own modules and before those of all regions that were below, and the
  call runs them all.\<close>

theorem claim_then_call:
  assumes "qmap_laws Q" and "alloc_ok E" "dl_ok E" "cleanup_ok E" and "session E Q s" and "fresh_twice s"
    and "opens E Q fname h r s" and "regions s r = Some re" and "claimable E Q fname h re g s" and "install_calm E h" and "gives_ctx E h"
    and "ready E Q reg ad s" and "e_dlsym E h (ad_name ad) \<noteq> 0"
    and "subtree_flags re AND XY_SUBTREE_HAS_DENY = 0" and "buffer_ok (ret_size ad) retp"
    and "own = listener_slots E Q s [] (ad_name ad) (region_mods s r)"
  shows "\<exists>s' m bs. xy_load E Q fname s = Some (XY_OK, s') \<and> mods s m = None \<and> session E Q s'
    \<and> listeners_for E Q s r (ad_name ad) = own @ bs
    \<and> listeners_for E Q s' r (ad_name ad) = own @ \<lparr>slot_me = Some m, slot_cb = e_dlsym E h (ad_name ad)\<rparr> # bs
    \<and> (\<exists>retp' s''. xy_call E Q retp (Some reg) arg s' = Some (XY_OK, retp', s'') \<and> xy_last_ran s'' = Suc (length own + length bs))"
proof -
  have c: "coherent E Q s" by (rule session_steps_coherent [OF assms(1-5)])
  note lib = coherentD(1) [OF c] and ia = install_calm_acts [OF assms(10)]
  from coherent_load_claiming [OF assms(1-3) c assms(6-9) ia] obtain m t1 t u s' where l: "xy_load E Q fname s = Some (XY_OK, s')"
    "coherent E Q s'" "claimed_join E Q h r m s t1 t" "e_void E (e_dlsym E h ''xy_install'') (t\<lparr>xy_loading_mod := Some m\<rparr>) = Some u"
    "s' = (set_current_region (re_id re) (Some r) (u\<lparr>xy_loading_mod := xy_loading_mod t\<rparr>))\<lparr>xy_err_val := XY_OK\<rparr>" by blast
  from l(3) assms(11) obtain x where j: "coherent E Q t" "mods s m = None" and x: "mods t m = Some x" "me_ctx x \<noteq> None"
    unfolding claimed_join_def by blast
  note fr = claimed_join_frame [OF assms(8) l(3)]
  have h: "me_handle x = Some h" using fr(2) x(1) by auto
  from assms(10) l(4) have cu: "calm (t\<lparr>xy_loading_mod := Some m\<rparr>) u" unfolding install_calm_def by (metis option.inject)
  from cu have "same_shape (t\<lparr>xy_loading_mod := Some m\<rparr>) u" by (simp add: calm_def keeps_def)
  moreover have "same_shape t (t\<lparr>xy_loading_mod := Some m\<rparr>)" "same_shape u s'"
    by (rule same_shapeI, simp_all add: l(5) set_current_region_def)+
  ultimately have st: "same_shape t s'" using same_shape_trans by blast
  have rm: "regions s' = regions t" "mods s' = mods t" using cu by (simp_all add: l(5) calm_def set_current_region_def)
  have live: "regions s r \<noteq> None" "regions t r \<noteq> None" using assms(8) fr(1) by auto
  have ch: "call_chain (Some r) s = Some []" "call_chain (Some r) t = Some []"
    using assms(8,14) fr(1) by (auto simp: call_chain_def)
  obtain bs where sub: "subtree_list s r = region_mods s r @ bs" "subtree_list t r = region_mods s r @ m # bs"
    by (rule claimed_subtree [OF lib live(1) l(3)])
  have rd: "ready E Q reg ad s'"
    by (rule ready_after [OF assms(12) fr(5,6,4) cu]) (simp_all add: l(5) set_current_region_def same_hooks_def)
  have cur: "xy_current_region_entry s' = Some r" by (simp add: l(5) set_current_region_def)
  note hear = new_listener_called [OF assms(2,3) c j(1) l(2) j(2) ch live sub fr(3) x h assms(13) st rm rd cur assms(15,16) refl]
  from hear [of arg] l(1) j(2) session.loads_claiming [OF assms(5-9) ia l(1)] show ?thesis by blast
qed

text \<open>In the example the root region gets a handler first; the one free id of one bit is the upper half.\<close>

lemma demo_gated:
  obtains s r re ad where "session demo_cenv alist_qmap s" "ready demo_cenv alist_qmap 21 ad s" "ad_name ad = ''h''"
    "ret_size ad = 1" "regions s r = Some re" "subtree_flags re = 0" "fresh_twice s" "opens demo_cenv alist_qmap ''x'' 7 r s"
    "claimable demo_cenv alist_qmap ''x'' 7 re 1 s"
proof -
  let ?E = "demo_cenv" and ?Q = "alist_qmap"
  let ?re = "region_zero\<lparr>re_id := XY_REGION_ROOT, dispatch_gen := 1\<rparr> :: demo_q xy_region_entry"
  obtain s0 r re0 ad where a: "session ?E ?Q s0" "ready ?E ?Q 21 ad s0" "ad_name ad = ''h''" "ret_size ad = 1"
    "xy_current_region_entry s0 = Some r" "loadable ?E ?Q ''x'' 7 r s0" "regions s0 = [r \<mapsto> ?re]" "\<forall>k. key_get ?Q s0 k = None"
    by (rule demo_session)
  have c: "coherent ?E ?Q s0" by (rule session_steps_coherent [OF alist_qmap_laws demo_cenv_ok(1-3) a(1)])
  have r0: "regions s0 r = Some ?re" using a(7) by simp
  let ?g = "with_handler 50 0 ?re"
  from coherent_require_claim [OF c a(5) r0, of 50 0] obtain s where s: "xy_require_claim ?E ?Q 50 0 s0 = Some (XY_OK, s)"
    "coherent ?E ?Q s" "s = s0\<lparr>regions := (regions s0)(r \<mapsto> ?g), xy_err_val := XY_OK\<rparr>" by blast
  have "session ?E ?Q s" by (rule session.acting [OF a(1) acts.requires_claim [OF acts.nothing s(1)]])
  moreover have "ready ?E ?Q 21 ad s" using a(2) by (simp add: s(3) ready_def hook_num_def)
  moreover have rs: "regions s = [r \<mapsto> ?g]" by (simp add: s(3) a(7))
  moreover have g: "re_id ?g = 0" "re_plen ?g = 0" "subtree_flags ?g = 0" "dispatch_gen ?g = 1" "claim_handler ?g = 50"
    by (simp_all add: with_handler_def region_zero_def XY_REGION_ROOT_def)
  moreover have kn: "key_get ?Q s k = None" for k
    using a(8) key_get_cong [of s s0 ?Q] by (simp add: s(3))
  moreover have "opens ?E ?Q ''x'' 7 r s" using a(5) kn by (simp add: opens_def demo_cenv_def) (simp add: s(3))
  moreover have taken: "(\<lambda>c. region_lookup ?Q c s \<noteq> None) = (\<lambda>c. c = 0)"
  proof
    fix c
    have "region_lookup ?Q c s \<noteq> None \<longleftrightarrow> (\<exists>p. region_lookup ?Q c s = Some p)" by auto
    also have "\<dots> \<longleftrightarrow> c = 0" using region_lookup_iff [OF wf_libD(3) [OF coherentD(1) [OF s(2)]]] g(1) by (auto simp: rs)
    finally show "(region_lookup ?Q c s \<noteq> None) = (c = 0)" .
  qed
  then have "region_alloc_slot ?Q ?g 1 s = 0x8000000000000000"
    unfolding region_alloc_slot_def taken by (simp add: g slot_loop.simps push_bit_eq_mult)
  then have "claimable ?E ?Q ''x'' 7 ?g 1 s"
    using kn g by (simp add: claimable_def plain_path_def c_string_def XY_OK_def XY_REGION_INVALID_def aligned_def demo_cenv_def demo_env_def)
  ultimately show ?thesis using a(3,4) by (intro that [of s ad r ?g]) (simp_all add: fresh_twice_def)
qed

theorem claim_then_call_witness:
  "\<exists>s s' retp s''. session demo_cenv alist_qmap s \<and> xy_load demo_cenv alist_qmap ''x'' s = Some (XY_OK, s')
    \<and> xy_call demo_cenv alist_qmap (Some [9]) (Some 21) 0 s' = Some (XY_OK, retp, s'') \<and> 0 < xy_last_ran s''"
proof -
  obtain s r re ad where a: "session demo_cenv alist_qmap s" "ready demo_cenv alist_qmap 21 ad s" "ad_name ad = ''h''"
    "ret_size ad = 1" "regions s r = Some re" "subtree_flags re = 0" "fresh_twice s" "opens demo_cenv alist_qmap ''x'' 7 r s"
    "claimable demo_cenv alist_qmap ''x'' 7 re 1 s" by (rule demo_gated)
  have i: "install_calm demo_cenv 7" by (simp add: install_calm_def demo_cenv_def)
  have h: "e_dlsym demo_cenv 7 (ad_name ad) \<noteq> 0" using a(3) by (simp add: demo_cenv_def)
  have f: "subtree_flags re AND XY_SUBTREE_HAS_DENY = 0" using a(6) by simp
  have b: "buffer_ok (ret_size ad) (Some [9])" using a(4) by (simp add: buffer_ok_def)
  note claim_then_call [OF alist_qmap_laws demo_cenv_ok(1-3) a(1,7,8,5,9) i demo_cenv_ok(5) a(2) h f b refl, of 0]
  with a(1) show ?thesis by fastforce
qed

end
