(* ===== verification/Spec2Isabelle.thy ===== *)
theory Spec2Isabelle
  imports Xy_Qmap_Tree Xy_Params Xy_Copy Xy_Stubs Xy_Watch_Steps Xy_Reloads Xy_Claiming Xy_Scopes Xy_Shutdown Xy_Runs
begin

text \<open>
  libxylem: a model of the module host and of what makes it correct.

  The program.  A host loads shared objects as modules (\<open>xy_load\<close>), and calls hooks (\<open>xy_call\<close>): a call
  runs the function of that name in every module of the caller's region and of the regions
  below it.  Regions form a tree; their ids are 64-bit prefixes.  A module may get a child
  region of its own while it is loaded (a claim, granted by a handler of the parent), may
  deny hooks and modules, and is unloaded together with the modules it has loaded.  A
  watcher thread reloads modules whose files change.

  How the theories follow the code (all paths under src/).
  \<^item> Xy_Prelude: machine integers and pointers, linked structures in a store, loops.  Xy_Qmap: the
    hash maps of libqmap, a library that is not part of the repository, as a parameter with
    its laws; Xy_Qmap_Tree: search trees meet them too.  Xy_State: the structs of include/ttypt/xy.h, src/papi.h and
    src/libxylem-internal.h as records, the objects reached through pointers as maps from
    addresses, the globals and the thread-local variables in one record \<open>xy_state\<close>, and the
    system calls and the code of the modules in a record \<open>env\<close>.  Xy_Example: a concrete
    library for the witnesses.
  \<^item> src/libxylem.c.  Regions (\<open>region_lookup\<close> to \<open>region_rebuild_subtree_mods\<close>): Xy_Region, with the
    tree invariant in Xy_Tree and the subtree lists in Xy_Subtree.  The list of modules of a
    region (\<open>module_region_detach\<close>, \<open>_insert_after\<close>, \<open>_append\<close>): Xy_Modlist, Xy_Order.  Paths and keys
    (\<open>module_path_intern\<close>, \<open>mod_key\<close>, \<open>module_lookup_from_fname\<close>): Xy_Path.  Claims
    (\<open>xy_require_claim\<close>, \<open>region_alloc_slot\<close>, \<open>_xy_claim_for_load\<close>, \<open>module_rekey_*\<close>): Xy_Claim, Xy_Claimed.
    Denials (\<open>xy_deny\<close>, \<open>module_is_denied\<close>, \<open>module_remove_denies\<close>): Xy_Deny.  Hook bits and symbol
    caches: Xy_Hooks, Xy_Warm.  The load transaction (\<open>mod_load_*\<close>): Xy_Loader, and step by step
    Xy_Entries, Xy_Loading, Xy_Loads, with a claim Xy_Claiming, and with one that is refused Xy_Refused.  \<open>xy_region_each\<close>, \<open>xy_with_region\<close>: Xy_Api, Xy_Scopes.
    The temporary copy of an object (\<open>copy_one\<close>, \<open>copy_to_tmp\<close>), over a file system of its own in which every call may fail: Xy_Copy.
  \<^item> src/libxylem-dispatch.c.  \<open>xy_areg\<close>, \<open>fn_cache_resolve\<close>, \<open>fn_cache_prewarm\<close>: Xy_Hooks, Xy_Warm.
    The dispatch vectors and \<open>xy_call\<close>, \<open>xy_last\<close>: Xy_Dispatch, Xy_Vector, Xy_Call, Xy_Calls.
    That the caches stay coherent through the operations: Xy_Coherent, Xy_Coherent_Ops, Xy_Removing
    (unloads), Xy_Denying (denials of modules), Xy_Acts (what module code does, loads), Xy_Claims (loads
    with a claim), Xy_Replacing (reloads, restarts).
  \<^item> include/ttypt/xy.h, xy-pp.h and xy-mod.h.  The code generated by XY_IMPL and XY_DECL: Xy_Adapter.
    The parameter lists of hooks and how arguments reach a listener: Xy_Params.  The module's side of the API, which calls through the
    slots of the module's \<open>xy_t\<close> as xy.h declares it, while the host fills them as papi.h does: Xy_Stubs.
  \<^item> src/libxylem-module.c.  \<open>_mod_load\<close>, \<open>xy_load\<close>: Xy_Loader, Xy_Loads.  \<open>_mod_unload\<close>, \<open>xy_unload\<close>,
    \<open>xy_reload\<close>: Xy_Unload, Xy_Taken (one module), Xy_Cascade (the recursion), Xy_Unloads, Xy_Reloads.
  \<^item> src/libxylem-runtime.c.  \<open>xy_runtime_ensure\<close>, \<open>xy_runtime_bootstrap\<close>: Xy_Boot.
    \<open>xy_runtime_teardown\<close>, \<open>xy_shutdown\<close>: Xy_Api, Xy_Shutdown.
  \<^item> src/libxylem-watch.c: Xy_Watch (the operations), Xy_Watch_Set (the table of paths), Xy_Watch_Fds (the
    descriptors that are open), Xy_Watch_Steps (clients and watcher threads interleaved at the granularity of the lock).
  \<^item> The operations together: Xy_Session (runs from the start of the program) and Xy_Runs (what holds
    in every state of a run).
\<close>

text \<open>
  The invariant.  \<open>wf_lib\<close> (Xy_Boot) says that the library is initialised and consistent: the parent
  links form a tree with the root at the top, the child lists and the module lists match
  it (\<open>wf_tree\<close>), the table of regions has exactly the ids of the regions (\<open>wf_index\<close>), the interned
  paths, the table of modules and the current region are sound.  \<open>wf_hooks\<close> (Xy_Warm) adds that hook
  ids are given out once.  Start-up establishes it, and every operation is shown to keep it.
  Xy_Frame says what the invariant depends on: \<open>same_shape\<close> and \<open>keeps\<close> cover all changes to caches,
  flags, denials and contexts at once.  Three locales state the contracts between components:
  \<open>parent_forest\<close> (Xy_Tree: any store whose parent links decrease a bounded rank has terminating
  upward loops; interpreted on the region tree), \<open>name_table\<close> (Xy_Watch_Set: adding and removing names;
  interpreted on the watch set as \<open>watch_set\<close>) and \<open>module_sequence\<close> (Xy_Modlist: detaching,
  inserting and appending implement removal from and insertion into a list; interpreted on
  the pointer operations as \<open>dispatch_order\<close>, on which load, unload and reload rest).

  The caches.  A call relies on three levels of caches: the symbol cache and hook bits of a module, the
  list of modules of a region's subtree, and a region's vector of listeners per hook, which is
  current when it bears the region's generation.  \<open>coherent\<close> (Xy_Coherent) is \<open>wf_lib\<close>, \<open>wf_hooks\<close> and the
  statement that each of them, where it counts as valid, says what the module objects, the tree
  and the denials say.  \<open>session\<close> (Xy_Session) has the runs: after the start, in any order, module code
  (\<open>acts\<close>) that registers adapters, denies hooks and modules, sets claim handlers, calls (itself or through a function
  declared with XY_DECL) and writes its own data; moves to other regions; first and repeated loads, without a claim or with one that is granted or refused,
  whose \<open>xy_install\<close> may do all that module code may; loads that are taken back because there is no
  \<open>xy_install\<close>; unloads with their cascade; reloads; and shutdowns
  with a new start.  Every state of a session is coherent, so that a call is described by the
  current state alone (\<open>call_in_session\<close>), and a load is followed by calls that reach the new
  module (\<open>load_then_call\<close>, \<open>claim_then_call\<close>).  What the steps assume: no generation is about to wrap around
  (\<open>fresh_gens\<close>, \<open>fresh_twice\<close>, \<open>room\<close>, \<open>gens_to_spare\<close>: after a wrap an old vector would count as current); at an unload
  or reload no object has two instances (\<open>apart\<close>: the code clears the symbol caches of all instances
  of a handle), and at a denial of a module no region below carries the deny flag (\<open>below_unflagged\<close>;
  \<open>denied_module_stays_in_vectors\<close> shows what happens otherwise).  Loads
  whose claim is refused leave everything as it was (\<open>refused_load_leaves_no_trace\<close>).

  What the lemmas show.  For a call: the vector holds exactly the listeners of the subtree, each
  runs once, in depth-first order and in its own region, or nothing runs at all when an
  ancestor denies the hook.  For a load: it adds one instance at the end of its region, or,
  when it fails half way, is taken back.  For an unload: the cascade ends, takes one reference from
  exactly the modules it reaches (\<open>released\<close>), never touches a freed entry, and leaves the
  library well formed.  For a reload: the module stands in its old place.  For claims: one region
  is added with the first free id of the parent's prefix; what happens at 64 bits is shown
  separately.  For the tables: keys, interning, hook ids, denials.  For the watcher: the watch set
  under every interleaving, the open descriptors when start and stop do not overlap, and what a
  start between the halves of a stop does.

  Partiality and bounds.  \<open>None\<close> is the C program without a defined result: a NULL or dangling
  pointer is followed, an index is out of range, or code of a module does not return.  The
  properties state \<open>Some\<close>, so that none of this happens where they apply.  A loop over a chain of
  pointers runs for at most \<open>next_addr\<close> steps, the number of allocated addresses; chains are
  acyclic under the invariant, so the bound is not reached.  The descent through the regions has
  65 levels, since the prefix length grows at every level and is at most 64.  The cascade
  of an unload gets \<open>next_addr + 1\<close> as fuel; a module is allocated after the one that
  loaded it, so the addresses along a chain of loads increase and the fuel suffices
  (\<open>unload_works_all\<close>).  The slot search is a total function of the 64-bit counter.

  What is assumed of the outside, as named hypotheses: \<open>qmap_laws\<close> (get, put, delete and iteration of a
  map; order of iteration not specified), \<open>alloc_ok\<close> (allocations succeed), \<open>dl_ok\<close> (\<open>dlsym\<close> gives no
  reserved pointer value), \<open>calm_call\<close>, \<open>install_ok\<close>, \<open>cleanup_ok\<close> (the module code that runs inside an
  operation does not itself load, unload or claim), \<open>fd_laws\<close> (which calls open and close descriptors).  Allocation failures, and module code
  that does anything else, are part of the definitions; these properties do not speak of them.

  Not modelled.  The file system as part of the library's state (a load sees only the outcome of the
  copy, \<open>e_copy_tmp\<close>), the debug log, the code under \<open>_WIN32\<close>, the release of memory that no pointer of the state reaches
  (strings, \<open>dlclose\<close> under RTLD_NODELETE), several threads calling the library at once (the
  state has the thread-local variables of one thread; the watch set, which has a lock, is
  modelled with its threads), the types of C (a macro argument is a piece of text, and that it names
  an object type is taken for granted), the Rust bindings and the tests.  Pledges and interceptors, which README.md describes, are not in the code.
\<close>

end
